(* ===== verification/Prelude.thy ===== *)
theory Prelude
  imports Main
begin

text \<open>
  Shared vocabulary of the development: what a call of a Go function can do
  (\<open>outcome\<close>), programs over an explicit state (\<open>prog\<close>), their weakest
  preconditions, and the collections of facts the component theories extend.
  A call returns, panics, blocks for ever on a mutex or channel, or, for a loop
  that is run with a bound on its iterations, exhausts the bound.
\<close>

named_theorems wp_simps \<open>equations that compute the weakest precondition of a program\<close>

section \<open>Outcomes and programs\<close>

datatype 'a outcome =
    Returns 'a
  | Panics string
  | Blocks
  | OutOfFuel

type_synonym ('s, 'a) prog = "'s \<Rightarrow> ('a \<times> 's) outcome"

definition ret :: "'a \<Rightarrow> ('s, 'a) prog" where
  "ret a = (\<lambda>s. Returns (a, s))"

definition bnd :: "('s, 'a) prog \<Rightarrow> ('a \<Rightarrow> ('s, 'b) prog) \<Rightarrow> ('s, 'b) prog" where
  "bnd m f = (\<lambda>s. case m s of
       Returns r \<Rightarrow> f (fst r) (snd r)
     | Panics e \<Rightarrow> Panics e
     | Blocks \<Rightarrow> Blocks
     | OutOfFuel \<Rightarrow> OutOfFuel)"

definition thn :: "('s, 'a) prog \<Rightarrow> ('s, 'b) prog \<Rightarrow> ('s, 'b) prog" where
  "thn m n = bnd m (\<lambda>_. n)"

definition gets :: "('s \<Rightarrow> 'a) \<Rightarrow> ('s, 'a) prog" where
  "gets f = (\<lambda>s. Returns (f s, s))"

definition modify :: "('s \<Rightarrow> 's) \<Rightarrow> ('s, unit) prog" where
  "modify f = (\<lambda>s. Returns ((), f s))"

definition panic :: "string \<Rightarrow> ('s, 'a) prog" where
  "panic msg = (\<lambda>s. Panics msg)"

definition block :: "('s, 'a) prog" where
  "block = (\<lambda>s. Blocks)"

definition out_of_fuel :: "('s, 'a) prog" where
  "out_of_fuel = (\<lambda>s. OutOfFuel)"

lemma bnd_ret: "bnd (ret a) f = f a"
  by (simp add: bnd_def ret_def)

lemma bnd_bnd: "bnd (bnd m f) g = bnd m (\<lambda>a. bnd (f a) g)"
  by (auto simp: fun_eq_iff bnd_def split: outcome.splits)

text \<open>Running a program of a part of the state.\<close>

definition zoom :: "('s \<Rightarrow> 'q) \<Rightarrow> ('q \<Rightarrow> 's \<Rightarrow> 's) \<Rightarrow> ('q, 'a) prog \<Rightarrow> ('s, 'a) prog" where
  "zoom get put m = (\<lambda>s. case m (get s) of
       Returns r \<Rightarrow> Returns (fst r, put (snd r) s)
     | Panics e \<Rightarrow> Panics e
     | Blocks \<Rightarrow> Blocks
     | OutOfFuel \<Rightarrow> OutOfFuel)"

text \<open>A Go \<open>for ... range\<close> loop over a slice whose body is a call.\<close>

fun for_each :: "('x \<Rightarrow> ('s, unit) prog) \<Rightarrow> 'x list \<Rightarrow> ('s, unit) prog" where
  "for_each f [] = ret ()"
| "for_each f (x # xs) = thn (f x) (for_each f xs)"

section \<open>Weakest preconditions\<close>

text \<open>
  \<open>wpg b m Q s\<close>: started in \<open>s\<close>, the program \<open>m\<close> neither panics nor exhausts its
  fuel; if it returns, its result and final state satisfy \<open>Q\<close>; and if it blocks, \<open>b\<close>
  holds.  So \<open>wp\<close> (blocking is excluded) says that a call returns, and \<open>safe\<close>
  (blocking is allowed) says what it does if it is not stopped by a full channel or a
  mutex.
\<close>

definition wpg :: "bool \<Rightarrow> ('s, 'a) prog \<Rightarrow> ('a \<Rightarrow> 's \<Rightarrow> bool) \<Rightarrow> 's \<Rightarrow> bool" where
  "wpg b m Q s = (case m s of
       Returns r \<Rightarrow> Q (fst r) (snd r)
     | Panics e \<Rightarrow> False
     | Blocks \<Rightarrow> b
     | OutOfFuel \<Rightarrow> False)"

abbreviation wp :: "('s, 'a) prog \<Rightarrow> ('a \<Rightarrow> 's \<Rightarrow> bool) \<Rightarrow> 's \<Rightarrow> bool" where
  "wp \<equiv> wpg False"

abbreviation safe :: "('s, 'a) prog \<Rightarrow> ('a \<Rightarrow> 's \<Rightarrow> bool) \<Rightarrow> 's \<Rightarrow> bool" where
  "safe \<equiv> wpg True"

lemma wp_iff: "wp m Q s \<longleftrightarrow> (\<exists>a s'. m s = Returns (a, s') \<and> Q a s')"
  by (auto simp: wpg_def split: outcome.splits)

lemma safe_iff: "safe m Q s \<longleftrightarrow> m s = Blocks \<or> (\<exists>a s'. m s = Returns (a, s') \<and> Q a s')"
  by (auto simp: wpg_def split: outcome.splits)

text \<open>
  The rules are equations between predicates on states, so that they also apply to a
  continuation under a binder.
\<close>

lemma wp_ret [wp_simps]: "wpg b (ret a) Q = Q a"
  by (simp add: fun_eq_iff wpg_def ret_def)

lemma wp_bnd [wp_simps]: "wpg b (bnd m f) Q = wpg b m (\<lambda>a. wpg b (f a) Q)"
  by (auto simp: fun_eq_iff wpg_def bnd_def split: outcome.splits)

lemma wp_thn [wp_simps]: "wpg b (thn m n) Q = wpg b m (\<lambda>_. wpg b n Q)"
  by (simp add: thn_def wp_bnd)

lemma wp_gets [wp_simps]: "wpg b (gets f) Q = (\<lambda>s. Q (f s) s)"
  by (simp add: fun_eq_iff wpg_def gets_def)

lemma wp_modify [wp_simps]: "wpg b (modify f) Q = (\<lambda>s. Q () (f s))"
  by (simp add: fun_eq_iff wpg_def modify_def)

lemma wp_panic [wp_simps]: "wpg b (panic e) Q = (\<lambda>_. False)"
  by (simp add: fun_eq_iff wpg_def panic_def)

lemma wp_block [wp_simps]: "wpg b block Q = (\<lambda>_. b)"
  by (simp add: fun_eq_iff wpg_def block_def)

lemma wp_out_of_fuel [wp_simps]: "wpg b out_of_fuel Q = (\<lambda>_. False)"
  by (simp add: fun_eq_iff wpg_def out_of_fuel_def)

lemma wp_zoom [wp_simps]:
  "wpg b (zoom get put m) Q = (\<lambda>s. wpg b m (\<lambda>a q. Q a (put q s)) (get s))"
  by (auto simp: fun_eq_iff wpg_def zoom_def split: outcome.splits)

lemma wp_if [wp_simps]: "wpg b (if c then m else n) Q = (\<lambda>s. if c then wpg b m Q s else wpg b n Q s)"
  by (simp add: fun_eq_iff)

lemma wp_case_option [wp_simps]:
  "wpg b (case x of None \<Rightarrow> m | Some a \<Rightarrow> f a) Q
   = (\<lambda>s. case x of None \<Rightarrow> wpg b m Q s | Some a \<Rightarrow> wpg b (f a) Q s)"
  by (simp add: fun_eq_iff split: option.splits)

lemma wp_case_sum [wp_simps]:
  "wpg b (case x of Inl e \<Rightarrow> f e | Inr a \<Rightarrow> g a) Q
   = (\<lambda>s. case x of Inl e \<Rightarrow> wpg b (f e) Q s | Inr a \<Rightarrow> wpg b (g a) Q s)"
  by (simp add: fun_eq_iff split: sum.splits)

lemma wp_case_prod [wp_simps]:
  "wpg b (case x of (a, c) \<Rightarrow> f a c) Q = (\<lambda>s. case x of (a, c) \<Rightarrow> wpg b (f a c) Q s)"
  by (simp add: fun_eq_iff split: prod.splits)

lemma wp_Let [wp_simps]: "wpg b (Let x f) Q = (\<lambda>s. let a = x in wpg b (f a) Q s)"
  by simp

lemma wp_mono: "wpg b m Q s \<Longrightarrow> (\<And>a t. Q a t \<Longrightarrow> R a t) \<Longrightarrow> wpg b m R s"
  by (auto simp: wpg_def split: outcome.splits)

lemma wp_conj: "wpg b m Q s \<Longrightarrow> wpg b m R s \<Longrightarrow> wpg b m (\<lambda>a t. Q a t \<and> R a t) s"
  by (auto simp: wpg_def split: outcome.splits)

lemma wp_lift: "wp m Q s \<Longrightarrow> wpg b m Q s"
  by (auto simp: wpg_def split: outcome.splits)

lemma wp_lift_mono: "wp m Q s \<Longrightarrow> (\<And>a t. Q a t \<Longrightarrow> R a t) \<Longrightarrow> wpg b m R s"
  by (auto simp: wpg_def split: outcome.splits)

lemma wp_returns: "wp m Q s \<Longrightarrow> \<exists>a s'. m s = Returns (a, s') \<and> Q a s'"
  by (simp add: wp_iff)

lemma wp_resultD: "wpg b m Q s \<Longrightarrow> m s = Returns (a, s') \<Longrightarrow> Q a s'"
  by (simp add: wpg_def)

text \<open>A loop keeps an invariant when its body does.\<close>

lemma wp_for_each:
  assumes "\<And>x s. x \<in> set xs \<Longrightarrow> I s \<Longrightarrow> wpg b (f x) (\<lambda>_. I) s"
    and "I s"
  shows "wpg b (for_each f xs) (\<lambda>_. I) s"
  using assms
proof (induction xs arbitrary: s)
  case Nil
  then show ?case by (simp add: wp_ret)
next
  case (Cons x xs)
  have "wpg b (f x) (\<lambda>_. I) s"
    by (simp add: Cons.prems)
  then have "wpg b (f x) (\<lambda>_. wpg b (for_each f xs) (\<lambda>_. I)) s"
    by (rule wp_mono) (simp add: Cons.IH Cons.prems(1))
  then show ?case by (simp add: wp_thn)
qed

text \<open>A loop whose iterations add up: after the elements \<open>ys\<close> the state satisfies \<open>I ys\<close>.\<close>

lemma wp_for_each_acc:
  assumes "\<And>x ys s. x \<in> set xs \<Longrightarrow> I ys s \<Longrightarrow> wpg b (f x) (\<lambda>_. I (ys @ [x])) s"
    and "I zs s"
  shows "wpg b (for_each f xs) (\<lambda>_. I (zs @ xs)) s"
  using assms
proof (induction xs arbitrary: s zs)
  case Nil
  then show ?case by (simp add: wp_ret)
next
  case (Cons x xs)
  have "wpg b (f x) (\<lambda>_. I (zs @ [x])) s"
    by (simp add: Cons.prems)
  then have "wpg b (f x) (\<lambda>_. wpg b (for_each f xs) (\<lambda>_. I (zs @ x # xs))) s"
  proof (rule wp_mono)
    fix a t
    assume "I (zs @ [x]) t"
    then have "wpg b (for_each f xs) (\<lambda>_. I ((zs @ [x]) @ xs)) t"
      by (intro Cons.IH) (simp_all add: Cons.prems(1))
    then show "wpg b (for_each f xs) (\<lambda>_. I (zs @ x # xs)) t" by simp
  qed
  then show ?case by (simp add: wp_thn)
qed

section \<open>Lists and maps\<close>

lemma distinct_remove1_set [simp]: "distinct xs \<Longrightarrow> set (remove1 x xs) = set xs - {x}"
  by (rule set_remove1_eq)

lemma concat_update:
  "i < length xss \<Longrightarrow>
   concat (xss[i := ys]) = concat (take i xss) @ ys @ concat (drop (Suc i) xss)"
  by (simp add: upd_conv_take_nth_drop)

lemma concat_split:
  "i < length xss \<Longrightarrow>
   concat xss = concat (take i xss) @ xss ! i @ concat (drop (Suc i) xss)"
  by (metis append.assoc concat.simps(2) concat_append id_take_nth_drop)

lemma card_dom_upd_new: "finite (dom m) \<Longrightarrow> m k = None \<Longrightarrow> card (dom (m(k \<mapsto> v))) = Suc (card (dom m))"
  by (simp add: domIff)

lemma dom_upd_same: "m k = Some v \<Longrightarrow> dom (m(k \<mapsto> w)) = dom m"
  by auto

end
