(* ===== verification/Types.thy ===== *)
theory Types
  imports Prelude "HOL-Library.Word" "HOL-Library.Char_ord" "HOL-Library.List_Lexorder"
begin

text \<open>
  The data the packages share: \<open>boruta.go\<close> and the error values of \<open>errors.go\<close>,
  \<open>requests/errors.go\<close>, \<open>workers/error.go\<close> and \<open>matcher/error.go\<close>.

  \<^item> The two state types are Go strings with named constants.  Every state the
    server stores is one of the constants, so inside the model they are datatypes;
    \<open>ReqState_text\<close> and \<open>WorkerState_text\<close> give the strings, which is what a
    client sends and what the sorters compare.
  \<^item> A \<open>time.Time\<close> is the number of nanoseconds since the zero time, so the zero
    value is 0, \<open>Before\<close> is \<open><\<close> and \<open>Equal\<close> is \<open>=\<close>.
  \<^item> A \<open>ReqID\<close> is a \<open>nat\<close>: the server numbers requests by the size of a map, which
    never reaches \<open>2 ^ 64\<close>; strings parsed into an ID are bounded where they are
    parsed.  A \<open>Priority\<close> keeps its eight bits.
\<close>

section \<open>States\<close>

datatype ReqState =
    WAIT
  | INPROGRESS
  | CANCEL
  | TIMEOUT
  | INVALID
  | DONE
  | FAILED

fun ReqState_text :: "ReqState \<Rightarrow> string" where
  "ReqState_text WAIT = ''WAITING''"
| "ReqState_text INPROGRESS = ''IN PROGRESS''"
| "ReqState_text CANCEL = ''CANCELLED''"
| "ReqState_text TIMEOUT = ''TIMEOUT''"
| "ReqState_text INVALID = ''INVALID''"
| "ReqState_text DONE = ''DONE''"
| "ReqState_text FAILED = ''FAILED''"

datatype WorkerState =
    MAINTENANCE
  | IDLE
  | RUN
  | FAIL
  | PREPARE
  | BUSY

fun WorkerState_text :: "WorkerState \<Rightarrow> string" where
  "WorkerState_text MAINTENANCE = ''MAINTENANCE''"
| "WorkerState_text IDLE = ''IDLE''"
| "WorkerState_text RUN = ''RUNNING''"
| "WorkerState_text FAIL = ''FAILED''"
| "WorkerState_text PREPARE = ''PREPARE''"
| "WorkerState_text BUSY = ''BUSY''"

lemma ReqState_text_inj: "ReqState_text a = ReqState_text b \<longleftrightarrow> a = b"
  by (cases a; cases b) simp_all

lemma WorkerState_text_inj: "WorkerState_text a = WorkerState_text b \<longleftrightarrow> a = b"
  by (cases a; cases b) simp_all

section \<open>Requests, jobs and workers\<close>

type_synonym time = int
type_synonym zone = int
type_synonym ReqID = nat
type_synonym Priority = "8 word"
type_synonym WorkerUUID = string
type_synonym Group = string
type_synonym Groups = "Group list"
type_synonym Capabilities = "string \<rightharpoonup> string"
type_synonym PrivateKey = nat

definition IsZero :: "time \<Rightarrow> bool" where
  "IsZero t = (t = 0)"

definition HiPrio :: Priority where
  "HiPrio = 1"

definition LoPrio :: Priority where
  "LoPrio = 16"

text \<open>Indexing a Go map of strings with a missing key gives the empty string.\<close>

definition GetWorkerUUID :: "Capabilities \<Rightarrow> WorkerUUID" where
  "GetWorkerUUID caps = (case caps ''UUID'' of None \<Rightarrow> '''' | Some u \<Rightarrow> u)"

record UserInfo =
  uGroups :: Groups

text \<open>
  A \<open>time.Time\<close> is a point in time, in nanoseconds since the zero time, and a location.  All
  that shows of a location is its offset from UTC at that point, in minutes to the east; it
  is kept beside the point where a time is stored and printed again.
\<close>

definition minute_ns :: int where
  "minute_ns = 60000000000"

record JobInfo =
  jWorkerUUID :: WorkerUUID
  Timeout_at :: time
  TimeoutZone :: zone

record ReqInfo =
  ID :: ReqID
  Prio :: Priority
  Owner :: UserInfo
  Deadline :: time
  DeadlineZone :: zone
  ValidAfter :: time
  ValidAfterZone :: zone
  RState :: ReqState
  RJob :: "JobInfo option"
  RCaps :: Capabilities

record WorkerInfo =
  WUUID :: WorkerUUID
  WState :: WorkerState
  WGroups :: Groups
  WCaps :: Capabilities

text \<open>A \<open>net.TCPAddr\<close>: the IP is \<open>nil\<close> when an address names only a port.\<close>

record TCPAddr =
  IP :: "string option"
  Port :: int

record AccessInfo =
  Addr :: TCPAddr
  Key :: PrivateKey
  Username :: string

definition prio_ok :: "Priority \<Rightarrow> bool" where
  "prio_ok p = (HiPrio \<le> p \<and> p \<le> LoPrio)"

lemma prio_ok_unat: "prio_ok p \<longleftrightarrow> 1 \<le> unat p \<and> unat p \<le> 16"
  by (simp add: prio_ok_def HiPrio_def LoPrio_def word_le_nat_alt)

section \<open>Errors\<close>

datatype error =
    NotFoundError string
  | ErrInternalLogicError
  | ErrWrongSortItem
  | ErrWrongSortOrder
  | ErrWrongListDirection
  | ErrPriority
  | ErrInvalidTimeRange
  | ErrDeadlineInThePast
  | ErrWorkerNotAssigned
  | ErrModificationForbidden
  | ErrMissingUUID
  | ErrInMaintenance
  | ErrNotInFailOrMaintenance
  | ErrWrongStateArgument
  | ErrForbiddenStateChange
  | ErrNoMatchingWorker
  | ErrMissingIP
  | ErrMissingPort
  | ErrWorkerBusy
  | ErrJobAlreadyExists
  | OtherError string

definition ErrWorkerNotFound :: error where
  "ErrWorkerNotFound = NotFoundError ''Worker''"

end
