(* ===== verification/Queue.thy ===== *)
theory Queue
  imports Types
begin

text \<open>
  The priority queue of requests, \<open>requests/queue.go\<close>: an array of FIFO lists, one per
  priority, and an iterator over all of them.  Slot 0 of the array exists but is never
  given a list (priorities start at 1), and an index beyond 16 is out of range; using
  either panics in Go and here.  The iterator closure is its two captured variables, the
  current priority and the current list element, kept as a position in that priority's
  list.  The queue's mutex is one of the locks of the server state.
\<close>

section \<open>State and operations\<close>

datatype iterator =
    EmptyIterator
  | Iterator Priority "nat option"

record prioQueue =
  queue :: "ReqID list option list"
  qlength :: nat
  next_it :: iterator

definition newPrioQueue :: prioQueue where
  "newPrioQueue = \<lparr>queue = None # replicate 16 (Some []), qlength = 0, next_it = EmptyIterator\<rparr>"

text \<open>Indexing \<open>pq.queue\<close> and dereferencing the list found there.\<close>

definition list_at :: "Priority \<Rightarrow> (prioQueue, ReqID list) prog" where
  "list_at p = bnd (gets queue) (\<lambda>q.
     if length q \<le> unat p then panic ''index out of range''
     else case q ! unat p of
            None \<Rightarrow> panic ''nil pointer dereference''
          | Some xs \<Rightarrow> ret xs)"

definition put_list :: "Priority \<Rightarrow> ReqID list \<Rightarrow> prioQueue \<Rightarrow> prioQueue" where
  "put_list p xs pq = pq\<lparr>queue := (queue pq)[unat p := Some xs]\<rparr>"

definition q_remove :: "ReqID \<Rightarrow> Priority \<Rightarrow> (prioQueue, unit) prog" where
  "q_remove reqID p = bnd (list_at p) (\<lambda>xs.
     if reqID \<in> set xs
     then modify (\<lambda>pq. put_list p (remove1 reqID xs) (pq\<lparr>qlength := qlength pq - 1\<rparr>))
     else panic ''request with given reqID doesn't exist in the queue'')"

definition q_push :: "ReqID \<Rightarrow> Priority \<Rightarrow> (prioQueue, unit) prog" where
  "q_push reqID p = bnd (list_at p) (\<lambda>xs.
     modify (\<lambda>pq. (put_list p (xs @ [reqID]) pq)\<lparr>qlength := qlength pq + 1\<rparr>))"

definition q_setPriority :: "ReqID \<Rightarrow> Priority \<Rightarrow> Priority \<Rightarrow> (prioQueue, unit) prog" where
  "q_setPriority reqID old new = thn (q_remove reqID old) (q_push reqID new)"

text \<open>\<open>Front\<close> and \<open>Next\<close> of \<open>container/list\<close> on positions.\<close>

definition Front :: "ReqID list \<Rightarrow> nat option" where
  "Front xs = (if xs = [] then None else Some 0)"

definition Next_elem :: "ReqID list \<Rightarrow> nat \<Rightarrow> nat option" where
  "Next_elem xs i = (if Suc i < length xs then Some (Suc i) else None)"

definition q_initIterator :: "(prioQueue, unit) prog" where
  "q_initIterator = bnd (list_at HiPrio) (\<lambda>xs.
     modify (\<lambda>pq. pq\<lparr>next_it := Iterator HiPrio (Front xs)\<rparr>))"

definition q_releaseIterator :: "(prioQueue, unit) prog" where
  "q_releaseIterator = modify (\<lambda>pq. pq\<lparr>next_it := EmptyIterator\<rparr>)"

text \<open>
  The loop \<open>for p++; p <= boruta.LoPrio && pq.queue[p].Len() == 0; p++\<close>, after the
  first increment.  The counter has eight bits; it passes \<open>LoPrio\<close> long before it wraps.
\<close>

function skip_empty :: "Priority \<Rightarrow> (prioQueue, Priority) prog" where
  "skip_empty p =
     (if LoPrio < p then ret p
      else bnd (list_at p) (\<lambda>xs. if xs = [] then skip_empty (p + 1) else ret p))"
  by pat_completeness auto

termination
proof (relation "measure (\<lambda>p. 17 - unat p)")
  fix p :: Priority and xs :: "ReqID list"
  assume "\<not> LoPrio < p"
  then have "unat p \<le> 16"
    by (simp add: LoPrio_def word_less_nat_alt)
  then have "unat (p + 1) = Suc (unat p)"
    by (simp add: unat_word_ariths)
  with \<open>unat p \<le> 16\<close> show "(p + 1, p) \<in> measure (\<lambda>p. 17 - unat p)"
    by simp
qed simp

declare skip_empty.simps [simp del]

text \<open>Reading the element the iterator is at, and moving to the one after it.\<close>

definition take_element :: "Priority \<Rightarrow> nat \<Rightarrow> (prioQueue, ReqID \<times> bool) prog" where
  "take_element p i = bnd (list_at p) (\<lambda>xs.
     if length xs \<le> i then panic ''element was removed from the list''
     else thn (modify (\<lambda>pq. pq\<lparr>next_it := Iterator p (Next_elem xs i)\<rparr>))
              (ret (xs ! i, True)))"

definition q_next :: "(prioQueue, ReqID \<times> bool) prog" where
  "q_next = bnd (gets (\<lambda>pq. (next_it pq, qlength pq))) (\<lambda>(it, n). case it of
       EmptyIterator \<Rightarrow> ret (0, False)
     | Iterator p e \<Rightarrow>
         if n = 0 then thn (modify (\<lambda>pq. pq\<lparr>next_it := Iterator HiPrio None\<rparr>)) (ret (0, False))
         else (case e of
             Some i \<Rightarrow> take_element p i
           | None \<Rightarrow> bnd (skip_empty (p + 1)) (\<lambda>p'.
               if LoPrio < p'
               then thn (modify (\<lambda>pq. pq\<lparr>next_it := Iterator p' None\<rparr>)) (ret (0, False))
               else take_element p' 0)))"

section \<open>What the queue holds\<close>

text \<open>
  \<open>view pq p\<close> is the FIFO list of priority \<open>p\<close>; \<open>from_prio pq k\<close> is everything of
  priority \<open>k\<close> or less important, in the order a caller is served.
\<close>

definition view :: "prioQueue \<Rightarrow> Priority \<Rightarrow> ReqID list" where
  "view pq p = (if unat p < length (queue pq)
                then (case queue pq ! unat p of None \<Rightarrow> [] | Some xs \<Rightarrow> xs) else [])"

definition from_prio :: "prioQueue \<Rightarrow> nat \<Rightarrow> ReqID list" where
  "from_prio pq k = concat (map (\<lambda>i. view pq (of_nat i)) [k..<17])"

definition contents :: "prioQueue \<Rightarrow> ReqID list" where
  "contents pq = from_prio pq 1"

definition q_shape :: "prioQueue \<Rightarrow> bool" where
  "q_shape pq \<longleftrightarrow> length (queue pq) = 17 \<and> queue pq ! 0 = None
     \<and> (\<forall>i. 1 \<le> i \<and> i < 17 \<longrightarrow> queue pq ! i \<noteq> None)"

definition q_inv :: "prioQueue \<Rightarrow> bool" where
  "q_inv pq \<longleftrightarrow> q_shape pq
     \<and> (\<forall>p. distinct (view pq p))
     \<and> (\<forall>p p' x. x \<in> set (view pq p) \<longrightarrow> x \<in> set (view pq p') \<longrightarrow> p = p')
     \<and> qlength pq = (\<Sum>i = 1..<17. length (view pq (of_nat i)))"

lemma of_nat_unat_prio: "unat (p :: Priority) = i \<Longrightarrow> of_nat i = p"
  by auto

lemma unat_of_nat_prio: "i < 256 \<Longrightarrow> unat (of_nat i :: Priority) = i"
  by (simp add: unat_of_nat take_bit_eq_mod)

lemma view_next_it [simp]: "view (pq\<lparr>next_it := it\<rparr>) = view pq"
  by (simp add: fun_eq_iff view_def)

lemma view_qlength [simp]: "view (pq\<lparr>qlength := n\<rparr>) = view pq"
  by (simp add: fun_eq_iff view_def)

lemma view_put_list:
  "unat p < length (queue pq) \<Longrightarrow> view (put_list p xs pq) = (view pq)(p := xs)"
  by (auto simp: fun_eq_iff view_def put_list_def nth_list_update word_unat_eq_iff)

lemma view_prio_ok:
  assumes "q_shape pq" and "x \<in> set (view pq p)"
  shows "prio_ok p"
proof -
  from assms have "unat p < 17"
    by (cases "unat p < length (queue pq)") (simp_all add: view_def q_shape_def)
  moreover have "unat p \<noteq> 0"
  proof
    assume "unat p = 0"
    then have "view pq p = []"
      using assms(1) by (simp add: view_def q_shape_def)
    with assms(2) show False by simp
  qed
  ultimately show ?thesis
    by (simp add: prio_ok_unat)
qed

lemma wp_list_at:
  "q_shape pq \<Longrightarrow> prio_ok p \<Longrightarrow> wp (list_at p) Q pq = Q (view pq p) pq"
  by (auto simp: list_at_def wp_simps q_shape_def prio_ok_unat view_def split: option.splits)

lemma q_shape_put_list: "q_shape pq \<Longrightarrow> prio_ok p \<Longrightarrow> q_shape (put_list p xs pq)"
  by (auto simp: q_shape_def put_list_def prio_ok_unat nth_list_update)

lemma q_shape_fields [simp]:
  "q_shape (pq\<lparr>next_it := it\<rparr>) = q_shape pq" "q_shape (pq\<lparr>qlength := n\<rparr>) = q_shape pq"
  by (simp_all add: q_shape_def)

text \<open>Changing one priority's list changes the number of elements by the difference.\<close>

lemma sum_view_upd:
  assumes "prio_ok p"
  shows "(\<Sum>i = 1..<17. length (((view pq)(p := xs)) (of_nat i))) + length (view pq p)
       = (\<Sum>i = 1..<17. length (view pq (of_nat i))) + length xs"
proof -
  let ?k = "unat p"
  have k: "?k \<in> {1..<17}" and pk: "of_nat ?k = p"
    using assms by (simp_all add: prio_ok_unat)
  have same: "(\<Sum>i \<in> {1..<17} - {?k}. length (((view pq)(p := xs)) (of_nat i)))
      = (\<Sum>i \<in> {1..<17} - {?k}. length (view pq (of_nat i)))"
    by (rule sum.cong) (auto simp: unat_of_nat_prio)
  have "(\<Sum>i = 1..<17. length (((view pq)(p := xs)) (of_nat i)))
      = length xs + (\<Sum>i \<in> {1..<17} - {?k}. length (view pq (of_nat i)))"
    by (subst sum.remove [OF _ k]) (simp_all only: pk same fun_upd_same finite_atLeastLessThan)
  moreover have "(\<Sum>i = 1..<17. length (view pq (of_nat i)))
      = length (view pq p) + (\<Sum>i \<in> {1..<17} - {?k}. length (view pq (of_nat i)))"
    by (subst sum.remove [OF _ k]) (simp_all add: pk)
  ultimately show ?thesis by simp
qed

lemma length_contents: "length (contents pq) = (\<Sum>i = 1..<17. length (view pq (of_nat i)))"
  by (simp only: contents_def from_prio_def length_concat map_map o_def interv_sum_list_conv_sum_set_nat
      set_upt)

lemma set_from_prio:
  "q_shape pq \<Longrightarrow> x \<in> set (from_prio pq k) \<longleftrightarrow> (\<exists>p. k \<le> unat p \<and> x \<in> set (view pq p))"
proof
  assume "q_shape pq" and "\<exists>p. k \<le> unat p \<and> x \<in> set (view pq p)"
  then obtain p where "prio_ok p" "k \<le> unat p" "x \<in> set (view pq p)"
    using view_prio_ok by blast
  then show "x \<in> set (from_prio pq k)"
    by (force simp: from_prio_def prio_ok_unat intro!: bexI [of _ "unat p"])
qed (force simp: from_prio_def unat_of_nat_prio)

lemma set_contents: "q_shape pq \<Longrightarrow> x \<in> set (contents pq) \<longleftrightarrow> (\<exists>p. x \<in> set (view pq p))"
  by (auto simp: contents_def set_from_prio) (metis prio_ok_unat view_prio_ok One_nat_def)

section \<open>The contract of a queue of priorities\<close>

text \<open>
  What the collection of requests relies on: the operations act on one FIFO list per
  priority, an element waits under at most one priority, and nothing else moves.
\<close>

locale priority_queue =
  fixes push :: "'x \<Rightarrow> 'p \<Rightarrow> ('q, unit) prog"
    and remove :: "'x \<Rightarrow> 'p \<Rightarrow> ('q, unit) prog"
    and fifo :: "'q \<Rightarrow> 'p \<Rightarrow> 'x list"
    and invar :: "'q \<Rightarrow> bool"
    and valid :: "'p \<Rightarrow> bool"
  assumes distinct_fifo: "invar q \<Longrightarrow> distinct (fifo q p)"
    and one_prio: "invar q \<Longrightarrow> x \<in> set (fifo q p) \<Longrightarrow> x \<in> set (fifo q p') \<Longrightarrow> p = p'"
    and fifo_valid: "invar q \<Longrightarrow> x \<in> set (fifo q p) \<Longrightarrow> valid p"
    and push_law: "invar q \<Longrightarrow> valid p \<Longrightarrow> (\<And>p'. x \<notin> set (fifo q p')) \<Longrightarrow>
          wp (push x p) (\<lambda>_ q'. invar q' \<and> fifo q' = (fifo q)(p := fifo q p @ [x])) q"
    and remove_law: "invar q \<Longrightarrow> x \<in> set (fifo q p) \<Longrightarrow>
          wp (remove x p) (\<lambda>_ q'. invar q' \<and> fifo q' = (fifo q)(p := remove1 x (fifo q p))) q"
begin

definition waiting :: "'q \<Rightarrow> 'x \<Rightarrow> 'p \<Rightarrow> bool" where
  "waiting q x p \<longleftrightarrow> x \<in> set (fifo q p)"

lemma waiting_push:
  assumes "invar q" and "valid p" and "\<And>p'. \<not> waiting q x p'"
  shows "wp (push x p) (\<lambda>_ q'. invar q' \<and>
           (\<forall>y p'. waiting q' y p' \<longleftrightarrow> waiting q y p' \<or> y = x \<and> p' = p)) q"
  by (rule wp_mono, rule push_law) (use assms in \<open>auto simp: waiting_def split: if_splits\<close>)

lemma waiting_remove:
  assumes "invar q" and "waiting q x p"
  shows "wp (remove x p) (\<lambda>_ q'. invar q' \<and>
           (\<forall>y p'. waiting q' y p' \<longleftrightarrow> waiting q y p' \<and> y \<noteq> x)) q"
proof -
  have "wp (remove x p)
          (\<lambda>_ q'. invar q' \<and> fifo q' = (fifo q)(p := remove1 x (fifo q p))) q"
    using assms by (simp add: remove_law waiting_def)
  then show ?thesis
  proof (rule wp_mono, elim conjE, intro conjI allI)
    fix q' y p'
    assume fifo': "fifo q' = (fifo q)(p := remove1 x (fifo q p))"
    show "waiting q' y p' \<longleftrightarrow> waiting q y p' \<and> y \<noteq> x"
    proof (cases "p' = p")
      case True
      with fifo' distinct_fifo [OF assms(1), of p] show ?thesis
        by (simp add: waiting_def)
    next
      case False
      with one_prio [OF assms(1), of x p p'] assms(2) have "x \<notin> set (fifo q p')"
        by (auto simp: waiting_def)
      with False fifo' show ?thesis by (auto simp: waiting_def)
    qed
  qed
qed

text \<open>Removing and pushing again moves one element, to the end of its new list.\<close>

lemma waiting_move:
  assumes "invar q" and "waiting q x p" and "valid p'"
  shows "wp (thn (remove x p) (push x p')) (\<lambda>_ q'. invar q' \<and>
           (\<forall>y r. waiting q' y r \<longleftrightarrow> (if y = x then r = p' else waiting q y r))) q"
proof -
  have "wp (remove x p) (\<lambda>_. wp (push x p') (\<lambda>_ q'. invar q' \<and>
           (\<forall>y r. waiting q' y r \<longleftrightarrow> (if y = x then r = p' else waiting q y r)))) q"
  proof (rule wp_mono, rule waiting_remove [OF assms(1,2)], elim conjE)
    fix q1
    assume q1: "invar q1" and w: "\<forall>y p'. waiting q1 y p' \<longleftrightarrow> waiting q y p' \<and> y \<noteq> x"
    then have "wp (push x p') (\<lambda>_ q'. invar q' \<and>
           (\<forall>y r. waiting q' y r \<longleftrightarrow> waiting q1 y r \<or> y = x \<and> r = p')) q1"
      using assms(3) by (intro waiting_push) auto
    then show "wp (push x p') (\<lambda>_ q'. invar q' \<and>
           (\<forall>y r. waiting q' y r \<longleftrightarrow> (if y = x then r = p' else waiting q y r))) q1"
      by (rule wp_mono) (use w in auto)
  qed
  then show ?thesis by (simp add: wp_thn)
qed

end

lemma q_push_law:
  assumes "q_inv pq" and "prio_ok p" and new: "\<And>p'. x \<notin> set (view pq p')"
  shows "wp (q_push x p) (\<lambda>_ pq'. q_inv pq' \<and> view pq' = (view pq)(p := view pq p @ [x])) pq"
proof -
  let ?pq = "(put_list p (view pq p @ [x]) pq)\<lparr>qlength := qlength pq + 1\<rparr>"
  have shape: "q_shape pq" and len: "unat p < length (queue pq)"
    using assms(1,2) by (auto simp: q_inv_def q_shape_def prio_ok_unat)
  have v: "view ?pq = (view pq)(p := view pq p @ [x])"
    using len by (simp add: view_put_list)
  have "q_inv ?pq"
    unfolding q_inv_def v
    using assms sum_view_upd [OF assms(2), of pq "view pq p @ [x]"] shape
    by (auto simp: q_inv_def q_shape_put_list)
  with v show ?thesis
    by (simp add: q_push_def wp_simps wp_list_at shape assms(2))
qed

lemma q_remove_law:
  assumes "q_inv pq" and x: "x \<in> set (view pq p)"
  shows "wp (q_remove x p) (\<lambda>_ pq'. q_inv pq' \<and> view pq' = (view pq)(p := remove1 x (view pq p))) pq"
proof -
  let ?pq = "put_list p (remove1 x (view pq p)) (pq\<lparr>qlength := qlength pq - 1\<rparr>)"
  have shape: "q_shape pq"
    using assms(1) by (simp add: q_inv_def)
  then have p: "prio_ok p"
    using x by (rule view_prio_ok)
  with shape have len: "unat p < length (queue pq)"
    by (simp add: q_shape_def prio_ok_unat)
  have v: "view ?pq = (view pq)(p := remove1 x (view pq p))"
    using len by (simp add: view_put_list)
  have l: "length (remove1 x (view pq p)) + 1 = length (view pq p)"
    using x by (simp add: length_remove1) (metis One_nat_def Suc_pred length_pos_if_in_set)
  have q: "qlength ?pq = qlength pq - 1"
    by (simp add: put_list_def)
  have "q_inv ?pq"
    unfolding q_inv_def v q
    using assms sum_view_upd [OF p, of pq "remove1 x (view pq p)"] shape p l
    by (auto simp: q_inv_def q_shape_put_list)
  with v show ?thesis
    by (simp add: q_remove_def wp_simps wp_list_at shape p x)
qed

interpretation pq: priority_queue q_push q_remove view q_inv prio_ok
proof
  fix q :: prioQueue and x :: ReqID and p p' :: Priority
  assume q: "q_inv q"
  then show "distinct (view q p)" and
    "x \<in> set (view q p) \<Longrightarrow> x \<in> set (view q p') \<Longrightarrow> p = p'"
    unfolding q_inv_def by blast+
  show "prio_ok p" if "x \<in> set (view q p)"
    using q that by (auto simp: q_inv_def intro: view_prio_ok)
qed (fact q_push_law q_remove_law)+

section \<open>The iterator\<close>

text \<open>The requests an iterator has still to return, in the order it returns them.\<close>

definition remaining :: "prioQueue \<Rightarrow> ReqID list" where
  "remaining pq = (case next_it pq of
       EmptyIterator \<Rightarrow> []
     | Iterator p e \<Rightarrow> (case e of None \<Rightarrow> [] | Some i \<Rightarrow> drop i (view pq p))
                        @ from_prio pq (Suc (unat p)))"

definition it_ok :: "prioQueue \<Rightarrow> bool" where
  "it_ok pq = (case next_it pq of
       EmptyIterator \<Rightarrow> False
     | Iterator p e \<Rightarrow> prio_ok p \<and> (case e of None \<Rightarrow> True | Some i \<Rightarrow> i < length (view pq p)))"

lemma from_prio_step: "k < 17 \<Longrightarrow> from_prio pq k = view pq (of_nat k) @ from_prio pq (Suc k)"
  by (simp add: from_prio_def upt_conv_Cons)

lemma from_prio_end [simp]: "17 \<le> k \<Longrightarrow> from_prio pq k = []"
  by (simp add: from_prio_def)

lemma from_prio_next_it [simp]: "from_prio (pq\<lparr>next_it := it\<rparr>) k = from_prio pq k"
  by (simp add: from_prio_def)

lemma contents_next_it [simp]: "contents (pq\<lparr>next_it := it\<rparr>) = contents pq"
  by (simp add: contents_def)

lemma q_inv_next_it [simp]: "q_inv (pq\<lparr>next_it := it\<rparr>) = q_inv pq"
  by (simp add: q_inv_def)

lemma qlength_contents: "q_inv pq \<Longrightarrow> qlength pq = length (contents pq)"
  by (simp add: q_inv_def length_contents)

lemma unat_Suc_prio: "unat (p :: Priority) \<le> 16 \<Longrightarrow> unat (p + 1) = Suc (unat p)"
  by (simp add: unat_word_ariths)

lemma skip_empty_spec:
  assumes "q_shape pq" and "1 \<le> unat p" and "unat p \<le> 17"
  shows "wp (skip_empty p) (\<lambda>p' pq'. pq' = pq \<and> unat p' \<le> 17 \<and> 1 \<le> unat p'
           \<and> from_prio pq (unat p) = from_prio pq (unat p')
           \<and> (unat p' \<le> 16 \<longrightarrow> view pq p' \<noteq> [])) pq"
  using assms(2,3)
proof (induction p rule: skip_empty.induct)
  case (1 p)
  show ?case
  proof (cases "LoPrio < p")
    case True
    then have "unat p = 17"
      using 1 by (simp add: LoPrio_def word_less_nat_alt)
    with True show ?thesis
      by (simp add: skip_empty.simps [of p] wp_simps)
  next
    case False
    then have p: "unat p \<le> 16"
      by (simp add: LoPrio_def word_less_nat_alt)
    then have ok: "prio_ok p" and suc: "unat (p + 1) = Suc (unat p)"
      using 1 by (simp_all add: prio_ok_unat unat_Suc_prio)
    have step: "from_prio pq (unat p) = view pq p @ from_prio pq (Suc (unat p))"
      using from_prio_step [of "unat p" pq] p by simp
    show ?thesis
    proof (cases "view pq p = []")
      case True
      with 1(1) [OF False] suc p step show ?thesis
        by (simp add: skip_empty.simps [of p] wp_simps False wp_list_at assms(1) ok)
    next
      case vne: False
      then show ?thesis
        using 1 p by (simp add: skip_empty.simps [of p] wp_simps False wp_list_at assms(1) ok)
    qed
  qed
qed

lemma take_element_spec:
  assumes "q_shape pq" and "prio_ok p" and "i < length (view pq p)"
  shows "wp (take_element p i) (\<lambda>r pq'. r = (view pq p ! i, True)
           \<and> pq' = pq\<lparr>next_it := Iterator p (Next_elem (view pq p) i)\<rparr>
           \<and> it_ok pq' \<and> remaining pq' = drop (Suc i) (view pq p) @ from_prio pq (Suc (unat p))) pq"
  using assms
  by (auto simp: take_element_def wp_simps wp_list_at it_ok_def remaining_def Next_elem_def)

lemma skip_empty_found:
  assumes "q_shape pq" and "1 \<le> unat p" and "unat p \<le> 17" and "from_prio pq (unat p) = x # xs"
  shows "wp (skip_empty p) (\<lambda>p' pq'. pq' = pq \<and> \<not> LoPrio < p' \<and> prio_ok p' \<and> view pq p' \<noteq> []
           \<and> x = view pq p' ! 0 \<and> xs = drop 1 (view pq p') @ from_prio pq (Suc (unat p'))) pq"
proof (rule wp_mono, rule skip_empty_spec [OF assms(1-3)], elim conjE, hypsubst)
  fix p'
  assume p': "unat p' \<le> 17" "1 \<le> unat p'" and same: "from_prio pq (unat p) = from_prio pq (unat p')"
    and ne: "unat p' \<le> 16 \<longrightarrow> view pq p' \<noteq> []"
  have "unat p' \<noteq> 17"
    using assms(4) same by auto
  with p' have small: "unat p' \<le> 16" by simp
  then have "view pq p' @ from_prio pq (Suc (unat p')) = x # xs"
    using assms(4) same from_prio_step [of "unat p'" pq] by simp
  with small p' ne show "pq = pq \<and> \<not> LoPrio < p' \<and> prio_ok p' \<and> view pq p' \<noteq> []
           \<and> x = view pq p' ! 0 \<and> xs = drop 1 (view pq p') @ from_prio pq (Suc (unat p'))"
    by (cases "view pq p'") (auto simp: prio_ok_unat LoPrio_def word_less_nat_alt)
qed

lemma skip_empty_end:
  assumes "q_shape pq" and "1 \<le> unat p" and "unat p \<le> 17" and "from_prio pq (unat p) = []"
  shows "wp (skip_empty p) (\<lambda>p' pq'. pq' = pq \<and> LoPrio < p') pq"
proof (rule wp_mono, rule skip_empty_spec [OF assms(1-3)], elim conjE, hypsubst)
  fix p'
  assume "from_prio pq (unat p) = from_prio pq (unat p')" "unat p' \<le> 16 \<longrightarrow> view pq p' \<noteq> []"
  with assms(4) from_prio_step [of "unat p'" pq] have "\<not> unat p' \<le> 16" by auto
  then show "pq = pq \<and> LoPrio < p'"
    by (simp add: LoPrio_def word_less_nat_alt)
qed

lemma remaining_in_contents:
  assumes "q_inv pq" and "it_ok pq" and "x \<in> set (remaining pq)"
  shows "x \<in> set (contents pq)"
proof -
  have "q_shape pq" using assms(1) by (simp add: q_inv_def)
  then show ?thesis
    using assms(3) by (auto simp: remaining_def set_contents set_from_prio
        split: iterator.splits option.splits dest: in_set_dropD)
qed

text \<open>
  One call of \<open>next\<close>: it returns the first of the remaining requests and leaves the
  rest, or reports the end when nothing remains.  The lists are untouched.
\<close>

lemma q_next_some:
  assumes inv: "q_inv pq" and ok: "it_ok pq" and rem: "remaining pq = x # xs"
  shows "wp q_next (\<lambda>r pq'. r = (x, True) \<and> (\<exists>it. pq' = pq\<lparr>next_it := it\<rparr>)
           \<and> it_ok pq' \<and> remaining pq' = xs) pq"
proof -
  obtain p e where it: "next_it pq = Iterator p e" and p: "prio_ok p"
    and e: "\<And>i. e = Some i \<Longrightarrow> i < length (view pq p)"
    using ok by (auto simp: it_ok_def split: iterator.splits option.splits)
  have shape: "q_shape pq" using inv by (simp add: q_inv_def)
  have n: "qlength pq \<noteq> 0"
    using remaining_in_contents [OF inv ok, of x] rem qlength_contents [OF inv] by auto
  show ?thesis
  proof (cases e)
    case (Some i)
    then have "drop i (view pq p) = view pq p ! i # drop (Suc i) (view pq p)"
      using e by (simp add: Cons_nth_drop_Suc)
    with rem have "x = view pq p ! i" "xs = drop (Suc i) (view pq p) @ from_prio pq (Suc (unat p))"
      by (auto simp: remaining_def it Some)
    then have "wp (take_element p i) (\<lambda>r pq'. r = (x, True) \<and> (\<exists>it. pq' = pq\<lparr>next_it := it\<rparr>)
           \<and> it_ok pq' \<and> remaining pq' = xs) pq"
      by (intro wp_mono [OF take_element_spec [OF shape p e [OF Some]]]) auto
    then show ?thesis
      by (simp add: q_next_def wp_simps it n Some)
  next
    case None
    have up: "unat (p + 1) = Suc (unat p)" and up17: "unat (p + 1) \<le> 17"
      using p by (simp_all add: prio_ok_unat unat_Suc_prio)
    have "from_prio pq (unat (p + 1)) = x # xs"
      using rem by (simp add: remaining_def it None up)
    then have "wp (skip_empty (p + 1)) (\<lambda>p' pq'. pq' = pq \<and> \<not> LoPrio < p' \<and> prio_ok p'
        \<and> view pq p' \<noteq> [] \<and> x = view pq p' ! 0
        \<and> xs = drop 1 (view pq p') @ from_prio pq (Suc (unat p'))) pq"
      using up by (intro skip_empty_found [OF shape _ up17]) simp_all
    then have "wp (skip_empty (p + 1)) (\<lambda>p' pq'. \<not> LoPrio < p' \<and> wp (take_element p' 0)
        (\<lambda>r pq'. r = (x, True) \<and> (\<exists>it. pq' = pq\<lparr>next_it := it\<rparr>) \<and> it_ok pq'
                 \<and> remaining pq' = xs) pq') pq"
      by (rule wp_mono) (auto intro: wp_mono [OF take_element_spec [OF shape]])
    then show ?thesis
      by (simp add: q_next_def wp_simps it n None) (auto elim: wp_mono)
  qed
qed

lemma q_next_end:
  assumes inv: "q_inv pq" and ok: "it_ok pq" and rem: "remaining pq = []"
  shows "wp q_next (\<lambda>r pq'. r = (0, False) \<and> (\<exists>it. pq' = pq\<lparr>next_it := it\<rparr>)) pq"
proof -
  obtain p where it: "next_it pq = Iterator p None" and p: "prio_ok p"
    using ok rem by (auto simp: it_ok_def remaining_def split: iterator.splits option.splits)
  have shape: "q_shape pq" using inv by (simp add: q_inv_def)
  have up: "unat (p + 1) = Suc (unat p)" and up17: "unat (p + 1) \<le> 17"
    using p by (simp_all add: prio_ok_unat unat_Suc_prio)
  have "from_prio pq (unat (p + 1)) = []"
    using rem by (simp add: remaining_def it up)
  then have "wp (skip_empty (p + 1)) (\<lambda>p' pq'. pq' = pq \<and> LoPrio < p') pq"
    using up by (intro skip_empty_end [OF shape _ up17]) simp_all
  then have "wp (skip_empty (p + 1)) (\<lambda>p' pq'. LoPrio < p' \<and> (\<exists>it. pq'\<lparr>next_it := Iterator p' None\<rparr> = pq\<lparr>next_it := it\<rparr>)) pq"
    by (rule wp_mono) auto
  then have "wp (skip_empty (p + 1)) (\<lambda>p'. wp (if LoPrio < p'
      then thn (modify (\<lambda>pq. pq\<lparr>next_it := Iterator p' None\<rparr>)) (ret (0, False))
      else take_element p' 0) (\<lambda>r pq'. r = (0, False) \<and> (\<exists>it. pq' = pq\<lparr>next_it := it\<rparr>))) pq"
    by (rule wp_mono) (auto simp: wp_simps)
  then show ?thesis
    by (auto simp: q_next_def wp_simps it)
qed

lemma q_initIterator_spec:
  assumes "q_inv pq"
  shows "wp q_initIterator (\<lambda>_ pq'. (\<exists>it. pq' = pq\<lparr>next_it := it\<rparr>) \<and> it_ok pq'
           \<and> remaining pq' = contents pq) pq"
proof -
  have shape: "q_shape pq" using assms by (simp add: q_inv_def)
  have ok: "prio_ok HiPrio" by (simp add: prio_ok_unat HiPrio_def)
  have "contents pq = view pq HiPrio @ from_prio pq 2"
    using from_prio_step [of 1 pq] by (simp add: contents_def HiPrio_def numeral_2_eq_2)
  then show ?thesis
    using shape ok
    by (auto simp: q_initIterator_def wp_simps wp_list_at remaining_def it_ok_def Front_def
        HiPrio_def numeral_2_eq_2)
qed

section \<open>Properties of the queue\<close>

lemma view_newPrioQueue: "view newPrioQueue p = []"
  by (cases "unat p") (auto simp: view_def newPrioQueue_def nth_Cons' )

lemma q_inv_newPrioQueue: "q_inv newPrioQueue"
  by (simp add: q_inv_def view_newPrioQueue)
     (auto simp: q_shape_def newPrioQueue_def nth_Cons')

lemma distinct_from_prio:
  assumes "q_inv pq"
  shows "distinct (from_prio pq k)"
proof (induction "17 - k" arbitrary: k)
  case (Suc n)
  then have k: "k < 17" and n: "n = 17 - Suc k" by simp_all
  have "set (view pq (of_nat k)) \<inter> set (from_prio pq (Suc k)) = {}"
  proof (rule ccontr)
    assume "set (view pq (of_nat k)) \<inter> set (from_prio pq (Suc k)) \<noteq> {}"
    then obtain x where x: "x \<in> set (view pq (of_nat k))" "x \<in> set (from_prio pq (Suc k))"
      by blast
    then obtain p where p: "Suc k \<le> unat p" "x \<in> set (view pq p)"
      using assms by (auto simp: set_from_prio q_inv_def)
    then have "p = of_nat k"
      using x(1) assms unfolding q_inv_def by blast
    with p(1) k show False by (simp add: unat_of_nat_prio)
  qed
  moreover have "distinct (view pq (of_nat k))"
    using assms by (simp add: q_inv_def)
  ultimately show ?case
    using Suc.hyps(1) [OF n] by (simp add: from_prio_step [OF k])
qed simp

lemma distinct_contents: "q_inv pq \<Longrightarrow> distinct (contents pq)"
  by (simp add: contents_def distinct_from_prio)

text \<open>Calling the iterator until it says that there is nothing left.\<close>

fun drain_queue :: "nat \<Rightarrow> ReqID list \<Rightarrow> (prioQueue, ReqID list) prog" where
  "drain_queue 0 got = out_of_fuel"
| "drain_queue (Suc n) got = bnd q_next (\<lambda>(x, found). if found then drain_queue n (got @ [x]) else ret got)"

lemma drain_queue_spec:
  assumes "q_inv pq" and "it_ok pq" and "length (remaining pq) < n"
  shows "wp (drain_queue n got) (\<lambda>xs pq'. xs = got @ remaining pq \<and> view pq' = view pq) pq"
  using assms
proof (induction n arbitrary: pq got)
  case (Suc n)
  show ?case
  proof (cases "remaining pq")
    case Nil
    show ?thesis
      unfolding drain_queue.simps wp_bnd
      by (rule wp_mono, rule q_next_end [OF Suc.prems(1,2) Nil]) (auto simp: wp_simps Nil)
  next
    case (Cons x xs)
    show ?thesis
      unfolding drain_queue.simps wp_bnd
    proof (rule wp_mono, rule q_next_some [OF Suc.prems(1,2) Cons], elim conjE exE)
      fix a t it
      assume a: "a = (x, True)" and t: "t = pq\<lparr>next_it := it\<rparr>" and "it_ok t" "remaining t = xs"
      then have "wp (drain_queue n (got @ [x])) (\<lambda>ys pq'. ys = (got @ [x]) @ remaining t \<and> view pq' = view t) t"
        using Suc.prems Cons by (intro Suc.IH) simp_all
      then show "wp (case a of (x, found) \<Rightarrow> if found then drain_queue n (got @ [x]) else ret got)
          (\<lambda>xs pq'. xs = got @ remaining pq \<and> view pq' = view pq) t"
        using Cons \<open>remaining t = xs\<close> by (simp add: a) (simp add: t)
    qed
  qed
qed simp

lemma from_prio_served:
  assumes "q_inv pq"
  shows "sorted_wrt (\<lambda>x y. \<forall>p p'. x \<in> set (view pq p) \<longrightarrow> y \<in> set (view pq p') \<longrightarrow> p \<le> p') (from_prio pq k)"
proof (induction "17 - k" arbitrary: k)
  case (Suc n)
  then have k: "k < 17" and n: "n = 17 - Suc k" by simp_all
  have one: "p = of_nat k" if "x \<in> set (view pq (of_nat k))" "x \<in> set (view pq p)" for x p
    using assms that by (auto simp: q_inv_def)
  have rest: "of_nat k \<le> p" if x: "x \<in> set (from_prio pq (Suc k))" "x \<in> set (view pq p)" for x p
  proof -
    obtain p' where p': "Suc k \<le> unat p'" "x \<in> set (view pq p')"
      using x(1) assms by (auto simp: set_from_prio q_inv_def)
    then have "p = p'"
      using x(2) assms unfolding q_inv_def by blast
    with p' k show ?thesis
      by (simp add: word_le_nat_alt unat_of_nat_prio)
  qed
  have "sorted_wrt (\<lambda>x y. \<forall>p p'. x \<in> set (view pq p) \<longrightarrow> y \<in> set (view pq p') \<longrightarrow> p \<le> p')
          (view pq (of_nat k))"
    unfolding sorted_wrt_iff_nth_less
  proof (intro allI impI)
    fix i j p p'
    assume ij: "i < j" "j < length (view pq (of_nat k))"
      and "view pq (of_nat k) ! i \<in> set (view pq p)" "view pq (of_nat k) ! j \<in> set (view pq p')"
    then have "p = of_nat k" "p' = of_nat k"
      using one [of "view pq (of_nat k) ! i" p] one [of "view pq (of_nat k) ! j" p'] by simp_all
    then show "p \<le> p'" by simp
  qed
  moreover have "p \<le> p'" if "x \<in> set (view pq (of_nat k))" "y \<in> set (from_prio pq (Suc k))"
      "x \<in> set (view pq p)" "y \<in> set (view pq p')" for x y p p'
    using one [OF that(1,3)] rest [OF that(2,4)] by simp
  moreover have "n = 17 - Suc k" by (fact n)
  ultimately show ?case
    unfolding from_prio_step [OF k] sorted_wrt_append
    using Suc.hyps(1) by blast
qed simp


text \<open>
  The iterator serves what the queue holds, list by list, leaves the queue as it was, and
  says that there is nothing left when it has served everything.
\<close>

lemma drain_contents:
  assumes "q_inv pq"
  shows "wp (thn q_initIterator (drain_queue (Suc (qlength pq)) []))
    (\<lambda>xs pq'. xs = concat (map (\<lambda>i. view pq (of_nat i)) [1..<17]) \<and> distinct xs
       \<and> sorted_wrt (\<lambda>x y. \<forall>p p'. x \<in> set (view pq p) \<longrightarrow> y \<in> set (view pq p') \<longrightarrow> p \<le> p') xs
       \<and> view pq' = view pq) pq"
  unfolding wp_thn
proof (rule wp_mono, rule q_initIterator_spec [OF assms], elim conjE exE)
  fix t it
  assume t: "t = pq\<lparr>next_it := it\<rparr>" and "it_ok t" and rem: "remaining t = contents pq"
  then have "wp (drain_queue (Suc (qlength pq)) []) (\<lambda>xs pq'. xs = [] @ remaining t \<and> view pq' = view t) t"
    using assms by (intro drain_queue_spec) (simp_all add: qlength_contents)
  then show "wp (drain_queue (Suc (qlength pq)) [])
    (\<lambda>xs pq'. xs = concat (map (\<lambda>i. view pq (of_nat i)) [1..<17]) \<and> distinct xs
       \<and> sorted_wrt (\<lambda>x y. \<forall>p p'. x \<in> set (view pq p) \<longrightarrow> y \<in> set (view pq p') \<longrightarrow> p \<le> p') xs
       \<and> view pq' = view pq) t"
    by (rule wp_mono)
       (use from_prio_served [OF assms, of 1] distinct_contents [OF assms] in
         \<open>simp add: t rem [unfolded t] contents_def from_prio_def\<close>)
qed



text \<open>A queue with three requests, for the examples: 7 and 9 at priority 3, 8 at priority 2.\<close>

definition three_waiting :: prioQueue where
  "three_waiting = \<lparr>queue = [None, Some [], Some [8], Some [7, 9]] @ replicate 13 (Some []),
     qlength = 3, next_it = EmptyIterator\<rparr>"

lemma q_inv_three_waiting: "q_inv three_waiting"
proof -
  have push: "q_inv pq'" if "q_inv pq" "prio_ok p" "\<forall>ys \<in> set (queue pq). \<forall>zs. ys = Some zs \<longrightarrow> x \<notin> set zs"
      "q_push x p pq = Returns ((), pq')" for pq p x pq'
  proof -
    have "x \<notin> set (view pq p')" for p'
    proof (cases "unat p' < length (queue pq)")
      case True
      then have "queue pq ! unat p' \<in> set (queue pq)" by (rule nth_mem)
      with that(3) True show ?thesis by (auto simp: view_def split: option.split)
    qed (simp add: view_def)
    then show ?thesis
      using wp_resultD [OF q_push_law [OF that(1,2)] that(4)] by blast
  qed
  let ?a = "\<lparr>queue = [None, Some [], Some [], Some [7]] @ replicate 13 (Some []),
     qlength = 1, next_it = EmptyIterator\<rparr>"
  let ?b = "\<lparr>queue = [None, Some [], Some [8], Some [7]] @ replicate 13 (Some []),
     qlength = 2, next_it = EmptyIterator\<rparr>"
  have prio: "prio_ok 2" "prio_ok 3"
    by (simp_all add: prio_ok_def HiPrio_def LoPrio_def)
  have "q_push 7 3 newPrioQueue = Returns ((), ?a)"
    by code_simp
  then have "q_inv ?a"
    by (intro push [OF q_inv_newPrioQueue prio(2), of 7]) (simp_all add: newPrioQueue_def)
  moreover have "q_push 8 2 ?a = Returns ((), ?b)"
    by code_simp
  ultimately have "q_inv ?b"
    by (intro push [of ?a 2 8 ?b]) (simp_all add: prio)
  moreover have "q_push 9 3 ?b = Returns ((), three_waiting)"
    by code_simp
  ultimately show "q_inv three_waiting"
    by (intro push [of ?b 3 9 three_waiting]) (simp_all add: prio)
qed

lemma qlength_upd:
  assumes "q_inv pq" and "q_inv pq'" and "prio_ok p" and "view pq' = (view pq)(p := xs)"
  shows "qlength pq' + length (view pq p) = qlength pq + length xs"
proof -
  have len: "qlength x = (\<Sum>i = 1..<17. length (view x (of_nat i)))" if "q_inv x" for x
    using that by (simp only: q_inv_def)
  show ?thesis
    unfolding len [OF assms(1)] len [OF assms(2)] assms(4) by (rule sum_view_upd [OF assms(3)])
qed

text \<open>
  Changing the priority of a waiting request takes it out of the list of its old
  priority and puts it at the end of the list of the new one; all other requests keep
  their places, and nothing is lost or duplicated.
\<close>

theorem queue_setPriority_moves:
  assumes "q_inv pq" and "x \<in> set (view pq old)" and "prio_ok new"
  shows "wp (q_setPriority x old new) (\<lambda>_ pq'. q_inv pq' \<and> qlength pq' = qlength pq
     \<and> view pq' new = (if new = old then remove1 x (view pq old) else view pq new) @ [x]
     \<and> (old \<noteq> new \<longrightarrow> view pq' old = remove1 x (view pq old))
     \<and> (\<forall>p. p \<noteq> old \<longrightarrow> p \<noteq> new \<longrightarrow> view pq' p = view pq p)) pq"
proof -
  let ?Q = "\<lambda>_ pq'. q_inv pq' \<and> qlength pq' = qlength pq
     \<and> view pq' new = (if new = old then remove1 x (view pq old) else view pq new) @ [x]
     \<and> (old \<noteq> new \<longrightarrow> view pq' old = remove1 x (view pq old))
     \<and> (\<forall>p. p \<noteq> old \<longrightarrow> p \<noteq> new \<longrightarrow> view pq' p = view pq p)"
  show ?thesis
    unfolding q_setPriority_def wp_thn
  proof (rule wp_mono, rule q_remove_law [OF assms(1,2)], elim conjE)
    fix pq1
    assume inv1: "q_inv pq1" and v1: "view pq1 = (view pq)(old := remove1 x (view pq old))"
    have gone: "x \<notin> set (view pq1 p)" for p
    proof (cases "p = old")
      case True
      have "distinct (view pq old)" using assms(1) by (simp add: q_inv_def)
      with True show ?thesis by (simp add: v1)
    next
      case False
      with assms(1,2) show ?thesis
        unfolding v1 q_inv_def by (metis fun_upd_other)
    qed
    show "wp (q_push x new) ?Q pq1"
    proof (rule wp_mono, rule q_push_law [OF inv1 assms(3) gone], elim conjE)
      fix pq2
      assume inv2: "q_inv pq2" and v2: "view pq2 = (view pq1)(new := view pq1 new @ [x])"
      have "prio_ok old"
        using assms(1,2) by (auto simp: q_inv_def intro: view_prio_ok)
      have "0 < length (view pq old)"
        using assms(2) by (rule length_pos_if_in_set)
      then have "qlength pq2 = qlength pq"
        using qlength_upd [OF assms(1) inv1 \<open>prio_ok old\<close> v1] qlength_upd [OF inv1 inv2 assms(3) v2]
          assms(2) by (simp add: length_remove1 del: length_greater_0_conv)
      with inv2 v1 v2 show "?Q () pq2" by auto
    qed
  qed
qed

lemma queue_setPriority_moves_witness:
  "\<exists>pq'. q_setPriority 7 3 2 three_waiting = Returns ((), pq')
     \<and> view pq' 2 = [8, 7] \<and> view pq' 3 = [9]"
proof -
  have old: "view three_waiting 3 = [7, 9]" and new: "view three_waiting 2 = [8]"
    by code_simp+
  have "wp (q_setPriority 7 3 2) (\<lambda>_ pq'. view pq' 2 = [8, 7] \<and> view pq' 3 = [9]) three_waiting"
    by (rule wp_mono, rule queue_setPriority_moves [OF q_inv_three_waiting, of 7 3 2])
       (simp_all add: old new prio_ok_def HiPrio_def LoPrio_def)
  then show ?thesis
    by (auto dest: wp_returns)
qed

end
