(* ===== verification/TimesHeap.thy ===== *)
theory TimesHeap
  imports Types "HOL-Library.Multiset"
begin

text \<open>
  The heap of points in time, \<open>requests/timesheapcontainer.go\<close> and
  \<open>requests/timesheap.go\<close>, over the sift-up and sift-down loops of the standard
  package \<open>container/heap\<close>.  A heap is the slice that stores it; the parent of
  position \<open>k\<close> is \<open>(k - 1) div 2\<close>.  The contract \<open>min_heap\<close> describes a heap by the
  multiset of its elements; the loop that takes every element below a bound is proved
  once against the contract.
\<close>

section \<open>Points in time\<close>

datatype requestTime = RequestTime (rt_time: time) (rt_req: ReqID)

text \<open>\<open>Less\<close> compares by time and then by request ID, which makes the type a linear order.\<close>

definition rt_less :: "requestTime \<Rightarrow> requestTime \<Rightarrow> bool" where
  "rt_less a b = (if rt_time a = rt_time b then rt_req a < rt_req b else rt_time a < rt_time b)"

instantiation requestTime :: linorder
begin

definition less_requestTime :: "requestTime \<Rightarrow> requestTime \<Rightarrow> bool" where
  "less_requestTime = rt_less"

definition less_eq_requestTime :: "requestTime \<Rightarrow> requestTime \<Rightarrow> bool" where
  "less_eq_requestTime a b = (a = b \<or> rt_less a b)"

instance
  by standard
     (auto simp: less_requestTime_def less_eq_requestTime_def rt_less_def
       intro: requestTime.expand split: if_splits)

end

lemma requestTime_less_time: "a \<le> b \<Longrightarrow> rt_time a \<le> rt_time b" for a b :: requestTime
  by (auto simp: less_eq_requestTime_def rt_less_def split: if_splits)

definition Less :: "requestTime list \<Rightarrow> nat \<Rightarrow> nat \<Rightarrow> bool" where
  "Less h i j = rt_less (h ! i) (h ! j)"

definition Swap :: "'a list \<Rightarrow> nat \<Rightarrow> nat \<Rightarrow> 'a list" where
  "Swap h i j = h[i := h ! j, j := h ! i]"

lemma length_Swap [simp]: "length (Swap h i j) = length h"
  by (simp add: Swap_def)

lemma nth_Swap:
  "i < length h \<Longrightarrow> j < length h \<Longrightarrow>
   Swap h i j ! k = (if k = j then h ! i else if k = i then h ! j else h ! k)"
  by (simp add: Swap_def nth_list_update)

lemma mset_Swap [simp]: "i < length h \<Longrightarrow> j < length h \<Longrightarrow> mset (Swap h i j) = mset h"
  by (simp add: Swap_def mset_swap)

section \<open>Sifting\<close>

function heap_up :: "requestTime list \<Rightarrow> nat \<Rightarrow> requestTime list" where
  "heap_up h j = (let i = (j - 1) div 2 in
     if j = 0 \<or> \<not> Less h j i then h else heap_up (Swap h i j) i)"
  by pat_completeness auto

termination
  by (relation "measure (\<lambda>(h, j). j)") auto

function heap_down :: "requestTime list \<Rightarrow> nat \<Rightarrow> nat \<Rightarrow> requestTime list" where
  "heap_down h i n = (let j1 = 2 * i + 1 in
     if n \<le> j1 then h
     else let j = (if j1 + 1 < n \<and> Less h (j1 + 1) j1 then j1 + 1 else j1) in
       if \<not> Less h j i then h else heap_down (Swap h i j) j n)"
  by pat_completeness auto

termination
  by (relation "measure (\<lambda>(h, i, n). n - i)") (auto split: if_splits)

declare heap_up.simps [simp del] heap_down.simps [simp del]

section \<open>The API of the heap\<close>

definition h_Push :: "requestTime \<Rightarrow> (requestTime list, unit) prog" where
  "h_Push t = modify (\<lambda>h. heap_up (h @ [t]) (length h))"

text \<open>On an empty slice \<open>heap.Pop\<close> swaps positions 0 and -1, which panics.\<close>

definition h_Pop :: "(requestTime list, requestTime) prog" where
  "h_Pop = bnd (gets (\<lambda>h. h)) (\<lambda>h.
     if h = [] then panic ''index out of range''
     else let n = length h - 1; g = heap_down (Swap h 0 n) 0 n
          in thn (modify (\<lambda>_. take n g)) (ret (g ! n)))"

definition h_Min :: "(requestTime list, requestTime) prog" where
  "h_Min = bnd (gets (\<lambda>h. h)) (\<lambda>h.
     if length h = 0 then panic ''cannot get Min of empty heap'' else ret (h ! 0))"

section \<open>The heap property\<close>

definition parent :: "nat \<Rightarrow> nat" where
  "parent k = (k - 1) div 2"

definition heap_ok :: "nat \<Rightarrow> requestTime list \<Rightarrow> bool" where
  "heap_ok n h \<longleftrightarrow> (\<forall>k. 0 < k \<and> k < n \<longrightarrow> h ! parent k \<le> h ! k)"

text \<open>A heap but for the edge above \<open>j\<close>, and but for the edges below \<open>i\<close>.\<close>

definition up_ok :: "requestTime list \<Rightarrow> nat \<Rightarrow> bool" where
  "up_ok h j \<longleftrightarrow> (\<forall>k. 0 < k \<and> k < length h \<and> k \<noteq> j \<longrightarrow> h ! parent k \<le> h ! k)
     \<and> (\<forall>k. 0 < j \<and> 0 < k \<and> k < length h \<and> parent k = j \<longrightarrow> h ! parent j \<le> h ! k)"

definition down_ok :: "requestTime list \<Rightarrow> nat \<Rightarrow> nat \<Rightarrow> bool" where
  "down_ok h i n \<longleftrightarrow> (\<forall>k. 0 < k \<and> k < n \<and> parent k \<noteq> i \<longrightarrow> h ! parent k \<le> h ! k)
     \<and> (\<forall>k. 0 < i \<and> 0 < k \<and> k < n \<and> parent k = i \<longrightarrow> h ! parent i \<le> h ! k)"

lemma Less_iff: "Less h i j \<longleftrightarrow> h ! i < h ! j"
  by (simp add: Less_def less_requestTime_def)

lemma parent_less [simp]: "0 < k \<Longrightarrow> parent k < k"
  by (auto simp: parent_def)

lemma parent_le: "parent k \<le> k"
  by (simp add: parent_def)

lemma parent_child: "parent (Suc (2 * i)) = i" "parent (Suc (Suc (2 * i))) = i"
  by (simp_all add: parent_def)

lemma parent_eqD: "0 < k \<Longrightarrow> parent k = i \<Longrightarrow> k = 2 * i + 1 \<or> k = 2 * i + 2"
  by (auto simp: parent_def)

lemma length_heap_up [simp]: "length (heap_up h j) = length h"
  by (induction h j rule: heap_up.induct) (subst heap_up.simps, simp add: Let_def)

lemma mset_heap_up [simp]: "j < length h \<Longrightarrow> mset (heap_up h j) = mset h"
proof (induction h j rule: heap_up.induct)
  case (1 h j)
  have "(j - 1) div 2 < length h" using "1.prems" by linarith
  with 1 show ?case by (subst heap_up.simps) (simp add: Let_def)
qed

lemma up_ok_swap:
  assumes j: "0 < j" "j < length h" and less: "h ! j < h ! parent j" and ok: "up_ok h j"
  shows "up_ok (Swap h (parent j) j) (parent j)"
proof -
  let ?i = "parent j"
  have ij: "?i < j" "?i < length h" using j parent_less [OF j(1)] by simp_all
  note nth = nth_Swap [OF ij(2) j(2)]
  have par: "h ! parent k \<le> h ! k" if "0 < k" "k < length h" "k \<noteq> j" for k
    using ok that by (auto simp: up_ok_def)
  have child: "h ! ?i \<le> h ! k" if "0 < k" "k < length h" "parent k = j" for k
    using ok that j by (auto simp: up_ok_def)
  show ?thesis
    unfolding up_ok_def length_Swap
  proof (intro conjI allI impI)
    fix k
    assume k: "0 < k \<and> k < length h \<and> k \<noteq> ?i"
    show "Swap h ?i j ! parent k \<le> Swap h ?i j ! k"
    proof (cases "k = j")
      case True
      then show ?thesis using less ij by (simp add: nth)
    next
      case False
      then show ?thesis
        using k par [of k] child [of k] less ij by (auto simp: nth)
    qed
  next
    fix k
    assume k: "0 < ?i \<and> 0 < k \<and> k < length h \<and> parent k = ?i"
    then have "parent ?i < ?i" and up: "h ! parent ?i \<le> h ! ?i"
      using par [of ?i] ij by simp_all
    moreover from this(1) ij have "parent ?i \<noteq> ?i" "parent ?i \<noteq> j" by linarith+
    moreover have "h ! ?i \<le> h ! k" if "k \<noteq> j"
      using k par [of k] that by simp
    moreover have "k \<noteq> ?i" using k parent_less [of k] by auto
    ultimately show "Swap h ?i j ! parent ?i \<le> Swap h ?i j ! k"
      by (auto simp: nth)
  qed
qed

lemma heap_ok_heap_up:
  "j < length h \<Longrightarrow> up_ok h j \<Longrightarrow> heap_ok (length h) (heap_up h j)"
proof (induction h j rule: heap_up.induct)
  case (1 h j)
  let ?i = "(j - 1) div 2"
  show ?case
  proof (cases "j = 0 \<or> \<not> Less h j ?i")
    case True
    then have "heap_ok (length h) h"
      using "1.prems" by (auto simp: heap_ok_def up_ok_def Less_iff parent_def not_less)
    with True show ?thesis by (subst heap_up.simps) (simp add: Let_def)
  next
    case False
    then have "up_ok (Swap h ?i j) ?i"
      using "1.prems" up_ok_swap [of j h] by (simp add: Less_iff parent_def)
    then have "heap_ok (length (Swap h ?i j)) (heap_up (Swap h ?i j) ?i)"
      using "1.IH" [OF refl False] "1.prems"(1) by (simp add: less_imp_diff_less div_less_dividend)
    with False show ?thesis by (subst heap_up.simps) (simp add: Let_def)
  qed
qed

lemma length_heap_down [simp]: "length (heap_down h i n) = length h"
  by (induction h i n rule: heap_down.induct) (subst heap_down.simps, simp add: Let_def)

lemma mset_heap_down [simp]: "n \<le> length h \<Longrightarrow> mset (heap_down h i n) = mset h"
  by (induction h i n rule: heap_down.induct) (subst heap_down.simps, simp add: Let_def)

lemma nth_heap_down: "n \<le> length h \<Longrightarrow> n \<le> k \<Longrightarrow> heap_down h i n ! k = h ! k"
proof (induction h i n rule: heap_down.induct)
  case (1 h i n)
  then show ?case by (subst heap_down.simps) (auto simp: Let_def nth_Swap)
qed

text \<open>The child that \<open>down\<close> compares with: the smaller one.\<close>

definition small_child :: "requestTime list \<Rightarrow> nat \<Rightarrow> nat \<Rightarrow> nat" where
  "small_child h i n = (if 2 * i + 2 < n \<and> Less h (2 * i + 2) (2 * i + 1) then 2 * i + 2 else 2 * i + 1)"

lemma heap_down_unfold:
  "heap_down h i n = (if n \<le> 2 * i + 1 then h
     else if \<not> Less h (small_child h i n) i then h
     else heap_down (Swap h i (small_child h i n)) (small_child h i n) n)"
  by (subst heap_down.simps) (simp add: Let_def small_child_def)

lemma small_child:
  assumes "2 * i + 1 < n"
  shows "small_child h i n < n" "parent (small_child h i n) = i" "i < small_child h i n"
    "0 < k \<Longrightarrow> k < n \<Longrightarrow> parent k = i \<Longrightarrow> h ! small_child h i n \<le> h ! k"
  using assms by (auto simp: small_child_def parent_child Less_iff dest!: parent_eqD)

lemma down_ok_swap:
  assumes n: "n \<le> length h" "2 * i + 1 < n" and ok: "down_ok h i n"
    and less: "h ! small_child h i n < h ! i"
  shows "down_ok (Swap h i (small_child h i n)) (small_child h i n) n"
proof -
  let ?j = "small_child h i n"
  note sc = small_child [OF n(2)]
  have ij: "i < length h" "?j < length h" using n sc(1)[of h] by simp_all
  note nth = nth_Swap [OF ij]
  have par: "h ! parent k \<le> h ! k" if "0 < k" "k < n" "parent k \<noteq> i" for k
    using ok that by (auto simp: down_ok_def)
  have up: "h ! parent i \<le> h ! ?j" if "0 < i"
    using ok that sc(1,2)[of h] n(2) sc(3)[of h] by (auto simp: down_ok_def)
  show ?thesis
    unfolding down_ok_def
  proof (intro conjI allI impI)
    fix k
    assume k: "0 < k \<and> k < n \<and> parent k \<noteq> ?j"
    consider "parent k = i" | "k = i" | "parent k \<noteq> i" "k \<noteq> i" by blast
    then show "Swap h i ?j ! parent k \<le> Swap h i ?j ! k"
    proof cases
      case 1
      then have "k \<noteq> i" using k parent_less [of k] by auto
      then show ?thesis using k 1 less sc(4)[of k h] by (auto simp: nth)
    next
      case 2
      from k have "parent k < k" by simp
      with 2 have "parent k \<noteq> i" by linarith
      then have "parent i \<noteq> small_child h i n"
        using 2 parent_le [of i] sc(3)[of h] by linarith
      with 2 k up \<open>parent k \<noteq> i\<close> sc(3)[of h] show ?thesis by (auto simp: nth)
    next
      case 3
      then have "k \<noteq> ?j" using sc(2)[of h] by auto
      then show ?thesis using 3 k par by (auto simp: nth)
    qed
  next
    fix k
    assume k: "0 < ?j \<and> 0 < k \<and> k < n \<and> parent k = ?j"
    then have "k \<noteq> ?j" "k \<noteq> i" and "parent k \<noteq> i"
      using parent_less [of k] sc(3)[of h] by auto
    then show "Swap h i ?j ! parent ?j \<le> Swap h i ?j ! k"
      using k par [of k] sc(2,3)[of h] by (auto simp: nth)
  qed
qed

lemma heap_ok_heap_down:
  "n \<le> length h \<Longrightarrow> down_ok h i n \<Longrightarrow> heap_ok n (heap_down h i n)"
proof (induction "n - i" arbitrary: h i rule: less_induct)
  case less
  show ?case
  proof (cases "n \<le> 2 * i + 1")
    case True
    have "parent k \<noteq> i" if "0 < k" "k < n" for k
      using that True parent_eqD [of k i] by linarith
    with less.prems True show ?thesis
      by (subst heap_down_unfold) (simp add: heap_ok_def down_ok_def)
  next
    case False
    then have n: "2 * i + 1 < n" by simp
    note sc = small_child [OF n]
    show ?thesis
    proof (cases "Less h (small_child h i n) i")
      case True
      then have "down_ok (Swap h i (small_child h i n)) (small_child h i n) n"
        using less.prems n by (intro down_ok_swap) (simp_all add: Less_iff)
      then have "heap_ok n (heap_down (Swap h i (small_child h i n)) (small_child h i n) n)"
        using less.prems sc(1,3)[of h] by (intro less.hyps) simp_all
      with True n show ?thesis by (subst heap_down_unfold) simp
    next
      case stop: False
      have "h ! parent k \<le> h ! k" if k: "0 < k" "k < n" for k
      proof (cases "parent k = i")
        case True
        with sc(4)[of k h] k stop show ?thesis by (simp add: Less_iff not_less)
      next
        case False
        with less.prems k show ?thesis by (simp add: down_ok_def)
      qed
      with stop n show ?thesis by (subst heap_down_unfold) (simp add: heap_ok_def)
    qed
  qed
qed

lemma heap_ok_root:
  assumes "heap_ok n h" and "k < n"
  shows "h ! 0 \<le> h ! k"
  using assms(2)
proof (induction k rule: less_induct)
  case (less k)
  show ?case
  proof (cases "k = 0")
    case False
    then have "parent k < k" by simp
    then have "h ! 0 \<le> h ! parent k"
      using less by simp
    also have "\<dots> \<le> h ! k"
      using assms(1) less.prems False by (simp add: heap_ok_def)
    finally show ?thesis .
  qed simp
qed

section \<open>The contract of a minimum heap\<close>

definition heap_inv :: "requestTime list \<Rightarrow> bool" where
  "heap_inv h = heap_ok (length h) h"

text \<open>
  The loop of \<open>requestTimes.process\<close>: take elements while the minimum is early, and
  collect them in the order taken.  The fuel bounds the iterations.
\<close>

fun pop_while :: "('h \<Rightarrow> nat) \<Rightarrow> ('h, 'a) prog \<Rightarrow> ('h, 'a) prog \<Rightarrow> ('a \<Rightarrow> bool) \<Rightarrow> nat \<Rightarrow> 'a list
    \<Rightarrow> ('h, 'a list) prog" where
  "pop_while len mn pop early 0 past = out_of_fuel"
| "pop_while len mn pop early (Suc fuel) past = bnd (gets len) (\<lambda>n.
     if n > 0
     then bnd mn (\<lambda>m. if early m
            then bnd pop (\<lambda>x. pop_while len mn pop early fuel (past @ [x]))
            else ret past)
     else ret past)"

locale min_heap =
  fixes len :: "'h \<Rightarrow> nat"
    and push :: "'a::linorder \<Rightarrow> ('h, unit) prog"
    and pop :: "('h, 'a) prog"
    and mn :: "('h, 'a) prog"
    and bag :: "'h \<Rightarrow> 'a multiset"
    and invar :: "'h \<Rightarrow> bool"
  assumes len_bag: "len h = size (bag h)"
    and push_law: "invar h \<Longrightarrow> wp (push x) (\<lambda>_ h'. invar h' \<and> bag h' = add_mset x (bag h)) h"
    and pop_law: "invar h \<Longrightarrow> bag h \<noteq> {#} \<Longrightarrow>
          wp pop (\<lambda>x h'. invar h' \<and> bag h = add_mset x (bag h') \<and> (\<forall>y \<in># bag h. x \<le> y)) h"
    and min_law: "invar h \<Longrightarrow> bag h \<noteq> {#} \<Longrightarrow>
          wp mn (\<lambda>x h'. h' = h \<and> x \<in># bag h \<and> (\<forall>y \<in># bag h. x \<le> y)) h"
begin

text \<open>
  With fuel for one more iteration than there are elements, the loop returns exactly the
  early elements and leaves exactly the others.
\<close>

lemma pop_while_spec:
  assumes down: "\<And>x y. early y \<Longrightarrow> x \<le> y \<Longrightarrow> early x"
  shows "invar h \<Longrightarrow> size (bag h) < fuel \<Longrightarrow>
    wp (pop_while len mn pop early fuel past)
       (\<lambda>xs h'. invar h' \<and> mset xs = mset past + filter_mset early (bag h)
               \<and> bag h' = filter_mset (\<lambda>x. \<not> early x) (bag h)) h"
proof (induction fuel arbitrary: h past)
  case 0
  then show ?case by simp
next
  case (Suc fuel)
  let ?Q = "\<lambda>xs h'. invar h' \<and> mset xs = mset past + filter_mset early (bag h)
               \<and> bag h' = filter_mset (\<lambda>x. \<not> early x) (bag h)"
  show ?case
  proof (cases "bag h = {#}")
    case True
    then show ?thesis using Suc.prems by (simp add: wp_simps len_bag [of h])
  next
    case ne: False
    have "wp mn (\<lambda>m. wp (if early m
            then bnd pop (\<lambda>x. pop_while len mn pop early fuel (past @ [x]))
            else ret past) ?Q) h"
    proof (rule wp_mono, rule min_law [OF Suc.prems(1) ne], elim conjE, hypsubst)
      fix m
      assume m: "m \<in># bag h" and least: "\<forall>y \<in># bag h. m \<le> y"
      show "wp (if early m then bnd pop (\<lambda>x. pop_while len mn pop early fuel (past @ [x]))
                else ret past) ?Q h"
      proof (cases "early m")
        case True
        have "wp pop (\<lambda>x. wp (pop_while len mn pop early fuel (past @ [x])) ?Q) h"
        proof (rule wp_mono, rule pop_law [OF Suc.prems(1) ne], elim conjE)
          fix x h1
          assume h1: "invar h1" "bag h = add_mset x (bag h1)" "\<forall>y \<in># bag h. x \<le> y"
          then have "early x"
            using True m down by blast
          with h1 show "wp (pop_while len mn pop early fuel (past @ [x])) ?Q h1"
            using Suc.prems by (intro wp_mono [OF Suc.IH [of h1 "past @ [x]"]]) auto
        qed
        with True show ?thesis by (simp add: wp_simps)
      next
        case False
        then have "\<forall>y \<in># bag h. \<not> early y"
          using least down by blast
        then have "filter_mset early (bag h) = {#}" "filter_mset (\<lambda>x. \<not> early x) (bag h) = bag h"
          by (auto simp: filter_mset_eq_conv)
        with False Suc.prems show ?thesis by (simp add: wp_simps)
      qed
    qed
    moreover have "0 < size (bag h)"
      using ne by (simp add: nonempty_has_size)
    ultimately show ?thesis
      by (simp add: wp_simps len_bag [of h])
  qed
qed

end

lemma h_Push_law:
  assumes "heap_inv h"
  shows "wp (h_Push x) (\<lambda>_ h'. heap_inv h' \<and> mset h' = add_mset x (mset h)) h"
proof -
  have ok: "\<forall>k. 0 < k \<and> k < length h \<longrightarrow> h ! parent k \<le> h ! k"
    using assms by (simp add: heap_inv_def heap_ok_def)
  have "up_ok (h @ [x]) (length h)"
    unfolding up_ok_def
  proof (intro conjI allI impI)
    fix k
    assume k: "0 < k \<and> k < length (h @ [x]) \<and> k \<noteq> length h"
    then have "k < length h" by simp
    moreover from this have "parent k < length h"
      using parent_le [of k] by linarith
    moreover note k
    ultimately show "(h @ [x]) ! parent k \<le> (h @ [x]) ! k"
      using ok by (simp add: nth_append)
  next
    fix k
    assume k: "0 < length h \<and> 0 < k \<and> k < length (h @ [x]) \<and> parent k = length h"
    then show "(h @ [x]) ! parent (length h) \<le> (h @ [x]) ! k"
      using parent_less [of k] by auto
  qed
  then have "heap_ok (length (h @ [x])) (heap_up (h @ [x]) (length h))"
    by (intro heap_ok_heap_up) simp_all
  then show ?thesis
    by (simp add: h_Push_def wp_simps heap_inv_def)
qed

lemma h_Min_law:
  assumes "heap_inv h" and "mset h \<noteq> {#}"
  shows "wp h_Min (\<lambda>x h'. h' = h \<and> x \<in># mset h \<and> (\<forall>y \<in># mset h. x \<le> y)) h"
  using assms heap_ok_root [of "length h" h]
  by (auto simp: h_Min_def wp_simps heap_inv_def in_set_conv_nth intro: nth_mem)

lemma h_Pop_law:
  assumes inv: "heap_inv h" and ne: "mset h \<noteq> {#}"
  shows "wp h_Pop (\<lambda>x h'. heap_inv h' \<and> mset h = add_mset x (mset h')
           \<and> (\<forall>y \<in># mset h. x \<le> y)) h"
proof -
  obtain n where len: "length h = Suc n"
    using ne by (cases "length h") auto
  let ?s = "Swap h 0 n"
  let ?g = "heap_down ?s 0 n"
  note nth = nth_Swap [of 0 h n, simplified len, simplified]
  have "down_ok ?s 0 n"
    unfolding down_ok_def
  proof (intro conjI allI impI)
    fix k
    assume k: "0 < k \<and> k < n \<and> parent k \<noteq> 0"
    then have "parent k < n" using parent_le [of k] by linarith
    with k inv show "?s ! parent k \<le> ?s ! k"
      by (simp add: nth heap_inv_def heap_ok_def len)
  qed simp
  then have "heap_ok n ?g"
    by (intro heap_ok_heap_down) (simp_all add: len)
  then have inv': "heap_inv (take n ?g)"
    by (auto simp: heap_inv_def heap_ok_def len le_less_trans [OF parent_le])
  have last: "?g ! n = h ! 0"
    by (simp add: nth_heap_down nth len)
  have "?g = take n ?g @ [h ! 0]"
    using take_Suc_conv_app_nth [of n ?g] by (simp add: len last)
  then have "mset ?g = add_mset (h ! 0) (mset (take n ?g))"
    by (metis mset.simps(2) mset_append mset.simps(1) union_mset_add_mset_right add.right_neutral)
  moreover have "mset ?g = mset h"
    by (simp add: len)
  moreover have "\<forall>y \<in># mset h. h ! 0 \<le> y"
    using inv heap_ok_root [of "length h" h] by (auto simp: heap_inv_def in_set_conv_nth)
  ultimately show ?thesis
    using inv' last len by (auto simp: h_Pop_def wp_simps Let_def)
qed

interpretation th: min_heap length h_Push h_Pop h_Min mset heap_inv
proof
  show "length h = size (mset h)" for h :: "requestTime list" by simp
qed (fact h_Push_law h_Pop_law h_Min_law)+

section \<open>Properties of the heap\<close>

fun pop_times :: "nat \<Rightarrow> (requestTime list, requestTime list) prog" where
  "pop_times 0 = ret []"
| "pop_times (Suc n) = bnd h_Pop (\<lambda>x. bnd (pop_times n) (\<lambda>xs. ret (x # xs)))"

lemma pop_times_spec:
  "heap_inv h \<Longrightarrow> n = length h \<Longrightarrow> wp (pop_times n) (\<lambda>xs h'. mset xs = mset h \<and> sorted xs \<and> h' = []) h"
proof (induction n arbitrary: h)
  case 0
  then show ?case by (simp add: wp_simps)
next
  case (Suc n)
  then have "mset h \<noteq> {#}" by auto
  have "wp h_Pop (\<lambda>x. wp (bnd (pop_times n) (\<lambda>xs. ret (x # xs)))
      (\<lambda>xs h'. mset xs = mset h \<and> sorted xs \<and> h' = [])) h"
  proof (rule wp_mono, rule h_Pop_law [OF Suc.prems(1) \<open>mset h \<noteq> {#}\<close>], elim conjE)
    fix x h1
    assume h1: "heap_inv h1" "mset h = add_mset x (mset h1)" "\<forall>y \<in># mset h. x \<le> y"
    then have "n = length h1"
      using Suc.prems(2) by (auto dest: arg_cong [of _ _ size])
    from h1(1) this have "wp (pop_times n) (\<lambda>xs h'. mset xs = mset h1 \<and> sorted xs \<and> h' = []) h1"
      by (rule Suc.IH)
    then show "wp (bnd (pop_times n) (\<lambda>xs. ret (x # xs)))
        (\<lambda>xs h'. mset xs = mset h \<and> sorted xs \<and> h' = []) h1"
      unfolding wp_bnd wp_ret
      by (rule wp_mono) (use h1 in \<open>auto dest: mset_eq_setD\<close>)
  qed
  then show ?case by (simp add: wp_bnd)
qed

lemma push_times_spec:
  assumes "heap_inv h"
  shows "wp (for_each h_Push xs) (\<lambda>_ h'. heap_inv h' \<and> mset h' = mset h + mset xs) h"
proof -
  have "wp (for_each h_Push xs) (\<lambda>_ h'. heap_inv h' \<and> mset h' = mset h + mset ([] @ xs)) h"
  proof (rule wp_for_each_acc [where I = "\<lambda>ys h'. heap_inv h' \<and> mset h' = mset h + mset ys"])
    show "wp (h_Push x) (\<lambda>_ h'. heap_inv h' \<and> mset h' = mset h + mset (ys @ [x])) s"
      if "heap_inv s \<and> mset s = mset h + mset ys" for x ys s
      by (rule wp_mono, rule h_Push_law) (use that in auto)
  qed (simp add: assms)
  then show ?thesis by simp
qed

text \<open>
  The heap of times is a priority queue: pushing any points in time, in any order,
  and popping as many returns them sorted by time, and leaves the heap empty.  No call
  indexes out of range.
\<close>

theorem heap_sorts:
  "wp (thn (for_each h_Push xs) (pop_times (length xs))) (\<lambda>ys h. ys = sort xs \<and> h = []) []"
  unfolding wp_thn
proof (rule wp_mono, rule push_times_spec, goal_cases)
  case 1
  show ?case by (simp add: heap_inv_def heap_ok_def)
next
  case (2 a h)
  then have h: "heap_inv h" "mset h = mset xs" by auto
  then have "length xs = length h" by (auto dest: mset_eq_length)
  with h(1) have "wp (pop_times (length xs)) (\<lambda>ys h'. mset ys = mset h \<and> sorted ys \<and> h' = []) h"
    by (rule pop_times_spec)
  then show ?case
    by (rule wp_mono) (use h(2) properties_for_sort in metis)
qed

end
