(* ===== verification/Times.thy ===== *)
theory Times
  imports TimesHeap
begin

text \<open>
  \<open>requests/times.go\<close>: a collection of points in time with one timer, armed for the
  earliest of them.  \<open>timer\<close> is the moment the timer fires, or \<open>None\<close> when it is
  stopped or has fired; the matcher to notify is named by its kind.  Here are the bodies
  of the critical sections; the goroutine that takes the mutex, processes a fired timer
  and notifies the matcher is composed in the theory of the matchers.
\<close>

section \<open>State and operations\<close>

datatype matcher_kind = ValidMatcher | DeadlineMatcher | TimeoutMatcher

record requestTimes =
  times :: "requestTime list"
  timer :: "time option"
  rt_matcher :: "matcher_kind option"

text \<open>The timer of a new collection is set a hundred years ahead.\<close>

definition newRequestTimes :: "time \<Rightarrow> requestTimes" where
  "newRequestTimes farFuture = \<lparr>times = [], timer = Some farFuture, rt_matcher = None\<rparr>"

definition rt_setMatcher :: "matcher_kind \<Rightarrow> (requestTimes, unit) prog" where
  "rt_setMatcher m = modify (\<lambda>rt. rt\<lparr>rt_matcher := Some m\<rparr>)"

definition on_times :: "(requestTime list, 'a) prog \<Rightarrow> (requestTimes, 'a) prog" where
  "on_times = zoom times (\<lambda>h rt. rt\<lparr>times := h\<rparr>)"

definition rt_minTime :: "(requestTimes, time) prog" where
  "rt_minTime = bnd (on_times h_Min) (\<lambda>x. ret (rt_time x))"

definition rt_reset :: "(requestTimes, unit) prog" where
  "rt_reset = bnd rt_minTime (\<lambda>m. modify (\<lambda>rt. rt\<lparr>timer := Some m\<rparr>))"

definition rt_stop :: "(requestTimes, unit) prog" where
  "rt_stop = modify (\<lambda>rt. rt\<lparr>timer := None\<rparr>)"

definition rt_insert :: "requestTime \<Rightarrow> (requestTimes, unit) prog" where
  "rt_insert t = thn (on_times (h_Push t)) (bnd rt_minTime (\<lambda>m.
     if m = rt_time t then thn rt_stop rt_reset else ret ()))"

text \<open>
  The loop of \<open>process\<close>.  A turn removes an element, so one turn more than there are
  elements is enough.
\<close>

definition rt_take_past :: "time \<Rightarrow> (requestTimes, ReqID list) prog" where
  "rt_take_past t = bnd (gets (\<lambda>rt. Suc (length (times rt)))) (\<lambda>fuel.
     bnd (on_times (pop_while length h_Min h_Pop (\<lambda>x. rt_time x < t) fuel [])) (\<lambda>past.
     ret (map rt_req past)))"

definition rt_rearm :: "(requestTimes, unit) prog" where
  "rt_rearm = bnd (gets (\<lambda>rt. length (times rt))) (\<lambda>n. if n > 0 then rt_reset else ret ())"

section \<open>The timer is armed for the earliest time\<close>

definition rt_heap :: "requestTimes \<Rightarrow> bool" where
  "rt_heap rt = heap_inv (times rt)"

definition rt_armed :: "requestTimes \<Rightarrow> bool" where
  "rt_armed rt \<longleftrightarrow> (\<forall>x \<in> set (times rt). \<exists>f. timer rt = Some f \<and> f \<le> rt_time x)
     \<and> (times rt \<noteq> [] \<longrightarrow> (\<exists>x \<in> set (times rt). timer rt = Some (rt_time x)))"

definition rt_inv :: "requestTimes \<Rightarrow> bool" where
  "rt_inv rt \<longleftrightarrow> rt_heap rt \<and> rt_armed rt"

text \<open>The moments at which a request has an entry.\<close>

definition scheduled :: "requestTimes \<Rightarrow> ReqID \<Rightarrow> time \<Rightarrow> bool" where
  "scheduled rt i t \<longleftrightarrow> RequestTime t i \<in> set (times rt)"

lemma wp_on_times [wp_simps]: "wpg b (on_times m) Q = (\<lambda>rt. wpg b m (\<lambda>a h. Q a (rt\<lparr>times := h\<rparr>)) (times rt))"
  by (simp add: on_times_def wp_simps)

lemma rt_minTime_spec:
  assumes "rt_heap rt" and "times rt \<noteq> []"
  shows "wp rt_minTime (\<lambda>m rt'. rt' = rt \<and> m \<in> rt_time ` set (times rt)
           \<and> (\<forall>x \<in> set (times rt). m \<le> rt_time x)) rt"
proof -
  have "wp h_Min (\<lambda>x h'. h' = times rt \<and> x \<in># mset (times rt)
          \<and> (\<forall>y \<in># mset (times rt). x \<le> y)) (times rt)"
    using assms by (intro th.min_law) (simp_all add: rt_heap_def)
  then show ?thesis
    unfolding rt_minTime_def wp_bnd wp_on_times wp_ret
    by (rule wp_mono) (auto intro: requestTime_less_time)
qed

lemma rt_reset_spec:
  assumes "rt_heap rt" and "times rt \<noteq> []"
  shows "wp rt_reset (\<lambda>_ rt'. rt_inv rt' \<and> times rt' = times rt \<and> rt_matcher rt' = rt_matcher rt) rt"
  unfolding rt_reset_def wp_bnd wp_modify
  by (rule wp_mono, rule rt_minTime_spec [OF assms])
     (use assms in \<open>auto simp: rt_inv_def rt_heap_def rt_armed_def\<close>)

lemma rt_rearm_spec:
  assumes "rt_heap rt"
  shows "wp rt_rearm (\<lambda>_ rt'. rt_inv rt' \<and> times rt' = times rt \<and> rt_matcher rt' = rt_matcher rt) rt"
proof (cases "times rt = []")
  case True
  then show ?thesis
    using assms by (simp add: rt_rearm_def wp_simps rt_inv_def rt_armed_def)
next
  case False
  then show ?thesis
    using rt_reset_spec [OF assms] by (simp add: rt_rearm_def wp_simps)
qed

lemma rt_insert_spec:
  assumes inv: "rt_inv rt"
  shows "wp (rt_insert t) (\<lambda>_ rt'. rt_inv rt' \<and> mset (times rt') = add_mset t (mset (times rt))
           \<and> rt_matcher rt' = rt_matcher rt) rt"
proof -
  let ?Q = "\<lambda>_ rt'. rt_inv rt' \<and> mset (times rt') = add_mset t (mset (times rt))
           \<and> rt_matcher rt' = rt_matcher rt"
  have "wp (h_Push t) (\<lambda>_ h. heap_inv h \<and> mset h = add_mset t (mset (times rt))) (times rt)"
    using inv by (intro th.push_law) (simp add: rt_inv_def rt_heap_def)
  then have "wp (h_Push t) (\<lambda>_ h. wp (bnd rt_minTime (\<lambda>m.
      if m = rt_time t then thn rt_stop rt_reset else ret ())) ?Q (rt\<lparr>times := h\<rparr>)) (times rt)"
  proof (rule wp_mono, elim conjE)
    fix h
    assume h: "heap_inv h" and bag: "mset h = add_mset t (mset (times rt))"
    let ?rt = "rt\<lparr>times := h\<rparr>"
    have ne: "h \<noteq> []" and set: "set h = insert t (set (times rt))"
      using bag by (auto dest: arg_cong [of _ _ set_mset])
    have "wp rt_minTime (\<lambda>m. wp (if m = rt_time t then thn rt_stop rt_reset else ret ()) ?Q) ?rt"
    proof (rule wp_mono, rule rt_minTime_spec, goal_cases)
      case (3 m rt')
      then have m: "m \<in> rt_time ` set h" "\<forall>x \<in> set h. m \<le> rt_time x" and rt': "rt' = ?rt"
        by auto
      show ?case
      proof (cases "m = rt_time t")
        case True
        have "wp rt_reset ?Q (?rt\<lparr>timer := None\<rparr>)"
          by (rule wp_mono, rule rt_reset_spec) (use h ne bag in \<open>auto simp: rt_heap_def\<close>)
        with True rt' show ?thesis
          by (simp add: wp_simps rt_stop_def)
      next
        case False
        then obtain y where y: "y \<in> set (times rt)" "m = rt_time y"
          using m(1) set by auto
        then obtain x where x: "x \<in> set (times rt)" "timer rt = Some (rt_time x)" "rt_time x \<le> m"
          using inv by (force simp: rt_inv_def rt_armed_def)
        then have "rt_time x = m"
          using m(2) set by (auto intro: antisym)
        with x y m set have "rt_armed ?rt"
          by (auto simp: rt_armed_def)
        with False rt' h bag show ?thesis
          by (simp add: wp_simps rt_inv_def rt_heap_def)
      qed
    qed (use h ne in \<open>simp_all add: rt_heap_def\<close>)
    then show "wp (bnd rt_minTime (\<lambda>m. if m = rt_time t then thn rt_stop rt_reset else ret ()))
        ?Q ?rt"
      by (simp only: wp_bnd)
  qed
  then show ?thesis
    by (simp only: rt_insert_def wp_thn wp_on_times)
qed

lemma rt_take_past_spec:
  assumes heap: "rt_heap rt"
  shows "wp (rt_take_past t) (\<lambda>past rt'. rt_heap rt' \<and> timer rt' = timer rt
           \<and> rt_matcher rt' = rt_matcher rt
           \<and> mset past = image_mset rt_req (filter_mset (\<lambda>x. rt_time x < t) (mset (times rt)))
           \<and> mset (times rt') = filter_mset (\<lambda>x. \<not> rt_time x < t) (mset (times rt))) rt"
proof -
  have "wp (pop_while length h_Min h_Pop (\<lambda>x. rt_time x < t) (Suc (length (times rt))) [])
      (\<lambda>xs h. heap_inv h \<and> mset xs = mset [] + filter_mset (\<lambda>x. rt_time x < t) (mset (times rt))
         \<and> mset h = filter_mset (\<lambda>x. \<not> rt_time x < t) (mset (times rt))) (times rt)"
    using heap
    by (intro th.pop_while_spec)
       (auto simp: rt_heap_def dest: requestTime_less_time)
  then show ?thesis
    unfolding rt_take_past_def wp_bnd wp_gets wp_on_times wp_ret
    by (rule wp_mono) (auto simp: rt_heap_def)
qed

section \<open>Properties of the collection of times\<close>

lemma rt_inv_new: "rt_inv (newRequestTimes far)"
  by (simp add: rt_inv_def rt_heap_def rt_armed_def newRequestTimes_def heap_inv_def heap_ok_def)

lemma rt_inserts_spec:
  assumes "rt_inv rt"
  shows "wp (for_each rt_insert xs) (\<lambda>_ rt'. rt_inv rt' \<and> mset (times rt') = mset (times rt) + mset xs) rt"
proof -
  have "wp (for_each rt_insert xs)
      (\<lambda>_ rt'. rt_inv rt' \<and> mset (times rt') = mset (times rt) + mset ([] @ xs)) rt"
  proof (rule wp_for_each_acc [where I = "\<lambda>ys rt'. rt_inv rt' \<and> mset (times rt') = mset (times rt) + mset ys"])
    show "wp (rt_insert x) (\<lambda>_ rt'. rt_inv rt' \<and> mset (times rt') = mset (times rt) + mset (ys @ [x])) s"
      if "rt_inv s \<and> mset (times s) = mset (times rt) + mset ys" for x ys s
      by (rule wp_mono, rule rt_insert_spec) (use that in auto)
  qed (simp add: assms)
  then show ?thesis by simp
qed

lemma rt_armed_Min:
  assumes "rt_armed rt" and "times rt \<noteq> []"
  shows "timer rt = Some (Min (rt_time ` set (times rt)))"
proof -
  obtain x where x: "x \<in> set (times rt)" "timer rt = Some (rt_time x)"
    using assms by (auto simp: rt_armed_def)
  moreover have "rt_time x = Min (rt_time ` set (times rt))"
    by (rule Min_eqI [symmetric]) (use assms(1) x in \<open>auto simp: rt_armed_def\<close>)
  ultimately show ?thesis by simp
qed

text \<open>
  However points in time are inserted into a new collection, its timer is set for the
  earliest of them, and all of them are kept.
\<close>

theorem timer_set_for_earliest:
  assumes "xs \<noteq> []"
  shows "wp (for_each rt_insert xs) (\<lambda>_ rt. timer rt = Some (Min (rt_time ` set xs))
           \<and> mset (times rt) = mset xs) (newRequestTimes far)"
proof (rule wp_mono, rule rt_inserts_spec [OF rt_inv_new], elim conjE)
  fix rt
  assume "rt_inv rt" and "mset (times rt) = mset (times (newRequestTimes far)) + mset xs"
  then have rt: "rt_inv rt" "mset (times rt) = mset xs"
    by (simp_all add: newRequestTimes_def)
  then have "set (times rt) = set xs" "times rt \<noteq> []"
    using assms by (auto dest: mset_eq_setD)
  with rt rt_armed_Min [of rt] show "timer rt = Some (Min (rt_time ` set xs)) \<and> mset (times rt) = mset xs"
    by (simp add: rt_inv_def)
qed

lemma timer_set_for_earliest_witness:
  "\<exists>rt. for_each rt_insert [RequestTime 40 1, RequestTime 25 2, RequestTime 30 3]
          (newRequestTimes 1000) = Returns ((), rt) \<and> timer rt = Some 25"
  using wp_returns [OF timer_set_for_earliest [of "[RequestTime 40 1, RequestTime 25 2, RequestTime 30 3]" 1000]]
  by auto

text \<open>
  When the timer fires at time \<open>t\<close>, the turn of the loop takes exactly the points in
  time before \<open>t\<close>, leaves exactly the others, and sets the timer for the earliest that is
  left.  So no point in time is lost or reported twice, and none is left without a timer.
\<close>

theorem firing_takes_the_past:
  assumes "rt_heap rt"
  shows "wp (bnd (rt_take_past t) (\<lambda>past. thn rt_rearm (ret past)))
    (\<lambda>past rt'. mset past = image_mset rt_req (filter_mset (\<lambda>x. rt_time x < t) (mset (times rt)))
       \<and> mset (times rt') = filter_mset (\<lambda>x. \<not> rt_time x < t) (mset (times rt))
       \<and> (times rt' = [] \<or> timer rt' = Some (Min (rt_time ` set (times rt')))) \<and> rt_heap rt') rt"
  unfolding wp_bnd
proof (rule wp_mono, rule rt_take_past_spec [OF assms], elim conjE)
  fix past rt1
  assume h: "rt_heap rt1"
    and past: "mset past = image_mset rt_req (filter_mset (\<lambda>x. rt_time x < t) (mset (times rt)))"
    and left: "mset (times rt1) = filter_mset (\<lambda>x. \<not> rt_time x < t) (mset (times rt))"
  show "wp (thn rt_rearm (ret past))
    (\<lambda>past rt'. mset past = image_mset rt_req (filter_mset (\<lambda>x. rt_time x < t) (mset (times rt)))
       \<and> mset (times rt') = filter_mset (\<lambda>x. \<not> rt_time x < t) (mset (times rt))
       \<and> (times rt' = [] \<or> timer rt' = Some (Min (rt_time ` set (times rt')))) \<and> rt_heap rt') rt1"
    unfolding wp_thn wp_ret
  proof (rule wp_mono, rule rt_rearm_spec [OF h], elim conjE)
    fix rt2
    assume "rt_inv rt2" and "times rt2 = times rt1"
    then show "mset past = image_mset rt_req (filter_mset (\<lambda>x. rt_time x < t) (mset (times rt)))
       \<and> mset (times rt2) = filter_mset (\<lambda>x. \<not> rt_time x < t) (mset (times rt))
       \<and> (times rt2 = [] \<or> timer rt2 = Some (Min (rt_time ` set (times rt2)))) \<and> rt_heap rt2"
      using past left rt_armed_Min [of rt2] by (auto simp: rt_inv_def)
  qed
qed

lemma firing_takes_the_past_witness:
  "\<exists>rt. bnd (rt_take_past 30) (\<lambda>past. thn rt_rearm (ret past))
      \<lparr>times = [RequestTime 25 2, RequestTime 40 1], timer = None, rt_matcher = None\<rparr>
    = Returns ([2], rt) \<and> timer rt = Some 40"
proof -
  let ?rt = "\<lparr>times = [RequestTime 25 2, RequestTime 40 1], timer = None, rt_matcher = None\<rparr>"
  have "rt_heap ?rt"
    by (auto simp: rt_heap_def heap_inv_def heap_ok_def less_Suc_eq parent_def
        less_eq_requestTime_def less_requestTime_def rt_less_def)
  from wp_returns [OF firing_takes_the_past [OF this, of 30]] show ?thesis
    by (auto simp: rt_heap_def dest: mset_eq_setD)
qed

end
