(* ===== verification/Lists.thy ===== *)
theory Lists
  imports Types "HOL-Library.Multiset"
begin

text \<open>
  What listing and filtering share: letter case and white space of strings
  (\<open>strings.ToLower\<close>, \<open>strings.ToUpper\<close> and \<open>strings.TrimSpace\<close> on ASCII strings),
  the order and direction types of \<open>lists.go\<close> with their texts, and \<open>sort.Sort\<close>.

  \<open>sort.Sort\<close> is not stable and its algorithm is not part of its contract.  Every list
  the server sorts has pairwise distinct identifiers, and the contract \<open>sorter\<close> asks of
  a \<open>Less\<close> that it orders elements with different identifiers totally.  There is then
  exactly one sorted permutation, so the insertion sort used here returns what any
  implementation returns (\<open>go_sort_unique\<close>).
\<close>

section \<open>Strings\<close>

definition char_lower :: "char \<Rightarrow> char" where
  "char_lower c = (let n = of_char c :: nat in if 65 \<le> n \<and> n \<le> 90 then char_of (n + 32) else c)"

definition char_upper :: "char \<Rightarrow> char" where
  "char_upper c = (let n = of_char c :: nat in if 97 \<le> n \<and> n \<le> 122 then char_of (n - 32) else c)"

definition ToLower :: "string \<Rightarrow> string" where
  "ToLower s = map char_lower s"

definition ToUpper :: "string \<Rightarrow> string" where
  "ToUpper s = map char_upper s"

definition is_space :: "char \<Rightarrow> bool" where
  "is_space c = (let n = of_char c :: nat in n = 32 \<or> 9 \<le> n \<and> n \<le> 13)"

definition TrimSpace :: "string \<Rightarrow> string" where
  "TrimSpace s = rev (dropWhile is_space (rev (dropWhile is_space s)))"

section \<open>Order and direction\<close>

type_synonym SortOrder = bool
type_synonym ListDirection = bool

definition SortOrderAsc :: SortOrder where
  "SortOrderAsc = False"

definition SortOrderDesc :: SortOrder where
  "SortOrderDesc = True"

definition DirectionForward :: ListDirection where
  "DirectionForward = False"

definition DirectionBackward :: ListDirection where
  "DirectionBackward = True"

record SortInfo =
  Item :: string
  Order :: SortOrder

definition SortOrder_String :: "SortOrder \<Rightarrow> string" where
  "SortOrder_String order = (if order = SortOrderDesc then ''descending'' else ''ascending'')"

definition SortOrder_Unmarshal :: "string \<Rightarrow> error + SortOrder" where
  "SortOrder_Unmarshal text =
     (let t = ToLower text in
      if t = '''' \<or> t = SortOrder_String SortOrderAsc then Inr SortOrderAsc
      else if t = SortOrder_String SortOrderDesc then Inr SortOrderDesc
      else Inl ErrWrongSortOrder)"

definition ListDirection_String :: "ListDirection \<Rightarrow> string" where
  "ListDirection_String direction =
     (if direction = DirectionBackward then ''backward'' else ''forward'')"

definition ListDirection_Unmarshal :: "string \<Rightarrow> error + ListDirection" where
  "ListDirection_Unmarshal text =
     (let t = ToLower text in
      if t = '''' \<or> t = ListDirection_String DirectionForward then Inr DirectionForward
      else if t = ListDirection_String DirectionBackward then Inr DirectionBackward
      else Inl ErrWrongListDirection)"

section \<open>Sorting\<close>

fun sort_insert :: "('a \<Rightarrow> 'a \<Rightarrow> bool) \<Rightarrow> 'a \<Rightarrow> 'a list \<Rightarrow> 'a list" where
  "sort_insert lt x [] = [x]"
| "sort_insert lt x (y # ys) = (if lt x y then x # y # ys else y # sort_insert lt x ys)"

fun go_sort :: "('a \<Rightarrow> 'a \<Rightarrow> bool) \<Rightarrow> 'a list \<Rightarrow> 'a list" where
  "go_sort lt [] = []"
| "go_sort lt (x # xs) = sort_insert lt x (go_sort lt xs)"

lemma mset_sort_insert [simp]: "mset (sort_insert lt x xs) = add_mset x (mset xs)"
  by (induction xs) auto

lemma mset_go_sort [simp]: "mset (go_sort lt xs) = mset xs"
  by (induction xs) auto

lemma set_go_sort [simp]: "set (go_sort lt xs) = set xs"
  by (metis mset_go_sort set_mset_mset)

lemma length_go_sort [simp]: "length (go_sort lt xs) = length xs"
  by (metis mset_go_sort size_mset)

lemma set_sort_insert [simp]: "set (sort_insert lt x xs) = insert x (set xs)"
  by (metis mset_sort_insert set_mset_add_mset_insert set_mset_mset)

text \<open>A \<open>Less\<close> that orders the elements with different identifiers.\<close>

locale sorter =
  fixes lt :: "'a \<Rightarrow> 'a \<Rightarrow> bool"
    and ident :: "'a \<Rightarrow> 'k"
  assumes asym: "ident x \<noteq> ident y \<Longrightarrow> lt x y \<Longrightarrow> \<not> lt y x"
    and total: "ident x \<noteq> ident y \<Longrightarrow> \<not> lt y x \<Longrightarrow> lt x y"
    and trans: "ident x \<noteq> ident y \<Longrightarrow> ident y \<noteq> ident z \<Longrightarrow> ident x \<noteq> ident z \<Longrightarrow>
          lt x y \<Longrightarrow> lt y z \<Longrightarrow> lt x z"
begin

lemma sorted_sort_insert:
  "distinct (map ident (x # xs)) \<Longrightarrow> sorted_wrt lt xs \<Longrightarrow> sorted_wrt lt (sort_insert lt x xs)"
proof (induction xs)
  case (Cons y ys)
  then have xy: "ident x \<noteq> ident y" and others: "\<And>z. z \<in> set ys \<Longrightarrow> ident x \<noteq> ident z \<and> ident y \<noteq> ident z"
    by force+
  show ?case
  proof (cases "lt x y")
    case True
    then have "lt x z" if "z \<in> set ys" for z
      using that Cons.prems(2) others [OF that] xy trans [of x y z] by auto
    with True Cons.prems show ?thesis by simp
  next
    case False
    then have "lt y x" using xy total by blast
    with False Cons show ?thesis by auto
  qed
qed simp

lemma go_sort_sorted: "distinct (map ident xs) \<Longrightarrow> sorted_wrt lt (go_sort lt xs)"
proof (induction xs)
  case (Cons x xs)
  have "ident x \<notin> ident ` set (go_sort lt xs)"
    using Cons.prems by simp
  moreover have "distinct (map ident (go_sort lt xs))"
    using Cons.prems by (metis distinct.simps(2) list.simps(9) mset_eq_imp_distinct_iff mset_go_sort mset_map)
  ultimately show ?case
    using Cons by (simp add: sorted_sort_insert)
qed simp

text \<open>Two sorted permutations of elements with different identifiers are the same list.\<close>

lemma sorted_permutation_unique:
  "mset xs = mset ys \<Longrightarrow> distinct (map ident xs) \<Longrightarrow> sorted_wrt lt xs \<Longrightarrow> sorted_wrt lt ys \<Longrightarrow> xs = ys"
proof (induction xs arbitrary: ys)
  case (Cons x xs)
  then obtain y zs where ys: "ys = y # zs"
    by (cases ys) auto
  have sets: "insert x (set xs) = insert y (set zs)"
    using Cons.prems(1) ys by (metis list.simps(15) set_mset_mset)
  have "x = y"
  proof (rule ccontr)
    assume "x \<noteq> y"
    with sets have "x \<in> set zs" "y \<in> set xs" by auto
    with Cons.prems ys have "lt x y" "lt y x" "ident x \<noteq> ident y" by auto
    then show False using asym by blast
  qed
  with Cons ys show ?case by simp
qed simp

lemma go_sort_unique:
  assumes "distinct (map ident xs)" and "mset ys = mset xs" and "sorted_wrt lt ys"
  shows "ys = go_sort lt xs"
proof (rule sorted_permutation_unique)
  show "distinct (map ident ys)"
    using assms(1,2) by (metis mset_eq_imp_distinct_iff mset_map)
qed (simp_all add: assms go_sort_sorted)

lemma go_sort_perm:
  "distinct (map ident xs) \<Longrightarrow> mset ys = mset xs \<Longrightarrow> go_sort lt ys = go_sort lt xs"
  by (rule go_sort_unique) (simp_all, metis go_sort_sorted mset_eq_imp_distinct_iff mset_map)

end

text \<open>
  The sorters of the code compare a key first and an identifier when the keys are equal,
  and turn the result of each comparison for the descending order.
\<close>

locale keyed_sorter =
  fixes lt :: "'a \<Rightarrow> 'a \<Rightarrow> bool"
    and key :: "'a \<Rightarrow> 'b::linorder"
    and ident :: "'a \<Rightarrow> 'k::linorder"
    and asc :: bool
  assumes lt_key: "ident x \<noteq> ident y \<Longrightarrow> lt x y \<longleftrightarrow>
          (if asc then key x < key y \<or> key x = key y \<and> ident x < ident y
           else key y < key x \<or> key x = key y \<and> ident y < ident x)"

sublocale keyed_sorter \<subseteq> sorter lt ident
proof
  show "ident x \<noteq> ident y \<Longrightarrow> lt x y \<Longrightarrow> \<not> lt y x" for x y
    using lt_key [of x y] lt_key [of y x] by (auto split: if_splits)
  show "ident x \<noteq> ident y \<Longrightarrow> \<not> lt y x \<Longrightarrow> lt x y" for x y
    using lt_key [of x y] lt_key [of y x] by (auto split: if_splits)
  show "lt x z" if "ident x \<noteq> ident y" "ident y \<noteq> ident z" "ident x \<noteq> ident z" "lt x y" "lt y z" for x y z
    using that lt_key [of x y] lt_key [of y z] lt_key [of x z] by (auto split: if_splits)
qed

end
