(* ===== verification/ListFilter.thy ===== *)
theory ListFilter
  imports Lists
begin

text \<open>
  The list filters, \<open>filter/filter.go\<close>.  \<open>Match\<close> takes any value and rejects a value
  of the wrong type or a nil pointer, so its argument is a tagged value here.
\<close>

section \<open>Filters\<close>

datatype list_elem =
    ReqElem "ReqInfo option"
  | WorkerElem "WorkerInfo option"
  | OtherElem

record WorkersFilter =
  fGroups :: Groups
  fCaps :: Capabilities
  fmatcher :: "Group \<rightharpoonup> bool"

record RequestsFilter =
  fIDs :: "ReqID list"
  fPriorities :: "Priority list"
  fStates :: "string list"

definition NewRequests :: "ReqID list \<Rightarrow> Priority list \<Rightarrow> string list \<Rightarrow> RequestsFilter" where
  "NewRequests ids priorities states =
     \<lparr>fIDs = ids, fPriorities = priorities, fStates = map (\<lambda>s. TrimSpace (ToUpper s)) states\<rparr>"

fun inSlice :: "'a \<Rightarrow> 'a list \<Rightarrow> bool" where
  "inSlice x [] = False"
| "inSlice x (e # es) = (if e = x then True else inSlice x es)"

definition Requests_Match :: "RequestsFilter \<Rightarrow> list_elem \<Rightarrow> bool" where
  "Requests_Match f elem = (case elem of
       ReqElem (Some req) \<Rightarrow>
         if length (fIDs f) > 0 \<and> \<not> inSlice (ID req) (fIDs f) then False
         else if length (fStates f) > 0 \<and> \<not> inSlice (ReqState_text (RState req)) (fStates f) then False
         else if length (fPriorities f) > 0 \<and> \<not> inSlice (Prio req) (fPriorities f) then False
         else True
     | _ \<Rightarrow> False)"

fun makeMatcher_loop :: "Groups \<Rightarrow> (Group \<rightharpoonup> bool) \<Rightarrow> (Group \<rightharpoonup> bool)" where
  "makeMatcher_loop [] m = m"
| "makeMatcher_loop (g # gs) m = makeMatcher_loop gs (m(g \<mapsto> True))"

definition makeMatcher :: "Groups \<Rightarrow> (Group \<rightharpoonup> bool)" where
  "makeMatcher groups = makeMatcher_loop groups (\<lambda>_. None)"

definition NewWorkers :: "Groups \<Rightarrow> Capabilities \<Rightarrow> WorkersFilter" where
  "NewWorkers groups caps = \<lparr>fGroups = groups, fCaps = caps, fmatcher = makeMatcher groups\<rparr>"

text \<open>The loop over the required capabilities: the order of a map's range does not matter.\<close>

definition isCapsMatching :: "WorkerInfo \<Rightarrow> Capabilities \<Rightarrow> bool" where
  "isCapsMatching worker caps =
     (if card (dom caps) = 0 then True
      else (\<forall>k \<in> dom caps. WCaps worker k \<noteq> None \<and> WCaps worker k = caps k))"

fun any_group :: "Groups \<Rightarrow> (Group \<rightharpoonup> bool) \<Rightarrow> bool" where
  "any_group [] matcher = False"
| "any_group (g # gs) matcher = (if matcher g = Some True then True else any_group gs matcher)"

definition isGroupsMatching :: "WorkerInfo \<Rightarrow> (Group \<rightharpoonup> bool) \<Rightarrow> bool" where
  "isGroupsMatching worker matcher =
     (if card (dom matcher) = 0 then True else any_group (WGroups worker) matcher)"

definition Workers_Match :: "WorkersFilter \<Rightarrow> list_elem \<Rightarrow> bool" where
  "Workers_Match f elem = (case elem of
       WorkerElem (Some worker) \<Rightarrow>
         if \<not> isGroupsMatching worker (fmatcher f) then False
         else if \<not> isCapsMatching worker (fCaps f) then False
         else True
     | _ \<Rightarrow> False)"

section \<open>What the filters accept\<close>

lemma inSlice_iff [simp]: "inSlice x es \<longleftrightarrow> x \<in> set es"
  by (induction es) auto

lemma makeMatcher_loop_apply:
  "makeMatcher_loop gs m g = (if g \<in> set gs then Some True else m g)"
  by (induction gs arbitrary: m) auto

lemma makeMatcher_apply: "makeMatcher gs g = (if g \<in> set gs then Some True else None)"
  by (simp add: makeMatcher_def makeMatcher_loop_apply)

lemma dom_makeMatcher: "dom (makeMatcher gs) = set gs"
  by (auto simp: makeMatcher_apply split: if_splits)

lemma any_group_iff: "any_group gs m \<longleftrightarrow> (\<exists>g \<in> set gs. m g = Some True)"
  by (induction gs) auto

text \<open>A worker satisfies requirements when it shares a group and offers every capability.\<close>

definition satisfies :: "WorkerInfo \<Rightarrow> Groups \<Rightarrow> Capabilities \<Rightarrow> bool" where
  "satisfies w groups caps \<longleftrightarrow>
     (groups = [] \<or> set (WGroups w) \<inter> set groups \<noteq> {}) \<and> caps \<subseteq>\<^sub>m WCaps w"

lemma isGroupsMatching_makeMatcher:
  "isGroupsMatching w (makeMatcher gs) \<longleftrightarrow> gs = [] \<or> set (WGroups w) \<inter> set gs \<noteq> {}"
  by (auto simp: isGroupsMatching_def dom_makeMatcher any_group_iff makeMatcher_apply)

lemma isCapsMatching_iff:
  "finite (dom caps) \<Longrightarrow> isCapsMatching w caps \<longleftrightarrow> caps \<subseteq>\<^sub>m WCaps w"
  by (auto simp: isCapsMatching_def map_le_def dom_def)

lemma Workers_Match_NewWorkers:
  "finite (dom caps) \<Longrightarrow>
   Workers_Match (NewWorkers groups caps) (WorkerElem (Some w)) \<longleftrightarrow> satisfies w groups caps"
  by (simp add: Workers_Match_def NewWorkers_def satisfies_def isGroupsMatching_makeMatcher
      isCapsMatching_iff)

text \<open>
  C23. The filter made from a user's groups and the required capabilities accepts exactly
  the workers that share a group with the user (any worker when the user has no groups)
  and offer every required capability with the required value.
\<close>

theorem filter_accepts_satisfying:
  assumes "finite (dom caps)"
  shows "Workers_Match (NewWorkers groups caps) (WorkerElem (Some w)) \<longleftrightarrow>
     (groups = [] \<or> (\<exists>g. g \<in> set groups \<and> g \<in> set (WGroups w)))
     \<and> (\<forall>k v. caps k = Some v \<longrightarrow> WCaps w k = Some v)"
  using Workers_Match_NewWorkers [OF assms, of groups w]
  by (auto simp: satisfies_def map_le_def dom_def)

lemma filter_accepts_satisfying_witness:
  "Workers_Match (NewWorkers [''a'', ''b''] [''arch'' \<mapsto> ''arm''])
     (WorkerElem (Some \<lparr>WUUID = ''u'', WState = IDLE, WGroups = [''b''],
        WCaps = [''arch'' \<mapsto> ''arm'', ''ram'' \<mapsto> ''1'']\<rparr>))"
  by (subst filter_accepts_satisfying) auto

end
