(* ===== verification/Calendar.thy ===== *)
theory Calendar
  imports Types
begin

text \<open>
  \<open>time.Now().AddDate(0, 1, 0)\<close>, the default deadline of a request.  The standard
  library adds one to the month of the local date and normalises the day, so it moves by
  the number of days of the current month: the 31st of January goes to the 2nd or 3rd of
  March.  The date is computed the way package \<open>time\<close> does, from the days since the
  start of year 1, by cycles of 400, 100, 4 and 1 years; \<open>tz\<close> is the offset of the
  server's location from UTC, in minutes and constant here.
\<close>

definition day_ns :: int where
  "day_ns = 86400000000000"

definition hour_ns :: int where
  "hour_ns = 3600000000000"

definition leap :: "int \<Rightarrow> bool" where
  "leap y = (y mod 4 = 0 \<and> (y mod 100 \<noteq> 0 \<or> y mod 400 = 0))"

text \<open>Year, and day of the year from 0, of a day number.\<close>

definition year_yday :: "int \<Rightarrow> int \<times> int" where
  "year_yday d0 =
     (let n400 = d0 div 146097; d1 = d0 - 146097 * n400;
          c = d1 div 36524; n100 = c - c div 4; d2 = d1 - 36524 * n100;
          n4 = d2 div 1461; d3 = d2 - 1461 * n4;
          a = d3 div 365; n1 = a - a div 4; d4 = d3 - 365 * n1
      in (400 * n400 + 100 * n100 + 4 * n4 + n1 + 1, d4))"

fun month_length :: "int \<Rightarrow> int list \<Rightarrow> int" where
  "month_length yday [] = 31"
| "month_length yday (m # ms) = (if yday < m then m else month_length (yday - m) ms)"

definition days_in_month :: "int \<Rightarrow> int" where
  "days_in_month d =
     (case year_yday d of (y, yday) \<Rightarrow>
        month_length yday [31, if leap y then 29 else 28, 31, 30, 31, 30, 31, 31, 30, 31, 30, 31])"

definition addMonth :: "zone \<Rightarrow> time \<Rightarrow> time" where
  "addMonth tz t = t + days_in_month ((t + tz * minute_ns) div day_ns) * day_ns"

lemma month_length_in: "month_length yday ms \<in> insert 31 (set ms)"
  by (induction yday ms rule: month_length.induct) auto

lemma days_in_month_bounds: "28 \<le> days_in_month d \<and> days_in_month d \<le> 31"
  by (cases "year_yday d")
     (use month_length_in [of "snd (year_yday d)" "[31, if leap (fst (year_yday d)) then 29 else 28,
         31, 30, 31, 30, 31, 31, 30, 31, 30, 31]"] in \<open>auto simp: days_in_month_def split: if_splits\<close>)

lemma addMonth_after: "t < addMonth tz t"
  using days_in_month_bounds [of "(t + tz * minute_ns) div day_ns"] by (simp add: addMonth_def day_ns_def)

end
