(* ===== verification/State.thy ===== *)
theory State
  imports Queue Times ListFilter Calendar
begin

text \<open>
  The state of the server process: the structs \<open>ReqsCollection\<close>
  (\<open>requests/requests.go\<close>), \<open>JobsManagerImpl\<close> (\<open>matcher/jobs.go\<close>) and \<open>WorkerList\<close>
  (\<open>workers/workers.go\<close>), the mutexes, the channels and goroutines of the workers, the
  open tunnels, and what the environment answers (the clock, the ports the operating
  system hands out).

  A mutex is in \<open>held\<close> while it is locked.  \<open>lock\<close> blocks when the mutex is held, also
  by the calling goroutine: Go's mutexes are not reentrant.  A read lock is treated as a
  lock, since each reader here releases it within the same operation.  \<open>critical\<close> is
  the idiom \<open>Lock(); defer Unlock()\<close>.
\<close>

section \<open>Records\<close>

record ReqsCollection =
  requests :: "ReqID \<rightharpoonup> ReqInfo"
  rqueue :: prioQueue
  iterating :: bool
  validAfterTimes :: requestTimes
  deadlineTimes :: requestTimes
  timeoutTimes :: requestTimes

text \<open>A tunnel, \<open>tunnels/tunnels.go\<close>, with a number that tells it from all others.\<close>

record Tunnel =
  tun_id :: nat
  dest :: TCPAddr
  listener :: TCPAddr

record Job =
  Access :: AccessInfo
  jTunnel :: Tunnel
  jReq :: ReqID

record mapWorker =
  info :: WorkerInfo
  dryad :: TCPAddr
  sshd :: TCPAddr
  wkey :: "PrivateKey option"
  backgroundOperation :: nat

record WorkerList =
  workers :: "WorkerUUID \<rightharpoonup> mapWorker"
  changeListener :: bool

text \<open>A buffered channel of worker states.\<close>

record chan =
  buf :: "WorkerState list"
  closed :: bool

record pendingOperation =
  op_state :: WorkerState
  op_open :: bool
  op_got :: bool

text \<open>
  Where a worker's background goroutine is: at the head of its loop with the operation
  it holds, or in one of the long operations before the call named.  \<open>must_check\<close> is set
  while the next thing it does is \<open>checkPendingOperation\<close>.
\<close>

datatype bg_pc =
    AtLoop pendingOperation
  | PkAddr
  | PkDial TCPAddr
  | PkGenerate
  | PkPublic PrivateKey
  | PkInstall PrivateKey
  | PkStore PrivateKey
  | PmAddr
  | PmDial TCPAddr
  | PmOrder
  | Settle WorkerState "error option"
  | Ended

record bg =
  bg_uuid :: WorkerUUID
  bg_pc :: bg_pc
  must_check :: bool

datatype times_kind = ValidAfterTimes | DeadlineTimes | TimeoutTimes

datatype lock_id =
    ReqsMutex
  | QueueMutex
  | TimesMutex times_kind
  | JobsMutex
  | WorkersMutex

record server =
  held :: "lock_id set"
  clock :: "nat \<Rightarrow> time"
  tz_offset :: zone
  ports :: "nat \<Rightarrow> int option"
  open_tunnels :: "nat set"
  next_tunnel :: nat
  rc :: ReqsCollection
  jobs :: "WorkerUUID \<rightharpoonup> Job"
  wl :: WorkerList
  chans :: "nat \<Rightarrow> chan"
  next_chan :: nat
  bgs :: "nat \<rightharpoonup> bg"

type_synonym 'a op = "(server, 'a) prog"

section \<open>Mutexes\<close>

definition lock :: "lock_id \<Rightarrow> unit op" where
  "lock l = bnd (gets held) (\<lambda>h. if l \<in> h then block else modify (\<lambda>s. s\<lparr>held := insert l (held s)\<rparr>))"

definition unlock :: "lock_id \<Rightarrow> unit op" where
  "unlock l = bnd (gets held) (\<lambda>h.
     if l \<in> h then modify (\<lambda>s. s\<lparr>held := held s - {l}\<rparr>) else panic ''unlock of unlocked mutex'')"

definition critical :: "lock_id \<Rightarrow> 'a op \<Rightarrow> 'a op" where
  "critical l m = thn (lock l) (bnd m (\<lambda>r. thn (unlock l) (ret r)))"

lemma wp_lock [wp_simps]:
  "wpg b (lock l) Q = (\<lambda>s. if l \<in> held s then b else Q () (s\<lparr>held := insert l (held s)\<rparr>))"
  by (auto simp: fun_eq_iff lock_def wp_simps)

lemma wp_unlock [wp_simps]:
  "wpg b (unlock l) Q = (\<lambda>s. (l \<in> held s \<and> Q () (s\<lparr>held := held s - {l}\<rparr>)))"
  by (auto simp: fun_eq_iff unlock_def wp_simps)

lemma wp_critical [wp_simps]:
  "wpg b (critical l m) Q = (\<lambda>s. if l \<in> held s then b else
     wpg b m (\<lambda>r s'. l \<in> held s' \<and> Q r (s'\<lparr>held := held s' - {l}\<rparr>)) (s\<lparr>held := insert l (held s)\<rparr>))"
  by (simp add: critical_def wp_simps)

section \<open>Parts of the state\<close>

definition get_requests :: "(ReqID \<rightharpoonup> ReqInfo) op" where
  "get_requests = gets (\<lambda>s. requests (rc s))"

definition get_workers :: "(WorkerUUID \<rightharpoonup> mapWorker) op" where
  "get_workers = gets (\<lambda>s. workers (wl s))"

text \<open>Storing a new request, and changing a stored one through its pointer.\<close>

definition put_request :: "ReqID \<Rightarrow> ReqInfo \<Rightarrow> unit op" where
  "put_request i r = modify (\<lambda>s. s\<lparr>rc := (rc s)\<lparr>requests := (requests (rc s))(i \<mapsto> r)\<rparr>\<rparr>)"

definition upd_request :: "ReqID \<Rightarrow> (ReqInfo \<Rightarrow> ReqInfo) \<Rightarrow> unit op" where
  "upd_request i f = modify (\<lambda>s. s\<lparr>rc := (rc s)\<lparr>requests :=
     (requests (rc s))(i := map_option f (requests (rc s) i))\<rparr>\<rparr>)"

definition upd_worker :: "WorkerUUID \<Rightarrow> (mapWorker \<Rightarrow> mapWorker) \<Rightarrow> unit op" where
  "upd_worker u f = modify (\<lambda>s. s\<lparr>wl := (wl s)\<lparr>workers :=
     (workers (wl s))(u := map_option f (workers (wl s) u))\<rparr>\<rparr>)"

definition on_queue :: "(prioQueue, 'a) prog \<Rightarrow> 'a op" where
  "on_queue = zoom (\<lambda>s. rqueue (rc s)) (\<lambda>q s. s\<lparr>rc := (rc s)\<lparr>rqueue := q\<rparr>\<rparr>)"

fun times_of :: "times_kind \<Rightarrow> ReqsCollection \<Rightarrow> requestTimes" where
  "times_of ValidAfterTimes r = validAfterTimes r"
| "times_of DeadlineTimes r = deadlineTimes r"
| "times_of TimeoutTimes r = timeoutTimes r"

fun set_times :: "times_kind \<Rightarrow> requestTimes \<Rightarrow> ReqsCollection \<Rightarrow> ReqsCollection" where
  "set_times ValidAfterTimes t r = r\<lparr>validAfterTimes := t\<rparr>"
| "set_times DeadlineTimes t r = r\<lparr>deadlineTimes := t\<rparr>"
| "set_times TimeoutTimes t r = r\<lparr>timeoutTimes := t\<rparr>"

definition on_rt :: "times_kind \<Rightarrow> (requestTimes, 'a) prog \<Rightarrow> 'a op" where
  "on_rt k = zoom (\<lambda>s. times_of k (rc s)) (\<lambda>t s. s\<lparr>rc := set_times k t (rc s)\<rparr>)"

section \<open>The environment\<close>

text \<open>\<open>time.Now()\<close> takes the next reading of the clock.\<close>

definition time_Now :: "time op" where
  "time_Now = bnd (gets (\<lambda>s. clock s 0)) (\<lambda>t.
     thn (modify (\<lambda>s. s\<lparr>clock := (\<lambda>i. clock s (Suc i))\<rparr>)) (ret t))"

text \<open>
  \<open>Tunnel.Create\<close> listens on a port the system chooses, or fails; \<open>Tunnel.Close\<close>
  closes a channel, which panics when it is closed already, and stops listening.
\<close>

definition Tunnel_Create :: "TCPAddr \<Rightarrow> (error + Tunnel) op" where
  "Tunnel_Create dst = bnd (gets (\<lambda>s. (ports s 0, next_tunnel s))) (\<lambda>(p, n).
     thn (modify (\<lambda>s. s\<lparr>ports := (\<lambda>i. ports s (Suc i))\<rparr>))
     (case p of
        None \<Rightarrow> ret (Inl (OtherError ''listen failed''))
      | Some port \<Rightarrow>
          thn (modify (\<lambda>s. s\<lparr>open_tunnels := insert n (open_tunnels s), next_tunnel := Suc n\<rparr>))
              (ret (Inr \<lparr>tun_id = n, dest = dst, listener = \<lparr>IP = None, Port = port\<rparr>\<rparr>))))"

definition Tunnel_Close :: "Tunnel \<Rightarrow> unit op" where
  "Tunnel_Close t = bnd (gets open_tunnels) (\<lambda>ts.
     if tun_id t \<in> ts then modify (\<lambda>s. s\<lparr>open_tunnels := open_tunnels s - {tun_id t}\<rparr>)
     else panic ''close of closed channel'')"

text \<open>
  Channels.  A send to a closed channel panics, a send to a full one blocks; closing
  twice panics.  The buffer has room for \<open>backgroundOperationsBufferSize\<close> states.
\<close>

definition backgroundOperationsBufferSize :: nat where
  "backgroundOperationsBufferSize = 32"

definition chan_send :: "nat \<Rightarrow> WorkerState \<Rightarrow> unit op" where
  "chan_send c st = bnd (gets (\<lambda>s. chans s c)) (\<lambda>ch.
     if closed ch then panic ''send on closed channel''
     else if backgroundOperationsBufferSize \<le> length (buf ch) then block
     else modify (\<lambda>s. s\<lparr>chans := (chans s)(c := ch\<lparr>buf := buf ch @ [st]\<rparr>)\<rparr>))"

definition chan_close :: "nat \<Rightarrow> unit op" where
  "chan_close c = bnd (gets (\<lambda>s. chans s c)) (\<lambda>ch.
     if closed ch then panic ''close of closed channel''
     else modify (\<lambda>s. s\<lparr>chans := (chans s)(c := ch\<lparr>closed := True\<rparr>)\<rparr>))"

lemma wp_get_requests [wp_simps]: "wpg b get_requests Q = (\<lambda>s. Q (requests (rc s)) s)"
  by (simp add: get_requests_def wp_simps)

lemma wp_get_workers [wp_simps]: "wpg b get_workers Q = (\<lambda>s. Q (workers (wl s)) s)"
  by (simp add: get_workers_def wp_simps)

lemma wp_put_request [wp_simps]:
  "wpg b (put_request i r) Q = (\<lambda>s. Q () (s\<lparr>rc := (rc s)\<lparr>requests := (requests (rc s))(i \<mapsto> r)\<rparr>\<rparr>))"
  by (simp add: put_request_def wp_simps)

lemma wp_upd_request [wp_simps]:
  "wpg b (upd_request i f) Q = (\<lambda>s. Q () (s\<lparr>rc := (rc s)\<lparr>requests :=
     (requests (rc s))(i := map_option f (requests (rc s) i))\<rparr>\<rparr>))"
  by (simp add: upd_request_def wp_simps)

lemma wp_upd_worker [wp_simps]:
  "wpg b (upd_worker u f) Q = (\<lambda>s. Q () (s\<lparr>wl := (wl s)\<lparr>workers :=
     (workers (wl s))(u := map_option f (workers (wl s) u))\<rparr>\<rparr>))"
  by (simp add: upd_worker_def wp_simps)

lemma wp_on_queue [wp_simps]:
  "wpg b (on_queue m) Q = (\<lambda>s. wpg b m (\<lambda>a q. Q a (s\<lparr>rc := (rc s)\<lparr>rqueue := q\<rparr>\<rparr>)) (rqueue (rc s)))"
  by (simp add: on_queue_def wp_simps)

lemma wp_on_rt [wp_simps]:
  "wpg b (on_rt k m) Q = (\<lambda>s. wpg b m (\<lambda>a t. Q a (s\<lparr>rc := set_times k t (rc s)\<rparr>)) (times_of k (rc s)))"
  by (simp add: on_rt_def wp_simps)

lemma wp_time_Now [wp_simps]:
  "wpg b time_Now Q = (\<lambda>s. Q (clock s 0) (s\<lparr>clock := (\<lambda>i. clock s (Suc i))\<rparr>))"
  by (simp add: time_Now_def wp_simps)

lemma wp_chan_send [wp_simps]:
  "wpg b (chan_send c st) Q = (\<lambda>s. \<not> closed (chans s c) \<and>
     (if backgroundOperationsBufferSize \<le> length (buf (chans s c)) then b
      else Q () (s\<lparr>chans := (chans s)(c := (chans s c)\<lparr>buf := buf (chans s c) @ [st]\<rparr>)\<rparr>)))"
  by (simp add: fun_eq_iff chan_send_def wp_simps)

lemma wp_chan_close [wp_simps]:
  "wpg b (chan_close c) Q = (\<lambda>s. \<not> closed (chans s c) \<and>
     Q () (s\<lparr>chans := (chans s)(c := (chans s c)\<lparr>closed := True\<rparr>)\<rparr>))"
  by (simp add: fun_eq_iff chan_close_def wp_simps)

lemma wp_Tunnel_Close [wp_simps]:
  "wpg b (Tunnel_Close t) Q = (\<lambda>s. tun_id t \<in> open_tunnels s \<and>
     Q () (s\<lparr>open_tunnels := open_tunnels s - {tun_id t}\<rparr>))"
  by (simp add: fun_eq_iff Tunnel_Close_def wp_simps)

text \<open>
  Taking and releasing a mutex leaves the mutexes as they were.
\<close>

lemma held_insert_remove [simp]: "l \<notin> H \<Longrightarrow> insert l H - {l} = H"
  by blast

lemma held_same [simp]: "held s = H \<Longrightarrow> s\<lparr>held := H\<rparr> = s"
  by simp

lemma times_set_times [simp]:
  "times_of k (set_times k' t r) = (if k = k' then t else times_of k r)"
  by (cases k; cases k') simp_all

lemma set_times_fields [simp]:
  "requests (set_times k t r) = requests r" "rqueue (set_times k t r) = rqueue r"
  "iterating (set_times k t r) = iterating r"
  by (cases k; simp)+

lemma times_of_fields [simp]:
  "times_of k (r\<lparr>requests := m\<rparr>) = times_of k r" "times_of k (r\<lparr>rqueue := q\<rparr>) = times_of k r"
  "times_of k (r\<lparr>iterating := b\<rparr>) = times_of k r"
  by (cases k; simp)+

end
