(* ===== verification/Events.thy ===== *)
theory Events
  imports State
begin

text \<open>
  The operations that call no others: lookups and removal in the job store
  (\<open>matcher/jobs.go\<close>), insertion into the collections of times, the queue operations
  under the queue's mutex, and the two callbacks \<open>OnWorkerIdle\<close> and \<open>OnWorkerFail\<close>
  by which the list of workers tells the collection of requests about state changes
  (\<open>requests/requests.go\<close>).
\<close>

section \<open>Queue and times under their mutexes\<close>

definition pushRequest :: "ReqInfo \<Rightarrow> unit op" where
  "pushRequest req = critical QueueMutex (on_queue (q_push (ID req) (Prio req)))"

definition removeRequest :: "ReqInfo \<Rightarrow> unit op" where
  "removeRequest req = critical QueueMutex (on_queue (q_remove (ID req) (Prio req)))"

definition setRequestPriority :: "ReqInfo \<Rightarrow> Priority \<Rightarrow> unit op" where
  "setRequestPriority req newPrio =
     critical QueueMutex (on_queue (q_setPriority (ID req) (Prio req) newPrio))"

text \<open>The iterator keeps the queue's mutex from \<open>initIterator\<close> to \<open>releaseIterator\<close>.\<close>

definition initIterator :: "unit op" where
  "initIterator = thn (lock QueueMutex) (on_queue q_initIterator)"

definition releaseIterator :: "unit op" where
  "releaseIterator = thn (on_queue q_releaseIterator) (unlock QueueMutex)"

definition times_insert :: "times_kind \<Rightarrow> requestTime \<Rightarrow> unit op" where
  "times_insert k t = critical (TimesMutex k) (on_rt k (rt_insert t))"

section \<open>Jobs\<close>

definition jobs_Get :: "WorkerUUID \<Rightarrow> (error + Job) op" where
  "jobs_Get worker = critical JobsMutex (bnd (gets jobs) (\<lambda>m. case m worker of
       None \<Rightarrow> ret (Inl (NotFoundError ''Job''))
     | Some job \<Rightarrow> ret (Inr job)))"

text \<open>The critical section of \<open>Finish\<close>, which is all of it when \<open>prepare\<close> is false.\<close>

definition finish_job :: "WorkerUUID \<Rightarrow> error option op" where
  "finish_job worker = critical JobsMutex (bnd (gets jobs) (\<lambda>m. case m worker of
       None \<Rightarrow> ret (Some (NotFoundError ''Job''))
     | Some job \<Rightarrow> thn (Tunnel_Close (jTunnel job))
                  (thn (modify (\<lambda>s. s\<lparr>jobs := (jobs s)(worker := None)\<rparr>)) (ret None))))"

section \<open>The change listener\<close>

definition OnWorkerIdle :: "WorkerUUID \<Rightarrow> unit op" where
  "OnWorkerIdle worker = bnd time_Now (\<lambda>now. times_insert ValidAfterTimes (RequestTime now 0))"

definition OnWorkerFail :: "WorkerUUID \<Rightarrow> unit op" where
  "OnWorkerFail worker = critical ReqsMutex (bnd (jobs_Get worker) (\<lambda>r. case r of
       Inl err \<Rightarrow> ret ()
     | Inr job \<Rightarrow> bnd get_requests (\<lambda>rs. case rs (jReq job) of
           None \<Rightarrow> panic ''request related to job not found''
         | Some req \<Rightarrow> thn (finish_job worker)
                          (upd_request (jReq job) (\<lambda>r. r\<lparr>RState := FAILED\<rparr>)))))"

end
