(* ===== verification/Paging.thy ===== *)
theory Paging
  imports Lists
begin

text \<open>
  Dividing a sorted list into pages, the part that \<open>ListRequests\<close>
  (\<open>requests/requests.go\<close>) and \<open>ListWorkers\<close> (\<open>workers/workers.go\<close>) share, with the
  paginators of \<open>lists.go\<close>.  Counters and positions are 64-bit words and the limit of a
  page has 16 bits, as in the code.
\<close>

section \<open>Paginators\<close>

record ListInfo =
  TotalItems :: "64 word"
  RemainingItems :: "64 word"

record RequestsPaginator =
  rpID :: ReqID
  rpDirection :: ListDirection
  rpLimit :: "16 word"

record WorkersPaginator =
  wpID :: WorkerUUID
  wpDirection :: ListDirection
  wpLimit :: "16 word"

definition MaxPageLimit :: "16 word" where
  "MaxPageLimit = 65535"

definition page_limit :: "16 word \<Rightarrow> 16 word" where
  "page_limit l = (if l = 0 \<or> MaxPageLimit < l then MaxPageLimit else l)"

section \<open>The bounds of a page\<close>

definition min64 :: "64 word \<Rightarrow> 64 word \<Rightarrow> 64 word" where
  "min64 a b = (if a < b then a else b)"

text \<open>The loop that looks for the border of the page; without one the position is 0.\<close>

fun find_border :: "('a \<Rightarrow> bool) \<Rightarrow> 'a list \<Rightarrow> nat \<Rightarrow> 64 word" where
  "find_border p [] i = 0"
| "find_border p (x # xs) i = (if p x then of_nat i else find_border p xs (Suc i))"

text \<open>First element, number of elements, and how many are left; \<open>given\<close>: a border is set.\<close>

definition page_bounds :: "bool \<Rightarrow> ListDirection \<Rightarrow> 16 word \<Rightarrow> 64 word \<Rightarrow> 64 word
    \<Rightarrow> 64 word \<times> 64 word \<times> 64 word" where
  "page_bounds given direction limit n index =
     (if direction = DirectionForward
      then let index = (if given then index + 1 else index);
               elems = min64 (ucast limit) (n - index)
           in (index, elems, n - index - elems)
      else let index = (if given then index else n);
               elems = min64 (ucast limit) index
           in (index - elems, elems, index - elems))"

text \<open>\<open>res[index : index+elems]\<close>, which panics when the bounds are not in order.\<close>

definition slice_of :: "'a list \<Rightarrow> 64 word \<Rightarrow> 64 word \<Rightarrow> 'a list option" where
  "slice_of res index elems =
     (if index \<le> index + elems \<and> index + elems \<le> of_nat (length res)
      then Some (take (unat elems) (drop (unat index) res)) else None)"

text \<open>
  What both listings do with the sorted matches: an empty list is returned as it is; the
  border of the page is not counted when it does not match.
\<close>

definition paginate :: "('a \<Rightarrow> 'k) \<Rightarrow> 'k \<Rightarrow> bool \<Rightarrow> ListDirection \<Rightarrow> 16 word \<Rightarrow> bool \<Rightarrow> 'a list
    \<Rightarrow> ('a list \<times> ListInfo) option" where
  "paginate ident pid given direction limit border_matches res =
     (let n = of_nat (length res) :: 64 word in
      if n = 0 then Some (res, \<lparr>TotalItems = 0, RemainingItems = 0\<rparr>)
      else (case page_bounds given direction limit n (find_border (\<lambda>x. ident x = pid) res 0) of
          (index, elems, left) \<Rightarrow> (case slice_of res index elems of
             None \<Rightarrow> None
           | Some page \<Rightarrow> Some (page,
               \<lparr>TotalItems = (if given \<and> \<not> border_matches then n - 1 else n), RemainingItems = left\<rparr>))))"

section \<open>Bounds are in order\<close>

lemma take_min: "take (min n (length xs)) xs = take n xs" "take (min (length xs) n) xs = take n xs"
  by (simp_all add: min_def)

lemma unat_of_nat_64: "n < 2 ^ 64 \<Longrightarrow> unat (of_nat n :: 64 word) = n"
  by (simp add: unat_of_nat take_bit_eq_mod)

lemma unat_min64: "unat (min64 a b) = min (unat a) (unat b)"
  by (auto simp: min64_def word_less_nat_alt)

lemma unat_limit: "unat (ucast (l :: 16 word) :: 64 word) = unat l"
proof -
  have "unat l < 2 ^ 16" using unsigned_less [of l] by simp
  then have "take_bit 64 (unat l) = unat l" by (intro take_bit_nat_eq_self) simp
  then show ?thesis by (simp add: unsigned_ucast_eq)
qed

lemma find_border_split:
  "\<not> (\<exists>x \<in> set ps. p x) \<Longrightarrow> p b \<Longrightarrow> find_border p (ps @ b # qs) i = of_nat (i + length ps)"
  by (induction ps arbitrary: i) auto

lemma slice_of_Some:
  "i + n \<le> length res \<Longrightarrow> length res < 2 ^ 64 \<Longrightarrow> slice_of res (of_nat i) (of_nat n) = Some (take n (drop i res))"
  by (simp add: slice_of_def word_le_nat_alt unat_of_nat_64 flip: of_nat_add)

lemma min64_of_nat: "n < 2 ^ 64 \<Longrightarrow> min64 (ucast (l :: 16 word)) (of_nat n) = of_nat (min (unat l) n)"
  by (rule word_unat_eq_iff [THEN iffD2]) (simp add: unat_min64 unat_limit unat_of_nat_64 min_def)

text \<open>
  With the border at position \<open>length ps\<close> of \<open>ps @ b # qs\<close>, a page forward is taken from
  \<open>qs\<close> and a page backward from the end of \<open>ps\<close>; without a border both take all of the list.
\<close>

definition page_from :: "ListDirection \<Rightarrow> nat \<Rightarrow> 'a list \<Rightarrow> 'a list" where
  "page_from direction n xs =
     (if direction = DirectionForward then take n xs else drop (length xs - n) xs)"

lemma page_bounds_no_border:
  assumes "length xs < 2 ^ 64"
    and "page_bounds False direction limit (of_nat (length xs)) 0 = (index, elems, left)"
  shows "slice_of xs index elems = Some (page_from direction (unat limit) xs)
    \<and> unat left = length xs - length (page_from direction (unat limit) xs)"
proof (cases "direction = DirectionForward")
  case True
  with assms have "index = of_nat 0" "elems = of_nat (min (unat limit) (length xs))"
      "left = of_nat (length xs - min (unat limit) (length xs))"
    by (clarsimp simp: page_bounds_def min64_of_nat of_nat_diff Let_def)+
  moreover have "slice_of xs (of_nat 0) (of_nat (min (unat limit) (length xs)))
      = Some (take (min (unat limit) (length xs)) (drop 0 xs))"
    by (rule slice_of_Some) (use assms(1) in auto)
  moreover have "unat left = length xs - min (unat limit) (length xs)"
    unfolding \<open>left = of_nat (length xs - min (unat limit) (length xs))\<close>
    by (rule unat_of_nat_64) (use assms(1) in simp)
  ultimately show ?thesis
    using True by (simp add: page_from_def take_min min.commute)
next
  case False
  with assms have "index = of_nat (length xs - min (unat limit) (length xs))"
      "elems = of_nat (min (unat limit) (length xs))" "left = index"
    by (clarsimp simp: page_bounds_def min64_of_nat of_nat_diff Let_def)+
  moreover have "slice_of xs (of_nat (length xs - min (unat limit) (length xs))) (of_nat (min (unat limit) (length xs)))
      = Some (take (min (unat limit) (length xs)) (drop (length xs - min (unat limit) (length xs)) xs))"
    by (rule slice_of_Some) (use assms(1) in auto)
  moreover have "unat left = length xs - min (unat limit) (length xs)"
    unfolding \<open>left = index\<close> \<open>index = of_nat (length xs - min (unat limit) (length xs))\<close>
    by (rule unat_of_nat_64) (use assms(1) in simp)
  ultimately show ?thesis
    using False by (simp add: page_from_def min_def)
qed

lemma page_bounds_border:
  assumes "length (ps @ b # qs) < 2 ^ 64"
    and "page_bounds True direction limit (of_nat (length (ps @ b # qs))) (of_nat (length ps)) = (index, elems, left)"
  defines "rest \<equiv> if direction = DirectionForward then qs else ps"
  shows "slice_of (ps @ b # qs) index elems = Some (page_from direction (unat limit) rest)
    \<and> unat left = length rest - length (page_from direction (unat limit) rest)"
proof (cases "direction = DirectionForward")
  case True
  have q: "of_nat (length (ps @ b # qs)) - (of_nat (length ps) + 1) = (of_nat (length qs) :: 64 word)"
    by simp
  have "min64 (ucast limit) (of_nat (length qs)) = of_nat (min (unat limit) (length qs))"
    by (rule min64_of_nat) (use assms(1) in simp)
  with True assms(2) q have "index = of_nat (Suc (length ps))" "elems = of_nat (min (unat limit) (length qs))"
      "left = of_nat (length qs - min (unat limit) (length qs))"
    by (clarsimp simp: page_bounds_def of_nat_diff Let_def algebra_simps)+
  moreover have "slice_of (ps @ b # qs) (of_nat (Suc (length ps))) (of_nat (min (unat limit) (length qs)))
      = Some (take (min (unat limit) (length qs)) (drop (Suc (length ps)) (ps @ b # qs)))"
    by (rule slice_of_Some) (use assms(1) in auto)
  moreover have "unat left = length qs - min (unat limit) (length qs)"
    unfolding \<open>left = of_nat (length qs - min (unat limit) (length qs))\<close>
    by (rule unat_of_nat_64) (use assms(1) in simp)
  ultimately show ?thesis
    using True by (simp add: page_from_def rest_def take_min min.commute)
next
  case False
  have "min64 (ucast limit) (of_nat (length ps)) = of_nat (min (unat limit) (length ps))"
    by (rule min64_of_nat) (use assms(1) in simp)
  with False assms(2) have "index = of_nat (length ps - min (unat limit) (length ps))"
      "elems = of_nat (min (unat limit) (length ps))" "left = index"
    by (clarsimp simp: page_bounds_def of_nat_diff Let_def algebra_simps)+
  moreover have "slice_of (ps @ b # qs) (of_nat (length ps - min (unat limit) (length ps))) (of_nat (min (unat limit) (length ps)))
      = Some (take (min (unat limit) (length ps)) (drop (length ps - min (unat limit) (length ps)) (ps @ b # qs)))"
    by (rule slice_of_Some) (use assms(1) in auto)
  moreover have "unat left = length ps - min (unat limit) (length ps)"
    unfolding \<open>left = index\<close> \<open>index = of_nat (length ps - min (unat limit) (length ps))\<close>
    by (rule unat_of_nat_64) (use assms(1) in simp)
  ultimately show ?thesis
    using False by (simp add: page_from_def rest_def min_def)
qed

section \<open>Sorted lists with a border\<close>

context sorter
begin

definition after :: "'a \<Rightarrow> 'a \<Rightarrow> bool" where
  "after b x \<longleftrightarrow> ident x \<noteq> ident b \<and> lt b x"

definition before :: "'a \<Rightarrow> 'a \<Rightarrow> bool" where
  "before b x \<longleftrightarrow> ident x \<noteq> ident b \<and> lt x b"

lemma split_at_border:
  assumes "sorted_wrt lt (ps @ b # qs)" and "distinct (map ident (ps @ b # qs))"
  shows "qs = filter (after b) (ps @ b # qs)" and "ps = filter (before b) (ps @ b # qs)"
proof -
  have ident_neq: "ident x \<noteq> ident b" if "x \<in> set ps \<union> set qs" for x
    using assms(2) that by (auto simp: image_iff)
  then have "ident q \<noteq> ident b" "lt b q" if "q \<in> set qs" for q
    using assms(1) that by (simp_all add: sorted_wrt_append)
  then have q: "after b q \<and> \<not> before b q" if "q \<in> set qs" for q
    using that asym [of b q] unfolding after_def before_def by metis
  have "ident p \<noteq> ident b" "lt p b" if "p \<in> set ps" for p
    using assms(1) that ident_neq by (simp_all add: sorted_wrt_append)
  then have p: "before b p \<and> \<not> after b p" if "p \<in> set ps" for p
    using that asym [of p b] unfolding after_def before_def by metis
  have b: "\<not> after b b" "\<not> before b b" by (simp_all add: after_def before_def)
  have "filter (after b) ps = []" "filter (after b) qs = qs" "filter (before b) ps = ps" "filter (before b) qs = []"
    using p q by (auto simp: filter_empty_conv)
  with b show "qs = filter (after b) (ps @ b # qs)" "ps = filter (before b) (ps @ b # qs)"
    by simp_all
qed

lemma sorted_filter: "sorted_wrt lt xs \<Longrightarrow> sorted_wrt lt (filter p xs)"
  by (rule sorted_wrt_filter)

lemma go_sort_filter:
  assumes "distinct (map ident xs)"
  shows "go_sort lt (filter p xs) = filter p (go_sort lt xs)"
proof (rule go_sort_unique [symmetric])
  show "distinct (map ident (filter p xs))"
    by (rule distinct_map_filter [OF assms])
qed (simp_all add: sorted_wrt_filter go_sort_sorted assms)

text \<open>
  The page of a filtered collection: \<open>all\<close> are the elements, \<open>p\<close> the filter, and the
  element with identifier \<open>pid\<close> is kept as the border whether it matches or not.
\<close>

definition beyond :: "ListDirection \<Rightarrow> 'a \<Rightarrow> 'a \<Rightarrow> bool" where
  "beyond direction = (if direction = DirectionForward then after else before)"

definition page_rest :: "ListDirection \<Rightarrow> 'k option \<Rightarrow> ('a \<Rightarrow> bool) \<Rightarrow> 'a list \<Rightarrow> 'a list" where
  "page_rest direction border p all = (case border of
       None \<Rightarrow> filter p (go_sort lt all)
     | Some pid \<Rightarrow> filter (\<lambda>x. p x \<and> (\<exists>b \<in> set all. ident b = pid \<and> beyond direction b x)) (go_sort lt all))"

lemma page_no_border:
  assumes "length all < 2 ^ 64" and "distinct (map ident all)" and "\<And>x. x \<in> set all \<Longrightarrow> ident x \<noteq> pid"
    and "page_bounds False direction limit (of_nat (length (go_sort lt (filter (\<lambda>x. p x \<or> ident x = pid) all))))
           (find_border (\<lambda>x. ident x = pid) (go_sort lt (filter (\<lambda>x. p x \<or> ident x = pid) all)) 0) = (index, elems, left)"
  shows "slice_of (go_sort lt (filter (\<lambda>x. p x \<or> ident x = pid) all)) index elems
      = Some (page_from direction (unat limit) (page_rest direction None p all))
    \<and> unat left = length (page_rest direction None p all)
                  - length (page_from direction (unat limit) (page_rest direction None p all))
    \<and> length (go_sort lt (filter (\<lambda>x. p x \<or> ident x = pid) all)) = length (filter p (go_sort lt all))"
proof -
  let ?l = "go_sort lt (filter (\<lambda>x. p x \<or> ident x = pid) all)"
  have "filter (\<lambda>x. p x \<or> ident x = pid) all = filter p all"
    using assms(3) by (intro filter_cong) auto
  then have l: "?l = filter p (go_sort lt all)"
    by (simp add: go_sort_filter assms(2))
  have "find_border (\<lambda>x. ident x = pid) xs i = 0" if "\<forall>x \<in> set xs. ident x \<noteq> pid" for xs i
    using that by (induction xs arbitrary: i) auto
  then have "find_border (\<lambda>x. ident x = pid) ?l 0 = 0"
    using assms(3) by simp
  moreover have "length ?l < 2 ^ 64"
    using assms(1) by (metis length_filter_le length_go_sort order.strict_trans1)
  ultimately show ?thesis
    using page_bounds_no_border [of ?l direction limit index elems left] assms(4) l
    by (simp add: page_rest_def)
qed

lemma page_border:
  assumes "length all < 2 ^ 64" and ids: "distinct (map ident all)" and b: "b \<in> set all" "ident b = pid"
    and bounds: "page_bounds True direction limit (of_nat (length (go_sort lt (filter (\<lambda>x. p x \<or> ident x = pid) all))))
           (find_border (\<lambda>x. ident x = pid) (go_sort lt (filter (\<lambda>x. p x \<or> ident x = pid) all)) 0) = (index, elems, left)"
  shows "slice_of (go_sort lt (filter (\<lambda>x. p x \<or> ident x = pid) all)) index elems
      = Some (page_from direction (unat limit) (page_rest direction (Some pid) p all))
    \<and> unat left = length (page_rest direction (Some pid) p all)
                  - length (page_from direction (unat limit) (page_rest direction (Some pid) p all))
    \<and> length (go_sort lt (filter (\<lambda>x. p x \<or> ident x = pid) all))
        = length (filter p (go_sort lt all)) + (if p b then 0 else 1)"
proof -
  let ?P = "\<lambda>x. p x \<or> ident x = pid" and ?s = "go_sort lt all"
  let ?l = "go_sort lt (filter ?P all)"
  have l: "?l = filter ?P ?s" by (simp add: go_sort_filter ids)
  then have "b \<in> set ?l" using b by simp
  then obtain ps qs where split: "?l = ps @ b # qs" by (meson split_list)
  have dist: "distinct (map ident ?l)"
    by (metis ids distinct_map_filter mset_eq_imp_distinct_iff mset_go_sort mset_map)
  have srt: "sorted_wrt lt ?l" by (rule go_sort_sorted) (rule distinct_map_filter [OF ids])
  note parts = split_at_border [OF srt [unfolded split] dist [unfolded split], folded split]
  have same: "ident x = pid \<longleftrightarrow> x = b" if "x \<in> set all" for x
    using ids b that by (auto simp: distinct_map inj_on_def)
  have rest: "page_rest direction (Some pid) p all = (if direction = DirectionForward then qs else ps)"
  proof -
    have "(\<exists>y \<in> set all. ident y = pid \<and> beyond direction y x) \<longleftrightarrow> beyond direction b x" for x
      using b same by blast
    then have "page_rest direction (Some pid) p all
        = filter (\<lambda>x. p x \<and> beyond direction b x) ?s"
      by (simp add: page_rest_def)
    also have "\<dots> = filter (beyond direction b) ?l"
      unfolding l filter_filter by (rule filter_cong) (auto simp: beyond_def after_def before_def b)
    finally show ?thesis using parts by (simp add: beyond_def)
  qed
  have "b \<notin> set ps" "b \<notin> set qs" using dist unfolding split by auto
  then have "\<not> (\<exists>x \<in> set ps. ident x = pid)"
    using dist b unfolding split by (auto simp: image_iff)
  then have "find_border (\<lambda>x. ident x = pid) ?l 0 = of_nat (length ps)"
    using find_border_split [of ps "\<lambda>x. ident x = pid" b qs 0] b split by simp
  moreover have "length ?l < 2 ^ 64"
    using assms(1) by (metis length_filter_le length_go_sort order.strict_trans1)
  ultimately have page: "slice_of ?l index elems
      = Some (page_from direction (unat limit) (page_rest direction (Some pid) p all))
    \<and> unat left = length (page_rest direction (Some pid) p all)
                  - length (page_from direction (unat limit) (page_rest direction (Some pid) p all))"
    using page_bounds_border [of ps b qs direction limit index elems left] bounds split rest by simp
  have "filter p ?s = filter p ?l" unfolding l filter_filter by (rule filter_cong) auto
  moreover have "p x" if "x \<in> set ps \<union> set qs" for x
  proof -
    have "x \<in> set ?l" unfolding split using that by auto
    then have "?P x" "x \<in> set all" by simp_all
    moreover have "x \<noteq> b" using that \<open>b \<notin> set ps\<close> \<open>b \<notin> set qs\<close> by blast
    ultimately show ?thesis using same by blast
  qed
  then have "filter p ps = ps" "filter p qs = qs" by (auto simp: filter_id_conv)
  ultimately have "length (filter p ?s) = length ps + length qs + (if p b then 1 else 0)"
    unfolding split by simp
  then have "length ?l = length (filter p ?s) + (if p b then 0 else 1)"
    unfolding split by simp
  with page show ?thesis by blast
qed

lemma page_found:
  assumes "length all < 2 ^ 64" and "distinct (map ident all)"
    and "given \<Longrightarrow> b \<in> set all \<and> ident b = pid" and "\<not> given \<Longrightarrow> \<forall>x \<in> set all. ident x \<noteq> pid"
    and "page_bounds given direction limit (of_nat (length (go_sort lt (filter (\<lambda>x. p x \<or> ident x = pid) all))))
           (find_border (\<lambda>x. ident x = pid) (go_sort lt (filter (\<lambda>x. p x \<or> ident x = pid) all)) 0) = (index, elems, left)"
  defines "rest \<equiv> page_rest direction (if given then Some pid else None) p all"
  shows "slice_of (go_sort lt (filter (\<lambda>x. p x \<or> ident x = pid) all)) index elems
      = Some (page_from direction (unat limit) rest)
    \<and> unat left = length rest - length (page_from direction (unat limit) rest)
    \<and> length (go_sort lt (filter (\<lambda>x. p x \<or> ident x = pid) all))
        = length (filter p all) + (if given \<and> \<not> p b then 1 else 0)"
proof -
  have "length (filter p (go_sort lt all)) = length (filter p all)"
    by (metis length_go_sort go_sort_filter assms(2))
  then show ?thesis
    using page_no_border [OF assms(1,2), of pid direction limit p index elems left]
      page_border [OF assms(1,2), of b pid direction limit p index elems left] assms(3-5)
    by (cases given) (auto simp: rest_def)
qed

lemma paginate_spec:
  fixes direction :: ListDirection
  assumes small: "length all < 2 ^ 64" and ids: "distinct (map ident all)"
    and border: "given \<Longrightarrow> b \<in> set all \<and> ident b = pid \<and> (matches \<longleftrightarrow> p b)"
    and none: "\<not> given \<Longrightarrow> \<forall>x \<in> set all. ident x \<noteq> pid"
  defines "rest \<equiv> page_rest direction (if given then Some pid else None) p all"
  shows "\<exists>info. paginate ident pid given direction limit matches (go_sort lt (filter (\<lambda>x. p x \<or> ident x = pid) all))
      = Some (page_from direction (unat limit) rest, info)
    \<and> unat (RemainingItems info) = length rest - length (page_from direction (unat limit) rest)
    \<and> unat (TotalItems info) = length (filter p all)"
proof -
  let ?l = "go_sort lt (filter (\<lambda>x. p x \<or> ident x = pid) all)"
  obtain index elems left where bounds: "page_bounds given direction limit (of_nat (length ?l))
      (find_border (\<lambda>x. ident x = pid) ?l 0) = (index, elems, left)"
    by (rule prod_cases3)
  have page: "slice_of ?l index elems = Some (page_from direction (unat limit) rest)
    \<and> unat left = length rest - length (page_from direction (unat limit) rest)
    \<and> length ?l = length (filter p all) + (if given \<and> \<not> p b then 1 else 0)"
    unfolding rest_def by (rule page_found [OF small ids _ none bounds]) (use border in auto)
  then have count: "length ?l = length (filter p all) + (if given \<and> \<not> matches then 1 else 0)"
    using border by auto
  have len: "length ?l < 2 ^ 64"
    using small by (metis length_filter_le length_go_sort order.strict_trans1)
  show ?thesis
  proof (cases "length ?l = 0")
    case True
    then have none: "filter p all = []" using count by simp
    then have "filter p (go_sort lt all) = []" by (metis go_sort_filter ids go_sort.simps(1))
    then have "rest = []" by (auto simp: rest_def page_rest_def filter_empty_conv)
    with True none show ?thesis by (simp add: paginate_def page_from_def)
  next
    case False
    have n: "(of_nat (length ?l) :: 64 word) \<noteq> 0"
      using False len by (metis unat_0 unat_of_nat_64)
    have "unat (of_nat (length ?l) - 1 :: 64 word) = length ?l - 1"
      by (simp only: unat_minus_one [OF n] unat_of_nat_64 [OF len])
    then have "unat (if given \<and> \<not> matches then of_nat (length ?l) - 1 else of_nat (length ?l) :: 64 word) = length (filter p all)"
      using count len by (cases "given \<and> \<not> matches") (simp_all only: if_P if_False unat_of_nat_64 if_True simp_thms add_diff_cancel_right' add_0_right)
    with n bounds page show ?thesis
      unfolding paginate_def Let_def by (simp del: length_go_sort)
  qed
qed

end

end
