(* ===== verification/Workers.thy ===== *)
theory Workers
  imports Events Paging
begin

text \<open>
  The list of workers, \<open>workers/workers.go\<close> and \<open>workers/sorter.go\<close>.  Every operation
  runs under the mutex of the list.  \<open>setState\<close> is the only way a worker's state
  changes: it tells the worker's background goroutine through the channel, calls the
  change listener, and then stores the state.  Resolving an address
  (\<open>net.ResolveTCPAddr\<close>) asks the system's resolver, so it is a parameter.
\<close>

section \<open>Sorting workers\<close>

datatype wsort_item = ByUUID | ByWState | ByGroups

definition w_newSorter :: "SortInfo option \<Rightarrow> error + (wsort_item \<times> SortOrder)" where
  "w_newSorter si = (case si of
       None \<Rightarrow> Inr (ByUUID, SortOrderAsc)
     | Some i \<Rightarrow> let item = ToLower (Item i) in
         if item = '''' \<or> item = ''uuid'' then Inr (ByUUID, Order i)
         else if item = ''state'' then Inr (ByWState, Order i)
         else if item = ''groups'' then Inr (ByGroups, Order i)
         else Inl ErrWrongSortItem)"

definition applySortOrder :: "SortOrder \<Rightarrow> bool \<Rightarrow> bool" where
  "applySortOrder order retval = (if order = SortOrderAsc then retval else \<not> retval)"

text \<open>The loop over the common positions of two group lists: the first difference decides.\<close>

fun groups_less :: "Groups \<Rightarrow> Groups \<Rightarrow> bool option" where
  "groups_less (a # as) (b # bs) =
     (if a < b then Some True else if b < a then Some False else groups_less as bs)"
| "groups_less _ _ = None"

definition w_Less :: "wsort_item \<Rightarrow> SortOrder \<Rightarrow> WorkerInfo \<Rightarrow> WorkerInfo \<Rightarrow> bool" where
  "w_Less item order a b =
     (let lessUUID = applySortOrder order (WUUID a < WUUID b) in
      case item of
        ByUUID \<Rightarrow> lessUUID
      | ByWState \<Rightarrow>
          if WState a = WState b then lessUUID
          else applySortOrder order (WorkerState_text (WState a) < WorkerState_text (WState b))
      | ByGroups \<Rightarrow>
          (case groups_less (WGroups a) (WGroups b) of
             Some r \<Rightarrow> applySortOrder order r
           | None \<Rightarrow>
               if length (WGroups a) = length (WGroups b) then lessUUID
               else applySortOrder order (length (WGroups a) < length (WGroups b))))"

text \<open>The first key a worker is sorted by; the UUID decides among equal keys.\<close>

fun w_key :: "wsort_item \<Rightarrow> WorkerInfo \<Rightarrow> string list" where
  "w_key ByUUID w = []"
| "w_key ByWState w = [WorkerState_text (WState w)]"
| "w_key ByGroups w = WGroups w"

lemma groups_less_Some: "groups_less a b = Some r \<Longrightarrow> a \<noteq> b \<and> (r \<longleftrightarrow> a < b)"
  by (induction a b rule: groups_less.induct) (auto split: if_splits)

lemma Nil_less: "[] < (xs :: string list) \<longleftrightarrow> xs \<noteq> []"
  by (cases xs) simp_all

lemma groups_less_None:
  "groups_less a b = None \<Longrightarrow> (length a < length b \<longleftrightarrow> a < b) \<and> (length a = length b \<longrightarrow> a = b)"
  by (induction a b rule: groups_less.induct) (auto simp: Nil_less split: if_splits)

interpretation ws: keyed_sorter "w_Less item order" "w_key item" WUUID "order = SortOrderAsc"
  for item order
proof (unfold_locales, cases item)
  fix a b :: WorkerInfo
  assume ne: "WUUID a \<noteq> WUUID b"
  let ?goal = "w_Less item order a b \<longleftrightarrow> (if order = SortOrderAsc
      then w_key item a < w_key item b \<or> w_key item a = w_key item b \<and> WUUID a < WUUID b
      else w_key item b < w_key item a \<or> w_key item a = w_key item b \<and> WUUID b < WUUID a)"
  show ?goal if "item = ByUUID"
    using ne that by (auto simp: w_Less_def applySortOrder_def)
  show ?goal if "item = ByWState"
    using ne that neq_iff [of "WorkerState_text (WState a)" "WorkerState_text (WState b)"]
    by (cases "WState a = WState b") (auto simp: w_Less_def applySortOrder_def WorkerState_text_inj)
  show ?goal if "item = ByGroups"
  proof (cases "groups_less (WGroups a) (WGroups b)")
    case None
    with ne that groups_less_None [OF None] show ?thesis
      by (auto simp: w_Less_def applySortOrder_def)
  next
    case (Some r)
    with ne that groups_less_Some [OF Some] show ?thesis
      by (auto simp: w_Less_def applySortOrder_def)
  qed
qed

section \<open>Changing the state of a worker\<close>

definition setState :: "WorkerUUID \<Rightarrow> WorkerState \<Rightarrow> error option op" where
  "setState uuid st = bnd get_workers (\<lambda>m. case m uuid of
       None \<Rightarrow> ret (Some ErrWorkerNotFound)
     | Some worker \<Rightarrow>
         thn (chan_send (backgroundOperation worker) st)
        (thn (bnd (gets (\<lambda>s. changeListener (wl s))) (\<lambda>listening.
                if listening
                then thn (if st = IDLE then OnWorkerIdle uuid else ret ())
                         (if WState (info worker) = RUN \<and> st \<noteq> IDLE \<and> st \<noteq> PREPARE
                          then OnWorkerFail uuid else ret ())
                else ret ()))
        (thn (upd_worker uuid (\<lambda>w. w\<lparr>info := (info w)\<lparr>WState := st\<rparr>\<rparr>))
             (ret None))))"

definition new_bg :: "WorkerUUID \<Rightarrow> bg" where
  "new_bg uuid = \<lparr>bg_uuid = uuid,
     bg_pc = AtLoop \<lparr>op_state = MAINTENANCE, op_open = False, op_got = False\<rparr>, must_check = False\<rparr>"

definition new_worker :: "WorkerUUID \<Rightarrow> Capabilities \<Rightarrow> TCPAddr \<Rightarrow> TCPAddr \<Rightarrow> nat \<Rightarrow> mapWorker" where
  "new_worker uuid caps d s c =
     \<lparr>info = \<lparr>WUUID = uuid, WState = MAINTENANCE, WGroups = [], WCaps = caps\<rparr>,
      dryad = d, sshd = s, wkey = None, backgroundOperation = c\<rparr>"

section \<open>Superviser\<close>

text \<open>The addresses of a registration, checked in the order of the code.\<close>

definition check_addr :: "(string \<Rightarrow> string + TCPAddr) \<Rightarrow> string \<Rightarrow> string \<Rightarrow> error + TCPAddr" where
  "check_addr resolve what address = (case resolve address of
       Inl err \<Rightarrow> Inl (OtherError (what @ err))
     | Inr a \<Rightarrow> if IP a = None then Inl ErrMissingIP
              else if Port a = 0 then Inl ErrMissingPort
              else Inr a)"

definition re_registered_state :: "mapWorker \<Rightarrow> Capabilities \<Rightarrow> TCPAddr \<Rightarrow> TCPAddr \<Rightarrow> WorkerState" where
  "re_registered_state worker caps d s =
     (if Port (sshd worker) \<noteq> Port s \<or> Port (dryad worker) \<noteq> Port d \<or> WCaps (info worker) \<noteq> caps
      then BUSY
      else if WState (info worker) = FAIL then PREPARE
      else WState (info worker))"

definition Register :: "(string \<Rightarrow> string + TCPAddr) \<Rightarrow> Capabilities \<Rightarrow> string \<Rightarrow> string \<Rightarrow> error option op" where
  "Register resolve caps dryadAddress sshAddress =
     (case caps ''UUID'' of
        None \<Rightarrow> ret (Some ErrMissingUUID)
      | Some uuid \<Rightarrow>
     (case check_addr resolve ''invalid dryad address: '' dryadAddress of
        Inl err \<Rightarrow> ret (Some err)
      | Inr d \<Rightarrow>
     (case check_addr resolve ''invalid sshd address: '' sshAddress of
        Inl err \<Rightarrow> ret (Some err)
      | Inr sa \<Rightarrow> critical WorkersMutex (bnd get_workers (\<lambda>m. case m uuid of
          Some worker \<Rightarrow>
            let newState = re_registered_state worker caps d sa in
            thn (upd_worker uuid (\<lambda>w. w\<lparr>info := (info w)\<lparr>WCaps := caps\<rparr>, dryad := d, sshd := sa\<rparr>))
           (thn (if newState \<noteq> WState (info worker) then thn (setState uuid newState) (ret ()) else ret ())
                (ret None))
        | None \<Rightarrow> bnd (gets next_chan) (\<lambda>c.
            thn (modify (\<lambda>s. s\<lparr>
                 chans := (chans s)(c := \<lparr>buf = [], closed = False\<rparr>),
                 next_chan := Suc c,
                 wl := (wl s)\<lparr>workers := (workers (wl s))(uuid \<mapsto> new_worker uuid caps d sa c)\<rparr>,
                 bgs := (bgs s)(c \<mapsto> new_bg uuid)\<rparr>))
                (ret None)))))))"

definition SetFail :: "WorkerUUID \<Rightarrow> string \<Rightarrow> error option op" where
  "SetFail uuid reason = critical WorkersMutex (bnd get_workers (\<lambda>m. case m uuid of
       None \<Rightarrow> ret (Some ErrWorkerNotFound)
     | Some worker \<Rightarrow>
         if WState (info worker) = MAINTENANCE \<or> WState (info worker) = BUSY
         then ret (Some ErrInMaintenance)
         else setState uuid FAIL))"

section \<open>Administration\<close>

text \<open>The requested state is a string a client sends.\<close>

definition SetState :: "WorkerUUID \<Rightarrow> string \<Rightarrow> error option op" where
  "SetState uuid state =
     (if state \<noteq> WorkerState_text MAINTENANCE \<and> state \<noteq> WorkerState_text IDLE
      then ret (Some ErrWrongStateArgument)
      else critical WorkersMutex (bnd get_workers (\<lambda>m. case m uuid of
         None \<Rightarrow> ret (Some ErrWorkerNotFound)
       | Some worker \<Rightarrow>
           if state = WorkerState_text MAINTENANCE \<and> WState (info worker) = BUSY then ret None
           else if state = WorkerState_text IDLE \<and> WState (info worker) = PREPARE then ret None
           else if state = WorkerState_text IDLE \<and> WState (info worker) \<noteq> MAINTENANCE
           then ret (Some ErrForbiddenStateChange)
           else thn (if state = WorkerState_text IDLE then setState uuid PREPARE
                     else if state = WorkerState_text MAINTENANCE then setState uuid BUSY
                     else ret None)
                    (ret None))))"

definition SetGroups :: "WorkerUUID \<Rightarrow> Groups \<Rightarrow> error option op" where
  "SetGroups uuid groups = critical WorkersMutex (bnd get_workers (\<lambda>m. case m uuid of
       None \<Rightarrow> ret (Some ErrWorkerNotFound)
     | Some worker \<Rightarrow>
         thn (upd_worker uuid (\<lambda>w. w\<lparr>info := (info w)\<lparr>WGroups := sort groups\<rparr>\<rparr>))
        (thn (bnd (gets (\<lambda>s. changeListener (wl s))) (\<lambda>listening.
                if WState (info worker) = IDLE \<and> listening then OnWorkerIdle uuid else ret ()))
             (ret None))))"

definition Deregister :: "WorkerUUID \<Rightarrow> error option op" where
  "Deregister uuid = critical WorkersMutex (bnd get_workers (\<lambda>m. case m uuid of
       None \<Rightarrow> ret (Some ErrWorkerNotFound)
     | Some worker \<Rightarrow>
         if WState (info worker) \<noteq> MAINTENANCE \<and> WState (info worker) \<noteq> FAIL
         then ret (Some ErrNotInFailOrMaintenance)
         else thn (chan_close (backgroundOperation worker))
             (thn (modify (\<lambda>s. s\<lparr>wl := (wl s)\<lparr>workers := (workers (wl s))(uuid := None)\<rparr>\<rparr>))
                  (ret None))))"

section \<open>Reading\<close>

text \<open>
  Ranging over the map visits the workers in some order; ascending UUIDs stand for it,
  and the sort that follows makes the result independent of the choice.
\<close>

definition listWorkers :: "(list_elem \<Rightarrow> bool) option \<Rightarrow> SortInfo option \<Rightarrow> WorkerUUID \<Rightarrow> bool
    \<Rightarrow> (error + WorkerInfo list) op" where
  "listWorkers filt si pid onlyIdle = (case w_newSorter si of
       Inl err \<Rightarrow> ret (Inl err)
     | Inr (item, order) \<Rightarrow> bnd get_workers (\<lambda>m.
         let all = map (\<lambda>u. info (the (m u))) (sorted_list_of_set (dom m));
             matching = filter (\<lambda>w. (case filt of None \<Rightarrow> True | Some f \<Rightarrow> f (WorkerElem (Some w)) \<or> WUUID w = pid)
                                     \<and> \<not> (onlyIdle \<and> WState w \<noteq> IDLE)) all
         in ret (Inr (go_sort (w_Less item order) matching))))"

definition GetWorkerInfo :: "WorkerUUID \<Rightarrow> (error + WorkerInfo) op" where
  "GetWorkerInfo uuid = critical WorkersMutex (bnd get_workers (\<lambda>m. case m uuid of
       None \<Rightarrow> ret (Inl ErrWorkerNotFound)
     | Some worker \<Rightarrow> ret (Inr (info worker))))"

definition getWorkerAddr :: "WorkerUUID \<Rightarrow> (error + TCPAddr) op" where
  "getWorkerAddr uuid = critical WorkersMutex (bnd get_workers (\<lambda>m. case m uuid of
       None \<Rightarrow> ret (Inl ErrWorkerNotFound)
     | Some worker \<Rightarrow> ret (Inr (dryad worker))))"

definition GetWorkerSSHAddr :: "WorkerUUID \<Rightarrow> (error + TCPAddr) op" where
  "GetWorkerSSHAddr uuid = critical WorkersMutex (bnd get_workers (\<lambda>m. case m uuid of
       None \<Rightarrow> ret (Inl ErrWorkerNotFound)
     | Some worker \<Rightarrow> ret (Inr (sshd worker))))"

definition setWorkerKey :: "WorkerUUID \<Rightarrow> PrivateKey \<Rightarrow> error option op" where
  "setWorkerKey uuid key = critical WorkersMutex (bnd get_workers (\<lambda>m. case m uuid of
       None \<Rightarrow> ret (Some ErrWorkerNotFound)
     | Some worker \<Rightarrow> thn (upd_worker uuid (\<lambda>w. w\<lparr>wkey := Some key\<rparr>)) (ret None)))"

text \<open>The key is dereferenced, which panics when it was never set.\<close>

definition GetWorkerKey :: "WorkerUUID \<Rightarrow> (error + PrivateKey) op" where
  "GetWorkerKey uuid = critical WorkersMutex (bnd get_workers (\<lambda>m. case m uuid of
       None \<Rightarrow> ret (Inl ErrWorkerNotFound)
     | Some worker \<Rightarrow> (case wkey worker of
           None \<Rightarrow> panic ''nil pointer dereference''
         | Some k \<Rightarrow> ret (Inr k))))"

section \<open>Taking and returning a worker\<close>

definition MaxInt32 :: nat where
  "MaxInt32 = 2147483647"

fun best_loop :: "WorkerInfo list \<Rightarrow> nat \<Rightarrow> WorkerUUID \<Rightarrow> nat \<times> WorkerUUID" where
  "best_loop [] bestScore bestWorker = (bestScore, bestWorker)"
| "best_loop (w # ws) bestScore bestWorker =
     (let score = card (dom (WCaps w)) + length (WGroups w) in
      if score < bestScore then best_loop ws score (WUUID w) else best_loop ws bestScore bestWorker)"

definition TakeBestMatchingWorker :: "Groups \<Rightarrow> Capabilities \<Rightarrow> (error + WorkerUUID) op" where
  "TakeBestMatchingWorker groups caps = critical WorkersMutex (
     bnd (listWorkers (Some (Workers_Match (NewWorkers groups caps))) None '''' True) (\<lambda>r. case r of
       Inl err \<Rightarrow> panic ''listing workers failed''
     | Inr matching \<Rightarrow>
        (case best_loop matching MaxInt32 '''' of (bestScore, bestWorker) \<Rightarrow>
         if bestScore = MaxInt32 then ret (Inl ErrNoMatchingWorker)
         else bnd (setState bestWorker RUN) (\<lambda>err. case err of
                 Some e \<Rightarrow> ret (Inl e)
               | None \<Rightarrow> ret (Inr bestWorker)))))"

definition PrepareWorker :: "WorkerUUID \<Rightarrow> bool \<Rightarrow> error option op" where
  "PrepareWorker uuid withKeyGeneration = critical WorkersMutex (bnd get_workers (\<lambda>m. case m uuid of
       None \<Rightarrow> ret (Some ErrWorkerNotFound)
     | Some worker \<Rightarrow>
         if WState (info worker) \<noteq> RUN then ret (Some ErrForbiddenStateChange)
         else if \<not> withKeyGeneration then setState uuid IDLE
         else setState uuid PREPARE))"

end
