(* ===== verification/Jobs.thy ===== *)
theory Jobs
  imports Workers
begin

text \<open>
  Creating and finishing jobs, \<open>matcher/jobs.go\<close>.  \<open>Finish\<close> defers the preparation of
  the worker before it defers the release of the mutex, so the worker is prepared after
  the mutex is released, also when there was no job.
\<close>

definition defaultDryadUsername :: string where
  "defaultDryadUsername = ''boruta-user''"

definition Create :: "ReqID \<Rightarrow> WorkerUUID \<Rightarrow> error option op" where
  "Create req worker = critical JobsMutex (bnd (gets jobs) (\<lambda>m.
     if m worker \<noteq> None then ret (Some ErrJobAlreadyExists)
     else bnd (GetWorkerSSHAddr worker) (\<lambda>ra. case ra of
       Inl err \<Rightarrow> ret (Some err)
     | Inr addr \<Rightarrow> bnd (GetWorkerKey worker) (\<lambda>rk. case rk of
       Inl err \<Rightarrow> ret (Some err)
     | Inr key \<Rightarrow> bnd (Tunnel_Create addr) (\<lambda>rt. case rt of
       Inl err \<Rightarrow> ret (Some err)
     | Inr t \<Rightarrow>
         thn (modify (\<lambda>s. s\<lparr>jobs := (jobs s)(worker \<mapsto>
                \<lparr>Access = \<lparr>Addr = listener t, Key = key, Username = defaultDryadUsername\<rparr>,
                 jTunnel = t, jReq = req\<rparr>)\<rparr>))
             (ret None))))))"

definition Finish :: "WorkerUUID \<Rightarrow> bool \<Rightarrow> error option op" where
  "Finish worker prepare = bnd (finish_job worker) (\<lambda>r.
     thn (if prepare then thn (PrepareWorker worker True) (ret ()) else ret ()) (ret r))"

end
