(* ===== verification/Requests.thy ===== *)
theory Requests
  imports Jobs
begin

text \<open>
  The collection of requests, \<open>requests/requests.go\<close>: what users call (\<open>NewRequest\<close>,
  \<open>CloseRequest\<close>, \<open>UpdateRequest\<close>, \<open>GetRequestInfo\<close>, \<open>AcquireWorker\<close>,
  \<open>ProlongAccess\<close>) and what the matchers call (the iteration, \<open>VerifyIfReady\<close>, \<open>Get\<close>,
  \<open>Timeout\<close>, \<open>Close\<close>, \<open>Run\<close>).
\<close>

section \<open>Users\<close>

definition deadline_in_past :: "time \<Rightarrow> bool op" where
  "deadline_in_past d = bnd time_Now (\<lambda>now. ret (d < now))"

text \<open>The critical section of \<open>NewRequest\<close>: the request gets its number and is stored.\<close>

definition store_request :: "ReqInfo \<Rightarrow> ReqID op" where
  "store_request req0 = critical ReqsMutex (bnd get_requests (\<lambda>m.
     let i = card (dom m) + 1; req = req0\<lparr>ID := i\<rparr>
     in thn (pushRequest req) (thn (put_request i req) (ret i))))"

text \<open>
  The times are in UTC: the handler converts them (\<open>newRequestHandler\<close>), and so does the
  code where it fills in its own.
\<close>

definition NewRequest :: "Capabilities \<Rightarrow> Priority \<Rightarrow> UserInfo \<Rightarrow> time \<Rightarrow> time \<Rightarrow> (error + ReqID) op" where
  "NewRequest caps priority owner validAfter deadline =
     bnd (if \<not> IsZero deadline then deadline_in_past deadline else ret False) (\<lambda>past.
     if past then ret (Inl ErrDeadlineInThePast)
     else if deadline < validAfter \<and> \<not> IsZero deadline then ret (Inl ErrInvalidTimeRange)
     else
     bnd (if IsZero validAfter then time_Now else ret validAfter) (\<lambda>va.
     bnd (if IsZero deadline then bnd time_Now (\<lambda>now. bnd (gets tz_offset) (\<lambda>tz. ret (addMonth tz now)))
          else ret deadline) (\<lambda>dl.
     if priority < HiPrio \<or> LoPrio < priority then ret (Inl ErrPriority)
     else
     bnd (store_request \<lparr>ID = 0, Prio = priority, Owner = owner, Deadline = dl, DeadlineZone = 0, ValidAfter = va,
            ValidAfterZone = 0, RState = WAIT, RJob = None, RCaps = caps\<rparr>) (\<lambda>i.
     thn (times_insert ValidAfterTimes (RequestTime va i))
    (thn (times_insert DeadlineTimes (RequestTime dl i))
         (ret (Inr i)))))))"

text \<open>\<open>closeRequest\<close>, which needs the mutex held.\<close>

definition closeRequest :: "ReqID \<Rightarrow> unit op" where
  "closeRequest i =
     thn (upd_request i (\<lambda>r. r\<lparr>RState := DONE\<rparr>))
    (bnd get_requests (\<lambda>m. case m i of
        None \<Rightarrow> ret ()
      | Some req \<Rightarrow> (case RJob req of
            None \<Rightarrow> ret ()
          | Some job \<Rightarrow> thn (Finish (jWorkerUUID job) True) (ret ()))))"

definition CloseRequest :: "ReqID \<Rightarrow> error option op" where
  "CloseRequest reqID = critical ReqsMutex (bnd get_requests (\<lambda>m. case m reqID of
       None \<Rightarrow> ret (Some (NotFoundError ''Request''))
     | Some req \<Rightarrow>
        (case RState req of
           WAIT \<Rightarrow> thn (upd_request reqID (\<lambda>r. r\<lparr>RState := CANCEL\<rparr>))
                  (thn (removeRequest req) (ret None))
         | INPROGRESS \<Rightarrow> thn (closeRequest reqID) (ret None)
         | _ \<Rightarrow> ret (Some ErrModificationForbidden))))"

definition modificationPossible :: "ReqState \<Rightarrow> bool" where
  "modificationPossible state = (state = WAIT)"

text \<open>
  The critical section of \<open>UpdateRequest\<close>: an error, or the points in time that have to
  be inserted.  \<open>apply_update\<close> is what it does once every check has passed.  Points in time
  are compared, but stored with the location they come in; a deadline that differs from the
  stored one is that of \<open>src\<close>.
\<close>

definition apply_update :: "ReqInfo \<Rightarrow> ReqInfo \<Rightarrow> time \<Rightarrow> (error + (requestTime option \<times> requestTime option)) op" where
  "apply_update src dst deadline =
     thn (if Prio src \<noteq> 0
          then thn (setRequestPriority dst (Prio src))
                   (upd_request (ID src) (\<lambda>r. r\<lparr>Prio := Prio src\<rparr>))
          else ret ())
    (thn (if \<not> IsZero (ValidAfter src)
          then upd_request (ID src) (\<lambda>r. r\<lparr>ValidAfter := ValidAfter src, ValidAfterZone := ValidAfterZone src\<rparr>) else ret ())
    (thn (if Deadline dst \<noteq> deadline
          then upd_request (ID src) (\<lambda>r. r\<lparr>Deadline := deadline, DeadlineZone := DeadlineZone src\<rparr>) else ret ())
         (ret (Inr (if \<not> IsZero (ValidAfter src)
                    then Some (RequestTime (ValidAfter src) (ID src)) else None,
                    if Deadline dst \<noteq> deadline
                    then Some (RequestTime deadline (ID src)) else None)))))"

definition updateRequest :: "ReqInfo \<Rightarrow> (error + (requestTime option \<times> requestTime option)) op" where
  "updateRequest src = critical ReqsMutex (bnd get_requests (\<lambda>m. case m (ID src) of
       None \<Rightarrow> ret (Inl (NotFoundError ''Request''))
     | Some dst \<Rightarrow>
       if \<not> modificationPossible (RState dst) then ret (Inl ErrModificationForbidden)
       else if Prio src = Prio dst \<and> ValidAfter src = ValidAfter dst \<and> Deadline src = Deadline dst
       then ret (Inr (None, None))
       else if Prio src \<noteq> 0 \<and> (Prio src < HiPrio \<or> LoPrio < Prio src) then ret (Inl ErrPriority)
       else bnd (if \<not> IsZero (Deadline src) then deadline_in_past (Deadline src) else ret False) (\<lambda>past.
       if past then ret (Inl ErrDeadlineInThePast)
       else
       let deadline = (if \<not> IsZero (Deadline src) then Deadline src else Deadline dst) in
       if \<not> IsZero (ValidAfter src) \<and> \<not> IsZero deadline \<and> deadline < ValidAfter src
       then ret (Inl ErrInvalidTimeRange)
       else
       apply_update src dst deadline)))"

definition insert_if :: "times_kind \<Rightarrow> requestTime option \<Rightarrow> unit op" where
  "insert_if k t = (case t of None \<Rightarrow> ret () | Some x \<Rightarrow> times_insert k x)"

definition UpdateRequest :: "ReqInfo option \<Rightarrow> error option op" where
  "UpdateRequest src = (case src of
       None \<Rightarrow> ret None
     | Some r \<Rightarrow>
       if Prio r = 0 \<and> IsZero (ValidAfter r) \<and> IsZero (Deadline r) then ret None
       else bnd (updateRequest r) (\<lambda>res. case res of
           Inl err \<Rightarrow> ret (Some err)
         | Inr (va, dl) \<Rightarrow> thn (insert_if ValidAfterTimes va) (thn (insert_if DeadlineTimes dl) (ret None))))"

definition Get :: "ReqID \<Rightarrow> (error + ReqInfo) op" where
  "Get rid = bnd get_requests (\<lambda>m. case m rid of
       None \<Rightarrow> ret (Inl (NotFoundError ''Request''))
     | Some req \<Rightarrow> ret (Inr req))"

definition GetRequestInfo :: "ReqID \<Rightarrow> (error + ReqInfo) op" where
  "GetRequestInfo reqID = critical ReqsMutex (Get reqID)"

definition AcquireWorker :: "ReqID \<Rightarrow> (error + AccessInfo) op" where
  "AcquireWorker reqID = critical ReqsMutex (bnd get_requests (\<lambda>m. case m reqID of
       None \<Rightarrow> ret (Inl (NotFoundError ''Request''))
     | Some req \<Rightarrow>
        (case RJob req of
           None \<Rightarrow> ret (Inl ErrWorkerNotAssigned)
         | Some job \<Rightarrow>
             if RState req \<noteq> INPROGRESS then ret (Inl ErrWorkerNotAssigned)
             else bnd (jobs_Get (jWorkerUUID job)) (\<lambda>r. case r of
                 Inl err \<Rightarrow> ret (Inl err)
               | Inr j \<Rightarrow> ret (Inr (Access j))))))"

text \<open>
  A job runs for an hour, from its start or from the last prolongation; its end is in the
  location of the server.
\<close>

definition set_timeout :: "ReqID \<Rightarrow> unit op" where
  "set_timeout reqID = bnd time_Now (\<lambda>now. bnd (gets tz_offset) (\<lambda>tz.
     thn (upd_request reqID (\<lambda>r. r\<lparr>RJob := map_option (\<lambda>j. j\<lparr>Timeout_at := now + hour_ns, TimeoutZone := tz\<rparr>) (RJob r)\<rparr>))
         (times_insert TimeoutTimes (RequestTime (now + hour_ns) reqID))))"

definition ProlongAccess :: "ReqID \<Rightarrow> error option op" where
  "ProlongAccess reqID = critical ReqsMutex (bnd get_requests (\<lambda>m. case m reqID of
       None \<Rightarrow> ret (Some (NotFoundError ''Request''))
     | Some req \<Rightarrow>
         if RState req \<noteq> INPROGRESS \<or> RJob req = None then ret (Some ErrWorkerNotAssigned)
         else thn (set_timeout reqID) (ret None)))"

section \<open>Matchers\<close>

definition InitIteration :: "error option op" where
  "InitIteration = thn (lock ReqsMutex) (bnd (gets (\<lambda>s. iterating (rc s))) (\<lambda>it.
     if it then thn (unlock ReqsMutex) (ret (Some ErrInternalLogicError))
     else thn initIterator
         (thn (modify (\<lambda>s. s\<lparr>rc := (rc s)\<lparr>iterating := True\<rparr>\<rparr>)) (ret None))))"

text \<open>Ending the iteration is part of both \<open>TerminateIteration\<close> and \<open>Run\<close>.\<close>

definition end_iteration :: "unit op" where
  "end_iteration = bnd (gets (\<lambda>s. iterating (rc s))) (\<lambda>it.
     if it then thn releaseIterator (modify (\<lambda>s. s\<lparr>rc := (rc s)\<lparr>iterating := False\<rparr>\<rparr>))
     else ret ())"

definition TerminateIteration :: "unit op" where
  "TerminateIteration = thn end_iteration (unlock ReqsMutex)"

definition Next :: "(ReqID \<times> bool) op" where
  "Next = bnd (gets (\<lambda>s. iterating (rc s))) (\<lambda>it.
     if it then on_queue q_next else panic ''Should never call Next(), when not iterating'')"

definition is_ready :: "ReqInfo \<Rightarrow> time \<Rightarrow> bool" where
  "is_ready req now = (RState req = WAIT \<and> now < Deadline req \<and> \<not> now < ValidAfter req)"

definition VerifyIfReady :: "ReqID \<Rightarrow> time \<Rightarrow> bool op" where
  "VerifyIfReady rid now = bnd get_requests (\<lambda>m. ret (case m rid of
       None \<Rightarrow> False
     | Some req \<Rightarrow> is_ready req now))"

definition Timeout :: "ReqID \<Rightarrow> error option op" where
  "Timeout rid = critical ReqsMutex (bnd get_requests (\<lambda>m. case m rid of
       None \<Rightarrow> ret (Some (NotFoundError ''Request''))
     | Some req \<Rightarrow>
       bnd (if RState req \<noteq> WAIT then ret True else bnd time_Now (\<lambda>now. ret (now < Deadline req))) (\<lambda>no.
       if no then ret (Some ErrModificationForbidden)
       else thn (upd_request rid (\<lambda>r. r\<lparr>RState := TIMEOUT\<rparr>))
           (thn (removeRequest req) (ret None)))))"

definition Close :: "ReqID \<Rightarrow> error option op" where
  "Close reqID = critical ReqsMutex (bnd get_requests (\<lambda>m. case m reqID of
       None \<Rightarrow> ret (Some (NotFoundError ''Request''))
     | Some req \<Rightarrow>
       if RState req \<noteq> INPROGRESS then ret (Some ErrModificationForbidden)
       else (case RJob req of
           None \<Rightarrow> ret (Some ErrInternalLogicError)
         | Some job \<Rightarrow> bnd time_Now (\<lambda>now.
             if now < Timeout_at job then ret (Some ErrModificationForbidden)
             else thn (closeRequest reqID) (ret None)))))"

definition Run :: "ReqID \<Rightarrow> WorkerUUID \<Rightarrow> error option op" where
  "Run rid worker = bnd get_requests (\<lambda>m. case m rid of
       None \<Rightarrow> ret (Some (NotFoundError ''Request''))
     | Some req \<Rightarrow>
         if RState req \<noteq> WAIT then ret (Some ErrModificationForbidden)
         else thn (upd_request rid (\<lambda>r. r\<lparr>RState := INPROGRESS,
                     RJob := Some \<lparr>jWorkerUUID = worker, Timeout_at = 0, TimeoutZone = 0\<rparr>\<rparr>))
             (thn end_iteration
             (thn (removeRequest req)
             (thn (set_timeout rid) (ret None)))))"

end
