(* ===== verification/RequestList.thy ===== *)
theory RequestList
  imports Requests "HOL-Library.Product_Lexorder"
begin

text \<open>
  Listing requests: the sorter of \<open>requests/sorter.go\<close> and \<open>ListRequests\<close> of
  \<open>requests/requests.go\<close>, with the page it returns characterised by the sorted list of the
  matching requests.
\<close>

section \<open>Sorting requests\<close>

datatype rsort_item = ByID | ByPriority | ByDeadline | ByValidAfter | ByState

definition r_newSorter :: "SortInfo option \<Rightarrow> error + (rsort_item \<times> SortOrder)" where
  "r_newSorter si = (let i = (case si of None \<Rightarrow> \<lparr>Item = '''', Order = SortOrderAsc\<rparr> | Some i \<Rightarrow> i);
         item = ToLower (Item i) in
       if item = '''' \<or> item = ''id'' then Inr (ByID, Order i)
       else if item = ''priority'' then Inr (ByPriority, Order i)
       else if item = ''deadline'' then Inr (ByDeadline, Order i)
       else if item = ''validafter'' then Inr (ByValidAfter, Order i)
       else if item = ''state'' then Inr (ByState, Order i)
       else Inl ErrWrongSortItem)"

definition lessID :: "SortOrder \<Rightarrow> ReqInfo \<Rightarrow> ReqInfo \<Rightarrow> bool" where
  "lessID order a b = (if order = SortOrderAsc then ID a < ID b else ID b < ID a)"

definition r_Less :: "rsort_item \<Rightarrow> SortOrder \<Rightarrow> ReqInfo \<Rightarrow> ReqInfo \<Rightarrow> bool" where
  "r_Less item order a b = (case item of
       ByID \<Rightarrow> lessID order a b
     | ByPriority \<Rightarrow> if Prio a = Prio b then lessID order a b
         else if order = SortOrderAsc then Prio a < Prio b else Prio b < Prio a
     | ByDeadline \<Rightarrow> if Deadline a = Deadline b then lessID order a b
         else if order = SortOrderAsc then Deadline a < Deadline b else Deadline b < Deadline a
     | ByValidAfter \<Rightarrow> if ValidAfter a = ValidAfter b then lessID order a b
         else if order = SortOrderAsc then ValidAfter a < ValidAfter b else ValidAfter b < ValidAfter a
     | ByState \<Rightarrow> if RState a = RState b then lessID order a b
         else if order = SortOrderAsc then ReqState_text (RState a) < ReqState_text (RState b)
         else ReqState_text (RState b) < ReqState_text (RState a))"

text \<open>The key a request is sorted by, a number or a text.\<close>

fun r_key :: "rsort_item \<Rightarrow> ReqInfo \<Rightarrow> int \<times> string" where
  "r_key ByID r = (0, '''')"
| "r_key ByPriority r = (uint (Prio r), '''')"
| "r_key ByDeadline r = (Deadline r, '''')"
| "r_key ByValidAfter r = (ValidAfter r, '''')"
| "r_key ByState r = (0, ReqState_text (RState r))"

interpretation rs: keyed_sorter "r_Less item order" "r_key item" ID "order = SortOrderAsc"
  for item order
proof (unfold_locales, cases item)
  fix a b :: ReqInfo
  let ?goal = "r_Less item order a b \<longleftrightarrow> (if order = SortOrderAsc
      then r_key item a < r_key item b \<or> r_key item a = r_key item b \<and> ID a < ID b
      else r_key item b < r_key item a \<or> r_key item a = r_key item b \<and> ID b < ID a)"
  show ?goal if "item = ByState"
    using that ReqState_text_inj [of "RState a" "RState b"] by (simp add: r_Less_def lessID_def)
qed (auto simp: r_Less_def lessID_def word_less_def word_uint_eq_iff)

section \<open>ListRequests\<close>

definition accepts :: "(list_elem \<Rightarrow> bool) option \<Rightarrow> ReqInfo \<Rightarrow> bool" where
  "accepts filt r = (case filt of None \<Rightarrow> True | Some f \<Rightarrow> f (ReqElem (Some r)))"

text \<open>
  The critical section: the border of the page and the requests that match.  Ranging over
  the map visits the requests in some order, for which ascending IDs stand; the sort makes
  the result independent of it.
\<close>

definition matching_requests :: "(list_elem \<Rightarrow> bool) option \<Rightarrow> ReqID \<Rightarrow> (error + (ReqInfo option \<times> ReqInfo list)) op" where
  "matching_requests filt pid = critical ReqsMutex (bnd get_requests (\<lambda>m.
     ret (if pid \<noteq> 0 \<and> m pid = None then Inl (NotFoundError ''request'')
          else Inr (m pid, filter (\<lambda>r. accepts filt r \<or> ID r = pid)
                             (map (\<lambda>i. the (m i)) (sorted_list_of_set (dom m)))))))"

definition ListRequests :: "(list_elem \<Rightarrow> bool) option \<Rightarrow> SortInfo option \<Rightarrow> RequestsPaginator option
    \<Rightarrow> (error + (ReqInfo list \<times> ListInfo)) op" where
  "ListRequests filt si paginator = (case r_newSorter si of
       Inl err \<Rightarrow> ret (Inl err)
     | Inr (item, order) \<Rightarrow>
       let p = (case paginator of None \<Rightarrow> \<lparr>rpID = 0, rpDirection = DirectionForward, rpLimit = MaxPageLimit\<rparr> | Some p \<Rightarrow> p);
           limit = page_limit (rpLimit p) in
       bnd (matching_requests filt (rpID p)) (\<lambda>m. case m of
         Inl err \<Rightarrow> ret (Inl err)
       | Inr (pagReq, matching) \<Rightarrow>
         (case paginate ID (rpID p) (rpID p \<noteq> 0) (rpDirection p) limit
                 (case filt of None \<Rightarrow> True | Some f \<Rightarrow> f (ReqElem pagReq))
                 (go_sort (r_Less item order) matching) of
            None \<Rightarrow> panic ''slice bounds out of range''
          | Some page \<Rightarrow> ret (Inr page))))"

section \<open>What a page holds\<close>

definition all_requests :: "(ReqID \<rightharpoonup> ReqInfo) \<Rightarrow> ReqInfo list" where
  "all_requests m = map (\<lambda>i. the (m i)) (sorted_list_of_set (dom m))"

text \<open>
  The specification: of all requests in order those that match and, when the page has a
  border, lie beyond it in the direction of the listing.
\<close>

definition rest_of_requests :: "rsort_item \<Rightarrow> SortOrder \<Rightarrow> ListDirection \<Rightarrow> ReqID \<Rightarrow> (ReqInfo \<Rightarrow> bool)
    \<Rightarrow> (ReqID \<rightharpoonup> ReqInfo) \<Rightarrow> ReqInfo list" where
  "rest_of_requests item order direction pid p m =
     filter (\<lambda>r. p r \<and> (pid \<noteq> 0 \<longrightarrow> ID r \<noteq> pid \<and>
        (if direction = DirectionForward then r_Less item order (the (m pid)) r else r_Less item order r (the (m pid)))))
       (go_sort (r_Less item order) (all_requests m))"

lemma all_requests:
  assumes "finite (dom m)" and "\<forall>i r. m i = Some r \<longrightarrow> ID r = i"
  shows "distinct (map ID (all_requests m))" and "set (all_requests m) = ran m"
    and "length (all_requests m) = card (dom m)"
    and "length (filter p (all_requests m)) = card {i. \<exists>r. m i = Some r \<and> p r}"
proof -
  have "map ID (all_requests m) = sorted_list_of_set (dom m)"
    unfolding all_requests_def map_map by (rule map_idI) (use assms in auto)
  then show ids: "distinct (map ID (all_requests m))" by simp
  show set: "set (all_requests m) = ran m"
    using assms(1) by (force simp: all_requests_def ran_def image_iff dom_def)
  show "length (all_requests m) = card (dom m)"
    by (simp add: all_requests_def)
  have "length (filter p (all_requests m)) = card (set (map ID (filter p (all_requests m))))"
    using distinct_map_filter [OF ids, of p] by (metis distinct_card length_map)
  also have "set (map ID (filter p (all_requests m))) = {i. \<exists>r. m i = Some r \<and> p r}"
    using set assms(2) by (force simp: ran_def)
  finally show "length (filter p (all_requests m)) = card {i. \<exists>r. m i = Some r \<and> p r}" .
qed

lemma rest_of_requests_page_rest:
  assumes "finite (dom m)" and "\<forall>i r. m i = Some r \<longrightarrow> ID r = i" and "pid \<noteq> 0 \<Longrightarrow> m pid = Some b"
  shows "rs.page_rest item order direction (if pid \<noteq> 0 then Some pid else None) p (all_requests m)
    = rest_of_requests item order direction pid p m"
proof (cases "pid = 0")
  case True
  then show ?thesis by (simp add: rs.page_rest_def rest_of_requests_def)
next
  case False
  note all = all_requests [OF assms(1,2)]
  have b: "b \<in> set (all_requests m)" "ID b = pid" using all(2) assms(2,3) False by (auto simp: ran_def)
  have "c = b" if "c \<in> set (all_requests m)" "ID c = pid" for c
    using that assms(3) [OF False] all(2) assms(2) by (auto simp: ran_def)
  then have "(\<exists>c \<in> set (all_requests m). ID c = pid \<and> rs.beyond item order direction c x)
      \<longleftrightarrow> rs.beyond item order direction b x" for x
    using b by metis
  then show ?thesis
    using False assms(3) b(2)
    by (simp add: rs.page_rest_def rest_of_requests_def rs.beyond_def rs.after_def rs.before_def)
qed

lemma wp_ListRequests:
  assumes ids: "\<forall>i r. requests (rc s) i = Some r \<longrightarrow> ID r = i" and fin: "finite (dom (requests (rc s)))"
    and small: "card (dom (requests (rc s))) < 2 ^ 64" and zero: "requests (rc s) 0 = None"
    and free: "ReqsMutex \<notin> held s" and si: "r_newSorter si = Inr (item, order)"
    and pid: "rpID p \<noteq> 0 \<Longrightarrow> requests (rc s) (rpID p) \<noteq> None"
    and Q: "\<And>page info. page = page_from (rpDirection p) (unat (page_limit (rpLimit p)))
               (rest_of_requests item order (rpDirection p) (rpID p) (accepts filt) (requests (rc s))) \<Longrightarrow>
       unat (RemainingItems info) = length (rest_of_requests item order (rpDirection p) (rpID p) (accepts filt) (requests (rc s)))
         - length page \<Longrightarrow>
       unat (TotalItems info) = card {i. \<exists>r. requests (rc s) i = Some r \<and> accepts filt r} \<Longrightarrow>
       Q (Inr (page, info)) s"
  shows "wpg b (ListRequests filt si (Some p)) Q s"
proof -
  let ?m = "requests (rc s)" and ?given = "rpID p \<noteq> 0"
  let ?matches = "case filt of None \<Rightarrow> True | Some f \<Rightarrow> f (ReqElem (?m (rpID p)))"
  note all = all_requests [OF fin ids]
  obtain br where br: "?given \<Longrightarrow> ?m (rpID p) = Some br" using pid by blast
  have border: "br \<in> set (all_requests ?m) \<and> ID br = rpID p \<and> (?matches \<longleftrightarrow> accepts filt br)" if ?given
    using br [OF that] all(2) ids by (auto simp: ran_def accepts_def split: option.split)
  have none: "\<forall>x \<in> set (all_requests ?m). ID x \<noteq> rpID p" if "\<not> ?given"
    using that all(2) ids zero by (force simp: ran_def)
  let ?rest = "rest_of_requests item order (rpDirection p) (rpID p) (accepts filt) ?m"
  have rest: "rs.page_rest item order (rpDirection p) (if ?given then Some (rpID p) else None) (accepts filt) (all_requests ?m) = ?rest"
    by (rule rest_of_requests_page_rest [OF fin ids br])
  have "\<exists>info. paginate ID (rpID p) ?given (rpDirection p) (page_limit (rpLimit p)) ?matches
        (go_sort (r_Less item order) (filter (\<lambda>r. accepts filt r \<or> ID r = rpID p) (all_requests ?m)))
      = Some (page_from (rpDirection p) (unat (page_limit (rpLimit p))) ?rest, info)
    \<and> unat (RemainingItems info) = length ?rest - length (page_from (rpDirection p) (unat (page_limit (rpLimit p))) ?rest)
    \<and> unat (TotalItems info) = length (filter (accepts filt) (all_requests ?m))"
    unfolding rest [symmetric]
  proof (rule rs.paginate_spec [OF _ all(1)])
    show "length (all_requests ?m) < 2 ^ 64" using small all(3) by simp
  qed (use border none in blast)+
  then obtain info where "paginate ID (rpID p) ?given (rpDirection p) (page_limit (rpLimit p)) ?matches
        (go_sort (r_Less item order) (filter (\<lambda>r. accepts filt r \<or> ID r = rpID p) (all_requests ?m)))
      = Some (page_from (rpDirection p) (unat (page_limit (rpLimit p))) ?rest, info)"
    and "unat (RemainingItems info) = length ?rest - length (page_from (rpDirection p) (unat (page_limit (rpLimit p))) ?rest)"
    and "unat (TotalItems info) = card {i. \<exists>r. ?m i = Some r \<and> accepts filt r}"
    unfolding all(4) by blast
  with Q [OF refl, of info] si free pid show ?thesis
    by (auto simp: ListRequests_def matching_requests_def all_requests_def [symmetric] wp_simps Let_def)
qed

end
