(* ===== verification/Matchers.thy ===== *)
theory Matchers
  imports Requests
begin

text \<open>
  The matchers of package \<open>matcher\<close> and the goroutines that drive them
  (\<open>requestTimes.process\<close> in \<open>requests/times.go\<close>).  The Go interfaces
  \<open>RequestsManager\<close>, \<open>WorkersManager\<close> and \<open>JobsManager\<close> are records of methods, and
  the matchers are defined over them; the last section fills the records with the
  methods of the server.
\<close>

section \<open>Interfaces\<close>

record 's RequestsManager =
  rmInitIteration :: "('s, error option) prog"
  rmTerminateIteration :: "('s, unit) prog"
  rmNext :: "('s, ReqID \<times> bool) prog"
  rmVerifyIfReady :: "ReqID \<Rightarrow> time \<Rightarrow> ('s, bool) prog"
  rmGet :: "ReqID \<Rightarrow> ('s, error + ReqInfo) prog"
  rmTimeout :: "ReqID \<Rightarrow> ('s, error option) prog"
  rmClose :: "ReqID \<Rightarrow> ('s, error option) prog"
  rmRun :: "ReqID \<Rightarrow> WorkerUUID \<Rightarrow> ('s, error option) prog"

record 's WorkersManager =
  wmTakeBestMatchingWorker :: "Groups \<Rightarrow> Capabilities \<Rightarrow> ('s, error + WorkerUUID) prog"
  wmPrepareWorker :: "WorkerUUID \<Rightarrow> bool \<Rightarrow> ('s, error option) prog"

record 's JobsManager =
  jmCreate :: "ReqID \<Rightarrow> WorkerUUID \<Rightarrow> ('s, error option) prog"

section \<open>The matcher of valid requests\<close>

text \<open>Assigning a worker to one request.  A failure after the worker was taken returns it.\<close>

definition matchWorkers :: "'s RequestsManager \<Rightarrow> 's WorkersManager \<Rightarrow> 's JobsManager \<Rightarrow> ReqInfo
    \<Rightarrow> ('s, bool) prog" where
  "matchWorkers R W J req =
     bnd (wmTakeBestMatchingWorker W (uGroups (Owner req)) (RCaps req)) (\<lambda>r. case r of
       Inl err \<Rightarrow> ret False
     | Inr worker \<Rightarrow>
         bnd (jmCreate J (ID req) worker) (\<lambda>err. case err of
           Some e \<Rightarrow> thn (wmPrepareWorker W worker False) (ret False)
         | None \<Rightarrow>
             bnd (rmRun R (ID req) worker) (\<lambda>err. case err of
               Some e \<Rightarrow> thn (wmPrepareWorker W worker False) (ret False)
             | None \<Rightarrow> ret True)))"

text \<open>The \<open>for\<close> loop over the queue; each turn takes one request from the iterator.\<close>

fun visit :: "'s RequestsManager \<Rightarrow> 's WorkersManager \<Rightarrow> 's JobsManager \<Rightarrow> time \<Rightarrow> nat \<Rightarrow> ('s, bool) prog" where
  "visit R W J now 0 = out_of_fuel"
| "visit R W J now (Suc fuel) = bnd (rmNext R) (\<lambda>(rid, rok).
     if \<not> rok then ret False
     else bnd (rmVerifyIfReady R rid now) (\<lambda>ready.
       if \<not> ready then visit R W J now fuel
       else bnd (rmGet R rid) (\<lambda>r. case r of
           Inl err \<Rightarrow> visit R W J now fuel
         | Inr req \<Rightarrow> bnd (matchWorkers R W J req) (\<lambda>matched.
             if matched then ret True else visit R W J now fuel))))"

definition iterateRequests :: "'s RequestsManager \<Rightarrow> 's WorkersManager \<Rightarrow> 's JobsManager \<Rightarrow> ('s, time) prog
    \<Rightarrow> nat \<Rightarrow> ('s, bool) prog" where
  "iterateRequests R W J time_now fuel =
     bnd (rmInitIteration R) (\<lambda>err.
     if err \<noteq> None then panic ''Critical logic error. No iterations over requests collection should be running.''
     else bnd time_now (\<lambda>now.
          bnd (visit R W J now fuel) (\<lambda>again.
          thn (rmTerminateIteration R) (ret again))))"

text \<open>\<open>for m.iterateRequests() {}\<close>\<close>

fun valid_notify :: "'s RequestsManager \<Rightarrow> 's WorkersManager \<Rightarrow> 's JobsManager \<Rightarrow> ('s, time) prog
    \<Rightarrow> nat \<Rightarrow> nat \<Rightarrow> ('s, unit) prog" where
  "valid_notify R W J time_now fuel 0 = out_of_fuel"
| "valid_notify R W J time_now fuel (Suc turns) = bnd (iterateRequests R W J time_now fuel) (\<lambda>again.
     if again then valid_notify R W J time_now fuel turns else ret ())"

section \<open>The matchers of deadlines and timeouts\<close>

definition deadline_notify :: "'s RequestsManager \<Rightarrow> ReqID list \<Rightarrow> ('s, unit) prog" where
  "deadline_notify R dead = for_each (\<lambda>r. thn (rmTimeout R r) (ret ())) dead"

definition timeout_notify :: "'s RequestsManager \<Rightarrow> ReqID list \<Rightarrow> ('s, unit) prog" where
  "timeout_notify R out = for_each (\<lambda>r. thn (rmClose R r) (ret ())) out"

section \<open>The matchers of the server\<close>

definition RM :: "server RequestsManager" where
  "RM = \<lparr>rmInitIteration = InitIteration, rmTerminateIteration = TerminateIteration,
         rmNext = Next, rmVerifyIfReady = VerifyIfReady, rmGet = Get, rmTimeout = Timeout,
         rmClose = Close, rmRun = Run\<rparr>"

definition WM :: "server WorkersManager" where
  "WM = \<lparr>wmTakeBestMatchingWorker = TakeBestMatchingWorker, wmPrepareWorker = PrepareWorker\<rparr>"

definition JM :: "server JobsManager" where
  "JM = \<lparr>jmCreate = Create\<rparr>"

text \<open>
  \<open>Notify\<close> of the matcher a collection of times has.  The matcher of valid requests
  ignores the list of requests; one turn more than there are waiting requests is enough
  for both of its loops.
\<close>

definition Notify :: "matcher_kind \<Rightarrow> ReqID list \<Rightarrow> unit op" where
  "Notify m past = (case m of
       ValidMatcher \<Rightarrow> bnd (gets (\<lambda>s. Suc (qlength (rqueue (rc s))))) (\<lambda>n. valid_notify RM WM JM time_Now n n)
     | DeadlineMatcher \<Rightarrow> deadline_notify RM past
     | TimeoutMatcher \<Rightarrow> timeout_notify RM past)"

text \<open>
  \<open>process\<close> of one collection of times: it holds the collection's mutex while it
  notifies the matcher.
\<close>

definition process :: "times_kind \<Rightarrow> time \<Rightarrow> unit op" where
  "process k t = critical (TimesMutex k) (
     bnd (on_rt k (rt_take_past t)) (\<lambda>past.
     bnd (gets (\<lambda>s. rt_matcher (times_of k (rc s)))) (\<lambda>m.
     thn (case m of None \<Rightarrow> ret () | Some mk \<Rightarrow> Notify mk past)
         (on_rt k rt_rearm))))"

text \<open>
  One turn of \<open>loop\<close> in one piece: the timer fires at a moment \<open>t\<close> and the collection is
  processed.  The timer is due when \<open>t\<close> is not before the moment it was set for.
\<close>

definition timer_due :: "times_kind \<Rightarrow> time \<Rightarrow> server \<Rightarrow> bool" where
  "timer_due k t s = (case timer (times_of k (rc s)) of None \<Rightarrow> False | Some f \<Rightarrow> f \<le> t)"

definition fire :: "times_kind \<Rightarrow> time \<Rightarrow> unit op" where
  "fire k t = thn (on_rt k rt_stop) (process k t)"

end
