(* ===== verification/Invariant.thy ===== *)
theory Invariant
  imports Matchers
begin

text \<open>
  What is true of the server between two operations.  The invariant is a conjunction of
  predicates on the parts of the state, so that an operation has to argue only about the
  parts it changes:

  \<^item> \<open>data_ok\<close>: the requests are numbered from 1 without gaps, their priorities are in
    range, a running request has a job;
  \<^item> \<open>queue_ok\<close>: the queue holds exactly the waiting requests, each under its priority;
  \<^item> \<open>times_ok\<close>: every collection of times is a heap, and its timer is armed;
  \<^item> \<open>sched_ok\<close>: the deadline of every waiting request and the timeout of every running
    one are scheduled;
  \<^item> \<open>job_ok\<close>: jobs and running requests correspond, and exactly the tunnels of the jobs
    are open;
  \<^item> \<open>run_ok\<close>: exactly the workers in state \<open>RUN\<close> have a job;
  \<^item> \<open>wk_ok\<close>: a worker that is idle or running has a key, and its channel and its
    background goroutine agree with its state.

  Between the steps of an operation some parts fail for the objects it is working on; the
  parameters of \<open>inv\<close> name these exceptions, and \<open>ok\<close> has none.
\<close>

section \<open>Requests\<close>

definition data_ok :: "(ReqID \<rightharpoonup> ReqInfo) \<Rightarrow> bool" where
  "data_ok m \<longleftrightarrow> (\<exists>n. dom m = {1..n})
     \<and> (\<forall>i r. m i = Some r \<longrightarrow> ID r = i \<and> prio_ok (Prio r)
              \<and> (RState r = INPROGRESS \<longrightarrow> RJob r \<noteq> None))"

definition queue_ok :: "(ReqID \<rightharpoonup> ReqInfo) \<Rightarrow> prioQueue \<Rightarrow> bool" where
  "queue_ok m q \<longleftrightarrow> q_inv q
     \<and> (\<forall>i p. pq.waiting q i p \<longleftrightarrow> (\<exists>r. m i = Some r \<and> RState r = WAIT \<and> Prio r = p))"

fun matcher_of :: "times_kind \<Rightarrow> matcher_kind" where
  "matcher_of ValidAfterTimes = ValidMatcher"
| "matcher_of DeadlineTimes = DeadlineMatcher"
| "matcher_of TimeoutTimes = TimeoutMatcher"

definition times_ok :: "times_kind set \<Rightarrow> ReqsCollection \<Rightarrow> bool" where
  "times_ok A r \<longleftrightarrow> (\<forall>k. rt_heap (times_of k r) \<and> (k \<notin> A \<longrightarrow> rt_armed (times_of k r))
     \<and> rt_matcher (times_of k r) = Some (matcher_of k))"

definition sched_ok :: "(ReqID \<Rightarrow> ReqInfo \<Rightarrow> bool) \<Rightarrow> (ReqID \<Rightarrow> ReqInfo \<Rightarrow> bool)
    \<Rightarrow> ReqsCollection \<Rightarrow> bool" where
  "sched_ok PD PT c \<longleftrightarrow> (\<forall>i r. requests c i = Some r \<longrightarrow>
     (RState r = WAIT \<longrightarrow> scheduled (deadlineTimes c) i (Deadline r) \<or> PD i r)
     \<and> (\<forall>j. RState r = INPROGRESS \<longrightarrow> RJob r = Some j \<longrightarrow>
            scheduled (timeoutTimes c) i (Timeout_at j) \<or> PT i r))"

section \<open>Jobs\<close>

definition runs_on :: "ReqInfo \<Rightarrow> WorkerUUID \<Rightarrow> bool" where
  "runs_on r u \<longleftrightarrow> RState r = INPROGRESS \<and> (\<exists>j. RJob r = Some j \<and> jWorkerUUID j = u)"

definition job_ok :: "(ReqID \<rightharpoonup> ReqInfo) \<Rightarrow> (WorkerUUID \<rightharpoonup> Job) \<Rightarrow> nat set \<Rightarrow> nat \<Rightarrow> bool" where
  "job_ok m js op n \<longleftrightarrow>
     (\<forall>u j. js u = Some j \<longrightarrow> (\<exists>r. m (jReq j) = Some r \<and> runs_on r u))
     \<and> (\<forall>i r u. m i = Some r \<longrightarrow> runs_on r u \<longrightarrow> (\<exists>j. js u = Some j \<and> jReq j = i))
     \<and> (\<forall>t. t \<in> op \<longleftrightarrow> (\<exists>u j. js u = Some j \<and> tun_id (jTunnel j) = t))
     \<and> (\<forall>u v j k. js u = Some j \<longrightarrow> js v = Some k \<longrightarrow>
            tun_id (jTunnel j) = tun_id (jTunnel k) \<longrightarrow> u = v)
     \<and> (\<forall>t \<in> op. t < n)"

definition run_ok :: "WorkerUUID set \<Rightarrow> (WorkerUUID \<rightharpoonup> Job) \<Rightarrow> (WorkerUUID \<rightharpoonup> mapWorker) \<Rightarrow> bool" where
  "run_ok X js ws \<longleftrightarrow> (\<forall>u. u \<notin> X \<longrightarrow>
     (js u \<noteq> None \<longleftrightarrow> (\<exists>w. ws u = Some w \<and> WState (info w) = RUN)))"

section \<open>Workers\<close>

text \<open>
  What a goroutine at \<open>pc\<close> knows of its worker when its channel is empty: it works on
  the operation the worker's state asks for, or it waits and there is none.
\<close>

definition has_key :: "mapWorker \<Rightarrow> bool" where
  "has_key w \<longleftrightarrow> wkey w \<noteq> None"

fun pc_knows :: "bg_pc \<Rightarrow> WorkerState \<Rightarrow> bool \<Rightarrow> bool" where
  "pc_knows (AtLoop op) st key =
     (if op_got op then op_open op \<and> op_state op = st else st \<noteq> PREPARE \<and> st \<noteq> BUSY)"
| "pc_knows (Settle target err) st key =
     (st = (if target = IDLE then PREPARE else BUSY) \<and> target \<in> {IDLE, MAINTENANCE}
      \<and> (target = IDLE \<longrightarrow> err = None \<longrightarrow> key))"
| "pc_knows PmAddr st key = (st = BUSY)"
| "pc_knows (PmDial a) st key = (st = BUSY)"
| "pc_knows PmOrder st key = (st = BUSY)"
| "pc_knows Ended st key = False"
| "pc_knows PkAddr st key = (st = PREPARE)"
| "pc_knows (PkDial a) st key = (st = PREPARE)"
| "pc_knows PkGenerate st key = (st = PREPARE)"
| "pc_knows (PkPublic k) st key = (st = PREPARE)"
| "pc_knows (PkInstall k) st key = (st = PREPARE)"
| "pc_knows (PkStore k) st key = (st = PREPARE)"

text \<open>
  A channel that is not empty ends with the worker's state.  What the goroutine holds
  matters only once the channel is empty, but its position is one of a live goroutine.
\<close>

definition agrees :: "mapWorker \<Rightarrow> chan \<Rightarrow> bg \<Rightarrow> bool" where
  "agrees w ch g \<longleftrightarrow> \<not> closed ch
     \<and> (buf ch \<noteq> [] \<longrightarrow> last (buf ch) = WState (info w))
     \<and> (buf ch = [] \<longrightarrow> pc_knows (bg_pc g) (WState (info w)) (has_key w))
     \<and> (\<exists>st key. pc_knows (bg_pc g) st key)"

definition wk_ok :: "(WorkerUUID \<rightharpoonup> mapWorker) \<Rightarrow> (nat \<Rightarrow> chan) \<Rightarrow> nat
    \<Rightarrow> (nat \<rightharpoonup> bg) \<Rightarrow> bool" where
  "wk_ok ws chs n gs \<longleftrightarrow> finite (dom ws)
     \<and> (\<forall>u w. ws u = Some w \<longrightarrow> WUUID (info w) = u
          \<and> (WState (info w) \<in> {IDLE, RUN} \<longrightarrow> has_key w)
          \<and> backgroundOperation w < n
          \<and> (\<exists>g. gs (backgroundOperation w) = Some g \<and> bg_uuid g = u
                 \<and> agrees w (chs (backgroundOperation w)) g))
     \<and> (\<forall>u v w x. ws u = Some w \<longrightarrow> ws v = Some x \<longrightarrow>
          backgroundOperation w = backgroundOperation x \<longrightarrow> u = v)
     \<and> (\<forall>c g. gs c = Some g \<longrightarrow> c < n \<and> (closed (chs c)
          \<or> (\<exists>w. ws (bg_uuid g) = Some w \<and> backgroundOperation w = c)))"

section \<open>The whole state\<close>

definition inv :: "times_kind set \<Rightarrow> (ReqID \<Rightarrow> ReqInfo \<Rightarrow> bool) \<Rightarrow> (ReqID \<Rightarrow> ReqInfo \<Rightarrow> bool)
    \<Rightarrow> WorkerUUID set \<Rightarrow> server \<Rightarrow> bool" where
  "inv A PD PT X s \<longleftrightarrow> data_ok (requests (rc s))
     \<and> queue_ok (requests (rc s)) (rqueue (rc s))
     \<and> times_ok A (rc s)
     \<and> sched_ok PD PT (rc s)
     \<and> job_ok (requests (rc s)) (jobs s) (open_tunnels s) (next_tunnel s)
     \<and> run_ok X (jobs s) (workers (wl s))
     \<and> wk_ok (workers (wl s)) (chans s) (next_chan s) (bgs s)
     \<and> changeListener (wl s)"

definition nobody :: "ReqID \<Rightarrow> ReqInfo \<Rightarrow> bool" where
  "nobody i r = False"

definition ok :: "server \<Rightarrow> bool" where
  "ok s \<longleftrightarrow> inv {} nobody nobody {} s \<and> held s = {} \<and> \<not> iterating (rc s)"

end
