(* ===== verification/Rules.thy ===== *)
theory Rules
  imports Invariant
begin

text \<open>
  Weakest preconditions of the operations that call no others, over the invariants of
  the data they work on: the shapes in which the proofs about the components use them.
\<close>

section \<open>Rules for the operations on queue and times\<close>

lemma scheduled_mono:
  "scheduled rt i t \<Longrightarrow> set (times rt) \<subseteq> set (times rt') \<Longrightarrow> scheduled rt' i t"
  by (auto simp: scheduled_def)

lemma wp_times_insert:
  assumes "TimesMutex k \<notin> held s" and "rt_inv (times_of k (rc s))"
    and "\<And>rt. rt_inv rt \<Longrightarrow> set (times rt) = insert t (set (times (times_of k (rc s)))) \<Longrightarrow>
           rt_matcher rt = rt_matcher (times_of k (rc s)) \<Longrightarrow> Q () (s\<lparr>rc := set_times k rt (rc s)\<rparr>)"
  shows "wpg b (times_insert k t) Q s"
  unfolding times_insert_def wp_critical wp_on_rt
  using assms(1)
  by simp
     (rule wp_lift_mono [OF rt_insert_spec [OF assms(2)]],
      use assms in \<open>auto dest!: arg_cong [of _ _ set_mset]\<close>)

lemma wp_removeRequest:
  assumes "QueueMutex \<notin> held s" and "q_inv (rqueue (rc s))"
    and "pq.waiting (rqueue (rc s)) (ID req) (Prio req)"
    and "\<And>q. q_inv q \<Longrightarrow> (\<forall>y p. pq.waiting q y p \<longleftrightarrow> pq.waiting (rqueue (rc s)) y p \<and> y \<noteq> ID req) \<Longrightarrow>
           Q () (s\<lparr>rc := (rc s)\<lparr>rqueue := q\<rparr>\<rparr>)"
  shows "wpg b (removeRequest req) Q s"
  unfolding removeRequest_def wp_critical wp_on_queue
  using assms(1)
  by simp (rule wp_lift_mono [OF pq.waiting_remove], use assms in auto)

lemma wp_pushRequest:
  assumes "QueueMutex \<notin> held s" and "q_inv (rqueue (rc s))" and "prio_ok (Prio req)"
    and "\<And>p. \<not> pq.waiting (rqueue (rc s)) (ID req) p"
    and "\<And>q. q_inv q \<Longrightarrow> (\<forall>y p. pq.waiting q y p \<longleftrightarrow>
             pq.waiting (rqueue (rc s)) y p \<or> y = ID req \<and> p = Prio req) \<Longrightarrow>
           Q () (s\<lparr>rc := (rc s)\<lparr>rqueue := q\<rparr>\<rparr>)"
  shows "wpg b (pushRequest req) Q s"
  unfolding pushRequest_def wp_critical wp_on_queue
  using assms(1)
  by simp (rule wp_lift_mono [OF pq.waiting_push], use assms in auto)

lemma wp_setRequestPriority:
  assumes "QueueMutex \<notin> held s" and "q_inv (rqueue (rc s))" and "prio_ok new"
    and "pq.waiting (rqueue (rc s)) (ID req) (Prio req)"
    and "\<And>q. q_inv q \<Longrightarrow> (\<forall>y p. pq.waiting q y p \<longleftrightarrow>
             (if y = ID req then p = new else pq.waiting (rqueue (rc s)) y p)) \<Longrightarrow>
           Q () (s\<lparr>rc := (rc s)\<lparr>rqueue := q\<rparr>\<rparr>)"
  shows "wpg b (setRequestPriority req new) Q s"
  unfolding setRequestPriority_def q_setPriority_def wp_critical wp_on_queue
  using assms(1)
  by simp (rule wp_lift_mono [OF pq.waiting_move], use assms in auto)

section \<open>Rules for jobs and the change listener\<close>

lemma wp_jobs_Get:
  assumes "JobsMutex \<notin> held s"
    and "Q (case jobs s u of None \<Rightarrow> Inl (NotFoundError ''Job'') | Some j \<Rightarrow> Inr j) s"
  shows "wpg b (jobs_Get u) Q s"
  using assms by (simp add: jobs_Get_def wp_simps split: option.splits)

lemma wp_finish_job:
  assumes "JobsMutex \<notin> held s"
    and "jobs s u = None \<Longrightarrow> Q (Some (NotFoundError ''Job'')) s"
    and "\<And>j. jobs s u = Some j \<Longrightarrow> tun_id (jTunnel j) \<in> open_tunnels s \<and>
           Q None (s\<lparr>open_tunnels := open_tunnels s - {tun_id (jTunnel j)}, jobs := (jobs s)(u := None)\<rparr>)"
  shows "wpg b (finish_job u) Q s"
  using assms by (auto simp: finish_job_def wp_simps split: option.splits)

lemma wp_OnWorkerIdle:
  assumes "TimesMutex ValidAfterTimes \<notin> held s \<or> b" and "rt_inv (times_of ValidAfterTimes (rc s))"
    and "\<And>rt. rt_inv rt \<Longrightarrow>
           set (times rt) = insert (RequestTime (clock s 0) 0) (set (times (times_of ValidAfterTimes (rc s)))) \<Longrightarrow>
           rt_matcher rt = rt_matcher (times_of ValidAfterTimes (rc s)) \<Longrightarrow>
           Q () (s\<lparr>clock := (\<lambda>i. clock s (Suc i)), rc := set_times ValidAfterTimes rt (rc s)\<rparr>)"
  shows "wpg b (OnWorkerIdle u) Q s"
proof (cases "TimesMutex ValidAfterTimes \<in> held s")
  case True
  then show ?thesis
    using assms(1) by (simp add: OnWorkerIdle_def wp_simps times_insert_def)
next
  case False
  then show ?thesis
    unfolding OnWorkerIdle_def wp_bnd wp_time_Now
    by (intro wp_times_insert) (use assms in auto)
qed

lemma wp_OnWorkerFail:
  assumes "ReqsMutex \<notin> held s \<or> b" and "JobsMutex \<notin> held s"
    and "jobs s u = None \<Longrightarrow> Q () s"
    and "\<And>j r. jobs s u = Some j \<Longrightarrow> requests (rc s) (jReq j) = Some r \<Longrightarrow>
           Q () (s\<lparr>open_tunnels := open_tunnels s - {tun_id (jTunnel j)}, jobs := (jobs s)(u := None),
                   rc := (rc s)\<lparr>requests := (requests (rc s))(jReq j \<mapsto> r\<lparr>RState := FAILED\<rparr>)\<rparr>\<rparr>)"
    and "\<And>j. jobs s u = Some j \<Longrightarrow> requests (rc s) (jReq j) \<noteq> None \<and> tun_id (jTunnel j) \<in> open_tunnels s"
  shows "wpg b (OnWorkerFail u) Q s"
proof (cases "ReqsMutex \<in> held s")
  case True
  then show ?thesis using assms(1) by (simp add: OnWorkerFail_def wp_simps)
next
  case free: False
  show ?thesis
  proof (cases "jobs s u")
    case None
    then show ?thesis
      using free assms(2,3) by (simp add: OnWorkerFail_def wp_simps jobs_Get_def)
  next
    case (Some j)
    then obtain r where r: "requests (rc s) (jReq j) = Some r"
      using assms(5) by blast
    show ?thesis
      using free assms(2) assms(5) [OF Some] assms(4) [OF Some r]
      by (simp add: OnWorkerFail_def wp_simps jobs_Get_def finish_job_def Some r)
  qed
qed

section \<open>Sending and storing a state\<close>

text \<open>What \<open>setState\<close> does but for the change listener.\<close>

definition sent :: "WorkerUUID \<Rightarrow> mapWorker \<Rightarrow> WorkerState \<Rightarrow> server \<Rightarrow> server" where
  "sent u w st s = s\<lparr>
     chans := (chans s)(backgroundOperation w := (chans s (backgroundOperation w))
                \<lparr>buf := buf (chans s (backgroundOperation w)) @ [st]\<rparr>),
     wl := (wl s)\<lparr>workers := (workers (wl s))(u \<mapsto> w\<lparr>info := (info w)\<lparr>WState := st\<rparr>\<rparr>)\<rparr>\<rparr>"

definition room :: "server \<Rightarrow> mapWorker \<Rightarrow> bool" where
  "room s w \<longleftrightarrow> length (buf (chans s (backgroundOperation w))) < backgroundOperationsBufferSize"

text \<open>The end of a job: its request gets a final state, its tunnel is closed.\<close>

definition job_ended :: "WorkerUUID \<Rightarrow> Job \<Rightarrow> ReqInfo \<Rightarrow> server \<Rightarrow> server" where
  "job_ended u j r s = s\<lparr>open_tunnels := open_tunnels s - {tun_id (jTunnel j)}, jobs := (jobs s)(u := None),
     rc := (rc s)\<lparr>requests := (requests (rc s))(jReq j \<mapsto> r)\<rparr>\<rparr>"

definition idle_noted :: "requestTimes \<Rightarrow> server \<Rightarrow> server" where
  "idle_noted rt s = s\<lparr>clock := (\<lambda>i. clock s (Suc i)), rc := set_times ValidAfterTimes rt (rc s)\<rparr>"

definition fails :: "mapWorker \<Rightarrow> WorkerState \<Rightarrow> bool" where
  "fails w st \<longleftrightarrow> WState (info w) = RUN \<and> st \<noteq> IDLE \<and> st \<noteq> PREPARE"

lemma wp_setState:
  assumes "workers (wl s) u = Some w" and "changeListener (wl s)"
    and "\<not> closed (chans s (backgroundOperation w))" and "room s w \<or> b"
    and "st = IDLE \<Longrightarrow> (TimesMutex ValidAfterTimes \<notin> held s \<or> b)
           \<and> (TimesMutex ValidAfterTimes \<notin> held s \<longrightarrow> rt_inv (times_of ValidAfterTimes (rc s)))"
    and "fails w st \<Longrightarrow> (ReqsMutex \<notin> held s \<or> b) \<and> JobsMutex \<notin> held s
           \<and> (\<forall>j. jobs s u = Some j \<longrightarrow> requests (rc s) (jReq j) \<noteq> None \<and> tun_id (jTunnel j) \<in> open_tunnels s)"
    and "\<And>rt. st = IDLE \<Longrightarrow> rt_inv rt \<Longrightarrow>
           set (times rt) = insert (RequestTime (clock s 0) 0) (set (times (times_of ValidAfterTimes (rc s)))) \<Longrightarrow>
           rt_matcher rt = rt_matcher (times_of ValidAfterTimes (rc s)) \<Longrightarrow>
           Q None (sent u w st (idle_noted rt s))"
    and "\<And>j r. fails w st \<Longrightarrow> jobs s u = Some j \<Longrightarrow> requests (rc s) (jReq j) = Some r \<Longrightarrow>
           Q None (sent u w st (job_ended u j (r\<lparr>RState := FAILED\<rparr>) s))"
    and "st \<noteq> IDLE \<Longrightarrow> fails w st \<longrightarrow> jobs s u = None \<Longrightarrow> Q None (sent u w st s)"
  shows "wpg b (setState u st) Q s"
proof (cases "room s w")
  case False
  with assms(1-4) show ?thesis
    by (simp add: setState_def wp_simps room_def)
next
  case True
  let ?s = "s\<lparr>chans := (chans s)(backgroundOperation w := (chans s (backgroundOperation w))
                \<lparr>buf := buf (chans s (backgroundOperation w)) @ [st]\<rparr>)\<rparr>"
  let ?store = "\<lambda>_ t. Q None (t\<lparr>wl := (wl t)\<lparr>workers := (workers (wl t))
     (u := map_option (\<lambda>w. w\<lparr>info := (info w)\<lparr>WState := st\<rparr>\<rparr>) (workers (wl t) u))\<rparr>\<rparr>)"
  have "wpg b (setState u st) Q s \<longleftrightarrow>
      wpg b (thn (if st = IDLE then OnWorkerIdle u else ret ())
                 (if fails w st then OnWorkerFail u else ret ())) ?store ?s"
    using assms(1-3) True by (simp add: setState_def wp_simps room_def fails_def)
  also have "\<dots>"
  proof (cases "st = IDLE")
    case True
    then have "\<not> fails w st" by (simp add: fails_def)
    have "wpg b (OnWorkerIdle u) ?store ?s"
    proof (cases "TimesMutex ValidAfterTimes \<in> held s")
      case True
      then show ?thesis
        using assms(5) \<open>st = IDLE\<close> by (simp add: OnWorkerIdle_def wp_simps times_insert_def)
    next
      case False
      show ?thesis
      proof (rule wp_OnWorkerIdle)
        fix rt
        assume "rt_inv rt" and "set (times rt) = insert (RequestTime (clock ?s 0) 0)
              (set (times (times_of ValidAfterTimes (rc ?s))))"
          and "rt_matcher rt = rt_matcher (times_of ValidAfterTimes (rc ?s))"
        then have "Q None (sent u w st (idle_noted rt s))"
          by (intro assms(7)) (simp_all add: \<open>st = IDLE\<close>)
        then show "?store () (?s\<lparr>clock := (\<lambda>i. clock ?s (Suc i)), rc := set_times ValidAfterTimes rt (rc ?s)\<rparr>)"
          by (rule back_subst [of "Q None"]) (simp add: sent_def idle_noted_def assms(1))
      qed (use assms(5) False \<open>st = IDLE\<close> in simp_all)
    qed
    with True \<open>\<not> fails w st\<close> show ?thesis by (simp add: wp_simps)
  next
    case idle: False
    show ?thesis
    proof (cases "fails w st")
      case True
      have "wpg b (OnWorkerFail u) ?store ?s"
      proof (rule wp_OnWorkerFail)
        show "?store () (?s\<lparr>open_tunnels := open_tunnels ?s - {tun_id (jTunnel j)}, jobs := (jobs ?s)(u := None),
            rc := (rc ?s)\<lparr>requests := (requests (rc ?s))(jReq j \<mapsto> r\<lparr>RState := FAILED\<rparr>)\<rparr>\<rparr>)"
          if "jobs ?s u = Some j" "requests (rc ?s) (jReq j) = Some r" for j r
        proof (rule back_subst [of "Q None"])
          show "Q None (sent u w st (job_ended u j (r\<lparr>RState := FAILED\<rparr>) s))"
            using that True by (intro assms(8)) simp_all
        qed (rule server.equality; simp add: sent_def job_ended_def assms(1))
      qed (use assms(1,6,9) True idle in \<open>auto simp: sent_def\<close>)
      with idle True show ?thesis by (simp add: wp_simps)
    next
      case False
      with idle assms(1,9) show ?thesis by (simp add: wp_simps sent_def)
    qed
  qed
  finally show ?thesis .
qed

end
