(* ===== verification/Frames.thy ===== *)
theory Frames
  imports Rules
begin

text \<open>
  How the parts of the invariant survive a change of one request, one worker or one
  collection of times, and with that the whole of \<open>setState\<close>.
\<close>

section \<open>Changing one request\<close>

lemma data_ok_upd:
  assumes "data_ok m" and "m i = Some r" and "ID r' = ID r" and "prio_ok (Prio r')"
    and "RState r' = INPROGRESS \<longrightarrow> RJob r' \<noteq> None"
  shows "data_ok (m(i \<mapsto> r'))"
  unfolding data_ok_def
proof (intro conjI allI impI)
  show "\<exists>n. dom (m(i \<mapsto> r')) = {1..n}"
    unfolding dom_upd_same [where m = m, OF assms(2)] using assms(1) by (simp add: data_ok_def)
qed (use assms in \<open>auto simp: data_ok_def split: if_splits\<close>)

lemma queue_ok_upd:
  assumes "queue_ok m q" and "m i = Some r" and "RState r' = WAIT \<longleftrightarrow> RState r = WAIT"
    and "RState r = WAIT \<longrightarrow> Prio r' = Prio r"
  shows "queue_ok (m(i \<mapsto> r')) q"
  using assms by (auto simp: queue_ok_def)

lemma job_ok_upd:
  assumes "job_ok m js op n" and "m i = Some r" and "\<And>u. runs_on r' u \<longleftrightarrow> runs_on r u"
  shows "job_ok (m(i \<mapsto> r')) js op n"
  unfolding job_ok_def
proof (intro conjI)
  show "\<forall>u j. js u = Some j \<longrightarrow> (\<exists>r. (m(i \<mapsto> r')) (jReq j) = Some r \<and> runs_on r u)"
    using assms unfolding job_ok_def by (metis fun_upd_apply option.inject)
  show "\<forall>k s u. (m(i \<mapsto> r')) k = Some s \<longrightarrow> runs_on s u \<longrightarrow> (\<exists>j. js u = Some j \<and> jReq j = k)"
    using assms unfolding job_ok_def by (metis fun_upd_apply option.inject)
qed (use assms(1) in \<open>simp_all add: job_ok_def\<close>)

lemma runs_on_one: "runs_on r u \<Longrightarrow> runs_on r v \<Longrightarrow> u = v"
  by (auto simp: runs_on_def)

lemma job_ok_end:
  assumes ok: "job_ok m js op n" and j: "js u = Some j" and r: "m (jReq j) = Some r"
    and r': "RState r' \<noteq> INPROGRESS"
  shows "job_ok (m(jReq j \<mapsto> r')) (js(u := None)) (op - {tun_id (jTunnel j)}) n"
proof -
  have on: "runs_on r u" using ok j r unfolding job_ok_def by fastforce
  have other: "jReq k \<noteq> jReq j" if "js v = Some k" "v \<noteq> u" for v k
    using ok that on r runs_on_one unfolding job_ok_def by (metis option.inject)
  have off: "\<not> runs_on r' v" for v using r' by (simp add: runs_on_def)
  have tun: "tun_id (jTunnel k) \<noteq> tun_id (jTunnel j)" if "js v = Some k" "v \<noteq> u" for v k
    using ok that j unfolding job_ok_def by blast
  have gone: "k \<noteq> jReq j" if "m k = Some s" "runs_on s v" "v \<noteq> u" for k s v
    using that on r runs_on_one by auto
  show ?thesis
    unfolding job_ok_def
  proof (intro conjI allI impI)
    fix v k assume "(js(u := None)) v = Some k"
    then have v: "v \<noteq> u" "js v = Some k" by (auto split: if_splits)
    then show "\<exists>r. (m(jReq j \<mapsto> r')) (jReq k) = Some r \<and> runs_on r v"
      using ok other unfolding job_ok_def by auto
  next
    fix k s v assume ks: "(m(jReq j \<mapsto> r')) k = Some s" "runs_on s v"
    then have k: "k \<noteq> jReq j" "m k = Some s" using off by (auto split: if_splits)
    moreover have "v \<noteq> u"
      using ok ks(2) k j unfolding job_ok_def by (metis option.inject)
    ultimately show "\<exists>j'. (js(u := None)) v = Some j' \<and> jReq j' = k"
      using ok ks(2) unfolding job_ok_def by auto
  next
    fix t show "(t \<in> op - {tun_id (jTunnel j)}) \<longleftrightarrow> (\<exists>v k. (js(u := None)) v = Some k \<and> tun_id (jTunnel k) = t)"
      using ok tun j unfolding job_ok_def by (auto split: if_splits) (metis option.inject)
  qed (use ok in \<open>auto simp: job_ok_def split: if_splits\<close>)
qed

lemma sched_ok_upd:
  assumes "sched_ok PD PT c"
    and "RState r' = WAIT \<Longrightarrow> scheduled (deadlineTimes c) i (Deadline r') \<or> PD i r'"
    and "\<And>j. RState r' = INPROGRESS \<Longrightarrow> RJob r' = Some j \<Longrightarrow>
           scheduled (timeoutTimes c) i (Timeout_at j) \<or> PT i r'"
  shows "sched_ok PD PT (c\<lparr>requests := (requests c)(i \<mapsto> r')\<rparr>)"
  using assms by (auto simp: sched_ok_def)

section \<open>Changing one worker\<close>

lemma wk_okD:
  assumes "wk_ok ws chs n gs" and "ws u = Some w"
  shows "WUUID (info w) = u" and "WState (info w) \<in> {IDLE, RUN} \<longrightarrow> has_key w"
    and "backgroundOperation w < n"
    and "\<exists>g. gs (backgroundOperation w) = Some g \<and> bg_uuid g = u \<and> agrees w (chs (backgroundOperation w)) g"
    and "\<not> closed (chs (backgroundOperation w))"
  using assms by (auto simp: wk_ok_def agrees_def)

lemma wk_ok_inj:
  "wk_ok ws chs n gs \<Longrightarrow> ws u = Some w \<Longrightarrow> ws v = Some x \<Longrightarrow>
   backgroundOperation w = backgroundOperation x \<Longrightarrow> u = v"
  unfolding wk_ok_def by blast

lemma wk_ok_bg:
  "wk_ok ws chs n gs \<Longrightarrow> gs c = Some g \<Longrightarrow>
   c < n \<and> (closed (chs c) \<or> (\<exists>w. ws (bg_uuid g) = Some w \<and> backgroundOperation w = c))"
  unfolding wk_ok_def by blast

lemma wk_ok_upd:
  assumes ok: "wk_ok ws chs n gs" and w: "ws u = Some w"
    and same: "WUUID (info w') = u" "backgroundOperation w' = backgroundOperation w"
    and key: "WState (info w') \<in> {IDLE, RUN} \<longrightarrow> has_key w'"
    and ag: "\<And>g. agrees w (chs (backgroundOperation w)) g \<Longrightarrow> agrees w' ch g"
  shows "wk_ok (ws(u \<mapsto> w')) (chs(backgroundOperation w := ch)) n gs"
proof -
  let ?c = "backgroundOperation w"
  have inj: "v = u" if "ws v = Some x" "backgroundOperation x = ?c" for v x
    using wk_ok_inj [OF ok that(1) w that(2)] .
  obtain g where g: "gs ?c = Some g" "bg_uuid g = u" "agrees w (chs ?c) g"
    using wk_okD(4) [OF ok w] by blast
  have open': "\<not> closed ch" using ag [OF g(3)] by (simp add: agrees_def)
  show ?thesis
    unfolding wk_ok_def
  proof (intro conjI allI impI)
    show "finite (dom (ws(u \<mapsto> w')))" using ok by (simp add: wk_ok_def)
    fix v x assume vx: "(ws(u \<mapsto> w')) v = Some x"
    show "WUUID (info x) = v" "WState (info x) \<in> {IDLE, RUN} \<Longrightarrow> has_key x" "backgroundOperation x < n"
      using vx same key wk_okD(1-3) [OF ok w] wk_okD(1-3) [OF ok, of v x]
      by (cases "v = u"; simp; fail)+
    show "\<exists>g. gs (backgroundOperation x) = Some g \<and> bg_uuid g = v
           \<and> agrees x ((chs(?c := ch)) (backgroundOperation x)) g"
    proof (cases "v = u")
      case True
      with vx g same ag [OF g(3)] show ?thesis by auto
    next
      case False
      with vx inj have "ws v = Some x" "backgroundOperation x \<noteq> ?c" by auto
      with wk_okD(4) [OF ok this(1)] show ?thesis by simp
    qed
    fix y z
    assume "(ws(u \<mapsto> w')) y = Some z" "backgroundOperation x = backgroundOperation z"
    moreover have "v = y" if "ws v = Some x" "ws y = Some z" "backgroundOperation x = backgroundOperation z"
      using wk_ok_inj [OF ok that] .
    ultimately show "v = y"
      using vx inj same by (auto split: if_splits)
  next
    fix c h assume ch: "gs c = Some h"
    then show "c < n" using ok unfolding wk_ok_def by blast
    show "closed ((chs(?c := ch)) c) \<or> (\<exists>x. (ws(u \<mapsto> w')) (bg_uuid h) = Some x \<and> backgroundOperation x = c)"
    proof (cases "c = ?c")
      case True
      with ch g same show ?thesis by auto
    next
      case False
      with wk_ok_bg [OF ok ch] w show ?thesis by auto
    qed
  qed
qed

section \<open>Changing the whole state\<close>

lemma inv_fields [simp]:
  "inv A PD PT X (s\<lparr>clock := c\<rparr>) = inv A PD PT X s"
  "inv A PD PT X (s\<lparr>held := h\<rparr>) = inv A PD PT X s"
  "inv A PD PT X (s\<lparr>ports := p\<rparr>) = inv A PD PT X s"
  by (simp_all add: inv_def)

lemma inv_iterating [simp]:
  "inv A PD PT X (s\<lparr>rc := (rc s)\<lparr>iterating := b\<rparr>\<rparr>) = inv A PD PT X s"
  by (simp add: inv_def times_ok_def sched_ok_def)

lemma invD:
  assumes "inv A PD PT X s"
  shows "data_ok (requests (rc s))" "queue_ok (requests (rc s)) (rqueue (rc s))" "times_ok A (rc s)"
    "sched_ok PD PT (rc s)" "job_ok (requests (rc s)) (jobs s) (open_tunnels s) (next_tunnel s)"
    "run_ok X (jobs s) (workers (wl s))" "wk_ok (workers (wl s)) (chans s) (next_chan s) (bgs s)"
    "changeListener (wl s)"
  using assms by (simp_all add: inv_def)

lemma sched_ok_set_times:
  assumes "sched_ok PD PT c" and "set (times (times_of k c)) \<subseteq> set (times rt)"
  shows "sched_ok PD PT (set_times k rt c)"
  using assms by (cases k) (fastforce simp: sched_ok_def scheduled_def)+

lemma times_ok_set_times:
  assumes "times_ok A c" and "rt_inv rt" and "rt_matcher rt = rt_matcher (times_of k c)"
  shows "times_ok A (set_times k rt c)"
  using assms by (auto simp: times_ok_def rt_inv_def)

lemma inv_set_times:
  assumes "inv A PD PT X s" and "rt_inv rt" and "rt_matcher rt = rt_matcher (times_of k (rc s))"
    and "set (times (times_of k (rc s))) \<subseteq> set (times rt)"
  shows "inv A PD PT X (s\<lparr>rc := set_times k rt (rc s)\<rparr>)"
  using invD [OF assms(1)] assms(2-4) by (simp add: inv_def sched_ok_set_times times_ok_set_times)

lemma inv_idle_noted:
  assumes "inv A PD PT X s" and "rt_inv rt" and "rt_matcher rt = rt_matcher (times_of ValidAfterTimes (rc s))"
    and "set (times rt) = insert x (set (times (times_of ValidAfterTimes (rc s))))"
  shows "inv A PD PT X (idle_noted rt s)"
proof -
  have "inv A PD PT X (s\<lparr>rc := set_times ValidAfterTimes rt (rc s)\<rparr>\<lparr>clock := (\<lambda>i. clock s (Suc i))\<rparr>)"
    unfolding inv_fields by (rule inv_set_times) (use assms in auto)
  then show ?thesis
    by (simp add: idle_noted_def inv_def)
qed

text \<open>Every state but \<open>RUN\<close> goes with having no job.\<close>

lemma inv_sent:
  assumes inv: "inv A PD PT X s" and w: "workers (wl s) u = Some w"
    and key: "st \<in> {IDLE, RUN} \<longrightarrow> has_key w"
    and run: "if st = RUN then u \<in> Y \<or> jobs s u \<noteq> None else u \<in> Y \<or> jobs s u = None"
    and XY: "X \<subseteq> insert u Y"
  shows "inv A PD PT Y (sent u w st s)"
proof -
  note parts = invD [OF inv]
  let ?c = "backgroundOperation w"
  have "wk_ok ((workers (wl s))(u \<mapsto> w\<lparr>info := (info w)\<lparr>WState := st\<rparr>\<rparr>))
      ((chans s)(?c := (chans s ?c)\<lparr>buf := buf (chans s ?c) @ [st]\<rparr>)) (next_chan s) (bgs s)"
    by (rule wk_ok_upd [OF parts(7) w])
       (use key wk_okD(1) [OF parts(7) w] in \<open>auto simp: has_key_def agrees_def\<close>)
  moreover have "run_ok Y (jobs s) ((workers (wl s))(u \<mapsto> w\<lparr>info := (info w)\<lparr>WState := st\<rparr>\<rparr>))"
    using parts(6) run XY unfolding run_ok_def by (auto split: if_splits)
  ultimately show ?thesis
    using parts by (simp add: inv_def sent_def)
qed

lemma inv_job_ended:
  assumes inv: "inv A PD PT X s" and j: "jobs s u = Some j" and r: "requests (rc s) (jReq j) = Some r"
    and r': "ID r' = ID r" "Prio r' = Prio r" "RState r' \<noteq> WAIT" "RState r' \<noteq> INPROGRESS"
  shows "inv A PD PT (insert u X) (job_ended u j r' s)"
proof -
  note parts = invD [OF inv]
  have on: "runs_on r u" using parts(5) j r unfolding job_ok_def by fastforce
  have "prio_ok (Prio r)" using parts(1) r by (auto simp: data_ok_def)
  with r' have "data_ok ((requests (rc s))(jReq j \<mapsto> r'))"
    by (intro data_ok_upd [OF parts(1) r]) simp_all
  moreover have "queue_ok ((requests (rc s))(jReq j \<mapsto> r')) (rqueue (rc s))"
    by (rule queue_ok_upd [OF parts(2) r]) (use on r' in \<open>simp_all add: runs_on_def\<close>)
  moreover have "sched_ok PD PT ((rc s)\<lparr>requests := (requests (rc s))(jReq j \<mapsto> r')\<rparr>)"
    by (rule sched_ok_upd [OF parts(4)]) (use r' in simp_all)
  moreover have "run_ok (insert u X) ((jobs s)(u := None)) (workers (wl s))"
    using parts(6) by (simp add: run_ok_def)
  ultimately show ?thesis
    using parts job_ok_end [OF parts(5) j r r'(4)]
    by (simp add: inv_def job_ended_def times_ok_def)
qed

text \<open>A job's request runs and its tunnel is open, so \<open>OnWorkerFail\<close> does not panic.\<close>

lemma inv_job:
  assumes "inv A PD PT X s" and "jobs s u = Some j"
  shows "requests (rc s) (jReq j) \<noteq> None" and "tun_id (jTunnel j) \<in> open_tunnels s"
  using invD(5) [OF assms(1)] assms(2) unfolding job_ok_def by blast+

lemma setState_inv:
  assumes inv: "inv A PD PT X s" and w: "workers (wl s) u = Some w" and room: "room s w \<or> b"
    and key: "st \<in> {IDLE, RUN} \<longrightarrow> has_key w"
    and run: "if st = RUN then u \<in> Y \<or> jobs s u \<noteq> None
              else u \<in> Y \<or> jobs s u = None \<or> fails w st"
    and new: "st = RUN \<longrightarrow> WState (info w) \<noteq> RUN"
    and XY: "X \<subseteq> insert u Y"
    and idle: "st = IDLE \<Longrightarrow> (TimesMutex ValidAfterTimes \<notin> held s \<or> b) \<and>
                 (TimesMutex ValidAfterTimes \<notin> held s \<longrightarrow> ValidAfterTimes \<notin> A)"
    and fail: "fails w st \<Longrightarrow> (ReqsMutex \<notin> held s \<or> b) \<and> JobsMutex \<notin> held s"
  shows "wpg b (setState u st) (\<lambda>r t. r = None \<and> inv A PD PT Y t \<and> held t = held s
           \<and> iterating (rc t) = iterating (rc s) \<and> range (clock t) \<subseteq> range (clock s)
           \<and> (\<not> fails w st \<longrightarrow> requests (rc t) = requests (rc s)) \<and> rqueue (rc t) = rqueue (rc s)) s"
proof (rule wp_setState [OF w invD(8) [OF inv] wk_okD(5) [OF invD(7) [OF inv] w] room])
  assume "st = IDLE"
  then show "(TimesMutex ValidAfterTimes \<notin> held s \<or> b) \<and>
      (TimesMutex ValidAfterTimes \<notin> held s \<longrightarrow> rt_inv (times_of ValidAfterTimes (rc s)))"
    using idle invD(3) [OF inv] by (auto simp: times_ok_def rt_inv_def)
next
  assume "fails w st"
  then show "(ReqsMutex \<notin> held s \<or> b) \<and> JobsMutex \<notin> held s \<and> (\<forall>j. jobs s u = Some j \<longrightarrow>
      requests (rc s) (jReq j) \<noteq> None \<and> tun_id (jTunnel j) \<in> open_tunnels s)"
    using fail inv_job [OF inv] by blast
next
  fix rt
  assume "st = IDLE" and rt: "rt_inv rt"
    "set (times rt) = insert (RequestTime (clock s 0) 0) (set (times (times_of ValidAfterTimes (rc s))))"
    "rt_matcher rt = rt_matcher (times_of ValidAfterTimes (rc s))"
  have "inv A PD PT X (idle_noted rt s)"
    using inv rt by (intro inv_idle_noted)
  then have "inv A PD PT Y (sent u w st (idle_noted rt s))"
    by (rule inv_sent) (use w key run XY \<open>st = IDLE\<close> in \<open>auto simp: idle_noted_def fails_def\<close>)
  then show "None = None \<and> inv A PD PT Y (sent u w st (idle_noted rt s))
      \<and> held (sent u w st (idle_noted rt s)) = held s
      \<and> iterating (rc (sent u w st (idle_noted rt s))) = iterating (rc s)
      \<and> range (clock (sent u w st (idle_noted rt s))) \<subseteq> range (clock s)
      \<and> (\<not> fails w st \<longrightarrow> requests (rc (sent u w st (idle_noted rt s))) = requests (rc s))
      \<and> rqueue (rc (sent u w st (idle_noted rt s))) = rqueue (rc s)"
    by (auto simp: sent_def idle_noted_def)
next
  fix j r
  assume f: "fails w st" and j: "jobs s u = Some j" "requests (rc s) (jReq j) = Some r"
  have "inv A PD PT (insert u X) (job_ended u j (r\<lparr>RState := FAILED\<rparr>) s)"
    using inv j by (rule inv_job_ended) simp_all
  then have "inv A PD PT Y (sent u w st (job_ended u j (r\<lparr>RState := FAILED\<rparr>) s))"
    by (rule inv_sent) (use w key XY f run new j in \<open>auto simp: job_ended_def fails_def split: if_splits\<close>)
  then show "None = None \<and> inv A PD PT Y (sent u w st (job_ended u j (r\<lparr>RState := FAILED\<rparr>) s))
      \<and> held (sent u w st (job_ended u j (r\<lparr>RState := FAILED\<rparr>) s)) = held s
      \<and> iterating (rc (sent u w st (job_ended u j (r\<lparr>RState := FAILED\<rparr>) s))) = iterating (rc s)
      \<and> range (clock (sent u w st (job_ended u j (r\<lparr>RState := FAILED\<rparr>) s))) \<subseteq> range (clock s)
      \<and> (\<not> fails w st \<longrightarrow> requests (rc (sent u w st (job_ended u j (r\<lparr>RState := FAILED\<rparr>) s))) = requests (rc s))
      \<and> rqueue (rc (sent u w st (job_ended u j (r\<lparr>RState := FAILED\<rparr>) s))) = rqueue (rc s)"
    by (simp add: sent_def job_ended_def f)
next
  assume "st \<noteq> IDLE" and "fails w st \<longrightarrow> jobs s u = None"
  then have "inv A PD PT Y (sent u w st s)"
    by (intro inv_sent [OF inv w key _ XY]) (use run in \<open>auto split: if_splits\<close>)
  then show "None = None \<and> inv A PD PT Y (sent u w st s) \<and> held (sent u w st s) = held s
      \<and> iterating (rc (sent u w st s)) = iterating (rc s) \<and> range (clock (sent u w st s)) \<subseteq> range (clock s)
      \<and> (\<not> fails w st \<longrightarrow> requests (rc (sent u w st s)) = requests (rc s))
      \<and> rqueue (rc (sent u w st s)) = rqueue (rc s)"
    by (simp add: sent_def)
qed

end
