(* ===== verification/WorkerOps.thy ===== *)
theory WorkerOps
  imports Frames
begin

text \<open>
  The operations of the list of workers keep the invariant: registration, failure
  reports, state changes by an administrator, groups, and deregistration.  They return
  whenever every worker's channel has room for one more state.
\<close>

definition all_room :: "server \<Rightarrow> bool" where
  "all_room s \<longleftrightarrow> (\<forall>u w. workers (wl s) u = Some w \<longrightarrow> room s w)"

definition keeps_ok :: "'a op \<Rightarrow> bool" where
  "keeps_ok m \<longleftrightarrow> (\<forall>s b. ok s \<longrightarrow> b \<or> all_room s \<longrightarrow> wpg b m (\<lambda>_. ok) s)"

lemma inv_upd_worker:
  assumes inv: "inv A PD PT X s" and w: "workers (wl s) u = Some w"
    and same: "WState (info w') = WState (info w)" "WUUID (info w') = WUUID (info w)"
      "backgroundOperation w' = backgroundOperation w" "wkey w' = wkey w"
  shows "inv A PD PT X (s\<lparr>wl := (wl s)\<lparr>workers := (workers (wl s))(u \<mapsto> w')\<rparr>\<rparr>)"
proof -
  note parts = invD [OF inv]
  have "wk_ok ((workers (wl s))(u \<mapsto> w')) ((chans s)(backgroundOperation w := chans s (backgroundOperation w)))
      (next_chan s) (bgs s)"
    by (rule wk_ok_upd [OF parts(7) w])
       (use wk_okD [OF parts(7) w] same in \<open>simp_all add: agrees_def has_key_def\<close>)
  moreover have "run_ok X (jobs s) ((workers (wl s))(u \<mapsto> w'))"
    using parts(6) w same(1) by (auto simp: run_ok_def)
  ultimately show ?thesis
    using parts by (simp add: inv_def)
qed

lemma inv_run:
  "inv A PD PT {} s \<Longrightarrow> jobs s u \<noteq> None \<longleftrightarrow> (\<exists>w. workers (wl s) u = Some w \<and> WState (info w) = RUN)"
  using invD(6) by (simp add: run_ok_def)

text \<open>
  The invariant between and inside operations: the mutexes in \<open>L\<close> are held, and some
  parts are relaxed while a timer is processed.  \<open>unarmed\<close> are the collections of times
  whose timer is not set, \<open>overdue\<close> and \<open>expired\<close> the requests whose deadline or timeout
  may be without an entry, and \<open>reading\<close> holds of all further readings of the clock.
\<close>

record slack =
  unarmed :: "times_kind set"
  overdue :: "ReqID \<Rightarrow> ReqInfo \<Rightarrow> bool"
  expired :: "ReqID \<Rightarrow> ReqInfo \<Rightarrow> bool"
  reading :: "time \<Rightarrow> bool"

definition strict :: slack where
  "strict = \<lparr>unarmed = {}, overdue = nobody, expired = nobody, reading = (\<lambda>_. True)\<rparr>"

definition okg :: "slack \<Rightarrow> lock_id set \<Rightarrow> server \<Rightarrow> bool" where
  "okg E L s \<longleftrightarrow> inv (unarmed E) (overdue E) (expired E) {} s \<and> held s = L \<and> \<not> iterating (rc s)
     \<and> (\<forall>n. reading E (clock s n))"

lemma okg_inv: "okg E L s \<Longrightarrow> inv (unarmed E) (overdue E) (expired E) {} s"
  by (simp add: okg_def)

lemma ok_okg: "ok s = okg strict {} s"
  by (simp add: ok_def okg_def strict_def)

lemma okg_critical:
  assumes "okg E L s" and "l \<notin> L"
    and "okg E (insert l L) (s\<lparr>held := insert l L\<rparr>) \<Longrightarrow>
         wpg b m (\<lambda>_. okg E (insert l L)) (s\<lparr>held := insert l L\<rparr>)"
  shows "wpg b (critical l m) (\<lambda>_. okg E L) s"
proof -
  have "okg E (insert l L) (s\<lparr>held := insert l L\<rparr>)"
    using assms(1) by (simp add: okg_def)
  from wp_mono [OF assms(3) [OF this]]
  have "wpg b m (\<lambda>_ t. l \<in> held t \<and> okg E L (t\<lparr>held := held t - {l}\<rparr>)) (s\<lparr>held := insert l L\<rparr>)"
    by (rule wp_mono) (use assms(2) in \<open>auto simp: okg_def\<close>)
  with assms show ?thesis
    by (simp add: wp_critical okg_def)
qed

text \<open>
  An operation that runs \<open>setState\<close> with nothing but the workers' mutex held; the state
  may have been changed on the way to it.
\<close>

lemma range_subset_all: "range f \<subseteq> range g \<Longrightarrow> \<forall>n. P (g n) \<Longrightarrow> P (f m)"
  by (metis rangeE range_subsetD)

lemma setState_okg:
  assumes ok: "okg E L s" and L: "L \<subseteq> {WorkersMutex}"
    and w: "workers (wl s) u = Some w" and room: "b \<or> room s w"
    and st: "st \<in> {MAINTENANCE, FAIL, PREPARE, BUSY}" "st = PREPARE \<longrightarrow> WState (info w) \<noteq> RUN"
  shows "wpg b (setState u st) (\<lambda>_. okg E L) s"
proof (rule wp_mono, rule setState_inv [OF _ w])
  show inv: "inv (unarmed E) (overdue E) (expired E) {} s" using ok by (rule okg_inv)
  show "if st = RUN then u \<in> {} \<or> jobs s u \<noteq> None else u \<in> {} \<or> jobs s u = None \<or> fails w st"
    using inv_run [OF inv, of u] w st by (auto simp: fails_def)
  show "okg E L t" if "r = None \<and> inv (unarmed E) (overdue E) (expired E) {} t \<and> held t = held s
      \<and> iterating (rc t) = iterating (rc s) \<and> range (clock t) \<subseteq> range (clock s)
      \<and> (\<not> fails w st \<longrightarrow> requests (rc t) = requests (rc s)) \<and> rqueue (rc t) = rqueue (rc s)" for r t
    using that ok range_subset_all [of "clock t" "clock s" "reading E"] by (auto simp: okg_def)
qed (use room st ok L in \<open>auto simp: fails_def okg_def\<close>)

lemma room_held [simp]: "room (s\<lparr>held := h\<rparr>) w = room s w"
  by (simp add: room_def)

lemma SetFail_ok: "keeps_ok (SetFail u reason)"
  unfolding keeps_ok_def ok_okg SetFail_def
  by (auto intro!: okg_critical setState_okg simp: wp_simps all_room_def simp del: wp_critical split: option.splits)

lemma SetState_ok: "keeps_ok (SetState u state)"
  unfolding keeps_ok_def ok_okg SetState_def
  by (auto intro!: okg_critical setState_okg simp: wp_simps all_room_def simp del: wp_critical split: option.splits)

lemma okg_times: "okg E L s \<Longrightarrow> k \<notin> unarmed E \<Longrightarrow> rt_inv (times_of k (rc s))"
  using invD(3) [OF okg_inv] by (auto simp: times_ok_def rt_inv_def)

lemma strict_unarmed [simp]: "unarmed strict = {}"
  by (simp add: strict_def)

lemma OnWorkerIdle_okg:
  assumes "okg E L s" and "TimesMutex ValidAfterTimes \<notin> L" and "ValidAfterTimes \<notin> unarmed E"
  shows "wpg b (OnWorkerIdle u) (\<lambda>_. okg E L) s"
proof (rule wp_OnWorkerIdle)
  fix rt
  assume rt: "rt_inv rt"
    "set (times rt) = insert (RequestTime (clock s 0) 0) (set (times (times_of ValidAfterTimes (rc s))))"
    "rt_matcher rt = rt_matcher (times_of ValidAfterTimes (rc s))"
  have "inv (unarmed E) (overdue E) (expired E) {} (idle_noted rt s)"
    using okg_inv [OF assms(1)] rt by (intro inv_idle_noted)
  with assms(1) show "okg E L (s\<lparr>clock := (\<lambda>i. clock s (Suc i)), rc := set_times ValidAfterTimes rt (rc s)\<rparr>)"
    by (simp add: okg_def idle_noted_def)
qed (use assms okg_times [OF assms(1), of ValidAfterTimes] in \<open>simp_all add: okg_def\<close>)

lemma okg_upd_worker:
  assumes "okg E L s" and "workers (wl s) u = Some w"
    and "WState (info w') = WState (info w)" "WUUID (info w') = WUUID (info w)"
      "backgroundOperation w' = backgroundOperation w" "wkey w' = wkey w"
  shows "okg E L (s\<lparr>wl := (wl s)\<lparr>workers := (workers (wl s))(u \<mapsto> w')\<rparr>\<rparr>)"
  using assms inv_upd_worker [OF okg_inv [OF assms(1)] assms(2)] by (simp add: okg_def)

lemma SetGroups_ok: "keeps_ok (SetGroups u gs)"
  unfolding keeps_ok_def ok_okg SetGroups_def
proof (intro allI impI okg_critical)
  fix s :: server and b
  let ?s = "s\<lparr>held := {WorkersMutex}\<rparr>"
  assume ok: "okg strict {WorkersMutex} ?s"
  show "wpg b (bnd get_workers (\<lambda>m. case m u of
       None \<Rightarrow> ret (Some ErrWorkerNotFound)
     | Some worker \<Rightarrow>
         thn (upd_worker u (\<lambda>w. w\<lparr>info := (info w)\<lparr>WGroups := sort gs\<rparr>\<rparr>))
        (thn (bnd (gets (\<lambda>s. changeListener (wl s))) (\<lambda>listening.
                if WState (info worker) = IDLE \<and> listening then OnWorkerIdle u else ret ()))
             (ret None)))) (\<lambda>_. okg strict {WorkersMutex}) ?s"
  proof (cases "workers (wl s) u")
    case None
    with ok show ?thesis by (simp add: wp_simps)
  next
    case (Some w)
    with okg_upd_worker [OF ok, of u w "w\<lparr>info := (info w)\<lparr>WGroups := sort gs\<rparr>\<rparr>"]
    show ?thesis by (auto simp: wp_simps intro!: OnWorkerIdle_okg)
  qed
qed simp_all

lemma wk_ok_remove:
  assumes ok: "wk_ok ws chs n gs" and w: "ws u = Some w" and "closed ch"
  shows "wk_ok (ws(u := None)) (chs(backgroundOperation w := ch)) n gs"
proof -
  let ?c = "backgroundOperation w"
  have other: "ws v = Some x" "backgroundOperation x \<noteq> ?c" if "(ws(u := None)) v = Some x" for v x
    using that wk_ok_inj [OF ok w, of v x] by (auto split: if_splits)
  show ?thesis
    unfolding wk_ok_def
  proof (intro conjI allI impI)
    show "finite (dom (ws(u := None)))" using ok by (simp add: wk_ok_def)
    fix v x assume vx: "(ws(u := None)) v = Some x"
    note x = other [OF vx]
    show "WUUID (info x) = v" "WState (info x) \<in> {IDLE, RUN} \<Longrightarrow> has_key x" "backgroundOperation x < n"
      "\<exists>g. gs (backgroundOperation x) = Some g \<and> bg_uuid g = v
           \<and> agrees x ((chs(?c := ch)) (backgroundOperation x)) g"
      using x wk_okD [OF ok x(1)] by simp_all
    fix y z
    assume yz: "(ws(u := None)) y = Some z" "backgroundOperation x = backgroundOperation z"
    show "v = y" using wk_ok_inj [OF ok x(1) other(1) [OF yz(1)] yz(2)] .
  next
    fix c h assume ch: "gs c = Some h"
    note h = wk_ok_bg [OF ok ch]
    then show "c < n" by blast
    show "closed ((chs(?c := ch)) c) \<or>
        (\<exists>x. (ws(u := None)) (bg_uuid h) = Some x \<and> backgroundOperation x = c)"
      using h assms(3) w by auto
  qed
qed

lemma Deregister_ok: "keeps_ok (Deregister u)"
  unfolding keeps_ok_def ok_okg Deregister_def
proof (intro allI impI okg_critical)
  fix s :: server and b
  let ?s = "s\<lparr>held := {WorkersMutex}\<rparr>"
  assume ok: "okg strict {WorkersMutex} ?s"
  show "wpg b (bnd get_workers (\<lambda>m. case m u of
       None \<Rightarrow> ret (Some ErrWorkerNotFound)
     | Some worker \<Rightarrow>
         if WState (info worker) \<noteq> MAINTENANCE \<and> WState (info worker) \<noteq> FAIL
         then ret (Some ErrNotInFailOrMaintenance)
         else thn (chan_close (backgroundOperation worker))
             (thn (modify (\<lambda>s. s\<lparr>wl := (wl s)\<lparr>workers := (workers (wl s))(u := None)\<rparr>\<rparr>))
                  (ret None)))) (\<lambda>_. okg strict {WorkersMutex}) ?s"
  proof (cases "workers (wl s) u")
    case None
    with ok show ?thesis by (simp add: wp_simps)
  next
    case (Some w)
    have inv: "inv (unarmed strict) (overdue strict) (expired strict) {} s" using ok by (simp add: okg_def)
    note parts = invD [OF inv]
    let ?c = "backgroundOperation w"
    have "run_ok {} (jobs s) ((workers (wl s))(u := None))" if "WState (info w) \<noteq> RUN"
      using parts(6) Some that by (auto simp: run_ok_def)
    then show ?thesis
      using wk_ok_remove [OF parts(7) Some, of "(chans s ?c)\<lparr>closed := True\<rparr>"] parts
        wk_okD(5) [OF parts(7) Some] ok Some
      by (auto simp: wp_simps okg_def inv_def)
  qed
qed simp_all

lemma wk_ok_add:
  assumes ok: "wk_ok ws chs n gs" and u: "ws u = None"
  shows "wk_ok (ws(u \<mapsto> new_worker u caps d sa n)) (chs(n := \<lparr>buf = [], closed = False\<rparr>)) (Suc n)
           (gs(n \<mapsto> new_bg u))"
  unfolding wk_ok_def
proof (intro conjI allI impI)
  let ?w = "new_worker u caps d sa n"
  have old: "v = u \<and> x = ?w \<or> v \<noteq> u \<and> ws v = Some x \<and> backgroundOperation x < n"
    if "(ws(u \<mapsto> ?w)) v = Some x" for v x
    using that wk_okD(3) [OF ok, of v x] by (auto split: if_splits)
  show "finite (dom (ws(u \<mapsto> ?w)))" using ok by (simp add: wk_ok_def)
  fix v x assume vx: "(ws(u \<mapsto> ?w)) v = Some x"
  show "WUUID (info x) = v" "WState (info x) \<in> {IDLE, RUN} \<Longrightarrow> has_key x" "backgroundOperation x < Suc n"
    using old [OF vx] wk_okD [OF ok, of v x] by (auto simp: new_worker_def)
  show "\<exists>g. (gs(n \<mapsto> new_bg u)) (backgroundOperation x) = Some g \<and> bg_uuid g = v
     \<and> agrees x ((chs(n := \<lparr>buf = [], closed = False\<rparr>)) (backgroundOperation x)) g"
    using old [OF vx]
  proof (elim disjE conjE)
    assume "v = u" and "x = ?w"
    moreover have "pc_knows (bg_pc (new_bg u)) MAINTENANCE key" for key
      by (simp add: new_bg_def)
    moreover have "bg_uuid (new_bg u) = u"
      by (simp add: new_bg_def)
    ultimately show ?thesis
      by (auto simp: new_worker_def agrees_def)
  next
    assume "ws v = Some x" and "backgroundOperation x < n"
    with wk_okD(4) [OF ok, of v x] show ?thesis by auto
  qed
  fix y z assume yz: "(ws(u \<mapsto> ?w)) y = Some z" "backgroundOperation x = backgroundOperation z"
  show "v = y"
    using old [OF vx] old [OF yz(1)] yz(2) wk_ok_inj [OF ok, of v x y z] by (auto simp: new_worker_def)
next
  fix c h assume ch: "(gs(n \<mapsto> new_bg u)) c = Some h"
  show "c < Suc n"
    using ch wk_ok_bg [OF ok, of c h] by (auto split: if_splits)
  show "closed ((chs(n := \<lparr>buf = [], closed = False\<rparr>)) c) \<or>
      (\<exists>x. (ws(u \<mapsto> new_worker u caps d sa n)) (bg_uuid h) = Some x \<and> backgroundOperation x = c)"
  proof (cases "c = n")
    case True
    with ch show ?thesis by (auto simp: new_bg_def new_worker_def)
  next
    case False
    with ch wk_ok_bg [OF ok, of c h] u show ?thesis by auto
  qed
qed

lemma Register_new_okg:
  assumes ok: "okg E L s" and u: "workers (wl s) u = None" and c: "c = next_chan s"
  shows "okg E L (s\<lparr>chans := (chans s)(c := \<lparr>buf = [], closed = False\<rparr>), next_chan := Suc c,
           wl := (wl s)\<lparr>workers := (workers (wl s))(u \<mapsto> new_worker u caps d sa c)\<rparr>,
           bgs := (bgs s)(c \<mapsto> new_bg u)\<rparr>)"
proof -
  have inv: "inv (unarmed E) (overdue E) (expired E) {} s" using ok by (simp add: okg_def)
  have "run_ok {} (jobs s) ((workers (wl s))(u \<mapsto> new_worker u caps d sa c))"
    using invD(6) [OF inv] u by (auto simp: run_ok_def new_worker_def)
  with wk_ok_add [OF invD(7) [OF inv] u, of caps d sa] invD [OF inv] ok c show ?thesis
    by (simp add: okg_def inv_def)
qed

lemma Register_ok: "keeps_ok (Register resolve caps dryadAddress sshAddress)"
proof (cases "caps ''UUID''")
  case None
  then show ?thesis by (simp add: keeps_ok_def Register_def wp_simps)
next
  case (Some u)
  show ?thesis
  proof (cases "\<exists>d sa. check_addr resolve ''invalid dryad address: '' dryadAddress = Inr d
      \<and> check_addr resolve ''invalid sshd address: '' sshAddress = Inr sa")
    case False
    with Some show ?thesis
      by (auto simp: keeps_ok_def Register_def wp_simps split: sum.splits)
  next
    case True
    then obtain d sa where addr: "check_addr resolve ''invalid dryad address: '' dryadAddress = Inr d"
      "check_addr resolve ''invalid sshd address: '' sshAddress = Inr sa" by blast
    show ?thesis
      unfolding keeps_ok_def ok_okg Register_def Some option.case addr sum.case
    proof (intro allI impI okg_critical)
      fix s :: server and b
      let ?s = "s\<lparr>held := {WorkersMutex}\<rparr>"
      assume ok: "okg strict {WorkersMutex} ?s" and room: "b \<or> all_room s"
      show "wpg b (bnd get_workers (\<lambda>m. case m u of
          Some worker \<Rightarrow>
            let newState = re_registered_state worker caps d sa in
            thn (upd_worker u (\<lambda>w. w\<lparr>info := (info w)\<lparr>WCaps := caps\<rparr>, dryad := d, sshd := sa\<rparr>))
           (thn (if newState \<noteq> WState (info worker) then thn (setState u newState) (ret ()) else ret ())
                (ret None))
        | None \<Rightarrow> bnd (gets next_chan) (\<lambda>c.
            thn (modify (\<lambda>s. s\<lparr>
                 chans := (chans s)(c := \<lparr>buf = [], closed = False\<rparr>),
                 next_chan := Suc c,
                 wl := (wl s)\<lparr>workers := (workers (wl s))(u \<mapsto> new_worker u caps d sa c)\<rparr>,
                 bgs := (bgs s)(c \<mapsto> new_bg u)\<rparr>))
                (ret None)))) (\<lambda>_. okg strict {WorkersMutex}) ?s"
      proof (cases "workers (wl s) u")
        case None
        with Register_new_okg [OF ok, of u _ caps d sa] show ?thesis
          by (simp add: wp_simps)
      next
        case (Some w)
        let ?w = "w\<lparr>info := (info w)\<lparr>WCaps := caps\<rparr>, dryad := d, sshd := sa\<rparr>"
        let ?t = "?s\<lparr>wl := (wl ?s)\<lparr>workers := (workers (wl ?s))(u \<mapsto> ?w)\<rparr>\<rparr>"
        have t: "okg strict {WorkersMutex} ?t"
          by (rule okg_upd_worker [OF ok]) (simp_all add: Some)
        have "wpg b (setState u (re_registered_state w caps d sa)) (\<lambda>_. okg strict {WorkersMutex}) ?t"
          if "re_registered_state w caps d sa \<noteq> WState (info w)"
        proof (rule setState_okg [OF t])
          show "re_registered_state w caps d sa \<in> {MAINTENANCE, FAIL, PREPARE, BUSY}"
            using that by (auto simp: re_registered_state_def split: if_splits)
          show "re_registered_state w caps d sa = PREPARE \<longrightarrow> WState (info ?w) \<noteq> RUN"
            using that by (auto simp: re_registered_state_def split: if_splits)
          show "b \<or> room ?t ?w"
            using room Some by (auto simp: all_room_def room_def)
        qed simp_all
        with t Some show ?thesis
          by (simp add: wp_simps Let_def)
      qed
    qed simp_all
  qed
qed

end
