(* ===== verification/RequestOps.thy ===== *)
theory RequestOps
  imports WorkerOps
begin

text \<open>
  The operations of users on requests keep the invariant and return whenever every
  worker's channel has room: creation, closing, updates, lookups, acquiring and
  prolonging.  \<open>missing_deadline\<close> and \<open>missing_timeout\<close> relax the invariant between the
  moment a request is stored and the moment its point in time is inserted.
\<close>

section \<open>Requests that leave the queue\<close>

lemma queue_ok_leave:
  assumes "queue_ok m q" and "m i = Some r" and "RState r' \<noteq> WAIT" and "q_inv q'"
    and "\<forall>y p. pq.waiting q' y p \<longleftrightarrow> pq.waiting q y p \<and> y \<noteq> i"
  shows "queue_ok (m(i \<mapsto> r')) q'"
  using assms by (auto simp: queue_ok_def)

lemma okg_request:
  assumes "okg E L s" and "requests (rc s) i = Some r"
  shows "ID r = i" and "prio_ok (Prio r)" and "RState r = INPROGRESS \<Longrightarrow> RJob r \<noteq> None"
  using invD(1) [OF okg_inv [OF assms(1)]] assms(2) by (auto simp: data_ok_def)

lemma okg_waiting:
  assumes "okg E L s"
  shows "q_inv (rqueue (rc s))" and "pq.waiting (rqueue (rc s)) i p \<longleftrightarrow>
     (\<exists>r. requests (rc s) i = Some r \<and> RState r = WAIT \<and> Prio r = p)"
  using invD(2) [OF okg_inv [OF assms(1)]] by (simp_all add: queue_ok_def)

lemma sched_ok_weaken:
  assumes "sched_ok PD PT c" and "\<And>j x. requests c j = Some x \<Longrightarrow> PD j x \<Longrightarrow> PD' j x"
    and "\<And>j x. requests c j = Some x \<Longrightarrow> PT j x \<Longrightarrow> PT' j x"
  shows "sched_ok PD' PT' c"
  using assms unfolding sched_ok_def by metis

text \<open>
  A waiting request gets a final state and leaves the queue.  After that its deadline
  needs no entry.
\<close>

lemma leave_queue_at:
  assumes ok: "okg E L s" and r: "requests (rc s) i = Some r" and w: "RState r = WAIT"
    and r': "ID r' = ID r" "Prio r' = Prio r" "RState r' \<noteq> WAIT" "RState r' \<noteq> INPROGRESS"
    and L: "QueueMutex \<notin> L"
  shows "wpg b (removeRequest r) (\<lambda>_ t. okg E L t \<and> requests (rc t) i = Some r')
           (s\<lparr>rc := (rc s)\<lparr>requests := (requests (rc s))(i \<mapsto> r')\<rparr>\<rparr>)"
proof (rule wp_removeRequest)
  note rr = okg_request [OF ok r] and parts = invD [OF okg_inv [OF ok]]
  show "pq.waiting (rqueue (rc (s\<lparr>rc := (rc s)\<lparr>requests := (requests (rc s))(i \<mapsto> r')\<rparr>\<rparr>))) (ID r) (Prio r)"
    using okg_waiting(2) [OF ok] r w rr by simp
  fix q
  assume q: "q_inv q" and wt: "\<forall>y p. pq.waiting q y p \<longleftrightarrow>
      pq.waiting (rqueue (rc (s\<lparr>rc := (rc s)\<lparr>requests := (requests (rc s))(i \<mapsto> r')\<rparr>\<rparr>))) y p \<and> y \<noteq> ID r"
  let ?c = "(rc s)\<lparr>requests := (requests (rc s))(i \<mapsto> r'), rqueue := q\<rparr>"
  have "queue_ok (requests ?c) q"
    using queue_ok_leave [OF parts(2) r r'(3) q] wt rr by simp
  moreover have "data_ok (requests ?c)"
    using data_ok_upd [OF parts(1) r r'(1)] r' rr by simp
  moreover have "times_ok (unarmed E) ?c" using parts(3) by (simp add: times_ok_def)
  moreover have "sched_ok (overdue E) (expired E) ((rc s)\<lparr>requests := (requests (rc s))(i \<mapsto> r')\<rparr>)"
    by (rule sched_ok_upd [OF parts(4)]) (use r' in simp_all)
  then have "sched_ok (overdue E) (expired E) ?c"
    by (simp add: sched_ok_def)
  moreover have "job_ok (requests ?c) (jobs s) (open_tunnels s) (next_tunnel s)"
    using job_ok_upd [OF parts(5) r, of r'] w r' by (simp add: runs_on_def)
  ultimately have "inv (unarmed E) (overdue E) (expired E) {} (s\<lparr>rc := ?c\<rparr>)"
    using parts by (simp add: inv_def)
  with ok show "okg E L (s\<lparr>rc := (rc s)\<lparr>requests := (requests (rc s))(i \<mapsto> r')\<rparr>\<rparr>
      \<lparr>rc := (rc (s\<lparr>rc := (rc s)\<lparr>requests := (requests (rc s))(i \<mapsto> r')\<rparr>\<rparr>))\<lparr>rqueue := q\<rparr>\<rparr>)
      \<and> requests (rc (s\<lparr>rc := (rc s)\<lparr>requests := (requests (rc s))(i \<mapsto> r')\<rparr>\<rparr>
      \<lparr>rc := (rc (s\<lparr>rc := (rc s)\<lparr>requests := (requests (rc s))(i \<mapsto> r')\<rparr>\<rparr>))\<lparr>rqueue := q\<rparr>\<rparr>)) i = Some r'"
    by (simp add: okg_def)
qed (use ok okg_waiting(1) [OF ok] L in \<open>auto simp: okg_def\<close>)

lemma leave_queue_okg:
  assumes "okg E L s" and "requests (rc s) i = Some r" and "RState r = WAIT"
    and "ID r' = ID r" "Prio r' = Prio r" "RState r' \<noteq> WAIT" "RState r' \<noteq> INPROGRESS"
    and "QueueMutex \<notin> L"
  shows "wpg b (removeRequest r) (\<lambda>_. okg E L)
           (s\<lparr>rc := (rc s)\<lparr>requests := (requests (rc s))(i \<mapsto> r')\<rparr>\<rparr>)"
  by (rule wp_mono, rule leave_queue_at) (use assms in auto)

section \<open>The end of a running request\<close>

text \<open>
  Preparing the worker of a job that has ended, or of one that was never created; the
  worker is still in state \<open>RUN\<close> and is the one exception of the invariant.
\<close>

lemma PrepareWorker_inv:
  assumes inv: "inv A PD PT {u} s" and w: "workers (wl s) u = Some w" "WState (info w) = RUN"
    and j: "jobs s u = None" and room: "b \<or> room s w"
    and L: "WorkersMutex \<notin> held s"
    and idle: "\<not> key \<Longrightarrow> (TimesMutex ValidAfterTimes \<notin> held s \<or> b) \<and>
                 (TimesMutex ValidAfterTimes \<notin> held s \<longrightarrow> ValidAfterTimes \<notin> A)"
  shows "wpg b (PrepareWorker u key) (\<lambda>r t. r = None \<and> inv A PD PT {} t \<and> held t = held s
           \<and> iterating (rc t) = iterating (rc s) \<and> range (clock t) \<subseteq> range (clock s)
           \<and> requests (rc t) = requests (rc s) \<and> rqueue (rc t) = rqueue (rc s)) s"
proof -
  let ?s = "s\<lparr>held := insert WorkersMutex (held s)\<rparr>"
  let ?st = "if key then PREPARE else IDLE"
  have "has_key w" using wk_okD(2) [OF invD(7) [OF inv] w(1)] w(2) by simp
  have "wpg b (setState u ?st) (\<lambda>r t. r = None \<and> inv A PD PT {} t \<and> held t = held ?s
           \<and> iterating (rc t) = iterating (rc ?s) \<and> range (clock t) \<subseteq> range (clock ?s)
           \<and> (\<not> fails w ?st \<longrightarrow> requests (rc t) = requests (rc ?s)) \<and> rqueue (rc t) = rqueue (rc ?s)) ?s"
    by (rule setState_inv [where X = "{u}" and w = w]; cases key)
       (use inv w j room idle \<open>has_key w\<close> in \<open>auto simp: fails_def\<close>)
  then have "wpg b (setState u ?st) (\<lambda>r t. WorkersMutex \<in> held t \<and> r = None \<and>
      inv A PD PT {} (t\<lparr>held := held t - {WorkersMutex}\<rparr>) \<and> held t - {WorkersMutex} = held s
           \<and> iterating (rc t) = iterating (rc s) \<and> range (clock t) \<subseteq> range (clock s)
           \<and> requests (rc t) = requests (rc s) \<and> rqueue (rc t) = rqueue (rc s)) ?s"
    by (rule wp_mono) (use L in \<open>auto simp: fails_def split: if_splits\<close>)
  with w L show ?thesis
    by (auto simp: PrepareWorker_def wp_simps split: if_splits)
qed

lemma closeRequest_at:
  assumes ok: "okg E L s" and r: "requests (rc s) i = Some r" and run: "RState r = INPROGRESS"
    and L: "JobsMutex \<notin> L" "WorkersMutex \<notin> L" and room: "b \<or> all_room s"
  shows "wpg b (closeRequest i) (\<lambda>_ t. okg E L t \<and> requests (rc t) i = Some (r\<lparr>RState := DONE\<rparr>)) s"
proof -
  note inv = okg_inv [OF ok]
  obtain ji where ji: "RJob r = Some ji" using okg_request(3) [OF ok r run] by blast
  let ?u = "jWorkerUUID ji" and ?r = "r\<lparr>RState := DONE\<rparr>"
  have "runs_on r ?u" using run ji by (simp add: runs_on_def)
  then obtain j where j: "jobs s ?u = Some j" "jReq j = i"
    using invD(5) [OF inv] r unfolding job_ok_def by blast
  then obtain w where w: "workers (wl s) ?u = Some w" "WState (info w) = RUN"
    using inv_run [OF inv, of ?u] by auto
  have held: "held s = L" using ok by (simp add: okg_def)
  have tun: "tun_id (jTunnel j) \<in> open_tunnels s" using inv_job(2) [OF inv j(1)] .
  let ?t = "job_ended ?u j ?r s"
  have "inv (unarmed E) (overdue E) (expired E) {?u} ?t"
    using inv_job_ended [OF inv j(1), of r ?r] r j(2) by simp
  then have "wpg b (PrepareWorker ?u True) (\<lambda>r t. r = None \<and> inv (unarmed E) (overdue E) (expired E) {} t
      \<and> held t = held ?t \<and> iterating (rc t) = iterating (rc ?t) \<and> range (clock t) \<subseteq> range (clock ?t)
      \<and> requests (rc t) = requests (rc ?t) \<and> rqueue (rc t) = rqueue (rc ?t)) ?t"
    by (rule PrepareWorker_inv [where w = w])
       (use w held L room in \<open>auto simp: job_ended_def all_room_def room_def\<close>)
  then have "wpg b (PrepareWorker ?u True) (\<lambda>_ t. okg E L t \<and> requests (rc t) i = Some ?r) ?t"
  proof (rule wp_mono)
    fix a t
    assume "a = None \<and> inv (unarmed E) (overdue E) (expired E) {} t
      \<and> held t = held ?t \<and> iterating (rc t) = iterating (rc ?t) \<and> range (clock t) \<subseteq> range (clock ?t)
      \<and> requests (rc t) = requests (rc ?t) \<and> rqueue (rc t) = rqueue (rc ?t)"
    then show "okg E L t \<and> requests (rc t) i = Some ?r"
      using ok j(2) range_subset_all [of "clock t" "clock s" "reading E"]
      by (auto simp: okg_def job_ended_def)
  qed
  moreover have "?t = s\<lparr>rc := (rc s)\<lparr>requests := (requests (rc s))(i \<mapsto> ?r)\<rparr>,
      open_tunnels := open_tunnels s - {tun_id (jTunnel j)}, jobs := (jobs s)(?u := None)\<rparr>"
    by (rule server.equality) (simp_all add: job_ended_def j(2))
  ultimately show ?thesis
    using r ji j tun held L
    by (simp add: closeRequest_def Finish_def finish_job_def wp_simps)
qed

lemma closeRequest_okg:
  assumes "okg E L s" and "requests (rc s) i = Some r" and "RState r = INPROGRESS"
    and "JobsMutex \<notin> L" "WorkersMutex \<notin> L" and "b \<or> all_room s"
  shows "wpg b (closeRequest i) (\<lambda>_. okg E L) s"
  by (rule wp_mono, rule closeRequest_at [OF assms]) simp

section \<open>The operations\<close>

lemma all_room_held [simp]: "all_room (s\<lparr>held := h\<rparr>) = all_room s"
  by (simp add: all_room_def room_def)

lemma okg_critical_any:
  assumes "okg E L s" and "b \<or> all_room s" and "l \<notin> L"
    and "\<And>t. okg E (insert l L) t \<Longrightarrow> b \<or> all_room t \<Longrightarrow> wpg b m (\<lambda>_. okg E (insert l L)) t"
  shows "wpg b (critical l m) (\<lambda>_. okg E L) s"
  using assms by (intro okg_critical) simp_all

lemma CloseRequest_ok: "keeps_ok (CloseRequest i)"
  unfolding keeps_ok_def ok_okg CloseRequest_def
  by (auto intro!: okg_critical_any leave_queue_okg elim: closeRequest_okg simp: wp_simps
      simp del: wp_critical split: option.splits ReqState.splits)

lemma okg_held: "okg E L s \<Longrightarrow> held s = L"
  by (simp add: okg_def)

lemma jobs_Get_okg:
  assumes "okg E L s" and "JobsMutex \<notin> L"
    and "Q (case jobs s u of None \<Rightarrow> Inl (NotFoundError ''Job'') | Some j \<Rightarrow> Inr j) s"
  shows "wpg b (jobs_Get u) Q s"
  using assms by (intro wp_jobs_Get) (simp_all add: okg_def)

lemma AcquireWorker_ok: "keeps_ok (AcquireWorker i)"
  unfolding keeps_ok_def ok_okg AcquireWorker_def
  by (auto intro!: okg_critical_any jobs_Get_okg simp: wp_simps
      simp del: wp_critical split: option.splits sum.splits)

lemma GetRequestInfo_ok: "keeps_ok (GetRequestInfo i)"
  unfolding keeps_ok_def ok_okg GetRequestInfo_def Get_def
  by (auto intro!: okg_critical_any simp: wp_simps simp del: wp_critical split: option.splits)

lemma okg_now: "okg E L s \<Longrightarrow> okg E L (s\<lparr>clock := (\<lambda>i. clock s (Suc i))\<rparr>) \<and> reading E (clock s 0)"
  by (simp add: okg_def)

text \<open>Inserting the point in time that was missing.\<close>

definition missing_deadline :: "ReqID \<Rightarrow> time \<Rightarrow> slack \<Rightarrow> slack" where
  "missing_deadline i d E = E\<lparr>overdue := (\<lambda>j r. overdue E j r \<or> j = i \<and> Deadline r = d)\<rparr>"

definition missing_timeout :: "ReqID \<Rightarrow> time \<Rightarrow> slack \<Rightarrow> slack" where
  "missing_timeout i d E = E\<lparr>expired := (\<lambda>j r. expired E j r \<or>
     j = i \<and> (\<forall>ji. RJob r = Some ji \<longrightarrow> Timeout_at ji = d))\<rparr>"

lemma times_insert_okg:
  assumes "okg E L s" and "TimesMutex k \<notin> L" and "k \<notin> unarmed E"
  shows "wpg b (times_insert k x) (\<lambda>_. okg E L) s"
proof (rule wp_times_insert)
  fix rt
  assume "rt_inv rt" "set (times rt) = insert x (set (times (times_of k (rc s))))"
    "rt_matcher rt = rt_matcher (times_of k (rc s))"
  then have "inv (unarmed E) (overdue E) (expired E) {} (s\<lparr>rc := set_times k rt (rc s)\<rparr>)"
    by (intro inv_set_times [OF okg_inv [OF assms(1)]]) auto
  with assms(1) show "okg E L (s\<lparr>rc := set_times k rt (rc s)\<rparr>)"
    by (simp add: okg_def)
qed (use assms okg_times in \<open>auto simp: okg_def\<close>)

lemma times_insert_deadline:
  assumes ok: "okg (missing_deadline i d E) L s" and "TimesMutex DeadlineTimes \<notin> L"
    and "DeadlineTimes \<notin> unarmed E"
  shows "wpg b (times_insert DeadlineTimes (RequestTime d i)) (\<lambda>_. okg E L) s"
proof (rule wp_times_insert)
  note inv = okg_inv [OF ok]
  fix rt
  assume rt: "rt_inv rt" "set (times rt) = insert (RequestTime d i) (set (times (times_of DeadlineTimes (rc s))))"
    "rt_matcher rt = rt_matcher (times_of DeadlineTimes (rc s))"
  then have "inv (unarmed E) (\<lambda>j r. overdue E j r \<or> j = i \<and> Deadline r = d) (expired E) {}
      (s\<lparr>rc := set_times DeadlineTimes rt (rc s)\<rparr>)"
    using inv_set_times [OF inv rt(1,3)] by (auto simp: missing_deadline_def)
  moreover from this have "sched_ok (overdue E) (expired E) (set_times DeadlineTimes rt (rc s))"
    using rt(2) by (auto simp: inv_def sched_ok_def scheduled_def)
  ultimately show "okg E L (s\<lparr>rc := set_times DeadlineTimes rt (rc s)\<rparr>)"
    using ok by (simp add: okg_def inv_def missing_deadline_def)
qed (use assms okg_times [OF ok, of DeadlineTimes] in \<open>auto simp: okg_def missing_deadline_def\<close>)

lemma times_insert_timeout:
  assumes ok: "okg (missing_timeout i d E) L s" and "TimesMutex TimeoutTimes \<notin> L"
    and "TimeoutTimes \<notin> unarmed E"
  shows "wpg b (times_insert TimeoutTimes (RequestTime d i)) (\<lambda>_. okg E L) s"
proof (rule wp_times_insert)
  note inv = okg_inv [OF ok]
  fix rt
  assume rt: "rt_inv rt" "set (times rt) = insert (RequestTime d i) (set (times (times_of TimeoutTimes (rc s))))"
    "rt_matcher rt = rt_matcher (times_of TimeoutTimes (rc s))"
  then have "inv (unarmed E) (overdue E) (expired (missing_timeout i d E)) {}
      (s\<lparr>rc := set_times TimeoutTimes rt (rc s)\<rparr>)"
    using inv_set_times [OF inv rt(1,3)] by (auto simp: missing_timeout_def)
  moreover from this have "sched_ok (overdue E) (expired E) (set_times TimeoutTimes rt (rc s))"
    using rt(2) by (auto simp: inv_def sched_ok_def scheduled_def missing_timeout_def)
  ultimately show "okg E L (s\<lparr>rc := set_times TimeoutTimes rt (rc s)\<rparr>)"
    using ok by (simp add: okg_def inv_def missing_timeout_def)
qed (use assms okg_times [OF ok, of TimeoutTimes] in \<open>auto simp: okg_def missing_timeout_def\<close>)

text \<open>Setting a new timeout of a running request.\<close>

definition any_timeout :: "ReqID \<Rightarrow> slack \<Rightarrow> slack" where
  "any_timeout i E = E\<lparr>expired := (\<lambda>j r. expired E j r \<or> j = i)\<rparr>"

lemma set_timeout_any:
  assumes ok: "okg (any_timeout i E) L s" and ex: "\<exists>r. requests (rc s) i = Some r \<and> RState r = INPROGRESS"
    and L: "TimesMutex TimeoutTimes \<notin> L" "TimeoutTimes \<notin> unarmed E"
  shows "wpg b (set_timeout i) (\<lambda>_. okg E L) s"
proof -
  obtain r where r: "requests (rc s) i = Some r" and run: "RState r = INPROGRESS"
    using ex by blast
  let ?d = "clock s 0 + hour_ns"
  let ?r = "r\<lparr>RJob := map_option (\<lambda>j. j\<lparr>Timeout_at := ?d, TimeoutZone := tz_offset s\<rparr>) (RJob r)\<rparr>"
  let ?m = "(requests (rc s))(i \<mapsto> ?r)"
  note rr = okg_request [OF ok r] and parts = invD [OF okg_inv [OF ok]]
  have "data_ok ?m"
    using data_ok_upd [OF parts(1) r, of ?r] rr run by simp
  moreover have "queue_ok ?m (rqueue (rc s))"
    using queue_ok_upd [OF parts(2) r, of ?r] by simp
  moreover have "job_ok ?m (jobs s) (open_tunnels s) (next_tunnel s)"
    by (rule job_ok_upd [OF parts(5) r]) (auto simp: runs_on_def)
  moreover have "sched_ok (overdue E) (expired (missing_timeout i ?d E)) ((rc s)\<lparr>requests := ?m\<rparr>)"
    using parts(4) run unfolding sched_ok_def by (auto simp: missing_timeout_def any_timeout_def)
  moreover have "times_ok (unarmed E) ((rc s)\<lparr>requests := ?m\<rparr>)"
    using parts(3) by (simp add: times_ok_def any_timeout_def)
  ultimately have "okg (missing_timeout i ?d E) L
      (s\<lparr>clock := (\<lambda>n. clock s (Suc n)), rc := (rc s)\<lparr>requests := ?m\<rparr>\<rparr>)"
    using parts ok by (simp add: okg_def inv_def missing_timeout_def any_timeout_def)
  then show ?thesis
    using L r by (auto simp: set_timeout_def wp_simps intro: times_insert_timeout)
qed

lemma set_timeout_okg:
  assumes ok: "okg E L s" and "\<exists>r. requests (rc s) i = Some r \<and> RState r = INPROGRESS"
    and "TimesMutex TimeoutTimes \<notin> L" "TimeoutTimes \<notin> unarmed E"
  shows "wpg b (set_timeout i) (\<lambda>_. okg E L) s"
proof (rule set_timeout_any)
  show "okg (any_timeout i E) L s"
    using ok sched_ok_weaken [of "overdue E" "expired E" "rc s" "overdue E" "expired (any_timeout i E)"]
    by (simp add: okg_def inv_def any_timeout_def)
qed (use assms in auto)

lemma ProlongAccess_ok: "keeps_ok (ProlongAccess i)"
  unfolding keeps_ok_def ok_okg ProlongAccess_def
  by (auto intro!: okg_critical_any set_timeout_okg simp: wp_simps
      simp del: wp_critical split: option.splits)

section \<open>New requests and updates\<close>

lemma card_dom_data_ok:
  assumes "data_ok m"
  shows "dom m = {1..card (dom m)}"
proof -
  obtain n where n: "dom m = {1..n}" using assms by (auto simp only: data_ok_def)
  then have "card (dom m) = n" by simp
  with n show ?thesis by simp
qed

lemma job_ok_add:
  assumes ok: "job_ok m js op n" and new: "m i = None" and r: "\<And>u. \<not> runs_on r u"
  shows "job_ok (m(i \<mapsto> r)) js op n"
  unfolding job_ok_def
proof (intro conjI allI impI)
  fix u j assume "js u = Some j"
  then obtain x where "m (jReq j) = Some x" "runs_on x u"
    using ok unfolding job_ok_def by blast
  with new show "\<exists>x. (m(i \<mapsto> r)) (jReq j) = Some x \<and> runs_on x u"
    by (cases "jReq j = i") auto
next
  fix k x u assume "(m(i \<mapsto> r)) k = Some x" "runs_on x u"
  with r have "m k = Some x" by (auto split: if_splits)
  with ok \<open>runs_on x u\<close> show "\<exists>j. js u = Some j \<and> jReq j = k"
    unfolding job_ok_def by blast
qed (use ok in \<open>simp_all add: job_ok_def\<close>)

lemma data_ok_add:
  assumes "data_ok m" and "i = card (dom m) + 1" and "ID r = i" and "prio_ok (Prio r)"
    and "RState r = INPROGRESS \<longrightarrow> RJob r \<noteq> None"
  shows "data_ok (m(i \<mapsto> r))" and "m i = None"
proof -
  have dom: "dom m = {1..card (dom m)}" by (rule card_dom_data_ok [OF assms(1)])
  have "i \<notin> {1..card (dom m)}" using assms(2) by simp
  then have "i \<notin> dom m" unfolding dom [symmetric] .
  then show "m i = None" by (simp add: domIff)
  have "insert i {1..card (dom m)} = {1..i}" using assms(2) by auto
  then have "dom (m(i \<mapsto> r)) = {1..i}" unfolding dom [symmetric] by simp
  then show "data_ok (m(i \<mapsto> r))"
    using assms unfolding data_ok_def by (auto split: if_splits)
qed

lemma push_okg:
  assumes ok: "okg E L s" and i: "i = card (dom (requests (rc s))) + 1"
    and r: "ID r = i" "RState r = WAIT" "prio_ok (Prio r)" and L: "QueueMutex \<notin> L"
  shows "wpg b (thn (pushRequest r) (put_request i r)) (\<lambda>_. okg (missing_deadline i (Deadline r) E) L) s"
  unfolding wp_thn wp_put_request
proof (rule wp_pushRequest)
  note parts = invD [OF okg_inv [OF ok]]
  have data: "data_ok ((requests (rc s))(i \<mapsto> r))" and new: "requests (rc s) i = None"
    using data_ok_add [OF parts(1) i r(1) r(3)] r(2) by simp_all
  show "\<not> pq.waiting (rqueue (rc s)) (ID r) p" for p
    using okg_waiting(2) [OF ok] new r(1) by simp
  fix q
  assume q: "q_inv q" and wt: "\<forall>y p. pq.waiting q y p \<longleftrightarrow>
      pq.waiting (rqueue (rc s)) y p \<or> y = ID r \<and> p = Prio r"
  let ?m = "(requests (rc s))(i \<mapsto> r)"
  let ?c = "(rc s)\<lparr>rqueue := q, requests := ?m\<rparr>"
  have "queue_ok ?m q"
    using parts(2) q wt r new by (auto simp: queue_ok_def)
  moreover have "times_ok (unarmed E) ?c" using parts(3) by (simp add: times_ok_def)
  moreover have "sched_ok (overdue (missing_deadline i (Deadline r) E)) (expired E)
      ((rc s)\<lparr>requests := ?m\<rparr>)"
    by (rule sched_ok_upd [OF sched_ok_weaken [OF parts(4)]])
       (use r in \<open>auto simp: missing_deadline_def\<close>)
  then have "sched_ok (overdue (missing_deadline i (Deadline r) E)) (expired E) ?c"
    by (simp add: sched_ok_def)
  moreover have "job_ok ?m (jobs s) (open_tunnels s) (next_tunnel s)"
    using parts(5) new by (rule job_ok_add) (simp add: runs_on_def r(2))
  ultimately have "okg (missing_deadline i (Deadline r) E) L (s\<lparr>rc := ?c\<rparr>)"
    using data parts ok by (simp add: inv_def okg_def missing_deadline_def)
  then show "okg (missing_deadline i (Deadline r) E) L (s\<lparr>rc := (rc s)\<lparr>rqueue := q\<rparr>\<rparr>
      \<lparr>rc := (rc (s\<lparr>rc := (rc s)\<lparr>rqueue := q\<rparr>\<rparr>))\<lparr>requests :=
        (requests (rc (s\<lparr>rc := (rc s)\<lparr>rqueue := q\<rparr>\<rparr>)))(i \<mapsto> r)\<rparr>\<rparr>)"
    by simp
qed (use ok okg_waiting(1) [OF ok] L r in \<open>auto simp: okg_def\<close>)

text \<open>A critical section that relaxes the invariant.\<close>

lemma okg_critical_to:
  assumes "okg E L s" and "l \<notin> L"
    and "\<And>t. okg E (insert l L) t \<Longrightarrow> wpg b m (\<lambda>r t. okg (F r) (insert l L) t) t"
  shows "wpg b (critical l m) (\<lambda>r t. okg (F r) L t) s"
proof -
  have "okg E (insert l L) (s\<lparr>held := insert l L\<rparr>)"
    using assms(1) by (simp add: okg_def)
  from assms(3) [OF this]
  have "wpg b m (\<lambda>r t. l \<in> held t \<and> okg (F r) L (t\<lparr>held := held t - {l}\<rparr>)) (s\<lparr>held := insert l L\<rparr>)"
    by (rule wp_mono) (use assms(2) in \<open>auto simp: okg_def\<close>)
  with assms show ?thesis
    by (simp add: wp_critical okg_def)
qed

lemma missing_deadline_slack [simp]:
  "unarmed (missing_deadline i d E) = unarmed E" "reading (missing_deadline i d E) = reading E"
  by (simp_all add: missing_deadline_def)

lemma okg_clock [simp]: "okg strict L (s\<lparr>clock := c\<rparr>) = okg strict L s"
  by (simp add: okg_def strict_def)

lemma store_request_okg:
  assumes ok: "okg E L s" and r: "RState r = WAIT" "prio_ok (Prio r)"
    and L: "ReqsMutex \<notin> L" "QueueMutex \<notin> L"
  shows "wpg b (store_request r) (\<lambda>i. okg (missing_deadline i (Deadline r) E) L) s"
  unfolding store_request_def
proof (rule okg_critical_to [OF ok])
  fix t
  assume t: "okg E (insert ReqsMutex L) t"
  let ?i = "card (dom (requests (rc t))) + 1"
  show "wpg b (bnd get_requests (\<lambda>m. let i = card (dom m) + 1; req = r\<lparr>ID := i\<rparr>
     in thn (pushRequest req) (thn (put_request i req) (ret i))))
     (\<lambda>i. okg (missing_deadline i (Deadline r) E) (insert ReqsMutex L)) t"
    using push_okg [OF t, of ?i "r\<lparr>ID := ?i\<rparr>" b] r L by (simp add: wp_simps Let_def)
qed (rule L)

lemma NewRequest_ok: "keeps_ok (NewRequest caps priority owner va dl)"
proof -
  have body: "wpg b (store_request r) (\<lambda>i. wpg b (thn (times_insert ValidAfterTimes (RequestTime v i))
      (thn (times_insert DeadlineTimes (RequestTime (Deadline r) i)) (ret (Inr i))))
      (\<lambda>(_ :: error + nat). okg strict {})) s"
    if ok: "okg strict {} s" and r: "RState r = WAIT" "prio_ok (Prio r)" for s b r v
  proof (rule wp_mono, rule store_request_okg [OF ok r])
    fix i t
    assume t: "okg (missing_deadline i (Deadline r) strict) {} t"
    have "wpg b (times_insert ValidAfterTimes (RequestTime v i))
        (\<lambda>_. wpg b (times_insert DeadlineTimes (RequestTime (Deadline r) i)) (\<lambda>_. okg strict {})) t"
      by (rule wp_mono, rule times_insert_okg [OF t]) (auto intro: times_insert_deadline)
    then show "wpg b (thn (times_insert ValidAfterTimes (RequestTime v i))
      (thn (times_insert DeadlineTimes (RequestTime (Deadline r) i)) (ret (Inr i))))
      (\<lambda>(_ :: error + nat). okg strict {}) t"
      by (simp add: wp_simps)
  qed simp_all
  have prio: "\<not> p < HiPrio \<Longrightarrow> \<not> LoPrio < p \<Longrightarrow> prio_ok p" for p
    by (simp add: prio_ok_def not_less)
  note new = body [of _ "\<lparr>ID = 0, Prio = priority, Owner = owner, Deadline = d, DeadlineZone = 0, ValidAfter = v,
            ValidAfterZone = 0, RState = WAIT, RJob = None, RCaps = caps\<rparr>" for d v, simplified]
  show ?thesis
    unfolding keeps_ok_def ok_okg NewRequest_def deadline_in_past_def
    by (auto intro!: new intro: prio simp: wp_ret wp_bnd wp_gets wp_time_Now wp_if)
qed

text \<open>A change of a waiting request; the queue holds it under its new priority.\<close>

lemma okg_modify:
  assumes ok: "okg E L s" and r: "requests (rc s) i = Some r" and w: "RState r = WAIT"
    and r': "ID r' = i" "RState r' = WAIT" "RJob r' = RJob r" "prio_ok (Prio r')"
    and E: "\<not> overdue E i r"
    and q: "q_inv q" "\<And>y p. pq.waiting q y p \<longleftrightarrow> (if y = i then p = Prio r' else pq.waiting (rqueue (rc s)) y p)"
    and F: "F = E \<and> Deadline r' = Deadline r \<or> F = missing_deadline i (Deadline r') E"
  shows "okg F L (s\<lparr>rc := (rc s)\<lparr>requests := (requests (rc s))(i \<mapsto> r'), rqueue := q\<rparr>\<rparr>)"
proof -
  note rr = okg_request [OF ok r] and parts = invD [OF okg_inv [OF ok]]
  let ?m = "(requests (rc s))(i \<mapsto> r')"
  let ?c = "(rc s)\<lparr>requests := ?m, rqueue := q\<rparr>"
  have "data_ok ?m"
    using data_ok_upd [OF parts(1) r, of r'] r' rr by simp
  moreover have "queue_ok ?m q"
    using parts(2) q r' by (auto simp: queue_ok_def)
  moreover have "job_ok ?m (jobs s) (open_tunnels s) (next_tunnel s)"
    by (rule job_ok_upd [OF parts(5) r]) (simp add: runs_on_def r' w)
  moreover have "times_ok (unarmed E) ?c" using parts(3) by (simp add: times_ok_def)
  moreover have "sched_ok (overdue F) (expired E) ((rc s)\<lparr>requests := ?m\<rparr>)"
  proof (rule sched_ok_upd)
    show "sched_ok (overdue F) (expired E) (rc s)"
      by (rule sched_ok_weaken [OF parts(4)]) (use F in \<open>auto simp: missing_deadline_def\<close>)
    show "scheduled (deadlineTimes (rc s)) i (Deadline r') \<or> overdue F i r'"
    proof -
      have "scheduled (deadlineTimes (rc s)) i (Deadline r)"
        using parts(4) r w E unfolding sched_ok_def by blast
      then show ?thesis using F by (auto simp: missing_deadline_def)
    qed
  qed (use r' in simp_all)
  then have "sched_ok (overdue F) (expired E) ?c"
    by (simp add: sched_ok_def)
  ultimately show ?thesis
    using parts ok F by (elim disjE) (simp_all add: inv_def okg_def missing_deadline_def)
qed

definition waits :: "ReqID \<Rightarrow> server \<Rightarrow> bool" where
  "waits i s \<longleftrightarrow> (\<exists>r. requests (rc s) i = Some r \<and> RState r = WAIT)"

lemma setPriority_okg:
  assumes ok: "okg E L s" and r: "requests (rc s) i = Some r" "RState r = WAIT" and p: "prio_ok p"
    and L: "QueueMutex \<notin> L" and E: "\<not> overdue E i r"
  shows "wpg b (thn (setRequestPriority r p) (upd_request i (\<lambda>r. r\<lparr>Prio := p\<rparr>)))
           (\<lambda>_ t. okg E L t \<and> waits i t) s"
  unfolding wp_thn wp_upd_request
proof (rule wp_setRequestPriority)
  note rr = okg_request [OF ok r(1)]
  show "pq.waiting (rqueue (rc s)) (ID r) (Prio r)"
    using okg_waiting(2) [OF ok] r rr by simp
  fix q
  assume q: "q_inv q" "\<forall>y k. pq.waiting q y k \<longleftrightarrow> (if y = ID r then k = p else pq.waiting (rqueue (rc s)) y k)"
  have "okg E L (s\<lparr>rc := (rc s)\<lparr>requests := (requests (rc s))(i \<mapsto> r\<lparr>Prio := p\<rparr>), rqueue := q\<rparr>\<rparr>)"
    by (rule okg_modify [OF ok r]) (use rr p q r E in simp_all)
  moreover have "(rc s)\<lparr>requests := (requests (rc s))(i \<mapsto> r\<lparr>Prio := p\<rparr>), rqueue := q\<rparr>
      = (rc s)\<lparr>rqueue := q, requests := (requests (rc s))(i \<mapsto> r\<lparr>Prio := p\<rparr>)\<rparr>"
    by simp
  ultimately show "okg E L (s\<lparr>rc := (rc s)\<lparr>rqueue := q\<rparr>\<rparr>\<lparr>rc := (rc (s\<lparr>rc := (rc s)\<lparr>rqueue := q\<rparr>\<rparr>))
      \<lparr>requests := (requests (rc (s\<lparr>rc := (rc s)\<lparr>rqueue := q\<rparr>\<rparr>)))(i := map_option (\<lambda>r. r\<lparr>Prio := p\<rparr>)
        (requests (rc (s\<lparr>rc := (rc s)\<lparr>rqueue := q\<rparr>\<rparr>)) i))\<rparr>\<rparr>)
      \<and> waits i (s\<lparr>rc := (rc s)\<lparr>rqueue := q\<rparr>\<rparr>\<lparr>rc := (rc (s\<lparr>rc := (rc s)\<lparr>rqueue := q\<rparr>\<rparr>))
      \<lparr>requests := (requests (rc (s\<lparr>rc := (rc s)\<lparr>rqueue := q\<rparr>\<rparr>)))(i := map_option (\<lambda>r. r\<lparr>Prio := p\<rparr>)
        (requests (rc (s\<lparr>rc := (rc s)\<lparr>rqueue := q\<rparr>\<rparr>)) i))\<rparr>\<rparr>)"
    using r by (simp add: waits_def)
qed (use ok okg_waiting(1) [OF ok] L p in \<open>auto simp: okg_def\<close>)

lemma upd_waiting_okg:
  assumes ok: "okg E L s" and w: "waits i s" and E: "\<And>r. \<not> overdue E i r"
    and f: "\<And>r. ID (f r) = ID r \<and> RState (f r) = RState r \<and> RJob (f r) = RJob r \<and> Prio (f r) = Prio r"
    and F: "F = E \<and> (\<forall>r. Deadline (f r) = Deadline r) \<or> (\<exists>d. (\<forall>r. Deadline (f r) = d) \<and> F = missing_deadline i d E)"
    and Q: "\<And>t. okg F L t \<Longrightarrow> waits i t \<Longrightarrow> Q () t"
  shows "wpg b (upd_request i f) Q s"
  unfolding wp_upd_request
proof (rule Q)
  obtain r where r: "requests (rc s) i = Some r" "RState r = WAIT"
    using w by (auto simp: waits_def)
  note rr = okg_request [OF ok r(1)]
  have same: "pq.waiting (rqueue (rc s)) i k \<longleftrightarrow> k = Prio r" for k
    using okg_waiting(2) [OF ok, of i k] r by auto
  have "okg F L (s\<lparr>rc := (rc s)\<lparr>requests := (requests (rc s))(i \<mapsto> f r), rqueue := rqueue (rc s)\<rparr>\<rparr>)"
    by (rule okg_modify [OF ok r])
       (use rr r f F E same okg_waiting(1) [OF ok] in auto)
  then show "okg F L (s\<lparr>rc := (rc s)\<lparr>requests := (requests (rc s))(i := map_option f (requests (rc s) i))\<rparr>\<rparr>)"
    by (simp add: r)
  show "waits i (s\<lparr>rc := (rc s)\<lparr>requests := (requests (rc s))(i := map_option f (requests (rc s) i))\<rparr>\<rparr>)"
    using r f by (simp add: waits_def)
qed

text \<open>The deadline that still has no entry when \<open>updateRequest\<close> returns.\<close>

definition left_open :: "error + (requestTime option \<times> requestTime option) \<Rightarrow> slack" where
  "left_open res = (case res of
       Inr (_, Some x) \<Rightarrow> missing_deadline (rt_req x) (rt_time x) strict
     | _ \<Rightarrow> strict)"

lemma strict_overdue [simp]: "\<not> overdue strict i r"
  by (simp add: strict_def nobody_def)

lemma update_steps_okg:
  assumes "okg strict L t" and dst: "requests (rc t) i = Some dst" "RState dst = WAIT"
    and p: "p \<noteq> 0 \<Longrightarrow> prio_ok p" and L: "QueueMutex \<notin> L"
  shows "wpg b (thn (if p \<noteq> 0
            then thn (setRequestPriority dst p) (upd_request i (\<lambda>r. r\<lparr>Prio := p\<rparr>))
            else ret ())
      (thn (if set_va then upd_request i (\<lambda>r. r\<lparr>ValidAfter := va, ValidAfterZone := vz\<rparr>) else ret ())
      (thn (if set_dl then upd_request i (\<lambda>r. r\<lparr>Deadline := d, DeadlineZone := dz\<rparr>) else ret ())
           (ret (Inr (v, if set_dl then Some (RequestTime d i) else None))))))
     (\<lambda>res. okg (left_open res) L) t"
proof -
  have dl: "wpg b (thn (if set_dl then upd_request i (\<lambda>r. r\<lparr>Deadline := d, DeadlineZone := dz\<rparr>) else ret ())
           (ret (Inr (v, if set_dl then Some (RequestTime d i) else None))))
     (\<lambda>res. okg (left_open res) L) u" if "okg strict L u" "waits i u" for u
    using that by (cases set_dl)
      (auto simp: wp_thn wp_ret left_open_def intro!: upd_waiting_okg [where F = "missing_deadline i d strict"])
  have va: "wpg b (thn (if set_va then upd_request i (\<lambda>r. r\<lparr>ValidAfter := va, ValidAfterZone := vz\<rparr>) else ret ())
      (thn (if set_dl then upd_request i (\<lambda>r. r\<lparr>Deadline := d, DeadlineZone := dz\<rparr>) else ret ())
           (ret (Inr (v, if set_dl then Some (RequestTime d i) else None)))))
     (\<lambda>res. okg (left_open res) L) u" if "okg strict L u" "waits i u" for u
  proof (cases set_va)
    case True
    have "wpg b (upd_request i (\<lambda>r. r\<lparr>ValidAfter := va, ValidAfterZone := vz\<rparr>)) (\<lambda>_. wpg b
        (thn (if set_dl then upd_request i (\<lambda>r. r\<lparr>Deadline := d, DeadlineZone := dz\<rparr>) else ret ())
           (ret (Inr (v, if set_dl then Some (RequestTime d i) else None)))) (\<lambda>res. okg (left_open res) L)) u"
      by (rule upd_waiting_okg [OF that, where F = strict]) (use dl in auto)
    with True show ?thesis by (simp add: wp_thn)
  next
    case False
    with dl [OF that] show ?thesis by (simp add: wp_thn wp_ret)
  qed
  have "wpg b (if p \<noteq> 0 then thn (setRequestPriority dst p) (upd_request i (\<lambda>r. r\<lparr>Prio := p\<rparr>)) else ret ())
      (\<lambda>_ u. okg strict L u \<and> waits i u) t"
  proof (cases "p = 0")
    case True
    with assms(1) dst show ?thesis by (simp add: wp_ret waits_def)
  next
    case False
    with assms show ?thesis by (simp add: setPriority_okg)
  qed
  then show ?thesis
    unfolding wp_thn [of _ "if p \<noteq> 0 then _ else _"]
    by (rule wp_mono) (use va in blast)
qed

lemma updateRequest_okg:
  assumes ok: "okg strict {} s"
  shows "wpg b (updateRequest src) (\<lambda>res. okg (left_open res) {}) s"
  unfolding updateRequest_def
proof (rule okg_critical_to [OF ok], goal_cases)
  case (2 t)
  have prio: "prio_ok (Prio src)" if "\<not> (Prio src \<noteq> 0 \<and> (Prio src < HiPrio \<or> LoPrio < Prio src))" "Prio src \<noteq> 0"
    using that by (auto simp: prio_ok_def not_less)
  have steps: "wpg b (apply_update src dst d) (\<lambda>res. okg (left_open res) {ReqsMutex}) u"
    if "okg strict {ReqsMutex} u" "requests (rc u) (ID src) = Some dst" "RState dst = WAIT"
      "Prio src \<noteq> 0 \<longrightarrow> prio_ok (Prio src)" for u dst d
    unfolding apply_update_def by (rule update_steps_okg) (use that in simp_all)
  show ?case
  proof (cases "requests (rc t) (ID src)")
    case None
    with 2 show ?thesis by (simp add: wp_simps left_open_def)
  next
    case (Some dst)
    show ?thesis
    proof (cases "RState dst = WAIT")
      case False
      with 2 Some show ?thesis by (simp add: wp_simps left_open_def modificationPossible_def)
    next
      case True
      with 2 Some prio show ?thesis
        by (auto simp: wp_bnd wp_get_requests wp_if wp_ret wp_time_Now deadline_in_past_def Let_def
            modificationPossible_def left_open_def [of "Inl _"] left_open_def [of "Inr (None, None)"]
            simp del: not_None_eq intro!: steps)
    qed
  qed
qed simp

lemma insert_if_okg:
  "okg E L s \<Longrightarrow> TimesMutex k \<notin> L \<Longrightarrow> k \<notin> unarmed E \<Longrightarrow> wpg b (insert_if k x) (\<lambda>_. okg E L) s"
  by (cases x) (simp_all add: insert_if_def wp_ret times_insert_okg)

lemma insert_if_deadline:
  "okg (left_open (Inr (v, x))) {} s \<Longrightarrow> wpg b (insert_if DeadlineTimes x) (\<lambda>_. okg strict {}) s"
  by (cases x; cases "the x") (auto simp: insert_if_def wp_ret left_open_def intro: times_insert_deadline)

lemma left_open_unarmed [simp]: "unarmed (left_open res) = {}"
  by (simp add: left_open_def split: sum.split prod.split option.split)

lemma UpdateRequest_ok: "keeps_ok (UpdateRequest src)"
proof -
  have body: "wpg b (updateRequest r) (\<lambda>res. wpg b (case res of
           Inl err \<Rightarrow> ret (Some err)
         | Inr (va, dl) \<Rightarrow> thn (insert_if ValidAfterTimes va) (thn (insert_if DeadlineTimes dl) (ret None)))
      (\<lambda>_. okg strict {})) s" if ok: "okg strict {} s" for s b r
  proof (rule wp_mono, rule updateRequest_okg [OF ok])
    fix res t assume t: "okg (left_open res) {} t"
    show "wpg b (case res of
           Inl err \<Rightarrow> ret (Some err)
         | Inr (va, dl) \<Rightarrow> thn (insert_if ValidAfterTimes va) (thn (insert_if DeadlineTimes dl) (ret None)))
      (\<lambda>_. okg strict {}) t"
    proof (cases res)
      case (Inl e)
      with t show ?thesis by (simp add: wp_ret left_open_def)
    next
      case (Inr p)
      obtain va dl where p: "p = (va, dl)" by (cases p)
      have "wpg b (insert_if ValidAfterTimes va) (\<lambda>_. wpg b (insert_if DeadlineTimes dl) (\<lambda>_. okg strict {})) t"
        by (rule wp_mono, rule insert_if_okg [OF t]) (auto simp: Inr p intro: insert_if_deadline)
      with Inr p show ?thesis by (simp add: wp_simps)
    qed
  qed
  show ?thesis
    unfolding keeps_ok_def ok_okg UpdateRequest_def
    by (auto simp: wp_ret wp_bnd intro!: body split: option.split)
qed

end
