(* ===== verification/Timers.thy ===== *)
theory Timers
  imports RequestOps
begin

text \<open>
  What happens when a timer fires: the past points in time are taken out, the requests
  they belong to are settled one after the other, and the timer is set again.
\<close>

section \<open>Deadlines and timeouts\<close>

text \<open>
  \<open>Timeout\<close> settles the request of a past deadline: afterwards it does not wait with
  that deadline any more.
\<close>

definition settled_deadline :: "ReqID \<Rightarrow> slack \<Rightarrow> slack" where
  "settled_deadline i E = E\<lparr>overdue := (\<lambda>j r. overdue E j r \<and> j \<noteq> i)\<rparr>"

definition settled_timeout :: "ReqID \<Rightarrow> slack \<Rightarrow> slack" where
  "settled_timeout i E = E\<lparr>expired := (\<lambda>j r. expired E j r \<and> j \<noteq> i)\<rparr>"

lemma okg_settled_deadline:
  assumes ok: "okg E L s" and r: "\<And>r. requests (rc s) i = Some r \<Longrightarrow> RState r = WAIT \<Longrightarrow> \<not> overdue E i r"
  shows "okg (settled_deadline i E) L s"
proof -
  have "sched_ok (overdue (settled_deadline i E)) (expired E) (rc s)"
    using invD(4) [OF okg_inv [OF ok]] r unfolding sched_ok_def settled_deadline_def
    by (auto split: if_splits)
  with ok show ?thesis
    by (simp add: okg_def inv_def settled_deadline_def)
qed

lemma okg_settled_timeout:
  assumes ok: "okg E L s" and r: "\<And>r. requests (rc s) i = Some r \<Longrightarrow> RState r = INPROGRESS \<Longrightarrow> \<not> expired E i r"
  shows "okg (settled_timeout i E) L s"
proof -
  have "sched_ok (overdue E) (expired (settled_timeout i E)) (rc s)"
    using invD(4) [OF okg_inv [OF ok]] r unfolding sched_ok_def settled_timeout_def
    by (auto split: if_splits)
  with ok show ?thesis
    by (simp add: okg_def inv_def settled_timeout_def)
qed

lemma okg_tick: "okg E L s \<Longrightarrow> okg E L (s\<lparr>clock := (\<lambda>i. clock s (Suc i))\<rparr>)"
  by (simp add: okg_def)

lemma okg_critical_slack:
  assumes "okg E L s" and "b \<or> all_room s" and "l \<notin> L"
    and "\<And>t. okg E (insert l L) t \<Longrightarrow> b \<or> all_room t \<Longrightarrow> wpg b m (\<lambda>_. okg F (insert l L)) t"
  shows "wpg b (critical l m) (\<lambda>_. okg F L) s"
proof -
  have "okg E (insert l L) (s\<lparr>held := insert l L\<rparr>)"
    using assms(1) by (simp add: okg_def)
  from assms(4) [OF this] assms(2)
  have "wpg b m (\<lambda>_. okg F (insert l L)) (s\<lparr>held := insert l L\<rparr>)" by simp
  then have "wpg b m (\<lambda>_ t. l \<in> held t \<and> okg F L (t\<lparr>held := held t - {l}\<rparr>)) (s\<lparr>held := insert l L\<rparr>)"
    by (rule wp_mono) (use assms(3) in \<open>auto simp: okg_def\<close>)
  with assms show ?thesis
    by (simp add: wp_critical okg_def)
qed

lemma Timeout_settles:
  assumes ok: "okg E L s" and L: "ReqsMutex \<notin> L" "QueueMutex \<notin> L"
    and E: "\<And>r c. overdue E i r \<Longrightarrow> reading E c \<Longrightarrow> Deadline r \<le> c"
    and room: "b \<or> all_room s"
  shows "wpg b (Timeout i) (\<lambda>_. okg (settled_deadline i E) L) s"
  unfolding Timeout_def
proof (rule okg_critical_slack [OF ok room L(1)], goal_cases)
  case (1 t)
  note t = 1(1)
  show ?case
  proof (cases "requests (rc t) i")
    case None
    with okg_settled_deadline [OF t, of i] show ?thesis by (simp add: wp_simps)
  next
    case (Some r)
    have keep: "okg (settled_deadline i E) (insert ReqsMutex L) (t\<lparr>clock := (\<lambda>n. clock t (Suc n))\<rparr>)"
      if "\<not> overdue E i r \<or> RState r \<noteq> WAIT"
      by (rule okg_settled_deadline [OF okg_tick [OF t]]) (use that Some in auto)
    have leave: "wpg b (removeRequest r) (\<lambda>_. okg (settled_deadline i E) (insert ReqsMutex L))
        (t\<lparr>clock := (\<lambda>n. clock t (Suc n)), rc := (rc t)\<lparr>requests := (requests (rc t))(i \<mapsto> r\<lparr>RState := TIMEOUT\<rparr>)\<rparr>\<rparr>)"
      if "RState r = WAIT"
    proof (rule wp_mono)
      show "wpg b (removeRequest r) (\<lambda>_ u. okg E (insert ReqsMutex L) u \<and> requests (rc u) i = Some (r\<lparr>RState := TIMEOUT\<rparr>))
        (t\<lparr>clock := (\<lambda>n. clock t (Suc n)), rc := (rc t)\<lparr>requests := (requests (rc t))(i \<mapsto> r\<lparr>RState := TIMEOUT\<rparr>)\<rparr>\<rparr>)"
        using leave_queue_at [OF okg_tick [OF t], of i r "r\<lparr>RState := TIMEOUT\<rparr>" b] Some that L(2) by simp
    qed (auto intro: okg_settled_deadline)
    have "reading E (clock t 0)" using t by (simp add: okg_def)
    with E have "\<not> overdue E i r" if "clock t 0 < Deadline r" using that by fastforce
    with Some keep leave okg_settled_deadline [OF t, of i] show ?thesis
      by (auto simp: wp_simps)
  qed
qed

lemma Close_settles:
  assumes ok: "okg E L s" and L: "ReqsMutex \<notin> L" "JobsMutex \<notin> L" "WorkersMutex \<notin> L"
    and E: "\<And>r c ji. expired E i r \<Longrightarrow> reading E c \<Longrightarrow> RJob r = Some ji \<Longrightarrow> Timeout_at ji \<le> c"
    and room: "b \<or> all_room s"
  shows "wpg b (Close i) (\<lambda>_. okg (settled_timeout i E) L) s"
  unfolding Close_def
proof (rule okg_critical_slack [OF ok room L(1)], goal_cases)
  case (1 t)
  note t = 1(1)
  show ?case
  proof (cases "requests (rc t) i")
    case None
    with okg_settled_timeout [OF t, of i] show ?thesis by (simp add: wp_simps)
  next
    case (Some r)
    show ?thesis
    proof (cases "RState r = INPROGRESS")
      case False
      with Some okg_settled_timeout [OF t, of i] show ?thesis by (simp add: wp_simps)
    next
      case True
      then obtain ji where ji: "RJob r = Some ji" using okg_request(3) [OF t Some] by blast
      have "okg (settled_timeout i E) (insert ReqsMutex L) (t\<lparr>clock := (\<lambda>n. clock t (Suc n))\<rparr>)"
        if "clock t 0 < Timeout_at ji"
      proof (rule okg_settled_timeout [OF okg_tick [OF t]])
        have "reading E (clock t 0)" using t by (simp add: okg_def)
        with E [of r "clock t 0" ji] that ji have "\<not> expired E i r" by auto
        with Some show "\<not> expired E i x"
          if "requests (rc (t\<lparr>clock := (\<lambda>n. clock t (Suc n))\<rparr>)) i = Some x" for x
          using that by simp
      qed
      moreover have "wpg b (closeRequest i) (\<lambda>_. okg (settled_timeout i E) (insert ReqsMutex L))
          (t\<lparr>clock := (\<lambda>n. clock t (Suc n))\<rparr>)"
      proof (rule wp_mono)
        show "wpg b (closeRequest i) (\<lambda>_ u. okg E (insert ReqsMutex L) u \<and> requests (rc u) i = Some (r\<lparr>RState := DONE\<rparr>))
            (t\<lparr>clock := (\<lambda>n. clock t (Suc n))\<rparr>)"
          by (rule closeRequest_at [OF okg_tick [OF t]])
             (use Some True L 1(2) in \<open>auto simp: all_room_def room_def\<close>)
      qed (auto intro: okg_settled_timeout)
      ultimately show ?thesis
        using Some True ji by (auto simp: wp_simps)
    qed
  qed
qed

section \<open>A fired timer\<close>

text \<open>
  What is relaxed while the collection \<open>k\<close> is processed: its timer is not set, and the
  requests still to be notified may be without an entry, but only those with a moment
  before \<open>t\<close>, the moment the timer fired; the clock does not go back before it.
\<close>

definition taken :: "times_kind \<Rightarrow> time \<Rightarrow> ReqID list \<Rightarrow> slack" where
  "taken k t past = \<lparr>unarmed = {k},
     overdue = (\<lambda>i r. k = DeadlineTimes \<and> i \<in> set past \<and> Deadline r < t),
     expired = (\<lambda>i r. k = TimeoutTimes \<and> i \<in> set past \<and> (\<exists>j. RJob r = Some j \<and> Timeout_at j < t)),
     reading = (\<lambda>c. t \<le> c)\<rparr>"

lemma okg_weaken:
  assumes "okg E L s" and "unarmed E \<subseteq> unarmed F" and "\<And>i r. overdue E i r \<Longrightarrow> overdue F i r"
    and "\<And>i r. expired E i r \<Longrightarrow> expired F i r" and "\<And>c. reading E c \<Longrightarrow> reading F c"
  shows "okg F L s"
  using assms sched_ok_weaken [of "overdue E" "expired E" "rc s" "overdue F" "expired F"]
  by (auto simp: okg_def inv_def times_ok_def)

lemma settled_taken:
  "okg (settled_deadline i (taken DeadlineTimes t (i # is))) L s \<Longrightarrow> okg (taken DeadlineTimes t is) L s"
  "okg (settled_timeout i (taken TimeoutTimes t (i # is))) L s \<Longrightarrow> okg (taken TimeoutTimes t is) L s"
  by (erule okg_weaken; auto simp: settled_deadline_def settled_timeout_def taken_def)+

lemma deadline_notify_okg:
  assumes "okg (taken DeadlineTimes t past) L s" and L: "ReqsMutex \<notin> L" "QueueMutex \<notin> L"
  shows "safe (deadline_notify RM past) (\<lambda>_. okg (taken DeadlineTimes t []) L) s"
  using assms(1)
proof (induction past arbitrary: s)
  case Nil
  then show ?case by (simp add: deadline_notify_def wp_ret)
next
  case (Cons i past)
  have "safe (Timeout i) (\<lambda>_. okg (settled_deadline i (taken DeadlineTimes t (i # past))) L) s"
    by (rule Timeout_settles [OF Cons.prems L]) (auto simp: taken_def)
  then have "safe (Timeout i) (\<lambda>_. safe (deadline_notify RM past) (\<lambda>_. okg (taken DeadlineTimes t []) L)) s"
    by (rule wp_mono) (blast intro: Cons.IH settled_taken)
  then show ?case
    by (simp add: deadline_notify_def wp_simps RM_def)
qed

lemma timeout_notify_okg:
  assumes "okg (taken TimeoutTimes t past) L s"
    and L: "ReqsMutex \<notin> L" "JobsMutex \<notin> L" "WorkersMutex \<notin> L"
  shows "safe (timeout_notify RM past) (\<lambda>_. okg (taken TimeoutTimes t []) L) s"
  using assms(1)
proof (induction past arbitrary: s)
  case Nil
  then show ?case by (simp add: timeout_notify_def wp_ret)
next
  case (Cons i past)
  have "safe (Close i) (\<lambda>_. okg (settled_timeout i (taken TimeoutTimes t (i # past))) L) s"
    by (rule Close_settles [OF Cons.prems L]) (auto simp: taken_def)
  then have "safe (Close i) (\<lambda>_. safe (timeout_notify RM past) (\<lambda>_. okg (taken TimeoutTimes t []) L)) s"
    by (rule wp_mono) (blast intro: Cons.IH settled_taken)
  then show ?case
    by (simp add: timeout_notify_def wp_simps RM_def)
qed

lemma take_past_okg:
  assumes ok: "okg (taken k t []) L s"
  shows "wpg b (on_rt k (rt_take_past t)) (\<lambda>past. okg (taken k t past) L) s"
  unfolding wp_on_rt
proof -
  let ?rt = "times_of k (rc s)"
  note parts = invD [OF okg_inv [OF ok]]
  have rt: "rt_heap ?rt" "rt_matcher ?rt = Some (matcher_of k)"
    using parts(3) by (simp_all add: times_ok_def)
  show "wpg b (rt_take_past t) (\<lambda>past rt. okg (taken k t past) L (s\<lparr>rc := set_times k rt (rc s)\<rparr>)) ?rt"
  proof (rule wp_lift_mono [OF rt_take_past_spec [OF rt(1)]], goal_cases)
    case (1 past rt')
    then have h: "rt_heap rt'" "rt_matcher rt' = rt_matcher ?rt"
      and past: "mset past = image_mset rt_req (filter_mset (\<lambda>x. rt_time x < t) (mset (times ?rt)))"
      and left: "mset (times rt') = filter_mset (\<lambda>x. \<not> rt_time x < t) (mset (times ?rt))"
      by simp_all
    have sched: "scheduled rt' i d \<or> i \<in> set past \<and> d < t" if "scheduled ?rt i d" for i d
    proof (cases "d < t")
      case True
      with that have "i \<in># mset past"
        unfolding past scheduled_def by (force simp: image_iff)
      with True show ?thesis by simp
    next
      case False
      with that have "RequestTime d i \<in># mset (times rt')"
        unfolding left scheduled_def by simp
      then show ?thesis by (simp add: scheduled_def)
    qed
    have "sched_ok (overdue (taken k t past)) (expired (taken k t past)) (set_times k rt' (rc s))"
    proof (cases k)
      case ValidAfterTimes
      with parts(4) show ?thesis by (simp add: sched_ok_def taken_def)
    next
      case DeadlineTimes
      with parts(4) sched show ?thesis
        by (auto simp: sched_ok_def taken_def)
    next
      case TimeoutTimes
      with parts(4) sched show ?thesis
        by (auto simp: sched_ok_def taken_def)
    qed
    moreover have "times_ok {k} (set_times k rt' (rc s))"
      using parts(3) h by (auto simp: times_ok_def taken_def)
    ultimately show ?case
      using parts ok by (simp add: okg_def inv_def taken_def)
  qed
qed

lemma rearm_okg:
  assumes ok: "okg (taken k t []) L s"
  shows "wpg b (on_rt k rt_rearm) (\<lambda>_. okg strict L) s"
  unfolding wp_on_rt
proof (rule wp_lift_mono [OF rt_rearm_spec], goal_cases)
  case 1
  show ?case using invD(3) [OF okg_inv [OF ok]] by (simp add: times_ok_def)
next
  case (2 a rt)
  note parts = invD [OF okg_inv [OF ok]]
  have "times_ok {} (set_times k rt (rc s))"
    using parts(3) 2 by (auto simp: times_ok_def rt_inv_def taken_def)
  moreover have "sched_ok nobody nobody (set_times k rt (rc s))"
    by (rule sched_ok_set_times [OF sched_ok_weaken [OF parts(4)]]) (use 2 in \<open>auto simp: taken_def\<close>)
  ultimately show ?case
    using parts ok by (simp add: okg_def inv_def strict_def taken_def)
qed

text \<open>Stopping the timer, which is what its firing does first.\<close>

lemma stop_okg:
  assumes ok: "okg strict L s" and clock: "\<And>n. t \<le> clock s n"
  shows "wpg b (on_rt k rt_stop) (\<lambda>_. okg (taken k t []) L) s"
proof -
  let ?rt = "(times_of k (rc s))\<lparr>timer := None\<rparr>"
  note parts = invD [OF okg_inv [OF ok]]
  have "times_ok {k} (set_times k ?rt (rc s))"
    using parts(3) by (auto simp: times_ok_def rt_heap_def)
  moreover have "sched_ok (overdue (taken k t [])) (expired (taken k t [])) (set_times k ?rt (rc s))"
    by (rule sched_ok_set_times [OF sched_ok_weaken [OF parts(4)]]) (auto simp: strict_def nobody_def)
  ultimately show ?thesis
    using parts ok clock by (simp add: okg_def inv_def wp_simps rt_stop_def taken_def)
qed

end
