(* ===== verification/Assignment.thy ===== *)
theory Assignment
  imports Timers
begin

text \<open>
  The three steps of an assignment as rules: \<open>TakeBestMatchingWorker\<close> takes an idle
  worker that meets the requirements and has the lowest score among those, \<open>Create\<close>
  opens a tunnel and stores the job, and \<open>Run\<close> makes the request leave the queue.
\<close>

section \<open>Taking the best worker\<close>

definition wscore :: "WorkerInfo \<Rightarrow> nat" where
  "wscore w = card (dom (WCaps w)) + length (WGroups w)"

text \<open>
  The workers \<open>TakeBestMatchingWorker\<close> chooses from.  A worker registered with an empty
  UUID passes the filter whatever is required, since \<open>listWorkers\<close> is called with the
  empty \<open>pid\<close>.
\<close>

definition eligible :: "Groups \<Rightarrow> Capabilities \<Rightarrow> mapWorker \<Rightarrow> bool" where
  "eligible groups caps w \<longleftrightarrow> WState (info w) = IDLE \<and> wscore (info w) < MaxInt32
     \<and> (Workers_Match (NewWorkers groups caps) (WorkerElem (Some (info w))) \<or> WUUID (info w) = '''')"

lemma best_loop_spec:
  "best_loop ws s u = (s', u') \<Longrightarrow>
   (if \<exists>w \<in> set ws. wscore w < s
    then \<exists>w \<in> set ws. s' = wscore w \<and> u' = WUUID w \<and> s' < s \<and> (\<forall>v \<in> set ws. s' \<le> wscore v)
    else s' = s \<and> u' = u)"
proof (induction ws arbitrary: s u)
  case (Cons w ws)
  show ?case
  proof (cases "wscore w < s")
    case True
    with Cons.prems have "best_loop ws (wscore w) (WUUID w) = (s', u')"
      by (simp add: wscore_def)
    from Cons.IH [OF this] True show ?thesis
      by (force split: if_splits)
  next
    case False
    with Cons.prems have "best_loop ws s u = (s', u')"
      by (simp add: wscore_def)
    from Cons.IH [OF this] False show ?thesis
      by (force split: if_splits)
  qed
qed simp

lemma wp_TakeBestMatchingWorker:
  assumes wk: "wk_ok (workers (wl s)) (chans s) (next_chan s) (bgs s)" and listening: "changeListener (wl s)"
    and free: "WorkersMutex \<notin> held s"
    and none: "(\<And>u w. workers (wl s) u = Some w \<Longrightarrow> \<not> eligible groups caps w) \<Longrightarrow> Q (Inl ErrNoMatchingWorker) s"
    and room: "\<And>u w. workers (wl s) u = Some w \<Longrightarrow> eligible groups caps w \<Longrightarrow> room s w \<or> b"
    and some: "\<And>u w. workers (wl s) u = Some w \<Longrightarrow> eligible groups caps w \<Longrightarrow>
          (\<And>v x. workers (wl s) v = Some x \<Longrightarrow> eligible groups caps x \<Longrightarrow> wscore (info w) \<le> wscore (info x)) \<Longrightarrow>
          Q (Inr u) (sent u w RUN s)"
  shows "wpg b (TakeBestMatchingWorker groups caps) Q s"
proof -
  let ?m = "workers (wl s)"
  let ?P = "\<lambda>w. (Workers_Match (NewWorkers groups caps) (WorkerElem (Some w)) \<or> WUUID w = '''')
                 \<and> \<not> (True \<and> WState w \<noteq> IDLE)"
  let ?ws = "go_sort (w_Less ByUUID SortOrderAsc)
      (filter ?P (map (\<lambda>u. info (the (?m u))) (sorted_list_of_set (dom ?m))))"
  let ?s = "s\<lparr>held := insert WorkersMutex (held s)\<rparr>"
  have "finite (dom ?m)" using wk by (simp add: wk_ok_def)
  then have ws: "set ?ws = {info w | u w. ?m u = Some w \<and> ?P (info w)}"
    by (force simp: dom_def image_iff)
  obtain best u where best: "best_loop ?ws MaxInt32 '''' = (best, u)" by (cases "best_loop ?ws MaxInt32 ''''")
  show ?thesis
  proof (cases "best = MaxInt32")
    case True
    have big: "\<not> wscore i < MaxInt32" if "i \<in> set ?ws" for i
      using best_loop_spec [OF best] True that by (auto split: if_splits)
    have "\<not> eligible groups caps w" if "?m v = Some w" for v w
    proof
      assume "eligible groups caps w"
      with that have "info w \<in> set ?ws" unfolding ws by (auto simp: eligible_def)
      from big [OF this] \<open>eligible groups caps w\<close> show False by (simp add: eligible_def)
    qed
    then have "Q (Inl ErrNoMatchingWorker) s" by (rule none)
    with True best free show ?thesis
      by (simp add: TakeBestMatchingWorker_def listWorkers_def w_newSorter_def wp_simps Let_def)
  next
    case False
    then obtain i where i: "i \<in> set ?ws" "best = wscore i" "u = WUUID i" "best < MaxInt32"
        "\<forall>v \<in> set ?ws. best \<le> wscore v"
      using best_loop_spec [OF best] by (auto split: if_splits)
    then obtain v w where w: "?m v = Some w" "i = info w" "?P (info w)"
      using ws by blast
    have u: "u = v" using wk_okD(1) [OF wk w(1)] i w by simp
    have el: "eligible groups caps w"
      using w i by (simp add: eligible_def)
    have "wscore (info w) \<le> wscore (info x)" if "?m y = Some x" "eligible groups caps x" for y x
    proof -
      have "info x \<in> set ?ws" unfolding ws using that by (auto simp: eligible_def)
      with i(5) have "best \<le> wscore (info x)" by (rule bspec)
      with i(2) w(2) show ?thesis by simp
    qed
    then have "Q (Inr u) (sent u w RUN s)"
      using some [OF w(1) el] u by simp
    moreover have "sent u w RUN ?s\<lparr>held := held (sent u w RUN ?s) - {WorkersMutex}\<rparr> = sent u w RUN s"
      by (rule server.equality) (simp_all add: sent_def free)
    ultimately have "wpg b (setState u RUN) (\<lambda>err t. wpg b (case err of Some e \<Rightarrow> ret (Inl e) | None \<Rightarrow> ret (Inr u))
        (\<lambda>r t. WorkersMutex \<in> held t \<and> Q r (t\<lparr>held := held t - {WorkersMutex}\<rparr>)) t) ?s"
      using w(1) el u wk_okD(5) [OF wk w(1)] room [OF w(1) el] listening
      by (intro wp_setState [where w = w])
         (simp_all add: eligible_def fails_def wp_ret sent_def)
    with False best free show ?thesis
      by (simp add: TakeBestMatchingWorker_def listWorkers_def w_newSorter_def wp_simps Let_def)
  qed
qed

section \<open>Creating the job\<close>

definition new_job :: "ReqID \<Rightarrow> mapWorker \<Rightarrow> PrivateKey \<Rightarrow> int \<Rightarrow> nat \<Rightarrow> Job" where
  "new_job i w k port n =
     \<lparr>Access = \<lparr>Addr = \<lparr>IP = None, Port = port\<rparr>, Key = k, Username = defaultDryadUsername\<rparr>,
      jTunnel = \<lparr>tun_id = n, dest = sshd w, listener = \<lparr>IP = None, Port = port\<rparr>\<rparr>, jReq = i\<rparr>"

definition job_created :: "WorkerUUID \<Rightarrow> Job \<Rightarrow> server \<Rightarrow> server" where
  "job_created u j s = s\<lparr>ports := (\<lambda>n. ports s (Suc n)),
     open_tunnels := insert (next_tunnel s) (open_tunnels s), next_tunnel := Suc (next_tunnel s),
     jobs := (jobs s)(u \<mapsto> j)\<rparr>"

lemma wp_Create:
  assumes "JobsMutex \<notin> held s" "WorkersMutex \<notin> held s" and "jobs s u = None"
    and "workers (wl s) u = Some w" "wkey w = Some k"
    and "ports s 0 = None \<Longrightarrow> Q (Some (OtherError ''listen failed'')) (s\<lparr>ports := (\<lambda>n. ports s (Suc n))\<rparr>)"
    and "\<And>p. ports s 0 = Some p \<Longrightarrow> Q None (job_created u (new_job i w k p (next_tunnel s)) s)"
  shows "wpg b (Create i u) Q s"
proof (cases "ports s 0")
  case None
  with assms show ?thesis
    by (simp add: Create_def GetWorkerSSHAddr_def GetWorkerKey_def Tunnel_Create_def wp_simps)
next
  case (Some p)
  from assms(7) [OF Some] have
    "Q None (s\<lparr>held := held s, ports := \<lambda>i. ports s (Suc i), open_tunnels := insert (next_tunnel s) (open_tunnels s),
        next_tunnel := Suc (next_tunnel s), jobs := (jobs s)(u \<mapsto> new_job i w k p (next_tunnel s))\<rparr>)"
    by (simp add: job_created_def)
  with assms(1-5) Some show ?thesis
    by (simp add: Create_def GetWorkerSSHAddr_def GetWorkerKey_def Tunnel_Create_def wp_simps new_job_def)
qed

section \<open>Starting the request\<close>

lemma data_okD:
  "data_ok m \<Longrightarrow> m i = Some r \<Longrightarrow> ID r = i \<and> prio_ok (Prio r) \<and> (RState r = INPROGRESS \<longrightarrow> RJob r \<noteq> None)"
  unfolding data_ok_def by blast

lemma job_ok_request:
  "job_ok m js op n \<Longrightarrow> js u = Some j \<Longrightarrow> \<exists>r. m (jReq j) = Some r \<and> runs_on r u"
  unfolding job_ok_def by blast

lemma job_ok_tunnel: "job_ok m js op n \<Longrightarrow> js u = Some j \<Longrightarrow> tun_id (jTunnel j) \<in> op"
  unfolding job_ok_def by blast

lemma job_ok_distinct:
  "job_ok m js op n \<Longrightarrow> js u = Some j \<Longrightarrow> js v = Some k \<Longrightarrow>
   tun_id (jTunnel j) = tun_id (jTunnel k) \<Longrightarrow> u = v"
  unfolding job_ok_def by blast

lemma job_ok_new:
  assumes ok: "job_ok m js op n" and u: "js u = None" and r: "m i = Some r" "RState r = WAIT"
    and j: "jReq j = i" "tun_id (jTunnel j) = n" and r': "\<And>v. runs_on r' v \<longleftrightarrow> v = u"
  shows "job_ok (m(i \<mapsto> r')) (js(u \<mapsto> j)) (insert n op) (Suc n)"
proof -
  have old: "runs_on x v" "k \<noteq> i" if "m k = Some x" "runs_on x v" for k x v
    using that r by (auto simp: runs_on_def)
  have req: "jReq k \<noteq> i" "m (jReq k) \<noteq> None" "tun_id (jTunnel k) \<in> op" if "js v = Some k" for v k
    using job_ok_request [OF ok that] job_ok_tunnel [OF ok that] r by (auto simp: runs_on_def)
  have op: "t < n" if "t \<in> op" for t
    using ok that by (simp add: job_ok_def)
  have ne: "tun_id (jTunnel k) \<noteq> n" if "js v = Some k" for v k
    using op [OF req(3) [OF that]] by simp
  show ?thesis
    unfolding job_ok_def
  proof (intro conjI allI impI ballI)
    fix v k assume vk: "(js(u \<mapsto> j)) v = Some k"
    show "\<exists>x. (m(i \<mapsto> r')) (jReq k) = Some x \<and> runs_on x v"
    proof (cases "v = u")
      case True
      with vk j r' show ?thesis by auto
    next
      case False
      with vk have "js v = Some k" by simp
      with ok req(1) show ?thesis unfolding job_ok_def by auto
    qed
  next
    fix k x v assume kx: "(m(i \<mapsto> r')) k = Some x" "runs_on x v"
    show "\<exists>j'. (js(u \<mapsto> j)) v = Some j' \<and> jReq j' = k"
    proof (cases "k = i")
      case True
      with kx r' j show ?thesis by auto
    next
      case False
      with kx have "m k = Some x" by simp
      with ok kx(2) obtain j' where "js v = Some j'" "jReq j' = k" unfolding job_ok_def by blast
      with u show ?thesis by auto
    qed
  next
    fix t show "t \<in> insert n op \<longleftrightarrow> (\<exists>v k. (js(u \<mapsto> j)) v = Some k \<and> tun_id (jTunnel k) = t)"
    proof -
      have "t \<in> op \<longleftrightarrow> (\<exists>v k. js v = Some k \<and> tun_id (jTunnel k) = t)"
        using ok unfolding job_ok_def by blast
      moreover have "v \<noteq> u" if "js v = Some k" for v k using that u by auto
      ultimately show ?thesis
        using j by (auto split: if_splits intro: exI [of _ u])
    qed
  next
    fix v x k l
    assume "(js(u \<mapsto> j)) v = Some k" "(js(u \<mapsto> j)) x = Some l" "tun_id (jTunnel k) = tun_id (jTunnel l)"
    then show "v = x"
      using ne [of v k] ne [of x l] j job_ok_distinct [OF ok, of v k x l] by (auto split: if_splits)
  next
    fix t assume "t \<in> insert n op"
    with op [of t] show "t < Suc n" by auto
  qed
qed

definition assigned :: "WorkerUUID \<Rightarrow> ReqInfo \<Rightarrow> ReqInfo" where
  "assigned u r = r\<lparr>RState := INPROGRESS, RJob := Some \<lparr>jWorkerUUID = u, Timeout_at = 0, TimeoutZone = 0\<rparr>\<rparr>"

lemma okg_assigned:
  assumes inv: "inv A PD PT {u} s" and u: "jobs s u = None" "workers (wl s) u = Some w" "WState (info w) = RUN"
    and r: "requests (rc s) i = Some r" "RState r = WAIT"
    and q: "q_inv q" "\<forall>y p. pq.waiting q y p \<longleftrightarrow> pq.waiting (rqueue (rc s)) y p \<and> y \<noteq> i"
    and j: "jReq j = i" "tun_id (jTunnel j) = next_tunnel s"
  shows "inv A PD (\<lambda>k x. PT k x \<or> k = i) {} (job_created u j s\<lparr>rc := (rc s)\<lparr>
     requests := (requests (rc s))(i \<mapsto> assigned u r), rqueue := q\<rparr>\<rparr>)"
proof -
  note parts = invD [OF inv]
  let ?m = "(requests (rc s))(i \<mapsto> assigned u r)"
  have on: "runs_on (assigned u r) v \<longleftrightarrow> v = u" for v
    by (auto simp: runs_on_def assigned_def)
  have "data_ok ?m"
    using data_ok_upd [OF parts(1) r(1), of "assigned u r"] data_okD [OF parts(1) r(1)]
    by (simp add: assigned_def)
  moreover have "queue_ok ?m q"
    using queue_ok_leave [OF parts(2) r(1) _ q] by (simp add: assigned_def)
  moreover have "times_ok A ((rc s)\<lparr>requests := ?m, rqueue := q\<rparr>)"
    using parts(3) by (simp add: times_ok_def)
  moreover have "sched_ok PD (\<lambda>k x. PT k x \<or> k = i) ((rc s)\<lparr>requests := ?m, rqueue := q\<rparr>)"
    using parts(4) unfolding sched_ok_def by (auto simp: assigned_def)
  moreover have "job_ok ?m ((jobs s)(u \<mapsto> j)) (insert (next_tunnel s) (open_tunnels s)) (Suc (next_tunnel s))"
    by (rule job_ok_new [OF parts(5) u(1) r j on])
  moreover have "run_ok {} ((jobs s)(u \<mapsto> j)) (workers (wl s))"
    using parts(6) u by (auto simp: run_ok_def)
  ultimately show ?thesis
    using parts by (simp add: inv_def job_created_def)
qed

end
