(* ===== verification/WorkerPages.thy ===== *)
theory WorkerPages
  imports Assignment
begin

text \<open>
  \<open>ListWorkers\<close> of \<open>workers/workers.go\<close>: \<open>listWorkers\<close> under the mutex of the list, and
  the page of its result.
\<close>

section \<open>ListWorkers\<close>

definition ListWorkers :: "(list_elem \<Rightarrow> bool) option \<Rightarrow> SortInfo option \<Rightarrow> WorkersPaginator option
    \<Rightarrow> (error + (WorkerInfo list \<times> ListInfo)) op" where
  "ListWorkers filt si paginator =
     (let p = (case paginator of None \<Rightarrow> \<lparr>wpID = '''', wpDirection = DirectionForward, wpLimit = MaxPageLimit\<rparr> | Some p \<Rightarrow> p);
          limit = page_limit (wpLimit p) in
      bnd (critical WorkersMutex (bnd get_workers (\<lambda>m.
             if wpID p \<noteq> '''' \<and> m (wpID p) = None then ret (Inl (NotFoundError ''worker''))
             else bnd (listWorkers filt si (wpID p) False) (\<lambda>r. case r of
                 Inl err \<Rightarrow> ret (Inl err)
               | Inr res \<Rightarrow> ret (Inr (m (wpID p), res)))))) (\<lambda>m. case m of
        Inl err \<Rightarrow> ret (Inl err)
      | Inr (pagWorker, res) \<Rightarrow>
          (case paginate WUUID (wpID p) (wpID p \<noteq> '''') (wpDirection p) limit
                  (case filt of None \<Rightarrow> True | Some f \<Rightarrow> f (WorkerElem (map_option info pagWorker))) res of
             None \<Rightarrow> panic ''slice bounds out of range''
           | Some page \<Rightarrow> ret (Inr page))))"

section \<open>What a page holds\<close>

definition accepts_worker :: "(list_elem \<Rightarrow> bool) option \<Rightarrow> WorkerInfo \<Rightarrow> bool" where
  "accepts_worker filt w = (case filt of None \<Rightarrow> True | Some f \<Rightarrow> f (WorkerElem (Some w)))"

definition all_workers :: "(WorkerUUID \<rightharpoonup> mapWorker) \<Rightarrow> WorkerInfo list" where
  "all_workers m = map (\<lambda>u. info (the (m u))) (sorted_list_of_set (dom m))"

definition rest_of_workers :: "wsort_item \<Rightarrow> SortOrder \<Rightarrow> ListDirection \<Rightarrow> WorkerUUID \<Rightarrow> (WorkerInfo \<Rightarrow> bool)
    \<Rightarrow> (WorkerUUID \<rightharpoonup> mapWorker) \<Rightarrow> WorkerInfo list" where
  "rest_of_workers item order direction pid p m =
     filter (\<lambda>w. p w \<and> (pid \<noteq> '''' \<longrightarrow> WUUID w \<noteq> pid \<and>
        (if direction = DirectionForward then w_Less item order (info (the (m pid))) w
         else w_Less item order w (info (the (m pid))))))
       (go_sort (w_Less item order) (all_workers m))"

lemma all_workers:
  assumes "finite (dom m)" and "\<forall>u w. m u = Some w \<longrightarrow> WUUID (info w) = u"
  shows "distinct (map WUUID (all_workers m))" and "set (all_workers m) = info ` ran m"
    and "length (all_workers m) = card (dom m)"
    and "length (filter p (all_workers m)) = card {u. \<exists>w. m u = Some w \<and> p (info w)}"
proof -
  have "map WUUID (all_workers m) = sorted_list_of_set (dom m)"
    unfolding all_workers_def map_map by (rule map_idI) (use assms in auto)
  then show ids: "distinct (map WUUID (all_workers m))" by simp
  show set: "set (all_workers m) = info ` ran m"
    using assms(1) by (force simp: all_workers_def ran_def image_iff dom_def)
  show "length (all_workers m) = card (dom m)"
    by (simp add: all_workers_def)
  have "length (filter p (all_workers m)) = card (set (map WUUID (filter p (all_workers m))))"
    using distinct_map_filter [OF ids, of p] by (metis distinct_card length_map)
  also have "set (map WUUID (filter p (all_workers m))) = {u. \<exists>w. m u = Some w \<and> p (info w)}"
    using set assms(2) by (force simp: ran_def)
  finally show "length (filter p (all_workers m)) = card {u. \<exists>w. m u = Some w \<and> p (info w)}" .
qed

lemma rest_of_workers_page_rest:
  assumes "finite (dom m)" and "\<forall>u w. m u = Some w \<longrightarrow> WUUID (info w) = u" and "pid \<noteq> '''' \<Longrightarrow> m pid = Some b"
  shows "ws.page_rest item order direction (if pid \<noteq> '''' then Some pid else None) p (all_workers m)
    = rest_of_workers item order direction pid p m"
proof (cases "pid = ''''")
  case True
  then show ?thesis by (simp add: ws.page_rest_def rest_of_workers_def)
next
  case False
  note all = all_workers [OF assms(1,2)]
  have b: "info b \<in> set (all_workers m)" "WUUID (info b) = pid"
    using all(2) assms(2,3) False by (auto simp: ran_def)
  have "c = info b" if "c \<in> set (all_workers m)" "WUUID c = pid" for c
    using that assms(3) [OF False] all(2) assms(2) by (auto simp: ran_def)
  then have "(\<exists>c \<in> set (all_workers m). WUUID c = pid \<and> ws.beyond item order direction c x)
      \<longleftrightarrow> ws.beyond item order direction (info b) x" for x
    using b by metis
  then show ?thesis
    using False assms(3) b(2)
    by (simp add: ws.page_rest_def rest_of_workers_def ws.beyond_def ws.after_def ws.before_def)
qed

text \<open>A worker registered with an empty UUID would be taken for the border of every listing.\<close>

lemma wp_ListWorkers:
  assumes ids: "\<forall>u w. workers (wl s) u = Some w \<longrightarrow> WUUID (info w) = u" and fin: "finite (dom (workers (wl s)))"
    and small: "card (dom (workers (wl s))) < 2 ^ 64" and empty: "workers (wl s) '''' = None"
    and free: "WorkersMutex \<notin> held s" and si: "w_newSorter si = Inr (item, order)"
    and pid: "wpID p \<noteq> '''' \<Longrightarrow> workers (wl s) (wpID p) \<noteq> None"
    and Q: "\<And>page info. page = page_from (wpDirection p) (unat (page_limit (wpLimit p)))
               (rest_of_workers item order (wpDirection p) (wpID p) (accepts_worker filt) (workers (wl s))) \<Longrightarrow>
       unat (RemainingItems info) = length (rest_of_workers item order (wpDirection p) (wpID p) (accepts_worker filt) (workers (wl s)))
         - length page \<Longrightarrow>
       unat (TotalItems info) = card {u. \<exists>w. workers (wl s) u = Some w \<and> accepts_worker filt (mapWorker.info w)} \<Longrightarrow>
       Q (Inr (page, info)) s"
  shows "wpg b (ListWorkers filt si (Some p)) Q s"
proof -
  let ?m = "workers (wl s)" and ?given = "wpID p \<noteq> ''''"
  let ?matches = "case filt of None \<Rightarrow> True | Some f \<Rightarrow> f (WorkerElem (map_option info (?m (wpID p))))"
  note all = all_workers [OF fin ids]
  obtain br where br: "?given \<Longrightarrow> ?m (wpID p) = Some br" using pid by blast
  have border: "info br \<in> set (all_workers ?m) \<and> WUUID (info br) = wpID p \<and> (?matches \<longleftrightarrow> accepts_worker filt (info br))" if ?given
    using br [OF that] all(2) ids by (auto simp: ran_def accepts_worker_def split: option.split)
  have none: "\<forall>x \<in> set (all_workers ?m). WUUID x \<noteq> wpID p" if "\<not> ?given"
    using that all(2) ids empty by (force simp: ran_def)
  let ?rest = "rest_of_workers item order (wpDirection p) (wpID p) (accepts_worker filt) ?m"
  let ?res = "go_sort (w_Less item order) (filter (\<lambda>w. accepts_worker filt w \<or> WUUID w = wpID p) (all_workers ?m))"
  have rest: "ws.page_rest item order (wpDirection p) (if ?given then Some (wpID p) else None) (accepts_worker filt) (all_workers ?m) = ?rest"
    by (rule rest_of_workers_page_rest [OF fin ids br])
  have "\<exists>info. paginate WUUID (wpID p) ?given (wpDirection p) (page_limit (wpLimit p)) ?matches ?res
      = Some (page_from (wpDirection p) (unat (page_limit (wpLimit p))) ?rest, info)
    \<and> unat (RemainingItems info) = length ?rest - length (page_from (wpDirection p) (unat (page_limit (wpLimit p))) ?rest)
    \<and> unat (TotalItems info) = length (filter (accepts_worker filt) (all_workers ?m))"
    unfolding rest [symmetric]
  proof (rule ws.paginate_spec [OF _ all(1)])
    show "length (all_workers ?m) < 2 ^ 64" using small all(3) by simp
  qed (use border none in blast)+
  then obtain info where "paginate WUUID (wpID p) ?given (wpDirection p) (page_limit (wpLimit p)) ?matches ?res
      = Some (page_from (wpDirection p) (unat (page_limit (wpLimit p))) ?rest, info)"
    and "unat (RemainingItems info) = length ?rest - length (page_from (wpDirection p) (unat (page_limit (wpLimit p))) ?rest)"
    and "unat (TotalItems info) = card {u. \<exists>w. ?m u = Some w \<and> accepts_worker filt (mapWorker.info w)}"
    unfolding all(4) by blast
  moreover have "(case filt of None \<Rightarrow> True | Some f \<Rightarrow> f (WorkerElem (Some w)) \<or> WUUID w = pid) \<longleftrightarrow>
      accepts_worker filt w \<or> WUUID w = pid" for w pid
    by (simp add: accepts_worker_def split: option.split)
  ultimately show ?thesis
    using Q [OF refl, of info] si free pid
    by (auto simp: ListWorkers_def listWorkers_def all_workers_def [symmetric] wp_simps Let_def)
qed

end
