(* ===== verification/MatchContract.thy ===== *)
theory MatchContract
  imports Matchers
begin

text \<open>
  What the matcher of valid requests needs of the managers it calls, as a locale, and what
  it then achieves: both of its loops end, and afterwards no queued request is pending,
  that is, ready and matched by a worker that could be taken.  \<open>idle\<close> holds between two
  iterations, \<open>iter xs\<close> during one that has still to visit \<open>xs\<close>, \<open>ended\<close> when it has
  visited everything, and \<open>stopped\<close> after an assignment ended it early; \<open>current\<close> holds
  of the readings of the clock.
\<close>

section \<open>The contract of the managers\<close>

locale matching =
  fixes R :: "'s RequestsManager" and W :: "'s WorkersManager" and J :: "'s JobsManager"
    and time_now :: "('s, time) prog"
    and b :: bool
    and idle :: "'s \<Rightarrow> bool"
    and iter :: "ReqID list \<Rightarrow> 's \<Rightarrow> bool"
    and ended :: "'s \<Rightarrow> bool"
    and stopped :: "'s \<Rightarrow> bool"
    and queued :: "'s \<Rightarrow> ReqID list"
    and pending :: "'s \<Rightarrow> time \<Rightarrow> ReqID \<Rightarrow> bool"
    and current :: "time \<Rightarrow> bool"
  assumes init_law: "idle s \<Longrightarrow>
          wpg b (rmInitIteration R) (\<lambda>e t. e = None \<and> iter (queued s) t \<and> queued t = queued s) s"
    and now_law: "iter xs s \<Longrightarrow> wpg b time_now (\<lambda>now t. iter xs t \<and> queued t = queued s \<and> current now) s"
    and next_law: "iter (x # xs) s \<Longrightarrow>
          wpg b (rmNext R) (\<lambda>r t. r = (x, True) \<and> iter xs t \<and> queued t = queued s
            \<and> (\<forall>now y. pending t now y \<longrightarrow> pending s now y)) s"
    and end_law: "iter [] s \<Longrightarrow>
          wpg b (rmNext R) (\<lambda>r t. r = (0, False) \<and> ended t \<and> queued t = queued s
            \<and> (\<forall>now y. pending t now y \<longrightarrow> pending s now y)) s"
    and ready_law: "iter xs s \<Longrightarrow> wpg b (rmVerifyIfReady R x now) (\<lambda>r t. t = s \<and>
            (r \<longrightarrow> wpg b (rmGet R x) (\<lambda>q t. t = s \<and> (\<exists>req. q = Inr req \<and>
               wpg b (matchWorkers R W J req) (\<lambda>m t.
                 if m then stopped t \<and> length (queued t) < length (queued s)
                 else iter xs t \<and> queued t = queued s \<and> \<not> pending t now x
                   \<and> (\<forall>y. pending t now y \<longrightarrow> pending s now y)) s)) s)
            \<and> (\<not> r \<longrightarrow> \<not> pending s now x)) s"
    and stop_law: "ended s \<or> stopped s \<Longrightarrow>
          wpg b (rmTerminateIteration R) (\<lambda>_ t. idle t \<and> queued t = queued s
            \<and> (\<forall>now y. pending t now y \<longrightarrow> pending s now y)) s"
    and pending_queued: "idle s \<Longrightarrow> pending s now x \<Longrightarrow> x \<in> set (queued s)"
begin

text \<open>
  Visiting the rest of the queue: either a request got a worker, and the queue is shorter,
  or none of the rest is pending any more.
\<close>

lemma visit_spec:
  "iter xs s \<Longrightarrow> length xs < fuel \<Longrightarrow>
   wpg b (visit R W J now fuel) (\<lambda>again t.
     if again then stopped t \<and> length (queued t) < length (queued s)
     else ended t \<and> queued t = queued s \<and> (\<forall>y \<in> set xs. \<not> pending t now y)
       \<and> (\<forall>y. pending t now y \<longrightarrow> pending s now y)) s"
proof (induction fuel arbitrary: xs s)
  case (Suc fuel)
  show ?case
  proof (cases xs)
    case Nil
    show ?thesis
      unfolding visit.simps wp_bnd
      by (rule wp_mono, rule end_law) (use Suc.prems Nil in \<open>auto simp: wp_simps\<close>)
  next
    case (Cons x ys)
    let ?Q = "\<lambda>again t. if again then stopped t \<and> length (queued t) < length (queued s)
     else ended t \<and> queued t = queued s \<and> (\<forall>y \<in> set xs. \<not> pending t now y)
       \<and> (\<forall>y. pending t now y \<longrightarrow> pending s now y)"
    have step: "wpg b (visit R W J now fuel) ?Q u"
      if u: "iter ys u" "queued u = queued s" "\<not> pending u now x" "\<forall>y. pending u now y \<longrightarrow> pending s now y" for u
    proof (rule wp_mono [OF Suc.IH])
      show "iter ys u" by fact
      show "length ys < fuel" using Suc.prems Cons by simp
    qed (use u Cons in \<open>auto split: if_splits\<close>)
    have "wpg b (rmVerifyIfReady R x now) (\<lambda>ready.
       wpg b (if \<not> ready then visit R W J now fuel
       else bnd (rmGet R x) (\<lambda>r. case r of
           Inl err \<Rightarrow> visit R W J now fuel
         | Inr req \<Rightarrow> bnd (matchWorkers R W J req) (\<lambda>matched.
             if matched then ret True else visit R W J now fuel))) ?Q) t"
      if t: "iter ys t" "queued t = queued s" "\<forall>now y. pending t now y \<longrightarrow> pending s now y" for t
    proof (rule wp_mono [OF ready_law [OF t(1)]], elim conjE)
      fix ready u
      assume u: "u = t" and no: "\<not> ready \<longrightarrow> \<not> pending t now x"
        and yes: "ready \<longrightarrow> wpg b (rmGet R x) (\<lambda>q u. u = t \<and> (\<exists>req. q = Inr req \<and>
               wpg b (matchWorkers R W J req) (\<lambda>m u.
                 if m then stopped u \<and> length (queued u) < length (queued t)
                 else iter ys u \<and> queued u = queued t \<and> \<not> pending u now x
                   \<and> (\<forall>y. pending u now y \<longrightarrow> pending t now y)) t)) t"
      show "wpg b (if \<not> ready then visit R W J now fuel
       else bnd (rmGet R x) (\<lambda>r. case r of
           Inl err \<Rightarrow> visit R W J now fuel
         | Inr req \<Rightarrow> bnd (matchWorkers R W J req) (\<lambda>matched.
             if matched then ret True else visit R W J now fuel))) ?Q u"
      proof (cases ready)
        case False
        with no step [OF t(1,2)] t(3) u show ?thesis by auto
      next
        case True
        have "wpg b (rmGet R x) (\<lambda>q. wpg b (case q of
           Inl err \<Rightarrow> visit R W J now fuel
         | Inr req \<Rightarrow> bnd (matchWorkers R W J req) (\<lambda>matched.
             if matched then ret True else visit R W J now fuel)) ?Q) t"
        proof (rule wp_mono [OF yes [rule_format, OF True]], elim conjE exE)
          fix q v req
          assume "v = t" and "q = Inr req"
            and m: "wpg b (matchWorkers R W J req) (\<lambda>m u.
                 if m then stopped u \<and> length (queued u) < length (queued t)
                 else iter ys u \<and> queued u = queued t \<and> \<not> pending u now x
                   \<and> (\<forall>y. pending u now y \<longrightarrow> pending t now y)) t"
          have "wpg b (matchWorkers R W J req) (\<lambda>matched. wpg b (if matched then ret True
              else visit R W J now fuel) ?Q) t"
            by (rule wp_mono [OF m]) (use t step in \<open>auto simp: wp_ret split: if_splits\<close>)
          then show "wpg b (case q of
           Inl err \<Rightarrow> visit R W J now fuel
         | Inr req \<Rightarrow> bnd (matchWorkers R W J req) (\<lambda>matched.
             if matched then ret True else visit R W J now fuel)) ?Q v"
            by (simp add: wp_bnd \<open>v = t\<close> \<open>q = Inr req\<close>)
        qed
        with True u show ?thesis by (simp add: wp_bnd)
      qed
    qed
    then have "wpg b (rmNext R) (\<lambda>(rid, rok). wpg b (if \<not> rok then ret False
     else bnd (rmVerifyIfReady R rid now) (\<lambda>ready.
       if \<not> ready then visit R W J now fuel
       else bnd (rmGet R rid) (\<lambda>r. case r of
           Inl err \<Rightarrow> visit R W J now fuel
         | Inr req \<Rightarrow> bnd (matchWorkers R W J req) (\<lambda>matched.
             if matched then ret True else visit R W J now fuel)))) ?Q) s"
      by (intro wp_mono [OF next_law [OF Suc.prems(1) [unfolded Cons]]])
         (auto simp: wp_bnd)
    then show ?thesis by (simp add: wp_bnd case_prod_unfold)
  qed
qed simp

lemma iterateRequests_spec:
  assumes s: "idle s" and fuel: "length (queued s) < fuel"
  shows "wpg b (iterateRequests R W J time_now fuel) (\<lambda>again t. idle t \<and>
     (if again then length (queued t) < length (queued s)
      else queued t = queued s \<and> (\<exists>now. current now \<and> (\<forall>x. \<not> pending t now x)))) s"
proof -
  let ?Q = "\<lambda>again t. idle t \<and> (if again then length (queued t) < length (queued s)
      else queued t = queued s \<and> (\<exists>now. current now \<and> (\<forall>x. \<not> pending t now x)))"
  have last: "wpg b (thn (rmTerminateIteration R) (ret again)) ?Q v"
    if now: "current now" and v: "if again then stopped v \<and> length (queued v) < length (queued u)
     else ended v \<and> queued v = queued u \<and> (\<forall>y \<in> set (queued s). \<not> pending v now y)
       \<and> (\<forall>y. pending v now y \<longrightarrow> pending u now y)" "queued u = queued s" for again u v now
    unfolding wp_thn wp_ret
  proof (rule wp_mono [OF stop_law], goal_cases)
    case 1
    with v show ?case by (auto split: if_splits)
  next
    case (2 a t)
    then have "\<not> pending t now x" if "\<not> again" for x
      using v that pending_queued [of t now x] by auto
    with 2 v now show ?case by auto
  qed
  have main: "wpg b (bnd time_now (\<lambda>now. bnd (visit R W J now fuel) (\<lambda>again.
      thn (rmTerminateIteration R) (ret again)))) ?Q t"
    if t: "iter (queued s) t" "queued t = queued s" for t
    unfolding wp_bnd
  proof (rule wp_mono [OF now_law [OF t(1)]], elim conjE)
    fix now u
    assume u: "iter (queued s) u" "queued u = queued t" and now: "current now"
    show "wpg b (visit R W J now fuel) (\<lambda>again. wpg b (thn (rmTerminateIteration R) (ret again)) ?Q) u"
      by (rule wp_mono [OF visit_spec [OF u(1) fuel]], rule last [where u = u and now = now]) (use u t now in auto)
  qed
  show ?thesis
    unfolding iterateRequests_def wp_bnd [of _ "rmInitIteration R"]
    by (rule wp_mono [OF init_law [OF s]]) (use main in auto)
qed

theorem valid_notify_spec:
  "idle s \<Longrightarrow> length (queued s) < fuel \<Longrightarrow> length (queued s) < turns \<Longrightarrow>
   wpg b (valid_notify R W J time_now fuel turns) (\<lambda>_ t. idle t \<and>
     length (queued t) \<le> length (queued s) \<and> (\<exists>now. current now \<and> (\<forall>x. \<not> pending t now x))) s"
proof (induction turns arbitrary: s)
  case (Suc turns)
  show ?case
    unfolding valid_notify.simps wp_bnd
  proof (rule wp_mono [OF iterateRequests_spec [OF Suc.prems(1,2)]])
    fix again t
    assume t: "idle t \<and> (if again then length (queued t) < length (queued s)
      else queued t = queued s \<and> (\<exists>now. current now \<and> (\<forall>x. \<not> pending t now x)))"
    show "wpg b (if again then valid_notify R W J time_now fuel turns else ret ()) (\<lambda>_ t. idle t \<and>
     length (queued t) \<le> length (queued s) \<and> (\<exists>now. current now \<and> (\<forall>x. \<not> pending t now x))) t"
    proof (cases again)
      case True
      with t Suc.prems have "idle t" "length (queued t) < fuel" "length (queued t) < turns"
        by auto
      from wp_mono [OF Suc.IH [OF this]] True t show ?thesis
        by (auto elim!: wp_mono)
    next
      case False
      with t show ?thesis by (auto simp: wp_ret)
    qed
  qed
qed simp

end

end
