(* ===== verification/Dispatch.thy ===== *)
theory Dispatch
  imports Assignment MatchContract
begin

text \<open>
  The managers of the server meet the contract of the matcher of valid requests, and a
  fired timer of each of the three collections keeps the invariant.
\<close>

section \<open>One attempt to assign a worker\<close>

text \<open>
  The states of an iteration.  \<open>E\<close> and \<open>L\<close> are what is relaxed and held around the call
  of the matcher.  In the variant \<open>b = False\<close>, which excludes blocking, every tunnel can be
  created and the channels of the idle workers have room.
\<close>

definition lock_free :: "slack \<Rightarrow> lock_id set \<Rightarrow> bool" where
  "lock_free E L \<longleftrightarrow> L \<inter> {ReqsMutex, QueueMutex, JobsMutex, WorkersMutex, TimesMutex TimeoutTimes} = {}
     \<and> TimeoutTimes \<notin> unarmed E
     \<and> (TimesMutex ValidAfterTimes \<notin> L \<longrightarrow> ValidAfterTimes \<notin> unarmed E)"

definition env_ok :: "bool \<Rightarrow> server \<Rightarrow> bool" where
  "env_ok b s \<longleftrightarrow> b \<or> ((\<forall>n. ports s n \<noteq> None)
     \<and> (\<forall>u w. workers (wl s) u = Some w \<longrightarrow> WState (info w) = IDLE \<longrightarrow> room s w))"

definition srv_idle :: "bool \<Rightarrow> slack \<Rightarrow> lock_id set \<Rightarrow> server \<Rightarrow> bool" where
  "srv_idle b E L s \<longleftrightarrow> okg E L s \<and> lock_free E L \<and> env_ok b s"

definition srv_iter :: "bool \<Rightarrow> slack \<Rightarrow> lock_id set \<Rightarrow> ReqID list \<Rightarrow> server \<Rightarrow> bool" where
  "srv_iter b E L xs s \<longleftrightarrow> inv (unarmed E) (overdue E) (expired E) {} s
     \<and> held s = L \<union> {ReqsMutex, QueueMutex} \<and> iterating (rc s) \<and> (\<forall>n. reading E (clock s n))
     \<and> it_ok (rqueue (rc s)) \<and> remaining (rqueue (rc s)) = xs \<and> lock_free E L \<and> env_ok b s"

definition srv_stopped :: "bool \<Rightarrow> slack \<Rightarrow> lock_id set \<Rightarrow> server \<Rightarrow> bool" where
  "srv_stopped b E L s \<longleftrightarrow> okg E (insert ReqsMutex L) s \<and> lock_free E L \<and> env_ok b s"

definition srv_queued :: "server \<Rightarrow> ReqID list" where
  "srv_queued s = contents (rqueue (rc s))"

text \<open>A request is pending when it is ready and there is a worker for it.\<close>

definition has_worker :: "server \<Rightarrow> ReqInfo \<Rightarrow> bool" where
  "has_worker s r \<longleftrightarrow> (\<exists>u w. workers (wl s) u = Some w \<and> eligible (uGroups (Owner r)) (RCaps r) w)"

definition pending_at :: "server \<Rightarrow> time \<Rightarrow> ReqID \<Rightarrow> bool" where
  "pending_at s now i \<longleftrightarrow> (\<exists>r. requests (rc s) i = Some r \<and> is_ready r now \<and> has_worker s r)"

lemma srv_iterD:
  assumes "srv_iter b E L xs s"
  shows "inv (unarmed E) (overdue E) (expired E) {} s" "held s = L \<union> {ReqsMutex, QueueMutex}"
    "iterating (rc s)" "reading E (clock s n)" "it_ok (rqueue (rc s))" "remaining (rqueue (rc s)) = xs"
    "lock_free E L" "env_ok b s" "q_inv (rqueue (rc s))"
  using assms invD(2) by (auto simp: srv_iter_def queue_ok_def)

lemma length_contents_remove:
  assumes "q_inv q" and "q_inv q'" and "pq.waiting q i p"
    and "\<forall>y k. pq.waiting q' y k \<longleftrightarrow> pq.waiting q y k \<and> y \<noteq> i"
  shows "length (contents q') < length (contents q)"
proof -
  have sub: "set (contents q') = set (contents q) - {i}" and i: "i \<in> set (contents q)"
    using assms by (auto simp: set_contents q_inv_def pq.waiting_def)
  have "card (set (contents q')) < card (set (contents q))"
    unfolding sub by (rule psubset_card_mono) (use i in auto)
  then show ?thesis
    by (simp add: distinct_card distinct_contents assms(1,2))
qed

lemma set_timeout_frame:
  assumes "TimesMutex TimeoutTimes \<notin> held s" and "rt_inv (timeoutTimes (rc s))"
  shows "wpg b (set_timeout i) (\<lambda>_ t. rqueue (rc t) = rqueue (rc s) \<and> ports t = ports s
           \<and> wl t = wl s \<and> chans t = chans s) s"
  using assms by (auto simp: set_timeout_def wp_simps intro!: wp_times_insert)

text \<open>\<open>Run\<close> ends the iteration and gives the request its job.\<close>

lemma Run_stops:
  assumes inv: "inv (unarmed E) (overdue E) (expired E) {u} s" and held: "held s = L \<union> {ReqsMutex, QueueMutex}"
    and it: "iterating (rc s)" and rd: "\<And>n. reading E (clock s n)" and free: "lock_free E L"
    and u: "jobs s u = None" "workers (wl s) u = Some w" "WState (info w) = RUN"
    and r: "requests (rc s) i = Some r" "RState r = WAIT"
    and j: "jReq j = i" "tun_id (jTunnel j) = next_tunnel s"
  shows "wpg b (Run i u) (\<lambda>e t. e = None \<and> okg E (insert ReqsMutex L) t
           \<and> length (srv_queued t) < length (srv_queued s) \<and> ports t = ports (job_created u j s)
           \<and> wl t = wl s \<and> chans t = chans s) (job_created u j s)"
proof -
  note parts = invD [OF inv]
  let ?Q = "\<lambda>e t. e = None \<and> okg E (insert ReqsMutex L) t
           \<and> length (srv_queued t) < length (srv_queued s) \<and> ports t = ports (job_created u j s)
           \<and> wl t = wl s \<and> chans t = chans s"
  let ?m = "(requests (rc s))(i \<mapsto> assigned u r)" and ?q = "(rqueue (rc s))\<lparr>next_it := EmptyIterator\<rparr>"
  let ?s = "job_created u j s\<lparr>held := insert ReqsMutex L,
      rc := (rc s)\<lparr>requests := ?m, rqueue := ?q, iterating := False\<rparr>\<rparr>"
  have rr: "ID r = i" using data_okD [OF parts(1) r(1)] by simp
  have qinv: "q_inv (rqueue (rc s))" and wait: "pq.waiting (rqueue (rc s)) i (Prio r)"
    using parts(2) r by (auto simp: queue_ok_def)
  have wait': "pq.waiting ?q y p \<longleftrightarrow> pq.waiting (rqueue (rc s)) y p" for y p
    by (simp add: pq.waiting_def)
  have L: "QueueMutex \<notin> L" "TimesMutex TimeoutTimes \<notin> L" "TimeoutTimes \<notin> unarmed E"
    using free by (auto simp: lock_free_def)
  have "wpg b (removeRequest r) (\<lambda>_. wpg b (thn (set_timeout i) (ret None)) ?Q) ?s"
  proof (rule wp_removeRequest)
    fix q
    assume q: "q_inv q" and qw: "\<forall>y p. pq.waiting q y p \<longleftrightarrow> pq.waiting (rqueue (rc ?s)) y p \<and> y \<noteq> ID r"
    let ?t = "?s\<lparr>rc := (rc ?s)\<lparr>rqueue := q\<rparr>\<rparr>"
    have qw': "\<forall>y p. pq.waiting q y p \<longleftrightarrow> pq.waiting (rqueue (rc s)) y p \<and> y \<noteq> i"
      using qw rr wait' by simp
    have "inv (unarmed E) (overdue E) (\<lambda>k x. expired E k x \<or> k = i) {} (job_created u j s\<lparr>rc := (rc s)\<lparr>
       requests := ?m, rqueue := q\<rparr>\<rparr>)"
      by (rule okg_assigned [OF inv u r q qw' j])
    then have "inv (unarmed E) (overdue E) (\<lambda>k x. expired E k x \<or> k = i) {} ?t"
      by (simp add: inv_def times_ok_def sched_ok_def job_created_def)
    then have t: "okg (any_timeout i E) (insert ReqsMutex L) ?t"
      using rd by (simp add: okg_def any_timeout_def job_created_def)
    have "wpg b (set_timeout i) (\<lambda>_. okg E (insert ReqsMutex L)) ?t"
      by (rule set_timeout_any [OF t]) (use L in \<open>auto simp: assigned_def\<close>)
    moreover have "wpg b (set_timeout i) (\<lambda>_ v. rqueue (rc v) = rqueue (rc ?t) \<and> ports v = ports ?t
           \<and> wl v = wl ?t \<and> chans v = chans ?t) ?t"
      by (rule set_timeout_frame)
         (use L okg_times [OF t, of TimeoutTimes] in \<open>simp_all add: any_timeout_def\<close>)
    ultimately have "wpg b (set_timeout i) (\<lambda>_. ?Q None) ?t"
    proof (rule wp_mono [OF wp_conj])
      fix a v
      assume "okg E (insert ReqsMutex L) v \<and> rqueue (rc v) = rqueue (rc ?t) \<and> ports v = ports ?t
           \<and> wl v = wl ?t \<and> chans v = chans ?t"
      then show "?Q None v"
        using length_contents_remove [OF qinv q wait qw'] by (simp add: srv_queued_def job_created_def)
    qed
    then show "wpg b (thn (set_timeout i) (ret None)) ?Q ?t"
      by (simp add: wp_simps)
  qed (use L rr wait wait' qinv in \<open>simp_all add: job_created_def\<close>)
  moreover have "insert ReqsMutex (insert QueueMutex L) - {QueueMutex} = insert ReqsMutex L"
    using L by auto
  ultimately show ?thesis
    using r it held
    by (simp add: Run_def end_iteration_def releaseIterator_def q_releaseIterator_def wp_simps
        job_created_def assigned_def)
qed

lemma matchWorkers_law:
  assumes it: "srv_iter b E L xs s" and r: "requests (rc s) x = Some r" "RState r = WAIT"
  shows "wpg b (matchWorkers RM WM JM r) (\<lambda>m t.
     if m then srv_stopped b E L t \<and> length (srv_queued t) < length (srv_queued s)
     else srv_iter b E L xs t \<and> srv_queued t = srv_queued s
       \<and> \<not> (\<not> b \<and> pending_at t now x)
       \<and> (\<forall>y. \<not> b \<and> pending_at t now y \<longrightarrow> \<not> b \<and> pending_at s now y)) s"
proof -
  note inv = srv_iterD(1) [OF it] and parts = invD [OF srv_iterD(1) [OF it]]
  note iter = srv_iterD [OF it]
  have L: "WorkersMutex \<notin> held s" "JobsMutex \<notin> held s" "TimesMutex ValidAfterTimes \<in> held s \<longleftrightarrow> TimesMutex ValidAfterTimes \<in> L"
    using iter(2,7) by (auto simp: lock_free_def)
  have id: "ID r = x" using data_okD [OF parts(1) r(1)] by simp
  let ?Q = "\<lambda>m t. if m then srv_stopped b E L t \<and> length (srv_queued t) < length (srv_queued s)
     else srv_iter b E L xs t \<and> srv_queued t = srv_queued s
       \<and> \<not> (\<not> b \<and> pending_at t now x)
       \<and> (\<forall>y. \<not> b \<and> pending_at t now y \<longrightarrow> \<not> b \<and> pending_at s now y)"
  show ?thesis
    unfolding matchWorkers_def wp_bnd
  proof (simp only: WM_def WorkersManager.simps, rule wp_TakeBestMatchingWorker [OF parts(7,8) L(1)], goal_cases)
    case 1
    then have "\<not> has_worker s r" by (auto simp: has_worker_def)
    with it r show ?case by (auto simp: wp_ret pending_at_def)
  next
    case (2 u w)
    with iter(8) show ?case by (auto simp: env_ok_def eligible_def)
  next
    case (3 u w)
    let ?s = "sent u w RUN s"
    have idle: "WState (info w) = IDLE" using 3 by (simp add: eligible_def)
    then have nojob: "jobs s u = None" using inv_run [OF inv, of u] 3(1) by auto
    obtain k where k: "wkey w = Some k"
      using wk_okD(2) [OF parts(7) 3(1)] idle by (auto simp: has_key_def)
    have inv1: "inv (unarmed E) (overdue E) (expired E) {u} ?s"
      by (rule inv_sent [OF inv 3(1)]) (use k in \<open>auto simp: has_key_def\<close>)
    let ?w = "w\<lparr>info := (info w)\<lparr>WState := RUN\<rparr>\<rparr>"
    have w1: "workers (wl ?s) u = Some ?w" by (simp add: sent_def)
    have env: "env_ok b t" if "ports t = (\<lambda>n. ports s (Suc n)) \<or> ports t = ports s" "wl t = wl ?s" "chans t = chans ?s" for t
    proof -
      have "room t x" if "workers (wl t) v = Some x" "WState (info x) = IDLE" "\<not> b" for v x
      proof -
        have v: "v \<noteq> u" "workers (wl s) v = Some x"
          using that \<open>wl t = wl ?s\<close> by (auto simp: sent_def split: if_splits)
        then have "backgroundOperation x \<noteq> backgroundOperation w"
          using wk_ok_inj [OF parts(7) v(2) 3(1)] by auto
        then show ?thesis
          using iter(8) v that \<open>chans t = chans ?s\<close> by (auto simp: env_ok_def room_def sent_def)
      qed
      moreover have "ports t n \<noteq> None" if "\<not> b" for n
        using that \<open>ports t = (\<lambda>n. ports s (Suc n)) \<or> ports t = ports s\<close> iter(8) by (auto simp: env_ok_def)
      ultimately show ?thesis unfolding env_ok_def by blast
    qed
    show ?case
      unfolding sum.case wp_bnd JM_def JobsManager.simps
    proof (rule wp_Create [where w = ?w and k = k], goal_cases)
      case 6
      let ?t = "?s\<lparr>ports := \<lambda>n. ports ?s (Suc n)\<rparr>"
      have "ports s 0 = None" using 6 by (simp add: sent_def)
      then have b: b using iter(8) unfolding env_ok_def by blast
      have "wpg b (PrepareWorker u False) (\<lambda>e t. e = None \<and> inv (unarmed E) (overdue E) (expired E) {} t
           \<and> held t = held ?t \<and> iterating (rc t) = iterating (rc ?t) \<and> range (clock t) \<subseteq> range (clock ?t)
           \<and> requests (rc t) = requests (rc ?t) \<and> rqueue (rc t) = rqueue (rc ?t)) ?t"
        by (rule PrepareWorker_inv [where w = ?w])
           (use inv1 nojob b L iter(7) in \<open>auto simp: sent_def lock_free_def\<close>)
      then have "wpg b (PrepareWorker u False) (\<lambda>_ t. ?Q False t) ?t"
      proof (rule wp_mono)
        fix e t
        assume "e = None \<and> inv (unarmed E) (overdue E) (expired E) {} t
           \<and> held t = held ?t \<and> iterating (rc t) = iterating (rc ?t) \<and> range (clock t) \<subseteq> range (clock ?t)
           \<and> requests (rc t) = requests (rc ?t) \<and> rqueue (rc t) = rqueue (rc ?t)"
        then show "?Q False t"
          using iter b range_subset_all [of "clock t" "clock s" "reading E"]
          by (auto simp: srv_iter_def sent_def srv_queued_def env_ok_def)
      qed
      then show ?case by (simp add: wp_simps)
    next
      case (7 p)
      let ?j = "new_job (ID r) ?w k p (next_tunnel ?s)"
      have "wpg b (Run x u) (\<lambda>e t. e = None \<and> okg E (insert ReqsMutex L) t
           \<and> length (srv_queued t) < length (srv_queued ?s) \<and> ports t = ports (job_created u ?j ?s)
           \<and> wl t = wl ?s \<and> chans t = chans ?s) (job_created u ?j ?s)"
        by (rule Run_stops [OF inv1])
           (use iter r nojob id in \<open>auto simp: sent_def new_job_def\<close>)
      then have "wpg b (Run x u) (\<lambda>e. wpg b (case e of Some e \<Rightarrow> thn (PrepareWorker u False) (ret False)
          | None \<Rightarrow> ret True) ?Q) (job_created u ?j ?s)"
        by (rule wp_mono)
           (use iter env in \<open>auto simp: wp_ret srv_stopped_def srv_queued_def sent_def job_created_def\<close>)
      then show ?case
        by (simp add: RM_def id wp_bnd)
    qed (use L k nojob w1 in \<open>simp_all add: sent_def\<close>)
  qed
qed

definition srv_ended :: "bool \<Rightarrow> slack \<Rightarrow> lock_id set \<Rightarrow> server \<Rightarrow> bool" where
  "srv_ended b E L s \<longleftrightarrow> inv (unarmed E) (overdue E) (expired E) {} s
     \<and> held s = L \<union> {ReqsMutex, QueueMutex} \<and> iterating (rc s) \<and> (\<forall>n. reading E (clock s n))
     \<and> lock_free E L \<and> env_ok b s"

lemma inv_queue:
  assumes "inv A PD PT X s" and "q = (rqueue (rc s))\<lparr>next_it := it\<rparr>"
  shows "inv A PD PT X (s\<lparr>rc := (rc s)\<lparr>rqueue := q\<rparr>\<rparr>)"
  using assms by (simp add: inv_def queue_ok_def times_ok_def sched_ok_def pq.waiting_def)

lemma env_ok_cong:
  "ports t = ports s \<Longrightarrow> wl t = wl s \<Longrightarrow> chans t = chans s \<Longrightarrow> env_ok b t = env_ok b s"
  by (simp add: env_ok_def room_def)

lemma pending_cong:
  "requests (rc t) = requests (rc s) \<Longrightarrow> wl t = wl s \<Longrightarrow> pending_at t now y = pending_at s now y"
  by (simp add: pending_at_def has_worker_def)

lemma InitIteration_law:
  assumes s: "srv_idle b E L s"
  shows "wpg b InitIteration (\<lambda>e t. e = None \<and> srv_iter b E L (srv_queued s) t \<and> srv_queued t = srv_queued s) s"
proof -
  have ok: "okg E L s" and free: "lock_free E L" and env: "env_ok b s"
    using s by (simp_all add: srv_idle_def)
  have L: "ReqsMutex \<notin> L" "QueueMutex \<notin> L" using free by (auto simp: lock_free_def)
  let ?s = "s\<lparr>held := insert QueueMutex (insert ReqsMutex L)\<rparr>"
  have "wpg b q_initIterator (\<lambda>_ q. srv_iter b E L (srv_queued s)
      (?s\<lparr>rc := (rc s)\<lparr>rqueue := q, iterating := True\<rparr>\<rparr>) \<and> contents q = srv_queued s) (rqueue (rc s))"
  proof (rule wp_lift_mono [OF q_initIterator_spec [OF okg_waiting(1) [OF ok]]], elim conjE exE)
    fix q it
    assume q: "q = (rqueue (rc s))\<lparr>next_it := it\<rparr>" "it_ok q" "remaining q = contents (rqueue (rc s))"
    have "inv (unarmed E) (overdue E) (expired E) {} (s\<lparr>rc := (rc s)\<lparr>rqueue := q\<rparr>\<rparr>)"
      by (rule inv_queue [OF okg_inv [OF ok] q(1)])
    then have "inv (unarmed E) (overdue E) (expired E) {} (?s\<lparr>rc := (rc s)\<lparr>rqueue := q, iterating := True\<rparr>\<rparr>)"
      by (simp add: inv_def times_ok_def sched_ok_def)
    moreover have "env_ok b (?s\<lparr>rc := (rc s)\<lparr>rqueue := q, iterating := True\<rparr>\<rparr>)"
      using env by (simp add: env_ok_def room_def)
    ultimately show "srv_iter b E L (srv_queued s) (?s\<lparr>rc := (rc s)\<lparr>rqueue := q, iterating := True\<rparr>\<rparr>)
        \<and> contents q = srv_queued s"
      using ok q free by (auto simp: srv_iter_def srv_queued_def okg_def)
  qed
  with ok L show ?thesis
    by (simp add: InitIteration_def initIterator_def wp_simps okg_def srv_queued_def)
qed

lemma Next_law:
  assumes s: "srv_iter b E L (x # xs) s"
  shows "wpg b Next (\<lambda>r t. r = (x, True) \<and> srv_iter b E L xs t \<and> srv_queued t = srv_queued s
    \<and> (\<forall>now y. pending_at t now y \<longrightarrow> pending_at s now y)) s"
proof -
  note iter = srv_iterD [OF s]
  have "wpg b q_next (\<lambda>r q. r = (x, True) \<and> srv_iter b E L xs (s\<lparr>rc := (rc s)\<lparr>rqueue := q\<rparr>\<rparr>)
      \<and> contents q = srv_queued s) (rqueue (rc s))"
  proof (rule wp_lift_mono [OF q_next_some [OF iter(9,5,6)]], elim conjE exE)
    fix r q it
    assume q: "r = (x, True)" "q = (rqueue (rc s))\<lparr>next_it := it\<rparr>" "it_ok q" "remaining q = xs"
    with iter inv_queue [OF iter(1) q(2)] show "r = (x, True) \<and> srv_iter b E L xs (s\<lparr>rc := (rc s)\<lparr>rqueue := q\<rparr>\<rparr>)
      \<and> contents q = srv_queued s"
      by (auto simp: srv_iter_def srv_queued_def env_ok_def room_def)
  qed
  then have "wpg b q_next (\<lambda>r q. r = (x, True) \<and> srv_iter b E L xs (s\<lparr>rc := (rc s)\<lparr>rqueue := q\<rparr>\<rparr>)
    \<and> srv_queued (s\<lparr>rc := (rc s)\<lparr>rqueue := q\<rparr>\<rparr>) = srv_queued s
    \<and> (\<forall>now y. pending_at (s\<lparr>rc := (rc s)\<lparr>rqueue := q\<rparr>\<rparr>) now y \<longrightarrow> pending_at s now y)) (rqueue (rc s))"
    by (rule wp_mono) (simp_all add: srv_queued_def pending_at_def has_worker_def)
  with iter(3) show ?thesis
    by (simp add: Next_def wp_simps)
qed

lemma Next_end_law:
  assumes s: "srv_iter b E L [] s"
  shows "wpg b Next (\<lambda>r t. r = (0, False) \<and> srv_ended b E L t \<and> srv_queued t = srv_queued s
    \<and> (\<forall>now y. pending_at t now y \<longrightarrow> pending_at s now y)) s"
proof -
  note iter = srv_iterD [OF s]
  have "wpg b q_next (\<lambda>r q. r = (0, False) \<and> srv_ended b E L (s\<lparr>rc := (rc s)\<lparr>rqueue := q\<rparr>\<rparr>)
      \<and> contents q = srv_queued s) (rqueue (rc s))"
  proof (rule wp_lift_mono [OF q_next_end [OF iter(9,5,6)]], elim conjE exE)
    fix r q it
    assume q: "r = (0, False)" "q = (rqueue (rc s))\<lparr>next_it := it\<rparr>"
    with iter inv_queue [OF iter(1) q(2)] show "r = (0, False) \<and> srv_ended b E L (s\<lparr>rc := (rc s)\<lparr>rqueue := q\<rparr>\<rparr>)
      \<and> contents q = srv_queued s"
      by (auto simp: srv_ended_def srv_queued_def env_ok_def room_def)
  qed
  then have "wpg b q_next (\<lambda>r q. r = (0, False) \<and> srv_ended b E L (s\<lparr>rc := (rc s)\<lparr>rqueue := q\<rparr>\<rparr>)
    \<and> srv_queued (s\<lparr>rc := (rc s)\<lparr>rqueue := q\<rparr>\<rparr>) = srv_queued s
    \<and> (\<forall>now y. pending_at (s\<lparr>rc := (rc s)\<lparr>rqueue := q\<rparr>\<rparr>) now y \<longrightarrow> pending_at s now y)) (rqueue (rc s))"
    by (rule wp_mono) (simp_all add: srv_queued_def pending_at_def has_worker_def)
  with iter(3) show ?thesis
    by (simp add: Next_def wp_simps)
qed

lemma TerminateIteration_law:
  assumes s: "srv_ended b E L s \<or> srv_stopped b E L s"
  shows "wpg b TerminateIteration (\<lambda>_ t. srv_idle b E L t \<and> srv_queued t = srv_queued s
    \<and> (\<forall>now y. pending_at t now y \<longrightarrow> pending_at s now y)) s"
  using s
proof
  assume s: "srv_stopped b E L s"
  then have L: "ReqsMutex \<notin> L" by (auto simp: srv_stopped_def lock_free_def)
  with s have "srv_idle b E L (s\<lparr>held := L\<rparr>)"
    by (simp add: srv_stopped_def srv_idle_def okg_def env_ok_def)
  moreover have "held s - {ReqsMutex} = L" "\<not> iterating (rc s)" "ReqsMutex \<in> held s"
    using s L by (auto simp: srv_stopped_def okg_def)
  ultimately show ?thesis
    by (simp add: TerminateIteration_def end_iteration_def wp_simps srv_queued_def pending_at_def has_worker_def)
next
  assume s: "srv_ended b E L s"
  then have L: "ReqsMutex \<notin> L" "QueueMutex \<notin> L" by (auto simp: srv_ended_def lock_free_def)
  let ?q = "(rqueue (rc s))\<lparr>next_it := EmptyIterator\<rparr>"
  have "inv (unarmed E) (overdue E) (expired E) {} (s\<lparr>rc := (rc s)\<lparr>rqueue := ?q\<rparr>\<rparr>)"
    by (rule inv_queue) (use s in \<open>simp_all add: srv_ended_def\<close>)
  then have "inv (unarmed E) (overdue E) (expired E) {}
      (s\<lparr>rc := (rc s)\<lparr>rqueue := ?q, iterating := False\<rparr>, held := L\<rparr>)"
    by (simp add: inv_def times_ok_def sched_ok_def)
  with s have "srv_idle b E L (s\<lparr>rc := (rc s)\<lparr>rqueue := ?q, iterating := False\<rparr>, held := L\<rparr>)"
    by (simp add: srv_idle_def srv_ended_def okg_def env_ok_def room_def inv_def)
  moreover have "held s - {QueueMutex} - {ReqsMutex} = L" "QueueMutex \<in> held s" "ReqsMutex \<in> held s" "iterating (rc s)"
    using s L by (auto simp: srv_ended_def)
  ultimately show ?thesis
    by (simp add: TerminateIteration_def end_iteration_def releaseIterator_def q_releaseIterator_def wp_simps
        srv_queued_def pending_at_def has_worker_def)
qed

lemma ready_law:
  assumes s: "srv_iter b E L xs s"
  shows "wpg b (VerifyIfReady x now) (\<lambda>r t. t = s \<and>
    (r \<longrightarrow> wpg b (Get x) (\<lambda>q t. t = s \<and> (\<exists>req. q = Inr req \<and>
       wpg b (matchWorkers RM WM JM req) (\<lambda>m t.
         if m then srv_stopped b E L t \<and> length (srv_queued t) < length (srv_queued s)
         else srv_iter b E L xs t \<and> srv_queued t = srv_queued s \<and> \<not> (\<not> b \<and> pending_at t now x)
           \<and> (\<forall>y. \<not> b \<and> pending_at t now y \<longrightarrow> \<not> b \<and> pending_at s now y)) s)) s)
    \<and> (\<not> r \<longrightarrow> \<not> (\<not> b \<and> pending_at s now x))) s"
proof (cases "requests (rc s) x")
  case None
  then show ?thesis by (simp add: VerifyIfReady_def wp_simps pending_at_def)
next
  case (Some r)
  show ?thesis
  proof (cases "is_ready r now")
    case True
    then have "RState r = WAIT" by (simp add: is_ready_def)
    from matchWorkers_law [OF s Some this] Some True show ?thesis
      by (simp add: VerifyIfReady_def Get_def wp_simps)
  next
    case False
    with Some show ?thesis by (simp add: VerifyIfReady_def wp_simps pending_at_def)
  qed
qed

lemma pending_in_queue:
  assumes "srv_idle b E L s" and "pending_at s now x"
  shows "x \<in> set (srv_queued s)"
proof -
  have ok: "okg E L s" using assms(1) by (simp add: srv_idle_def)
  obtain r where "requests (rc s) x = Some r" "RState r = WAIT"
    using assms(2) by (auto simp: pending_at_def is_ready_def)
  then have "pq.waiting (rqueue (rc s)) x (Prio r)"
    by (simp add: okg_waiting(2) [OF ok])
  then show ?thesis
    using okg_waiting(1) [OF ok] by (auto simp: srv_queued_def set_contents q_inv_def pq.waiting_def)
qed

lemma RM_methods:
  "rmInitIteration RM = InitIteration" "rmTerminateIteration RM = TerminateIteration"
  "rmNext RM = Next" "rmVerifyIfReady RM = VerifyIfReady" "rmGet RM = Get"
  "rmTimeout RM = Timeout" "rmClose RM = Close" "rmRun RM = Run"
  by (simp_all add: RM_def)

interpretation srv: matching RM WM JM time_Now b "srv_idle b E L" "srv_iter b E L" "srv_ended b E L"
    "srv_stopped b E L" srv_queued "\<lambda>s now x. \<not> b \<and> pending_at s now x" "reading E"
  for b E L
proof
  fix s xs
  assume s: "srv_iter b E L xs s"
  let ?t = "s\<lparr>clock := (\<lambda>i. clock s (Suc i))\<rparr>"
  have "srv_iter b E L xs ?t \<and> srv_queued ?t = srv_queued s \<and> reading E (clock s 0)"
    using s by (auto simp: srv_iter_def srv_queued_def env_ok_def room_def)
  then show "wpg b time_Now (\<lambda>now t. srv_iter b E L xs t \<and> srv_queued t = srv_queued s \<and> reading E now) s"
    by (simp add: wp_simps)
next
  fix s x xs
  assume s: "srv_iter b E L (x # xs) s"
  show "wpg b (rmNext RM) (\<lambda>r t. r = (x, True) \<and> srv_iter b E L xs t \<and> srv_queued t = srv_queued s
      \<and> (\<forall>now y. \<not> b \<and> pending_at t now y \<longrightarrow> \<not> b \<and> pending_at s now y)) s"
    unfolding RM_methods by (rule wp_mono [OF Next_law [OF s]]) auto
next
  fix s
  assume s: "srv_iter b E L [] s"
  show "wpg b (rmNext RM) (\<lambda>r t. r = (0, False) \<and> srv_ended b E L t \<and> srv_queued t = srv_queued s
      \<and> (\<forall>now y. \<not> b \<and> pending_at t now y \<longrightarrow> \<not> b \<and> pending_at s now y)) s"
    unfolding RM_methods by (rule wp_mono [OF Next_end_law [OF s]]) auto
next
  fix s
  assume s: "srv_ended b E L s \<or> srv_stopped b E L s"
  show "wpg b (rmTerminateIteration RM) (\<lambda>_ t. srv_idle b E L t \<and> srv_queued t = srv_queued s
      \<and> (\<forall>now y. \<not> b \<and> pending_at t now y \<longrightarrow> \<not> b \<and> pending_at s now y)) s"
    unfolding RM_methods by (rule wp_mono [OF TerminateIteration_law [OF s]]) auto
next
  fix s now x
  assume "srv_idle b E L s" and "\<not> b \<and> pending_at s now x"
  then show "x \<in> set (srv_queued s)" by (blast intro: pending_in_queue)
qed (use InitIteration_law ready_law in \<open>simp_all add: RM_methods\<close>)

section \<open>The matcher of valid requests and its timer\<close>

lemma valid_notify_okg:
  assumes "okg E L s" and "lock_free E L" and "env_ok b s"
  shows "wpg b (Notify ValidMatcher past) (\<lambda>_ t. okg E L t \<and> env_ok b t
    \<and> (b \<or> (\<exists>now. reading E now \<and> (\<forall>x. \<not> pending_at t now x)))) s"
proof -
  have ok: "srv_idle b E L s" using assms by (simp add: srv_idle_def)
  let ?n = "Suc (qlength (rqueue (rc s)))"
  have "length (srv_queued s) < ?n"
    using okg_waiting(1) [OF assms(1)] by (simp add: srv_queued_def qlength_contents)
  then have "wpg b (valid_notify RM WM JM time_Now ?n ?n) (\<lambda>_ t. srv_idle b E L t \<and>
     length (srv_queued t) \<le> length (srv_queued s) \<and> (\<exists>now. reading E now \<and> (\<forall>x. \<not> (\<not> b \<and> pending_at t now x)))) s"
    using ok by (intro srv.valid_notify_spec)
  then have "wpg b (valid_notify RM WM JM time_Now ?n ?n) (\<lambda>_ t. okg E L t \<and> env_ok b t
    \<and> (b \<or> (\<exists>now. reading E now \<and> (\<forall>x. \<not> pending_at t now x)))) s"
    by (rule wp_mono) (auto simp: srv_idle_def)
  then show ?thesis
    by (simp add: Notify_def wp_simps)
qed

lemma Notify_okg:
  assumes "okg (taken k t past) {TimesMutex k} s"
  shows "safe (Notify (matcher_of k) past) (\<lambda>_. okg (taken k t []) {TimesMutex k}) s"
proof (cases k)
  case ValidAfterTimes
  have "okg (taken k t []) {TimesMutex k} s"
    by (rule okg_weaken [OF assms]) (simp_all add: taken_def ValidAfterTimes)
  moreover have "lock_free (taken k t []) {TimesMutex k}"
    by (simp add: lock_free_def ValidAfterTimes taken_def)
  ultimately have "safe (Notify ValidMatcher past) (\<lambda>_ u. okg (taken k t []) {TimesMutex k} u \<and> env_ok True u
    \<and> (True \<or> (\<exists>now. reading (taken k t []) now \<and> (\<forall>x. \<not> pending_at u now x)))) s"
    by (rule valid_notify_okg) (simp add: env_ok_def)
  then show ?thesis
    unfolding ValidAfterTimes matcher_of.simps by (rule wp_mono) simp
next
  case DeadlineTimes
  with assms deadline_notify_okg [of t past "{TimesMutex k}" s] show ?thesis
    by (simp add: Notify_def)
next
  case TimeoutTimes
  with assms timeout_notify_okg [of t past "{TimesMutex k}" s] show ?thesis
    by (simp add: Notify_def)
qed

lemma process_okg:
  assumes ok: "okg (taken k t []) {} s"
  shows "safe (process k t) (\<lambda>_. okg strict {}) s"
  unfolding process_def
proof (rule okg_critical_slack [OF ok], goal_cases)
  case (3 s)
  have m: "rt_matcher (times_of k (rc u)) = Some (matcher_of k)" if "okg E L u" for E L u
    using invD(3) [OF okg_inv [OF that]] by (simp add: times_ok_def)
  have tail: "safe (thn (Notify (matcher_of k) past) (on_rt k rt_rearm)) (\<lambda>_. okg strict {TimesMutex k}) u"
    if "okg (taken k t past) {TimesMutex k} u" for past u
    unfolding wp_thn by (rule wp_mono [OF Notify_okg [OF that]]) (rule rearm_okg)
  have "safe (on_rt k (rt_take_past t)) (\<lambda>past u. safe (bnd (gets (\<lambda>s. rt_matcher (times_of k (rc s)))) (\<lambda>m.
     thn (case m of None \<Rightarrow> ret () | Some mk \<Rightarrow> Notify mk past)
         (on_rt k rt_rearm))) (\<lambda>_. okg strict {TimesMutex k}) u) s"
  proof (rule wp_mono [OF take_past_okg])
    show "okg (taken k t []) {TimesMutex k} s" using 3 by simp
    fix past u
    assume "okg (taken k t past) {TimesMutex k} u"
    with tail m show "safe (bnd (gets (\<lambda>s. rt_matcher (times_of k (rc s)))) (\<lambda>m.
     thn (case m of None \<Rightarrow> ret () | Some mk \<Rightarrow> Notify mk past)
         (on_rt k rt_rearm))) (\<lambda>_. okg strict {TimesMutex k}) u"
      by (simp add: wp_bnd wp_gets)
  qed
  then show ?case by (simp add: wp_bnd)
qed simp_all

lemma fire_ok:
  assumes "ok s" and "\<And>n. t \<le> clock s n"
  shows "safe (fire k t) (\<lambda>_. ok) s"
  unfolding fire_def wp_thn ok_okg
  by (rule wp_mono [OF stop_okg]) (use assms process_okg in \<open>auto simp: ok_okg\<close>)

end
