(* ===== verification/Background.thy ===== *)
theory Background
  imports Workers
begin

text \<open>
  The background goroutine of a worker, \<open>backgroundLoop\<close> and the functions it runs
  (\<open>workers/workers.go\<close>).  It is a state machine: \<open>bg_step\<close> is what it does between two
  points at which other goroutines can run, that is, one receive, one check of the
  channel, one call of the Dryad or of the list of workers, or one critical section.  The
  answers of the Dryad and of the key generator are arguments of the step.
\<close>

section \<open>The channel\<close>

text \<open>
  The loop of \<open>checkPendingOperation\<close> over what is buffered.  From a closed channel it
  receives the zero state, which nobody reads since \<open>open\<close> is false.
\<close>

fun drain :: "WorkerState list \<Rightarrow> bool \<Rightarrow> pendingOperation \<Rightarrow> pendingOperation" where
  "drain [] is_closed op = (if is_closed then op\<lparr>op_open := False, op_got := True\<rparr> else op)"
| "drain (st # sts) is_closed op = drain sts is_closed \<lparr>op_state = st, op_open = True, op_got = True\<rparr>"

definition no_operation :: pendingOperation where
  "no_operation = \<lparr>op_state = MAINTENANCE, op_open = False, op_got = False\<rparr>"

definition checkPendingOperation :: "nat \<Rightarrow> pendingOperation op" where
  "checkPendingOperation c = bnd (gets (\<lambda>s. chans s c)) (\<lambda>ch.
     thn (modify (\<lambda>s. s\<lparr>chans := (chans s)(c := ch\<lparr>buf := []\<rparr>)\<rparr>))
         (ret (drain (buf ch) (closed ch) no_operation)))"

text \<open>A plain receive blocks while the channel is open and empty.\<close>

definition receive :: "nat \<Rightarrow> pendingOperation op" where
  "receive c = bnd (gets (\<lambda>s. chans s c)) (\<lambda>ch. case buf ch of
       [] \<Rightarrow> if closed ch then ret no_operation else block
     | st # sts \<Rightarrow> thn (modify (\<lambda>s. s\<lparr>chans := (chans s)(c := ch\<lparr>buf := sts\<rparr>)\<rparr>))
                       (ret \<lparr>op_state = st, op_open = True, op_got = False\<rparr>))"

section \<open>The goroutine\<close>

definition goto :: "nat \<Rightarrow> bg_pc \<Rightarrow> bool \<Rightarrow> unit op" where
  "goto c pc check = modify (\<lambda>s. s\<lparr>bgs := (bgs s)(c := map_option (\<lambda>g. g\<lparr>bg_pc := pc, must_check := check\<rparr>) (bgs s c))\<rparr>)"

text \<open>What the loop does with an operation it has received.\<close>

definition dispatch :: "nat \<Rightarrow> pendingOperation \<Rightarrow> unit op" where
  "dispatch c op = (if \<not> op_open op then goto c Ended False
     else case op_state op of
         PREPARE \<Rightarrow> goto c PkAddr True
       | BUSY \<Rightarrow> goto c PmAddr True
       | _ \<Rightarrow> goto c (AtLoop no_operation) False)"

definition loop_head :: "nat \<Rightarrow> pendingOperation \<Rightarrow> unit op" where
  "loop_head c op = (if op_got op then dispatch c op else bnd (receive c) (dispatch c))"

text \<open>
  The calls of \<open>prepareKey\<close> and \<open>putInMaintenance\<close>.  After each of them the channel is
  checked, and an error ends the preparation.
\<close>

definition after_call :: "nat \<Rightarrow> WorkerState \<Rightarrow> error option \<Rightarrow> bg_pc \<Rightarrow> unit op" where
  "after_call c target err next = (case err of
       Some e \<Rightarrow> goto c (Settle target (Some e)) True
     | None \<Rightarrow> goto c next True)"

text \<open>
  The end of \<open>prepareKeyAndSetState\<close> and of \<open>putInMaintenanceWorker\<close>: with the mutex of
  the list held the channel is checked once more, and then the state is set.
\<close>

definition settle :: "nat \<Rightarrow> WorkerUUID \<Rightarrow> WorkerState \<Rightarrow> error option \<Rightarrow> unit op" where
  "settle c uuid target err = critical WorkersMutex (bnd (checkPendingOperation c) (\<lambda>op.
     if op_got op then goto c (AtLoop op) False
     else thn (if err \<noteq> None then setState uuid FAIL else setState uuid target)
              (goto c (AtLoop no_operation) False)))"

definition bg_call :: "nat \<Rightarrow> WorkerUUID \<Rightarrow> error option \<Rightarrow> PrivateKey \<Rightarrow> bg_pc \<Rightarrow> unit op" where
  "bg_call c uuid answer key pc = (case pc of
       AtLoop op \<Rightarrow> loop_head c op
     | PkAddr \<Rightarrow> bnd (getWorkerAddr uuid) (\<lambda>r. case r of
           Inl e \<Rightarrow> after_call c IDLE (Some e) PkAddr
         | Inr a \<Rightarrow> after_call c IDLE None (PkDial a))
     | PkDial a \<Rightarrow> after_call c IDLE answer PkGenerate
     | PkGenerate \<Rightarrow> after_call c IDLE answer (PkPublic key)
     | PkPublic k \<Rightarrow> after_call c IDLE answer (PkInstall k)
     | PkInstall k \<Rightarrow> after_call c IDLE answer (PkStore k)
     | PkStore k \<Rightarrow> bnd (setWorkerKey uuid k) (\<lambda>e. after_call c IDLE e (Settle IDLE None))
     | PmAddr \<Rightarrow> bnd (getWorkerAddr uuid) (\<lambda>r. case r of
           Inl e \<Rightarrow> after_call c MAINTENANCE (Some e) PmAddr
         | Inr a \<Rightarrow> after_call c MAINTENANCE None (PmDial a))
     | PmDial a \<Rightarrow> after_call c MAINTENANCE answer PmOrder
     | PmOrder \<Rightarrow> after_call c MAINTENANCE answer (Settle MAINTENANCE None)
     | Settle target err \<Rightarrow> settle c uuid target err
     | Ended \<Rightarrow> ret ())"

definition bg_step :: "error option \<Rightarrow> PrivateKey \<Rightarrow> nat \<Rightarrow> unit op" where
  "bg_step answer key c = bnd (gets (\<lambda>s. bgs s c)) (\<lambda>g. case g of
       None \<Rightarrow> ret ()
     | Some g \<Rightarrow>
         if must_check g
         then bnd (checkPendingOperation c) (\<lambda>op.
              if op_got op then goto c (AtLoop op) False else goto c (bg_pc g) False)
         else bg_call c (bg_uuid g) answer key (bg_pc g))"

end
