(* ===== verification/BackgroundOps.thy ===== *)
theory BackgroundOps
  imports Dispatch Background
begin

text \<open>
  Every step of a background goroutine keeps the invariant.  The argument is about what
  the goroutine knows of its worker: once its channel is empty, its position agrees with
  the worker's state, and at the end of a preparation there is a key.
\<close>

section \<open>The goroutine and its channel\<close>

lemma drain_spec:
  "drain sts is_closed op = (if is_closed then \<lparr>op_state = op_state (drain sts False op), op_open = False, op_got = True\<rparr>
     else if sts = [] then op else \<lparr>op_state = last sts, op_open = True, op_got = True\<rparr>)"
  by (induction sts is_closed op rule: drain.induct) auto

lemma drain_got: "op_got (drain sts is_closed no_operation) \<longleftrightarrow> is_closed \<or> sts \<noteq> []"
  by (simp add: drain_spec [of sts] no_operation_def)

lemma wk_ok_bg_upd:
  assumes ok: "wk_ok ws chs n gs" and g: "gs c = Some g" and same: "closed ch = closed (chs c)" "bg_uuid g' = bg_uuid g"
    and ag: "\<And>w. ws (bg_uuid g) = Some w \<Longrightarrow> backgroundOperation w = c \<Longrightarrow> agrees w (chs c) g \<Longrightarrow> agrees w ch g'"
  shows "wk_ok ws (chs(c := ch)) n (gs(c \<mapsto> g'))"
  unfolding wk_ok_def
proof (intro conjI allI impI)
  show "finite (dom ws)" using ok by (simp add: wk_ok_def)
  fix u w assume w: "ws u = Some w"
  show "WUUID (info w) = u" "WState (info w) \<in> {IDLE, RUN} \<Longrightarrow> has_key w" "backgroundOperation w < n"
    using wk_okD [OF ok w] by simp_all
  obtain h where h: "gs (backgroundOperation w) = Some h" "bg_uuid h = u" "agrees w (chs (backgroundOperation w)) h"
    using wk_okD(4) [OF ok w] by blast
  show "\<exists>g. (gs(c \<mapsto> g')) (backgroundOperation w) = Some g \<and> bg_uuid g = u
     \<and> agrees w ((chs(c := ch)) (backgroundOperation w)) g"
  proof (cases "backgroundOperation w = c")
    case True
    with h g have "h = g" by simp
    with h ag [of w] w True same show ?thesis by auto
  next
    case False
    with h show ?thesis by simp
  qed
  fix v x assume "ws v = Some x" "backgroundOperation w = backgroundOperation x"
  with wk_ok_inj [OF ok w] show "u = v" by blast
next
  fix k h assume "(gs(c \<mapsto> g')) k = Some h"
  then show "k < n" "closed ((chs(c := ch)) k) \<or> (\<exists>w. ws (bg_uuid h) = Some w \<and> backgroundOperation w = k)"
    using wk_ok_bg [OF ok, of k] wk_ok_bg [OF ok g] same by (auto split: if_splits)
qed

lemma okg_bg:
  assumes ok: "okg E L s" and g: "bgs s c = Some g" and same: "closed ch = closed (chans s c)" "bg_uuid g' = bg_uuid g"
    and ag: "\<And>w. workers (wl s) (bg_uuid g) = Some w \<Longrightarrow> backgroundOperation w = c \<Longrightarrow>
               agrees w (chans s c) g \<Longrightarrow> agrees w ch g'"
  shows "okg E L (s\<lparr>chans := (chans s)(c := ch), bgs := (bgs s)(c \<mapsto> g')\<rparr>)"
  using ok wk_ok_bg_upd [OF invD(7) [OF okg_inv [OF ok]] g same ag]
  by (simp add: okg_def inv_def)

lemma okg_goto:
  assumes ok: "okg E L s" and g: "bgs s c = Some g"
    and ag: "\<And>w. workers (wl s) (bg_uuid g) = Some w \<Longrightarrow> backgroundOperation w = c \<Longrightarrow>
               agrees w (chans s c) g \<Longrightarrow> agrees w (chans s c) (g\<lparr>bg_pc := pc, must_check := check\<rparr>)"
  shows "wpg b (goto c pc check) (\<lambda>_. okg E L) s"
proof -
  have "okg E L (s\<lparr>chans := (chans s)(c := chans s c), bgs := (bgs s)(c \<mapsto> g\<lparr>bg_pc := pc, must_check := check\<rparr>)\<rparr>)"
    by (rule okg_bg [OF ok g _ _ ag]) simp_all
  with g show ?thesis by (simp add: goto_def wp_simps)
qed

lemma okg_drain_goto:
  assumes ok: "okg E L s" and g: "bgs s c = Some g"
    and got: "op_got (drain (buf (chans s c)) (closed (chans s c)) no_operation)"
  shows "wpg b (goto c (AtLoop (drain (buf (chans s c)) (closed (chans s c)) no_operation)) check) (\<lambda>_. okg E L)
           (s\<lparr>chans := (chans s)(c := (chans s c)\<lparr>buf := []\<rparr>)\<rparr>)"
proof -
  let ?op = "drain (buf (chans s c)) (closed (chans s c)) no_operation"
  have "okg E L (s\<lparr>chans := (chans s)(c := (chans s c)\<lparr>buf := []\<rparr>),
      bgs := (bgs s)(c \<mapsto> g\<lparr>bg_pc := AtLoop ?op, must_check := check\<rparr>)\<rparr>)"
  proof (rule okg_bg [OF ok g])
    fix w assume "agrees w (chans s c) g"
    then show "agrees w ((chans s c)\<lparr>buf := []\<rparr>) (g\<lparr>bg_pc := AtLoop ?op, must_check := check\<rparr>)"
      using got drain_spec [of "buf (chans s c)" "closed (chans s c)" no_operation]
      by (auto simp: agrees_def no_operation_def)
  qed simp_all
  with g show ?thesis by (simp add: goto_def wp_simps)
qed

lemma okg_empty_goto:
  assumes ok: "okg E L s" and g: "bgs s c = Some g" and none: "buf (chans s c) = []"
    and ag: "\<And>w. workers (wl s) (bg_uuid g) = Some w \<Longrightarrow> backgroundOperation w = c \<Longrightarrow>
               agrees w (chans s c) g \<Longrightarrow> agrees w (chans s c) (g\<lparr>bg_pc := pc, must_check := check\<rparr>)"
  shows "wpg b (goto c pc check) (\<lambda>_. okg E L) (s\<lparr>chans := (chans s)(c := (chans s c)\<lparr>buf := []\<rparr>)\<rparr>)"
proof -
  have "(chans s c)\<lparr>buf := []\<rparr> = chans s c" using none by (cases "chans s c") simp
  then have "s\<lparr>chans := (chans s)(c := (chans s c)\<lparr>buf := []\<rparr>)\<rparr> = s" by simp
  with okg_goto [OF ok g ag] show ?thesis by simp
qed

lemma check_okg:
  assumes ok: "okg E L s" and g: "bgs s c = Some g"
  shows "wpg b (bnd (checkPendingOperation c) (\<lambda>op.
      if op_got op then goto c (AtLoop op) False else goto c (bg_pc g) False)) (\<lambda>_. okg E L) s"
proof -
  have "agrees w ch g \<Longrightarrow> agrees w ch (g\<lparr>bg_pc := bg_pc g, must_check := False\<rparr>)" for w ch
    by (simp add: agrees_def)
  with okg_drain_goto [OF ok g] okg_empty_goto [OF ok g, where pc = "bg_pc g" and check = False and b = b] show ?thesis
    by (auto simp: checkPendingOperation_def wp_simps drain_got)
qed

text \<open>Receiving at the head of the loop.\<close>

lemma dispatch_okg:
  assumes ok: "okg E L s" and g: "bgs s c = Some g" and same: "closed ch = closed (chans s c)"
    and op: "\<And>w. workers (wl s) (bg_uuid g) = Some w \<Longrightarrow> backgroundOperation w = c \<Longrightarrow> agrees w (chans s c) g \<Longrightarrow>
      op_open op \<and> (if buf ch = [] then op_state op else last (buf ch)) = WState (info w)"
  shows "wpg b (dispatch c op) (\<lambda>_. okg E L) (s\<lparr>chans := (chans s)(c := ch)\<rparr>)"
proof -
  define pc where "pc = (if \<not> op_open op then Ended else case op_state op of
      PREPARE \<Rightarrow> PkAddr | BUSY \<Rightarrow> PmAddr | _ \<Rightarrow> AtLoop no_operation)"
  have step: "dispatch c op = goto c pc (op_open op \<and> op_state op \<in> {PREPARE, BUSY})"
    by (simp add: dispatch_def pc_def split: WorkerState.split)
  have "okg E L (s\<lparr>chans := (chans s)(c := ch),
      bgs := (bgs s)(c \<mapsto> g\<lparr>bg_pc := pc, must_check := op_open op \<and> op_state op \<in> {PREPARE, BUSY}\<rparr>)\<rparr>)"
  proof (rule okg_bg [OF ok g same])
    fix w assume w: "workers (wl s) (bg_uuid g) = Some w" "backgroundOperation w = c" "agrees w (chans s c) g"
    have live: "pc_knows pc (op_state op) True" "pc_knows pc (op_state op) (has_key w)"
      using op [OF w] by (simp_all add: pc_def no_operation_def split: WorkerState.split)
    with op [OF w] w(3) same
    show "agrees w ch (g\<lparr>bg_pc := pc, must_check := op_open op \<and> op_state op \<in> {PREPARE, BUSY}\<rparr>)"
      by (auto simp: agrees_def split: if_splits)
  qed simp
  with g show ?thesis
    unfolding step by (simp add: goto_def wp_simps)
qed

lemma loop_head_okg:
  assumes ok: "okg E L s" and g: "bgs s c = Some g" and pc: "bg_pc g = AtLoop op"
  shows "safe (loop_head c op) (\<lambda>_. okg E L) s"
proof (cases "op_got op")
  case True
  have "safe (dispatch c op) (\<lambda>_. okg E L) (s\<lparr>chans := (chans s)(c := chans s c)\<rparr>)"
    by (rule dispatch_okg [OF ok g]) (use True pc in \<open>auto simp: agrees_def\<close>)
  with True show ?thesis by (simp add: loop_head_def)
next
  case False
  show ?thesis
  proof (cases "buf (chans s c)")
    case Nil
    have "safe (dispatch c no_operation) (\<lambda>_. okg E L) (s\<lparr>chans := (chans s)(c := chans s c)\<rparr>)"
      if "closed (chans s c)"
      by (rule dispatch_okg [OF ok g]) (use that in \<open>auto simp: agrees_def\<close>)
    with False Nil show ?thesis by (simp add: loop_head_def receive_def wp_simps)
  next
    case (Cons st sts)
    have "safe (dispatch c \<lparr>op_state = st, op_open = True, op_got = False\<rparr>) (\<lambda>_. okg E L)
        (s\<lparr>chans := (chans s)(c := (chans s c)\<lparr>buf := sts\<rparr>)\<rparr>)"
      by (rule dispatch_okg [OF ok g]) (use Cons in \<open>auto simp: agrees_def split: if_splits\<close>)
    with False Cons show ?thesis by (simp add: loop_head_def receive_def wp_simps)
  qed
qed

section \<open>Calls and the end of an operation\<close>

text \<open>Where a call can lead, when the worker is in state \<open>st\<close>.\<close>

lemma after_call_okg:
  assumes ok: "okg E L s" and g: "bgs s c = Some g"
    and target: "target \<in> {IDLE, MAINTENANCE}"
    and here: "\<And>st key. pc_knows (bg_pc g) st key \<Longrightarrow> st = (if target = IDLE then PREPARE else BUSY)"
    and there: "\<And>st key key'. pc_knows (bg_pc g) st key \<Longrightarrow> key' \<or> next \<noteq> Settle IDLE None \<Longrightarrow> pc_knows next st key'"
    and key: "\<And>w. workers (wl s) (bg_uuid g) = Some w \<Longrightarrow> next = Settle IDLE None \<Longrightarrow> err = None \<Longrightarrow> has_key w"
  shows "wpg b (after_call c target err next) (\<lambda>_. okg E L) s"
  unfolding after_call_def
proof (cases err)
  case None
  have "wpg b (goto c next True) (\<lambda>_. okg E L) s"
  proof (rule okg_goto [OF ok g])
    fix w assume w: "workers (wl s) (bg_uuid g) = Some w" "agrees w (chans s c) g"
    then obtain st k where "pc_knows (bg_pc g) st k" by (auto simp: agrees_def)
    then have live: "pc_knows next st True" by (rule there) simp
    have "pc_knows next (WState (info w)) (has_key w)" if "buf (chans s c) = []"
      by (rule there [of _ "has_key w"]) (use w that key [OF w(1)] None in \<open>auto simp: agrees_def\<close>)
    with w live show "agrees w (chans s c) (g\<lparr>bg_pc := next, must_check := True\<rparr>)"
      by (auto simp: agrees_def)
  qed
  with None show "wpg b (case err of None \<Rightarrow> goto c next True
      | Some e \<Rightarrow> goto c (Settle target (Some e)) True) (\<lambda>_. okg E L) s" by simp
next
  case (Some e)
  have "wpg b (goto c (Settle target (Some e)) True) (\<lambda>_. okg E L) s"
  proof (rule okg_goto [OF ok g])
    fix w assume w: "agrees w (chans s c) g"
    with here target show "agrees w (chans s c) (g\<lparr>bg_pc := Settle target (Some e), must_check := True\<rparr>)"
      by (auto simp: agrees_def)
  qed
  with Some show "wpg b (case err of None \<Rightarrow> goto c next True
      | Some e \<Rightarrow> goto c (Settle target (Some e)) True) (\<lambda>_. okg E L) s" by simp
qed

lemma okg_worker_agrees:
  assumes "okg E L s" and "bgs s c = Some g" and "workers (wl s) (bg_uuid g) = Some w" and "backgroundOperation w = c"
  shows "agrees w (chans s c) g"
  using wk_okD(4) [OF invD(7) [OF okg_inv [OF assms(1)]] assms(3)] assms(2,4) by auto

lemma setState_frame:
  assumes ok: "okg E L s" and w: "workers (wl s) u = Some w" and room: "room s w \<or> b"
    and nofail: "\<not> fails w st" and L: "TimesMutex ValidAfterTimes \<notin> L" "ValidAfterTimes \<notin> unarmed E"
  shows "wpg b (setState u st) (\<lambda>_ t. workers (wl t) u = Some (w\<lparr>info := (info w)\<lparr>WState := st\<rparr>\<rparr>) \<and> bgs t = bgs s) s"
proof -
  note parts = invD [OF okg_inv [OF ok]]
  have "held s = L" using ok by (rule okg_held)
  with okg_times [OF ok L(2)] L nofail show ?thesis
    by (intro wp_setState [OF w parts(8) wk_okD(5) [OF parts(7) w] room])
       (auto simp: sent_def idle_noted_def)
qed

lemma setWorkerKey_okg:
  assumes ok: "okg E L s" and L: "WorkersMutex \<notin> L"
  shows "wpg b (setWorkerKey u k) (\<lambda>e t. okg E L t \<and> bgs t = bgs s
           \<and> (e = None \<longrightarrow> (\<forall>w. workers (wl t) u = Some w \<longrightarrow> has_key w))) s"
proof (cases "workers (wl s) u")
  case None
  with ok L show ?thesis
    by (auto simp: setWorkerKey_def wp_simps okg_def)
next
  case (Some w)
  note parts = invD [OF okg_inv [OF ok]]
  let ?w = "w\<lparr>wkey := Some k\<rparr>"
  have mono: "pc_knows pc st key \<Longrightarrow> pc_knows pc st True" for pc st key
    by (cases "(pc, st, key)" rule: pc_knows.cases) auto
  have "wk_ok ((workers (wl s))(u \<mapsto> ?w)) ((chans s)(backgroundOperation w := chans s (backgroundOperation w)))
      (next_chan s) (bgs s)"
    by (rule wk_ok_upd [OF parts(7) Some])
       (use wk_okD [OF parts(7) Some] mono in \<open>auto simp: agrees_def has_key_def\<close>)
  moreover have "run_ok {} (jobs s) ((workers (wl s))(u \<mapsto> ?w))"
    using parts(6) Some by (auto simp: run_ok_def)
  ultimately have "okg E L (s\<lparr>wl := (wl s)\<lparr>workers := (workers (wl s))(u \<mapsto> ?w)\<rparr>\<rparr>)"
    using parts ok by (simp add: okg_def inv_def)
  then have "okg E L (s\<lparr>held := held s, wl := (wl s)\<lparr>workers := (workers (wl s))(u \<mapsto> ?w)\<rparr>\<rparr>)"
    by simp
  moreover have "okg E L (s\<lparr>wl := (wl s)\<lparr>workers := (workers (wl s))(u \<mapsto> ?w)\<rparr>, held := L\<rparr>)"
    using calculation ok by (simp add: okg_def inv_def)
  ultimately show ?thesis
    using Some L ok by (simp add: setWorkerKey_def wp_simps okg_held [OF ok] has_key_def)
qed

lemma settle_okg:
  assumes ok: "okg E L s" and g: "bgs s c = Some g" and pc: "bg_pc g = Settle target err"
    and L: "WorkersMutex \<notin> L" "TimesMutex ValidAfterTimes \<notin> L" "ValidAfterTimes \<notin> unarmed E"
  shows "wp (settle c (bg_uuid g) target err) (\<lambda>_. okg E L) s"
proof -
  let ?u = "bg_uuid g" and ?L = "insert WorkersMutex L" and ?s = "s\<lparr>held := insert WorkersMutex L\<rparr>"
  have ok1: "okg E ?L ?s" using ok by (simp add: okg_def)
  have "wp (bnd (checkPendingOperation c) (\<lambda>op.
     if op_got op then goto c (AtLoop op) False
     else thn (if err \<noteq> None then setState ?u FAIL else setState ?u target)
              (goto c (AtLoop no_operation) False))) (\<lambda>_. okg E ?L) ?s"
  proof (cases "op_got (drain (buf (chans s c)) (closed (chans s c)) no_operation)")
    case True
    with okg_drain_goto [OF ok1, of c g False False] g show ?thesis
      by (simp add: checkPendingOperation_def wp_simps)
  next
    case False
    then have empty: "buf (chans s c) = []" and alive: "\<not> closed (chans s c)"
      by (auto simp: drain_got)
    note parts = invD [OF okg_inv [OF ok1]]
    obtain w where w: "workers (wl s) ?u = Some w" "backgroundOperation w = c"
      using wk_ok_bg [OF parts(7), of c g] g alive by auto
    have knows: "pc_knows (Settle target err) (WState (info w)) (has_key w)"
      using okg_worker_agrees [OF ok g w] empty pc by (simp add: agrees_def)
    let ?st = "if err \<noteq> None then FAIL else target"
    have nofail: "\<not> fails w ?st" using knows by (auto simp: fails_def split: if_splits)
    have room: "room ?s w" using empty w by (simp add: room_def backgroundOperationsBufferSize_def)
    have "wp (setState ?u ?st) (\<lambda>_. okg E ?L) ?s"
    proof (rule wp_mono)
      show "wp (setState ?u ?st) (\<lambda>r t. r = None \<and> inv (unarmed E) (overdue E) (expired E) {} t \<and> held t = held ?s
           \<and> iterating (rc t) = iterating (rc ?s) \<and> range (clock t) \<subseteq> range (clock ?s)
           \<and> (\<not> fails w ?st \<longrightarrow> requests (rc t) = requests (rc ?s)) \<and> rqueue (rc t) = rqueue (rc ?s)) ?s"
        by (rule setState_inv [OF okg_inv [OF ok1]])
           (use w room knows inv_run [OF okg_inv [OF ok1], of ?u] nofail L in
             \<open>auto simp: fails_def split: if_splits\<close>)
      fix r t
      assume "r = None \<and> inv (unarmed E) (overdue E) (expired E) {} t \<and> held t = held ?s
           \<and> iterating (rc t) = iterating (rc ?s) \<and> range (clock t) \<subseteq> range (clock ?s)
           \<and> (\<not> fails w ?st \<longrightarrow> requests (rc t) = requests (rc ?s)) \<and> rqueue (rc t) = rqueue (rc ?s)"
      then show "okg E ?L t"
        using ok1 range_subset_all [of "clock t" "clock ?s" "reading E"] by (auto simp: okg_def)
    qed
    moreover have "wp (setState ?u ?st) (\<lambda>_ t. workers (wl t) ?u = Some (w\<lparr>info := (info w)\<lparr>WState := ?st\<rparr>\<rparr>)
        \<and> bgs t = bgs ?s) ?s"
      by (rule setState_frame [OF ok1 _ _ nofail]) (use w room L in auto)
    ultimately have "wp (setState ?u ?st) (\<lambda>_ t. wp (goto c (AtLoop no_operation) False) (\<lambda>_. okg E ?L) t) ?s"
    proof (rule wp_mono [OF wp_conj])
      fix a t
      assume t: "okg E ?L t \<and> workers (wl t) ?u = Some (w\<lparr>info := (info w)\<lparr>WState := ?st\<rparr>\<rparr>) \<and> bgs t = bgs ?s"
      show "wp (goto c (AtLoop no_operation) False) (\<lambda>_. okg E ?L) t"
      proof (rule okg_goto [where g = g])
        show "okg E ?L t" using t by simp
        show "bgs t c = Some g" using t g by simp
        fix x
        assume "workers (wl t) ?u = Some x" and a: "agrees x (chans t c) g"
        with t have x: "WState (info x) = ?st" by auto
        have "?st \<noteq> PREPARE" "?st \<noteq> BUSY" using knows by (auto split: if_splits)
        with a x show "agrees x (chans t c) (g\<lparr>bg_pc := AtLoop no_operation, must_check := False\<rparr>)"
          by (auto simp: agrees_def no_operation_def)
      qed
    qed
    moreover have "?s\<lparr>chans := (chans s)(c := (chans s c)\<lparr>buf := []\<rparr>)\<rparr> = ?s"
      using empty by (cases "chans s c") (simp add: fun_upd_idem)
    ultimately show ?thesis
      using False by (simp add: checkPendingOperation_def wp_simps split: if_splits)
  qed
  then have "wp (bnd (checkPendingOperation c) (\<lambda>op.
     if op_got op then goto c (AtLoop op) False
     else thn (if err \<noteq> None then setState ?u FAIL else setState ?u target)
              (goto c (AtLoop no_operation) False))) (\<lambda>_ t. WorkersMutex \<in> held t \<and>
        okg E L (t\<lparr>held := held t - {WorkersMutex}\<rparr>)) ?s"
    by (rule wp_mono) (use L in \<open>auto simp: okg_def\<close>)
  with ok L show ?thesis
    by (simp add: settle_def wp_critical okg_held [OF ok])
qed

lemma getWorkerAddr_okg:
  assumes "okg E L s" and "WorkersMutex \<notin> L"
    and "\<And>r. Q r s"
  shows "wpg b (getWorkerAddr u) Q s"
  using assms okg_held [OF assms(1)]
  by (auto simp: getWorkerAddr_def wp_simps split: option.split)

lemma bg_call_okg:
  assumes ok: "okg E L s" and g: "bgs s c = Some g"
    and L: "WorkersMutex \<notin> L" "TimesMutex ValidAfterTimes \<notin> L" "ValidAfterTimes \<notin> unarmed E"
  shows "safe (bg_call c (bg_uuid g) answer key (bg_pc g)) (\<lambda>_. okg E L) s"
proof -
  have call: "safe (after_call c target err next) (\<lambda>_. okg E L) s"
    if "target \<in> {IDLE, MAINTENANCE}"
      "\<And>st key. pc_knows (bg_pc g) st key \<Longrightarrow> st = (if target = IDLE then PREPARE else BUSY)"
      "\<And>st key key'. pc_knows (bg_pc g) st key \<Longrightarrow> pc_knows next st key'" "next \<noteq> Settle IDLE None"
    for target err "next"
    by (rule after_call_okg [OF ok g that(1,2)]) (use that in auto)
  show ?thesis
  proof (cases "bg_pc g")
    case (AtLoop op)
    with loop_head_okg [OF ok g] show ?thesis by (simp add: bg_call_def)
  next
    case PkAddr
    have "safe (getWorkerAddr (bg_uuid g)) (\<lambda>r. safe (case r of Inl e \<Rightarrow> after_call c IDLE (Some e) PkAddr
         | Inr a \<Rightarrow> after_call c IDLE None (PkDial a)) (\<lambda>_. okg E L)) s"
      by (rule getWorkerAddr_okg [OF ok L(1)]) (auto simp: PkAddr intro!: call split: sum.split)
    then show ?thesis by (simp add: bg_call_def PkAddr wp_bnd)
  next
    case PmAddr
    have "safe (getWorkerAddr (bg_uuid g)) (\<lambda>r. safe (case r of Inl e \<Rightarrow> after_call c MAINTENANCE (Some e) PmAddr
         | Inr a \<Rightarrow> after_call c MAINTENANCE None (PmDial a)) (\<lambda>_. okg E L)) s"
      by (rule getWorkerAddr_okg [OF ok L(1)]) (auto simp: PmAddr intro!: call split: sum.split)
    then show ?thesis by (simp add: bg_call_def PmAddr wp_bnd)
  next
    case (PkStore k)
    have "safe (setWorkerKey (bg_uuid g) k) (\<lambda>e. safe (after_call c IDLE e (Settle IDLE None)) (\<lambda>_. okg E L)) s"
    proof (rule wp_mono [OF setWorkerKey_okg [OF ok L(1)]], elim conjE)
      fix e :: "error option" and t
      assume t: "okg E L t" "bgs t = bgs s" and k: "e = None \<longrightarrow> (\<forall>w. workers (wl t) (bg_uuid g) = Some w \<longrightarrow> has_key w)"
      show "safe (after_call c IDLE e (Settle IDLE None)) (\<lambda>_. okg E L) t"
        by (rule after_call_okg [OF t(1), of c g]) (use t g k PkStore in auto)
    qed
    then show ?thesis by (simp add: bg_call_def PkStore wp_bnd)
  next
    case (Settle target err)
    show ?thesis
      by (simp add: bg_call_def Settle) (rule wp_lift [OF settle_okg [OF ok g Settle L]])
  next
    case Ended
    with ok show ?thesis by (simp add: bg_call_def wp_ret)
  qed (auto simp: bg_call_def intro!: call)
qed

lemma bg_step_okg:
  assumes ok: "okg E L s"
    and L: "WorkersMutex \<notin> L" "TimesMutex ValidAfterTimes \<notin> L" "ValidAfterTimes \<notin> unarmed E"
  shows "safe (bg_step answer key c) (\<lambda>_. okg E L) s"
proof (cases "bgs s c")
  case None
  with ok show ?thesis by (simp add: bg_step_def wp_simps)
next
  case (Some g)
  show ?thesis
  proof (cases "must_check g")
    case True
    with check_okg [OF ok Some, of True] Some show ?thesis
      by (simp add: bg_step_def wp_bnd wp_gets)
  next
    case False
    with bg_call_okg [OF ok Some L] Some show ?thesis
      by (simp add: bg_step_def wp_bnd wp_gets)
  qed
qed

end
