(* ===== verification/System.thy ===== *)
theory System
  imports BackgroundOps
begin

text \<open>
  The whole server as a state machine: the state \<open>main\<close> of \<open>cmd/boruta\<close> starts with, the
  events that change it, and the states that can be reached.  Events are the calls of the
  API and of the Dryads, the firing of the timers, and the steps of the background
  goroutines; between events no mutex is held.  The invariant holds in every reachable
  state, so no event panics, however the events are ordered.
\<close>

section \<open>The initial state\<close>

definition new_times :: "matcher_kind \<Rightarrow> time \<Rightarrow> requestTimes" where
  "new_times m far = (newRequestTimes far)\<lparr>rt_matcher := Some m\<rparr>"

definition NewRequestQueue :: "time \<Rightarrow> ReqsCollection" where
  "NewRequestQueue far = \<lparr>requests = (\<lambda>_. None), rqueue = newPrioQueue, iterating = False,
     validAfterTimes = new_times ValidMatcher far,
     deadlineTimes = new_times DeadlineMatcher far,
     timeoutTimes = new_times TimeoutMatcher far\<rparr>"

text \<open>The requests are registered as the change listener of the workers.\<close>

definition NewWorkerList :: WorkerList where
  "NewWorkerList = \<lparr>workers = (\<lambda>_. None), changeListener = False\<rparr>"

definition SetChangeListener :: "WorkerList \<Rightarrow> WorkerList" where
  "SetChangeListener w = w\<lparr>changeListener := True\<rparr>"

definition NewJobsManager :: "WorkerUUID \<rightharpoonup> Job" where
  "NewJobsManager = (\<lambda>_. None)"

definition start_server :: "(nat \<Rightarrow> time) \<Rightarrow> zone \<Rightarrow> (nat \<Rightarrow> int option) \<Rightarrow> time \<Rightarrow> server" where
  "start_server clk tz prt far = \<lparr>held = {}, clock = clk, tz_offset = tz, ports = prt, open_tunnels = {},
     next_tunnel = 0, rc = NewRequestQueue far, jobs = NewJobsManager,
     wl = SetChangeListener NewWorkerList,
     chans = (\<lambda>_. \<lparr>buf = [], closed = False\<rparr>), next_chan = 0, bgs = (\<lambda>_. None)\<rparr>"

section \<open>Events\<close>

datatype event =
    ENewRequest Capabilities Priority UserInfo time time
  | ECloseRequest ReqID
  | EUpdateRequest "ReqInfo option"
  | EGetRequestInfo ReqID
  | EAcquireWorker ReqID
  | EProlongAccess ReqID
  | ERegister Capabilities string string
  | ESetFail WorkerUUID string
  | ESetState WorkerUUID string
  | ESetGroups WorkerUUID Groups
  | EDeregister WorkerUUID
  | EGetWorkerInfo WorkerUUID
  | EFire times_kind time
  | EBackground "error option" PrivateKey nat

definition ignore :: "'a op \<Rightarrow> unit op" where
  "ignore m = thn m (ret ())"

fun run_event :: "(string \<Rightarrow> string + TCPAddr) \<Rightarrow> event \<Rightarrow> unit op" where
  "run_event resolve (ENewRequest caps p owner va dl) = ignore (NewRequest caps p owner va dl)"
| "run_event resolve (ECloseRequest i) = ignore (CloseRequest i)"
| "run_event resolve (EUpdateRequest r) = ignore (UpdateRequest r)"
| "run_event resolve (EGetRequestInfo i) = ignore (GetRequestInfo i)"
| "run_event resolve (EAcquireWorker i) = ignore (AcquireWorker i)"
| "run_event resolve (EProlongAccess i) = ignore (ProlongAccess i)"
| "run_event resolve (ERegister caps d sa) = ignore (Register resolve caps d sa)"
| "run_event resolve (ESetFail u reason) = ignore (SetFail u reason)"
| "run_event resolve (ESetState u st) = ignore (SetState u st)"
| "run_event resolve (ESetGroups u gs) = ignore (SetGroups u gs)"
| "run_event resolve (EDeregister u) = ignore (Deregister u)"
| "run_event resolve (EGetWorkerInfo u) = ignore (GetWorkerInfo u)"
| "run_event resolve (EFire k t) = fire k t"
| "run_event resolve (EBackground answer key c) = bg_step answer key c"

text \<open>
  A collection is processed for a moment that is not in the future, and the clock does not
  go back behind it afterwards.  The moment need not be due: a timer that is stopped may
  have put a moment into its channel before, and the goroutine then finds nothing, or less
  than there was, to take.
\<close>

fun enabled :: "event \<Rightarrow> server \<Rightarrow> bool" where
  "enabled (EFire k t) s = (\<forall>n. t \<le> clock s n)"
| "enabled _ s = True"

inductive step :: "(string \<Rightarrow> string + TCPAddr) \<Rightarrow> server \<Rightarrow> server \<Rightarrow> bool" for resolve where
  event: "enabled e s \<Longrightarrow> run_event resolve e s = Returns ((), t) \<Longrightarrow> step resolve s t"

inductive reachable :: "(string \<Rightarrow> string + TCPAddr) \<Rightarrow> server \<Rightarrow> bool" for resolve where
  init: "reachable resolve (start_server clk tz prt far)"
| more: "reachable resolve s \<Longrightarrow> step resolve s t \<Longrightarrow> reachable resolve t"

inductive_cases stepE [elim]: "step resolve s t"

section \<open>The invariant in every reachable state\<close>

lemma start_ok: "ok (start_server clk tz prt far)"
  unfolding ok_def inv_def
proof (intro conjI)
  let ?s = "start_server clk tz prt far"
  show "data_ok (requests (rc ?s))"
    by (simp add: start_server_def NewRequestQueue_def data_ok_def exI [of _ 0])
  show "queue_ok (requests (rc ?s)) (rqueue (rc ?s))"
    by (simp add: start_server_def NewRequestQueue_def queue_ok_def q_inv_newPrioQueue
        pq.waiting_def view_newPrioQueue)
  have new: "rt_heap (new_times m far) \<and> rt_armed (new_times m far) \<and> rt_matcher (new_times m far) = Some m" for m
    using rt_inv_new [of far] by (simp add: new_times_def rt_inv_def rt_heap_def rt_armed_def)
  show "times_ok {} (rc ?s)"
    unfolding times_ok_def
  proof
    fix k show "rt_heap (times_of k (rc ?s)) \<and> (k \<notin> {} \<longrightarrow> rt_armed (times_of k (rc ?s)))
        \<and> rt_matcher (times_of k (rc ?s)) = Some (matcher_of k)"
      using new by (cases k) (simp_all add: start_server_def NewRequestQueue_def)
  qed
qed (simp_all add: start_server_def NewRequestQueue_def NewWorkerList_def SetChangeListener_def
      NewJobsManager_def sched_ok_def job_ok_def run_ok_def wk_ok_def)

lemma keeps_okD: "keeps_ok m \<Longrightarrow> ok s \<Longrightarrow> safe (ignore m) (\<lambda>_. ok) s"
  by (simp add: keeps_ok_def ignore_def wp_simps)

lemmas operations_keep_ok =
  NewRequest_ok CloseRequest_ok UpdateRequest_ok GetRequestInfo_ok AcquireWorker_ok ProlongAccess_ok
  Register_ok SetFail_ok SetState_ok SetGroups_ok Deregister_ok

lemma GetWorkerInfo_ok: "keeps_ok (GetWorkerInfo u)"
  unfolding keeps_ok_def ok_okg GetWorkerInfo_def
  by (auto intro!: okg_critical_any simp: wp_simps simp del: wp_critical split: option.splits)

lemma run_event_ok:
  assumes "ok s" and "enabled e s"
  shows "safe (run_event resolve e) (\<lambda>_. ok) s"
proof (cases e)
  case (EFire k t)
  with assms show ?thesis by (auto intro: fire_ok)
next
  case (EBackground answer key c)
  have "safe (bg_step answer key c) (\<lambda>_. okg strict {}) s"
    by (rule bg_step_okg) (use assms(1) in \<open>simp_all add: ok_okg strict_def\<close>)
  then show ?thesis
    unfolding EBackground run_event.simps by (rule wp_mono) (simp add: ok_okg)
qed (use assms(1) in \<open>simp_all add: keeps_okD operations_keep_ok GetWorkerInfo_ok\<close>)

lemma step_ok: "ok s \<Longrightarrow> step resolve s t \<Longrightarrow> ok t"
  by (erule stepE) (use wp_resultD [OF run_event_ok] in blast)

lemma reachable_ok: "reachable resolve s \<Longrightarrow> ok s"
  by (induction rule: reachable.induct) (auto intro: start_ok step_ok)

end
