(* ===== verification/Scenario.thy ===== *)
theory Scenario
  imports System
begin

text \<open>
  One run of the server, computed step by step: a worker registers and is prepared, a
  user requests it, and the matcher assigns it.  The states of this run are the concrete
  inputs at which the properties are applied.
\<close>

section \<open>Runs\<close>

fun run_events :: "(string \<Rightarrow> string + TCPAddr) \<Rightarrow> event list \<Rightarrow> server \<Rightarrow> server option" where
  "run_events resolve [] s = Some s"
| "run_events resolve (e # es) s = (if enabled e s then
     (case run_event resolve e s of Returns r \<Rightarrow> run_events resolve es (snd r) | _ \<Rightarrow> None) else None)"

lemma run_events_reachable:
  "reachable resolve s \<Longrightarrow> run_events resolve es s = Some t \<Longrightarrow> reachable resolve t"
proof (induction es arbitrary: s)
  case (Cons e es)
  then obtain u where "enabled e s" "run_event resolve e s = Returns ((), u)" "run_events resolve es u = Some t"
    by (auto split: if_splits outcome.splits)
  with Cons show ?case by (blast intro: reachable.more step.event)
qed simp

lemma replicate_numeral_unfold: "replicate (numeral k) x = x # replicate (pred_numeral k) x"
  by (simp add: numeral_eq_Suc)

lemma heap_up_first [simp]: "heap_up h 0 = h"
  by (subst heap_up.simps) simp

lemma heap_up_second [simp]: "heap_up [a, b] (Suc 0) = (if rt_less b a then [b, a] else [a, b])"
  by (subst heap_up.simps) (simp add: Less_def Swap_def)

lemma heap_down_leaf [simp]: "n \<le> 2 * i + 1 \<Longrightarrow> heap_down h i n = h"
  by (subst heap_down.simps) simp

lemmas run_simps = replicate_numeral_unfold Let_def HiPrio_def LoPrio_def MaxInt32_def IsZero_def
  ignore_def thn_def bnd_def ret_def gets_def modify_def block_def panic_def zoom_def
  critical_def lock_def unlock_def get_workers_def get_requests_def put_request_def upd_request_def
  upd_worker_def on_queue_def on_rt_def time_Now_def chan_send_def chan_close_def
  backgroundOperationsBufferSize_def
  start_server_def NewRequestQueue_def NewWorkerList_def SetChangeListener_def NewJobsManager_def
  new_times_def newRequestTimes_def newPrioQueue_def

lemmas times_run_simps = times_insert_def rt_insert_def on_times_def rt_minTime_def rt_reset_def rt_stop_def
  rt_rearm_def rt_take_past_def h_Push_def h_Min_def h_Pop_def Swap_def Less_def rt_less_def
  fire_def timer_due_def process_def Notify_def set_timeout_def

lemmas worker_run_simps = Register_def check_addr_def new_worker_def new_bg_def SetState_def setState_def
  bg_step_def bg_call_def loop_head_def receive_def dispatch_def no_operation_def goto_def
  checkPendingOperation_def after_call_def settle_def getWorkerAddr_def setWorkerKey_def OnWorkerIdle_def

lemmas request_run_simps = NewRequest_def deadline_in_past_def store_request_def pushRequest_def q_push_def
  list_at_def put_list_def removeRequest_def q_remove_def
  InitIteration_def initIterator_def q_initIterator_def Next_def q_next_def Front_def Next_elem_def
  take_element_def skip_empty.simps VerifyIfReady_def is_ready_def Get_def Run_def end_iteration_def
  releaseIterator_def q_releaseIterator_def TerminateIteration_def

lemmas match_run_simps = RM_def WM_def JM_def iterateRequests_def matchWorkers_def
  TakeBestMatchingWorker_def listWorkers_def w_newSorter_def
  Create_def GetWorkerSSHAddr_def GetWorkerKey_def Tunnel_Create_def

section \<open>A worker is prepared\<close>

definition demo_resolve :: "string \<Rightarrow> string + TCPAddr" where
  "demo_resolve a = Inr \<lparr>IP = Some ''10.0.0.7'', Port = 22\<rparr>"

definition demo_caps :: Capabilities where
  "demo_caps = [''UUID'' \<mapsto> ''w'']"

definition demo_worker :: "WorkerState \<Rightarrow> mapWorker" where
  "demo_worker st = \<lparr>info = \<lparr>WUUID = ''w'', WState = st, WGroups = [], WCaps = demo_caps\<rparr>,
     dryad = \<lparr>IP = Some ''10.0.0.7'', Port = 22\<rparr>, sshd = \<lparr>IP = Some ''10.0.0.7'', Port = 22\<rparr>,
     wkey = Some 7, backgroundOperation = 0\<rparr>"

definition started :: server where
  "started = start_server (\<lambda>n. 100 + int n) 0 (\<lambda>n. Some (int n)) 1000000"

definition prepared :: server where
  "prepared = \<lparr>held = {}, clock = (\<lambda>n. 101 + int n), tz_offset = 0, ports = (\<lambda>n. Some (int n)),
     open_tunnels = {}, next_tunnel = 0,
     rc = \<lparr>requests = (\<lambda>_. None), rqueue = newPrioQueue, iterating = False,
       validAfterTimes = \<lparr>times = [RequestTime 100 0], timer = Some 100, rt_matcher = Some ValidMatcher\<rparr>,
       deadlineTimes = new_times DeadlineMatcher 1000000,
       timeoutTimes = new_times TimeoutMatcher 1000000\<rparr>,
     jobs = (\<lambda>_. None),
     wl = \<lparr>workers = [''w'' \<mapsto> demo_worker IDLE], changeListener = True\<rparr>,
     chans = (\<lambda>_. \<lparr>buf = [], closed = False\<rparr>)(0 := \<lparr>buf = [IDLE], closed = False\<rparr>),
     next_chan = Suc 0,
     bgs = [0 \<mapsto> \<lparr>bg_uuid = ''w'', bg_pc = AtLoop no_operation, must_check = False\<rparr>]\<rparr>"

text \<open>
  After the registration the worker is in maintenance; a request to make it idle starts
  the preparation, which takes its goroutine fifteen steps.
\<close>

lemma run_prepared:
  "run_events demo_resolve
     (ERegister demo_caps ''d'' ''s'' # ESetState ''w'' ''IDLE'' # replicate 15 (EBackground None 7 0)) started
   = Some prepared"
  by (simp add: started_def prepared_def demo_worker_def demo_caps_def demo_resolve_def
      run_simps times_run_simps worker_run_simps)

lemma prepared_reachable: "reachable demo_resolve prepared"
  using run_events_reachable [OF _ run_prepared] by (simp add: started_def reachable.init)

section \<open>A request is served\<close>

definition demo_request :: "ReqState \<Rightarrow> JobInfo option \<Rightarrow> ReqInfo" where
  "demo_request st j = \<lparr>ID = 1, Prio = 3, Owner = \<lparr>uGroups = []\<rparr>, Deadline = 5000, DeadlineZone = 0, ValidAfter = 101, ValidAfterZone = 0,
     RState = st, RJob = j, RCaps = demo_caps\<rparr>"

definition waiting_server :: server where
  "waiting_server = prepared\<lparr>clock := (\<lambda>n. 102 + int n),
     rc := \<lparr>requests = [1 \<mapsto> demo_request WAIT None],
       rqueue = newPrioQueue\<lparr>queue := (queue newPrioQueue)[3 := Some [1]], qlength := 1\<rparr>, iterating = False,
       validAfterTimes = \<lparr>times = [RequestTime 100 0, RequestTime 101 1], timer = Some 100,
                          rt_matcher = Some ValidMatcher\<rparr>,
       deadlineTimes = \<lparr>times = [RequestTime 5000 1], timer = Some 5000, rt_matcher = Some DeadlineMatcher\<rparr>,
       timeoutTimes = new_times TimeoutMatcher 1000000\<rparr>\<rparr>"

definition demo_job :: Job where
  "demo_job = \<lparr>Access = \<lparr>Addr = \<lparr>IP = None, Port = 0\<rparr>, Key = 7, Username = defaultDryadUsername\<rparr>,
     jTunnel = \<lparr>tun_id = 0, dest = \<lparr>IP = Some ''10.0.0.7'', Port = 22\<rparr>, listener = \<lparr>IP = None, Port = 0\<rparr>\<rparr>,
     jReq = 1\<rparr>"

definition running_server :: server where
  "running_server = waiting_server\<lparr>clock := (\<lambda>n. 105 + int n), ports := (\<lambda>n. Some (1 + int n)),
     open_tunnels := {0}, next_tunnel := 1,
     rc := \<lparr>requests = [1 \<mapsto> demo_request INPROGRESS (Some \<lparr>jWorkerUUID = ''w'', Timeout_at = 103 + hour_ns, TimeoutZone = 0\<rparr>)],
       rqueue = newPrioQueue, iterating = False,
       validAfterTimes = \<lparr>times = [], timer = None, rt_matcher = Some ValidMatcher\<rparr>,
       deadlineTimes = \<lparr>times = [RequestTime 5000 1], timer = Some 5000, rt_matcher = Some DeadlineMatcher\<rparr>,
       timeoutTimes = \<lparr>times = [RequestTime (103 + hour_ns) 1], timer = Some (103 + hour_ns),
                       rt_matcher = Some TimeoutMatcher\<rparr>\<rparr>,
     jobs := [''w'' \<mapsto> demo_job],
     wl := \<lparr>workers = [''w'' \<mapsto> demo_worker RUN], changeListener = True\<rparr>,
     chans := (chans prepared)(0 := \<lparr>buf = [IDLE, RUN], closed = False\<rparr>)\<rparr>"

lemmas demo_defs = prepared_def demo_worker_def demo_request_def waiting_server_def demo_job_def
  running_server_def demo_resolve_def

lemma run_waiting:
  "run_events demo_resolve [ENewRequest demo_caps 3 \<lparr>uGroups = []\<rparr> 101 5000] prepared = Some waiting_server"
  by (simp add: demo_defs run_simps times_run_simps request_run_simps)

lemma demo_worker_matches:
  "Workers_Match (NewWorkers [] demo_caps) (WorkerElem (Some (info (demo_worker st))))"
  by (simp add: demo_caps_def demo_worker_def Workers_Match_NewWorkers satisfies_def)

lemma run_running: "run_events demo_resolve [EFire ValidAfterTimes 102] waiting_server = Some running_server"
  using demo_worker_matches [of IDLE]
  by (simp add: demo_defs demo_caps_def run_simps times_run_simps request_run_simps worker_run_simps
      match_run_simps)

lemma waiting_reachable: "reachable demo_resolve waiting_server"
  by (rule run_events_reachable [OF prepared_reachable run_waiting])

lemma running_reachable: "reachable demo_resolve running_server"
  by (rule run_events_reachable [OF waiting_reachable run_running])

section \<open>A request is too late\<close>

text \<open>
  Without workers the request waits until its deadline has passed; the clock of this run
  jumps behind it after the request has been made.
\<close>

definition overdue_server :: server where
  "overdue_server = (start_server (\<lambda>n. 6000) 0 (\<lambda>n. None) 1000000)\<lparr>
     rc := \<lparr>requests = [1 \<mapsto> demo_request WAIT None],
       rqueue = newPrioQueue\<lparr>queue := (queue newPrioQueue)[3 := Some [1]], qlength := 1\<rparr>, iterating = False,
       validAfterTimes = \<lparr>times = [RequestTime 101 1], timer = Some 101, rt_matcher = Some ValidMatcher\<rparr>,
       deadlineTimes = \<lparr>times = [RequestTime 5000 1], timer = Some 5000, rt_matcher = Some DeadlineMatcher\<rparr>,
       timeoutTimes = new_times TimeoutMatcher 1000000\<rparr>\<rparr>"

definition settled_server :: server where
  "settled_server = overdue_server\<lparr>
     rc := \<lparr>requests = [1 \<mapsto> demo_request TIMEOUT None], rqueue = newPrioQueue, iterating = False,
       validAfterTimes = \<lparr>times = [RequestTime 101 1], timer = Some 101, rt_matcher = Some ValidMatcher\<rparr>,
       deadlineTimes = \<lparr>times = [], timer = None, rt_matcher = Some DeadlineMatcher\<rparr>,
       timeoutTimes = new_times TimeoutMatcher 1000000\<rparr>\<rparr>"

lemma run_overdue:
  "run_events demo_resolve [ENewRequest demo_caps 3 \<lparr>uGroups = []\<rparr> 101 5000]
     (start_server (\<lambda>n. if n = 0 then 100 else 6000) 0 (\<lambda>n. None) 1000000) = Some overdue_server"
  by (simp add: overdue_server_def demo_request_def run_simps times_run_simps request_run_simps)

lemma overdue_reachable: "reachable demo_resolve overdue_server"
  by (rule run_events_reachable [OF reachable.init run_overdue])

lemma fire_settled: "run_event demo_resolve (EFire DeadlineTimes 5001) overdue_server = Returns ((), settled_server)"
  by (simp add: settled_server_def overdue_server_def demo_request_def run_simps times_run_simps request_run_simps
      match_run_simps deadline_notify_def Timeout_def)

end
