(* ===== verification/Preserves.thy ===== *)
theory Preserves
  imports Prelude
begin

text \<open>
  What a program leaves alone.  \<open>preserves f m\<close>: when \<open>m\<close> returns, the part \<open>f\<close> of
  the state is what it was.  The rules follow the structure of a program, so the proof for
  an operation is its unfolding.
\<close>

section \<open>Parts that are preserved\<close>

definition preserves :: "('s \<Rightarrow> 'f) \<Rightarrow> ('s, 'a) prog \<Rightarrow> bool" where
  "preserves f m \<longleftrightarrow> (\<forall>s a t. m s = Returns (a, t) \<longrightarrow> f t = f s)"

lemma preservesI: "(\<And>s a t. m s = Returns (a, t) \<Longrightarrow> f t = f s) \<Longrightarrow> preserves f m"
  by (simp add: preserves_def)

lemma preserves_wp: "preserves f m \<Longrightarrow> wpg b m Q s \<Longrightarrow> wpg b m (\<lambda>a t. Q a t \<and> f t = f s) s"
  by (auto simp: preserves_def wpg_def split: outcome.splits)

named_theorems preserves_intros \<open>rules for the part of the state a program preserves\<close>

lemma preserves_basic [preserves_intros]:
  "preserves f (ret a)" "preserves f (gets g)" "preserves f (panic e)" "preserves f block"
  "preserves f out_of_fuel"
  by (simp_all add: preserves_def ret_def gets_def panic_def block_def out_of_fuel_def)

lemma preserves_bnd [preserves_intros]:
  "preserves f m \<Longrightarrow> (\<And>a. preserves f (g a)) \<Longrightarrow> preserves f (bnd m g)"
  unfolding preserves_def bnd_def by (auto split: outcome.splits)

lemma preserves_thn [preserves_intros]: "preserves f m \<Longrightarrow> preserves f n \<Longrightarrow> preserves f (thn m n)"
  unfolding thn_def by (rule preserves_bnd)

lemma preserves_modify [preserves_intros]: "(\<And>s. f (h s) = f s) \<Longrightarrow> preserves f (modify h)"
  by (simp add: preserves_def modify_def)

lemma preserves_zoom [preserves_intros]: "(\<And>s q. f (put q s) = f s) \<Longrightarrow> preserves f (zoom get put m)"
  by (auto simp: preserves_def zoom_def split: outcome.splits)

lemma preserves_if [preserves_intros]:
  "preserves f m \<Longrightarrow> preserves f n \<Longrightarrow> preserves f (if c then m else n)"
  by simp

lemma preserves_cases [preserves_intros]:
  "preserves f m \<Longrightarrow> (\<And>a. preserves f (g a)) \<Longrightarrow> preserves f (case x of None \<Rightarrow> m | Some a \<Rightarrow> g a)"
  "(\<And>e. preserves f (h e)) \<Longrightarrow> (\<And>c. preserves f (k c)) \<Longrightarrow> preserves f (case y of Inl e \<Rightarrow> h e | Inr c \<Rightarrow> k c)"
  by (auto split: option.splits sum.splits)

lemma preserves_prod [preserves_intros]:
  "(\<And>a c. preserves f (g a c)) \<Longrightarrow> preserves f (case x of (a, c) \<Rightarrow> g a c)"
  by (simp split: prod.splits)

lemma preserves_let [preserves_intros]: "(\<And>a. preserves f (g a)) \<Longrightarrow> preserves f (let a = x in g a)"
  by simp

lemma preserves_for_each [preserves_intros]: "(\<And>x. preserves f (g x)) \<Longrightarrow> preserves f (for_each g xs)"
  by (induction xs) (auto intro: preserves_intros)

end
