(* ===== verification/Effects.thy ===== *)
theory Effects
  imports Dispatch Preserves
begin

text \<open>
  What an operation of the server leaves alone, and with that, what is true after a
  collection of times has been processed: nothing that is past by then is left.
\<close>

section \<open>The collections of times\<close>

text \<open>
  Settling a deadline or a timeout inserts nothing into the collection that is being
  processed, not even through the callbacks of the list of workers.
\<close>

lemmas op_defs = critical_def lock_def unlock_def get_requests_def get_workers_def upd_request_def upd_worker_def
  on_queue_def on_rt_def time_Now_def chan_send_def Tunnel_Close_def

lemma Timeout_times: "preserves (\<lambda>s. times_of DeadlineTimes (rc s)) (Timeout i)"
  unfolding Timeout_def removeRequest_def op_defs
  by (intro preserves_intros) simp_all

lemma setState_times: "k \<noteq> ValidAfterTimes \<Longrightarrow> preserves (\<lambda>s. times_of k (rc s)) (setState u st)"
  unfolding setState_def OnWorkerIdle_def OnWorkerFail_def times_insert_def jobs_Get_def finish_job_def op_defs
  by (intro preserves_intros) (simp_all add: times_set_times [of k ValidAfterTimes] del: set_times.simps times_of.simps)

lemma Close_times: "preserves (\<lambda>s. times_of TimeoutTimes (rc s)) (Close i)"
  unfolding Close_def closeRequest_def Finish_def finish_job_def PrepareWorker_def op_defs
  by (intro preserves_intros setState_times) simp_all

lemma Notify_times:
  assumes "k \<noteq> ValidAfterTimes"
  shows "preserves (\<lambda>s. times_of k (rc s)) (Notify (matcher_of k) past)"
  using assms
  by (cases k)
     (auto simp: Notify_def deadline_notify_def timeout_notify_def RM_def
       intro!: preserves_intros Timeout_times [simplified] Close_times [simplified])

section \<open>After a timer has fired\<close>

definition none_past :: "times_kind \<Rightarrow> time \<Rightarrow> server \<Rightarrow> bool" where
  "none_past k t s \<longleftrightarrow> (\<forall>x \<in> set (times (times_of k (rc s))). t \<le> rt_time x)"

lemma bnd_Returns:
  "bnd m f s = Returns (b, u) \<longleftrightarrow> (\<exists>a t. m s = Returns (a, t) \<and> f a t = Returns (b, u))"
  by (auto simp: bnd_def split: outcome.splits)

lemma critical_Returns:
  "critical l m s = Returns (a, u) \<longleftrightarrow> (l \<notin> held s \<and> (\<exists>t. m (s\<lparr>held := insert l (held s)\<rparr>) = Returns (a, t)
     \<and> l \<in> held t \<and> u = t\<lparr>held := held t - {l}\<rparr>))"
  by (auto simp: critical_def thn_def bnd_Returns lock_def unlock_def gets_def modify_def block_def panic_def
      ret_def split: if_splits)

lemma on_rt_Returns:
  "on_rt k m s = Returns (a, u) \<longleftrightarrow> (\<exists>rt. m (times_of k (rc s)) = Returns (a, rt) \<and> u = s\<lparr>rc := set_times k rt (rc s)\<rparr>)"
  by (auto simp: on_rt_def zoom_def split: outcome.splits)

lemma process_none_past:
  assumes run: "process k t s = Returns ((), u)" and heap: "rt_heap (times_of k (rc s))"
    and m: "rt_matcher (times_of k (rc s)) = Some (matcher_of k)" and k: "k \<noteq> ValidAfterTimes"
  shows "none_past k t u"
proof -
  obtain past v w x where
      past: "on_rt k (rt_take_past t) (s\<lparr>held := insert (TimesMutex k) (held s)\<rparr>) = Returns (past, v)"
    and notify: "(case rt_matcher (times_of k (rc v)) of None \<Rightarrow> ret () | Some mk \<Rightarrow> Notify mk past) v = Returns ((), w)"
    and rearm: "on_rt k rt_rearm w = Returns ((), x)" and u: "u = x\<lparr>held := held x - {TimesMutex k}\<rparr>"
    using run unfolding process_def by (auto simp: critical_Returns bnd_Returns thn_def gets_def)
  obtain rt where rt: "rt_take_past t (times_of k (rc s)) = Returns (past, rt)"
      "v = s\<lparr>held := insert (TimesMutex k) (held s), rc := set_times k rt (rc s)\<rparr>"
    using past by (auto simp: on_rt_Returns)
  note taken = wp_resultD [OF rt_take_past_spec [OF heap] rt(1)]
  have "Notify (matcher_of k) past v = Returns ((), w)"
    using notify taken m rt(2) by simp
  then have "times_of k (rc w) = rt"
    using Notify_times [OF k] rt(2) by (auto simp: preserves_def)
  then obtain rt' where rt': "rt_rearm rt = Returns ((), rt')" "x = w\<lparr>rc := set_times k rt' (rc w)\<rparr>"
    using rearm by (auto simp: on_rt_Returns)
  from wp_resultD [OF rt_rearm_spec rt'(1)] taken
  have "times rt' = times rt" "mset (times rt) = filter_mset (\<lambda>x. \<not> rt_time x < t) (mset (times (times_of k (rc s))))"
    by simp_all
  then have "\<forall>y \<in> set (times rt'). t \<le> rt_time y"
    by (metis (mono_tags, lifting) linorder_not_less mem_Collect_eq set_mset_filter set_mset_mset)
  then show ?thesis
    by (simp add: none_past_def u rt'(2))
qed

lemma fire_none_past:
  assumes "ok s" and "fire k t s = Returns ((), u)" and "k \<noteq> ValidAfterTimes"
  shows "none_past k t u"
proof -
  let ?s = "s\<lparr>rc := set_times k ((times_of k (rc s))\<lparr>timer := None\<rparr>) (rc s)\<rparr>"
  have "process k t ?s = Returns ((), u)"
    using assms(2) by (simp add: fire_def thn_def bnd_def on_rt_def zoom_def rt_stop_def modify_def)
  then show ?thesis
    by (rule process_none_past)
       (use assms(1,3) in \<open>auto simp: ok_def inv_def times_ok_def rt_heap_def\<close>)
qed

section \<open>After the matcher of valid requests has run\<close>

text \<open>
  If every tunnel can be created and the channels of the idle workers have room, the
  processing of the valid requests returns, and no request that is ready at the moment the
  matcher read the clock is left without a worker that could have served it.
\<close>

lemma okg_matcher: "okg E L s \<Longrightarrow> rt_matcher (times_of k (rc s)) = Some (matcher_of k)"
  using invD(3) [OF okg_inv] by (force simp: times_ok_def)

lemma wp_process_valid:
  assumes ok: "okg (taken ValidAfterTimes t []) {} s" and clock: "\<forall>n. clock s n \<in> C" and env: "env_ok False s"
  shows "wp (process ValidAfterTimes t) (\<lambda>_ u. \<exists>now \<in> C. t \<le> now \<and> (\<forall>i. \<not> pending_at u now i)) s"
proof -
  let ?L = "{TimesMutex ValidAfterTimes}" and ?s = "s\<lparr>held := {TimesMutex ValidAfterTimes}\<rparr>"
  let ?E = "(taken ValidAfterTimes t [])\<lparr>reading := (\<lambda>c. t \<le> c \<and> c \<in> C)\<rparr>"
  let ?Q = "\<lambda>u. \<exists>now \<in> C. t \<le> now \<and> (\<forall>i. \<not> pending_at u now i)"
  have rearm: "wp (on_rt ValidAfterTimes rt_rearm) (\<lambda>_ u. held u = ?L \<and> ?Q u) w"
    if w: "okg ?E ?L w" "?Q w" for w
  proof -
    have "okg (taken ValidAfterTimes t []) ?L w" by (rule okg_weaken [OF w(1)]) (simp_all add: taken_def)
    then have "wp (on_rt ValidAfterTimes rt_rearm) (\<lambda>_. okg strict ?L) w" by (rule rearm_okg)
    then have "wp (on_rt ValidAfterTimes rt_rearm) (\<lambda>_ u. okg strict ?L u
        \<and> (requests (rc u), workers (wl u)) = (requests (rc w), workers (wl w))) w"
      by (rule preserves_wp [rotated]) (simp add: on_rt_def preserves_zoom)
    then show ?thesis
      by (rule wp_mono) (use w(2) in \<open>auto simp: okg_def pending_at_def has_worker_def\<close>)
  qed
  have notify: "wp (thn (Notify ValidMatcher past) (on_rt ValidAfterTimes rt_rearm)) (\<lambda>_ u. held u = ?L \<and> ?Q u) v"
    if v: "okg (taken ValidAfterTimes t past) ?L v" "clock v = clock s" "ports v = ports s" "wl v = wl s" "chans v = chans s"
    for past v
  proof -
    have "okg ?E ?L v"
      using v(1,2) clock by (auto simp: okg_def taken_def)
    moreover have "lock_free ?E ?L" by (simp add: lock_free_def taken_def)
    moreover have "env_ok False v" using env v by (simp add: env_ok_def room_def)
    ultimately show ?thesis
      unfolding wp_thn by (rule wp_mono [OF valid_notify_okg]) (use rearm in auto)
  qed
  have "okg (taken ValidAfterTimes t []) ?L ?s" using ok by (simp add: okg_def)
  then have "wp (on_rt ValidAfterTimes (rt_take_past t)) (\<lambda>past. okg (taken ValidAfterTimes t past) ?L) ?s"
    by (rule take_past_okg)
  then have "wp (on_rt ValidAfterTimes (rt_take_past t)) (\<lambda>past u. okg (taken ValidAfterTimes t past) ?L u
      \<and> (clock u, ports u, wl u, chans u) = (clock ?s, ports ?s, wl ?s, chans ?s)) ?s"
    by (rule preserves_wp [rotated]) (simp add: on_rt_def preserves_zoom)
  then have "wp (on_rt ValidAfterTimes (rt_take_past t)) (\<lambda>past. wp (bnd (gets (\<lambda>s. rt_matcher (times_of ValidAfterTimes (rc s)))) (\<lambda>m.
     thn (case m of None \<Rightarrow> ret () | Some mk \<Rightarrow> Notify mk past) (on_rt ValidAfterTimes rt_rearm)))
       (\<lambda>_ u. held u = ?L \<and> ?Q u)) ?s"
  proof (rule wp_mono)
    fix past v
    assume v: "okg (taken ValidAfterTimes t past) ?L v
      \<and> (clock v, ports v, wl v, chans v) = (clock ?s, ports ?s, wl ?s, chans ?s)"
    then have "rt_matcher (times_of ValidAfterTimes (rc v)) = Some ValidMatcher"
      using okg_matcher [of _ _ v ValidAfterTimes] by auto
    with notify [of past v] v show "wp (bnd (gets (\<lambda>s. rt_matcher (times_of ValidAfterTimes (rc s)))) (\<lambda>m.
     thn (case m of None \<Rightarrow> ret () | Some mk \<Rightarrow> Notify mk past) (on_rt ValidAfterTimes rt_rearm)))
       (\<lambda>_ u. held u = ?L \<and> ?Q u) v"
      by (simp add: wp_bnd wp_gets)
  qed
  then have "wp (bnd (on_rt ValidAfterTimes (rt_take_past t)) (\<lambda>past. bnd (gets (\<lambda>s. rt_matcher (times_of ValidAfterTimes (rc s)))) (\<lambda>m.
     thn (case m of None \<Rightarrow> ret () | Some mk \<Rightarrow> Notify mk past) (on_rt ValidAfterTimes rt_rearm))))
       (\<lambda>_ u. TimesMutex ValidAfterTimes \<in> held u \<and> ?Q (u\<lparr>held := held u - ?L\<rparr>)) ?s"
    unfolding wp_bnd [of _ "on_rt ValidAfterTimes (rt_take_past t)"]
    by (elim wp_mono) (auto simp: pending_at_def has_worker_def)
  then show ?thesis
    by (simp add: process_def wp_critical okg_held [OF ok])
qed

lemma wp_fire_valid:
  assumes ok: "ok s" and t: "\<And>n. t \<le> clock s n" and env: "env_ok False s"
  shows "wp (fire ValidAfterTimes t) (\<lambda>_ u. \<exists>now \<in> range (clock s). t \<le> now \<and> (\<forall>i. \<not> pending_at u now i)) s"
proof -
  let ?s = "s\<lparr>rc := set_times ValidAfterTimes ((times_of ValidAfterTimes (rc s))\<lparr>timer := None\<rparr>) (rc s)\<rparr>"
  have "wp (on_rt ValidAfterTimes rt_stop) (\<lambda>_. okg (taken ValidAfterTimes t []) {}) s"
    by (rule stop_okg) (use ok t in \<open>simp_all add: ok_okg\<close>)
  then have "okg (taken ValidAfterTimes t []) {} ?s"
    by (simp add: wp_simps rt_stop_def)
  then have "wp (process ValidAfterTimes t) (\<lambda>_ u. \<exists>now \<in> range (clock s). t \<le> now \<and> (\<forall>i. \<not> pending_at u now i)) ?s"
    by (rule wp_process_valid) (use env in \<open>simp_all add: env_ok_def room_def\<close>)
  then show ?thesis
    by (simp add: fire_def wp_simps rt_stop_def)
qed

end
