(* ===== verification/Guarantees.thy ===== *)
theory Guarantees
  imports Scenario Effects
begin

text \<open>
  What holds in every reachable state, read off the invariant, and what every event does
  in it: no panic, no exhausted loop bound, and no blocking but on a full channel, on an
  empty one, or on a mutex the caller itself holds.
\<close>

section \<open>Reading the invariant\<close>

lemma reachable_parts:
  assumes "reachable resolve s"
  shows "data_ok (requests (rc s))" "queue_ok (requests (rc s)) (rqueue (rc s))" "times_ok {} (rc s)"
    "sched_ok nobody nobody (rc s)" "job_ok (requests (rc s)) (jobs s) (open_tunnels s) (next_tunnel s)"
    "run_ok {} (jobs s) (workers (wl s))" "wk_ok (workers (wl s)) (chans s) (next_chan s) (bgs s)" "held s = {}"
  using reachable_ok [OF assms] invD [of "{}" nobody nobody "{}" s] by (auto simp: ok_def)

lemma armed_timer:
  assumes "times_ok {} c" and "scheduled (times_of k c) i t"
  shows "\<exists>f. timer (times_of k c) = Some f \<and> f \<le> t"
  using assms by (force simp: times_ok_def rt_armed_def scheduled_def)

section \<open>Events\<close>

text \<open>
  C1. No event panics, whatever came before: not the lookup of a request or a job, not the
  queue with its indices, not a channel or tunnel closed twice, not a missing key.  No
  loop needs more turns than its bound.
\<close>

theorem events_never_panic:
  assumes "reachable resolve s" and "enabled e s"
  shows "run_event resolve e s = Blocks \<or> (\<exists>t. run_event resolve e s = Returns ((), t))"
  using run_event_ok [OF reachable_ok [OF assms(1)] assms(2), of resolve]
  by (auto simp: safe_iff)

lemma events_never_panic_witness:
  "run_event demo_resolve (EFire ValidAfterTimes 102) waiting_server = Blocks
   \<or> (\<exists>t. run_event demo_resolve (EFire ValidAfterTimes 102) waiting_server = Returns ((), t))"
  by (rule events_never_panic [OF waiting_reachable]) (simp add: waiting_server_def timer_due_def)

text \<open>
  The calls of users, administrators and Dryads.  As an event such a call is not cut by another
  one; the waiting of calls for each other is the subject of \<open>Crossing\<close>.
\<close>

fun api_call :: "event \<Rightarrow> bool" where
  "api_call (EFire k t) = False"
| "api_call (EBackground a k c) = False"
| "api_call _ = True"

lemma keeps_ok_returns: "keeps_ok m \<Longrightarrow> ok s \<Longrightarrow> all_room s \<Longrightarrow> wp (ignore m) (\<lambda>_. ok) s"
  by (simp add: keeps_ok_def ignore_def wp_simps)

section \<open>Requests\<close>

lemma reachable_queue:
  assumes "reachable resolve s"
  shows "\<And>i p. i \<in> set (view (rqueue (rc s)) p) \<longleftrightarrow> (\<exists>r. requests (rc s) i = Some r \<and> RState r = WAIT \<and> Prio r = p)"
    and "distinct (contents (rqueue (rc s)))"
    and "qlength (rqueue (rc s)) = card {i. \<exists>r. requests (rc s) i = Some r \<and> RState r = WAIT}"
proof -
  let ?q = "rqueue (rc s)"
  have q: "q_inv ?q" and w: "\<And>i p. i \<in> set (view ?q p) \<longleftrightarrow> (\<exists>r. requests (rc s) i = Some r \<and> RState r = WAIT \<and> Prio r = p)"
    using reachable_parts(2) [OF assms] by (auto simp: queue_ok_def pq.waiting_def)
  show "i \<in> set (view ?q p) \<longleftrightarrow> (\<exists>r. requests (rc s) i = Some r \<and> RState r = WAIT \<and> Prio r = p)" for i p
    by (rule w)
  show d: "distinct (contents ?q)" using q by (rule distinct_contents)
  have "set (contents ?q) = {i. \<exists>r. requests (rc s) i = Some r \<and> RState r = WAIT}"
    using q w by (auto simp: q_inv_def set_contents)
  then show "qlength ?q = card {i. \<exists>r. requests (rc s) i = Some r \<and> RState r = WAIT}"
    using distinct_card [OF d] qlength_contents [OF q] by simp
qed

text \<open>
  C7. The queue holds exactly the waiting requests, each once and in the list of its own
  priority, and counts them.
\<close>

theorem queue_holds_waiting:
  assumes "reachable resolve s"
  shows "(\<forall>p. set (view (rqueue (rc s)) p) = {i. \<exists>r. requests (rc s) i = Some r \<and> RState r = WAIT \<and> Prio r = p})
    \<and> distinct (contents (rqueue (rc s)))
    \<and> qlength (rqueue (rc s)) = card {i. \<exists>r. requests (rc s) i = Some r \<and> RState r = WAIT}"
  using reachable_queue [OF assms] by (intro conjI allI set_eqI) simp_all

lemma queue_holds_waiting_witness:
  "qlength (rqueue (rc waiting_server)) = card {i. \<exists>r. requests (rc waiting_server) i = Some r \<and> RState r = WAIT}"
  using queue_holds_waiting [OF waiting_reachable] by blast

text \<open>
  C5. A request in progress is served: it has a job whose worker is in state RUN and has a
  key, the job belongs to this request, and its tunnel is open.
\<close>

theorem running_request_is_served:
  assumes "reachable resolve s" and "requests (rc s) i = Some r" and "RState r = INPROGRESS"
  shows "\<exists>ji w j. RJob r = Some ji \<and> workers (wl s) (jWorkerUUID ji) = Some w
    \<and> WState (info w) = RUN \<and> wkey w \<noteq> None
    \<and> jobs s (jWorkerUUID ji) = Some j \<and> jReq j = i \<and> tun_id (jTunnel j) \<in> open_tunnels s"
proof -
  note parts = reachable_parts [OF assms(1)]
  obtain ji where ji: "RJob r = Some ji" using data_okD [OF parts(1) assms(2)] assms(3) by blast
  then have "runs_on r (jWorkerUUID ji)" using assms(3) by (simp add: runs_on_def)
  then obtain j where j: "jobs s (jWorkerUUID ji) = Some j" "jReq j = i"
    using parts(5) assms(2) unfolding job_ok_def by blast
  then obtain w where w: "workers (wl s) (jWorkerUUID ji) = Some w" "WState (info w) = RUN"
    using parts(6) by (force simp: run_ok_def)
  have "wkey w \<noteq> None" using wk_okD(2) [OF parts(7) w(1)] w(2) by (simp add: has_key_def)
  with ji j w job_ok_tunnel [OF parts(5) j(1)] show ?thesis by blast
qed

lemma running_request_is_served_witness:
  "\<exists>ji w j. RJob (demo_request INPROGRESS (Some \<lparr>jWorkerUUID = ''w'', Timeout_at = 103 + hour_ns, TimeoutZone = 0\<rparr>)) = Some ji
    \<and> workers (wl running_server) (jWorkerUUID ji) = Some w \<and> WState (info w) = RUN \<and> wkey w \<noteq> None
    \<and> jobs running_server (jWorkerUUID ji) = Some j \<and> jReq j = 1
    \<and> tun_id (jTunnel j) \<in> open_tunnels running_server"
  by (rule running_request_is_served [OF running_reachable]) (simp_all add: running_server_def demo_request_def)

text \<open>
  C6. A worker in state RUN serves exactly one request: two users never share a device.
\<close>

theorem running_worker_serves_one:
  assumes "reachable resolve s" and "workers (wl s) u = Some w" and "WState (info w) = RUN"
  shows "\<exists>!i. \<exists>r. requests (rc s) i = Some r \<and> runs_on r u"
proof -
  note parts = reachable_parts [OF assms(1)]
  obtain j where j: "jobs s u = Some j" using parts(6) assms(2,3) by (force simp: run_ok_def)
  then have "\<exists>r. requests (rc s) (jReq j) = Some r \<and> runs_on r u" by (rule job_ok_request [OF parts(5)])
  moreover have "i = jReq j" if "\<exists>r. requests (rc s) i = Some r \<and> runs_on r u" for i
    using that parts(5) j unfolding job_ok_def by fastforce
  ultimately show ?thesis by blast
qed

lemma running_worker_serves_one_witness:
  "\<exists>!i. \<exists>r. requests (rc running_server) i = Some r \<and> runs_on r ''w''"
  by (rule running_worker_serves_one [OF running_reachable, of _ "demo_worker RUN"])
     (simp_all add: running_server_def demo_worker_def)

text \<open>
  C15. No tunnel leaks: the open tunnels are those of the jobs, one each.
\<close>

theorem tunnels_belong_to_jobs:
  assumes "reachable resolve s"
  shows "bij_betw (\<lambda>u. tun_id (jTunnel (the (jobs s u)))) (dom (jobs s)) (open_tunnels s)"
proof -
  note jobs = reachable_parts(5) [OF assms]
  have "inj_on (\<lambda>u. tun_id (jTunnel (the (jobs s u)))) (dom (jobs s))"
    by (rule inj_onI) (auto intro: job_ok_distinct [OF jobs])
  moreover have "t \<in> open_tunnels s \<longleftrightarrow> (\<exists>u j. jobs s u = Some j \<and> tun_id (jTunnel j) = t)" for t
    using jobs unfolding job_ok_def by blast
  then have "(\<lambda>u. tun_id (jTunnel (the (jobs s u)))) ` dom (jobs s) = open_tunnels s"
    by (auto simp: dom_def image_iff) (metis option.sel)+
  ultimately show ?thesis by (rule bij_betw_imageI)
qed

lemma tunnels_belong_to_jobs_witness:
  "bij_betw (\<lambda>u. tun_id (jTunnel (the (jobs running_server u)))) (dom (jobs running_server)) (open_tunnels running_server)"
  by (rule tunnels_belong_to_jobs [OF running_reachable])

text \<open>
  C8. No deadline and no timeout is forgotten: the deadline of every waiting request and
  the timeout of every running one are scheduled, and the timer is set for no later.
\<close>

theorem deadlines_and_timeouts_scheduled:
  assumes "reachable resolve s" and "requests (rc s) i = Some r"
  shows "(RState r = WAIT \<longrightarrow> scheduled (deadlineTimes (rc s)) i (Deadline r)
           \<and> (\<exists>f. timer (deadlineTimes (rc s)) = Some f \<and> f \<le> Deadline r))
    \<and> (\<forall>ji. RState r = INPROGRESS \<and> RJob r = Some ji \<longrightarrow> scheduled (timeoutTimes (rc s)) i (Timeout_at ji)
           \<and> (\<exists>f. timer (timeoutTimes (rc s)) = Some f \<and> f \<le> Timeout_at ji))"
proof -
  note parts = reachable_parts [OF assms(1)]
  have "scheduled (deadlineTimes (rc s)) i (Deadline r)" if "RState r = WAIT"
    using parts(4) assms(2) that by (simp add: sched_ok_def nobody_def)
  moreover have "scheduled (timeoutTimes (rc s)) i (Timeout_at ji)" if "RState r = INPROGRESS" "RJob r = Some ji" for ji
    using parts(4) assms(2) that by (simp add: sched_ok_def nobody_def)
  ultimately show ?thesis
    using armed_timer [OF parts(3), of DeadlineTimes] armed_timer [OF parts(3), of TimeoutTimes] by auto
qed

lemma deadlines_and_timeouts_scheduled_witness:
  "scheduled (deadlineTimes (rc waiting_server)) 1 5000
     \<and> (\<exists>f. timer (deadlineTimes (rc waiting_server)) = Some f \<and> f \<le> 5000)"
  using deadlines_and_timeouts_scheduled [OF waiting_reachable, of 1 "demo_request WAIT None"]
  by (simp add: waiting_server_def demo_request_def)

text \<open>
  C9. After a timer has fired at \<open>t\<close> and its collection has been processed, no request
  waits with a deadline before \<open>t\<close>, and none runs with a timeout before \<open>t\<close>.
\<close>

theorem fired_timers_settle:
  assumes "reachable resolve s" and "enabled (EFire k t) s"
    and "run_event resolve (EFire k t) s = Returns ((), u)" and "requests (rc u) i = Some r"
  shows "(k = DeadlineTimes \<and> RState r = WAIT \<longrightarrow> t \<le> Deadline r)
    \<and> (\<forall>ji. k = TimeoutTimes \<and> RState r = INPROGRESS \<and> RJob r = Some ji \<longrightarrow> t \<le> Timeout_at ji)"
proof -
  have "step resolve s u" using assms(2,3) by (rule step.event)
  with assms(1) have "reachable resolve u" by (rule reachable.more)
  note sched = reachable_parts(4) [OF this]
  have past: "none_past k t u" if "k \<noteq> ValidAfterTimes"
    by (rule fire_none_past [OF reachable_ok [OF assms(1)] _ that]) (use assms(3) in simp)
  have "t \<le> Deadline r" if "k = DeadlineTimes" "RState r = WAIT"
    using sched past that assms(4) by (force simp: sched_ok_def nobody_def scheduled_def none_past_def)
  moreover have "t \<le> Timeout_at ji" if "k = TimeoutTimes" "RState r = INPROGRESS" "RJob r = Some ji" for ji
    using sched past that assms(4) by (force simp: sched_ok_def nobody_def scheduled_def none_past_def)
  ultimately show ?thesis by blast
qed

lemma fired_timers_settle_witness:
  "\<not> (RState (demo_request TIMEOUT None) = WAIT \<and> Deadline (demo_request TIMEOUT None) < 5001)"
  using fired_timers_settle [OF overdue_reachable _ fire_settled, of 1 "demo_request TIMEOUT None"]
  by (auto simp: settled_server_def overdue_server_def start_server_def timer_due_def)

text \<open>
  C2. The matcher leaves no match behind.  When the timer of the valid requests fires, every
  tunnel can be created and the channels of the idle workers have room, the call returns,
  and no waiting request that is valid, and not past its deadline, at the moment the matcher
  last read the clock is left while an idle worker satisfies it.
\<close>

theorem matching_is_complete:
  assumes "reachable resolve s" and "enabled (EFire ValidAfterTimes t) s" and "\<And>n. ports s n \<noteq> None"
    and "\<And>u w. workers (wl s) u = Some w \<Longrightarrow> WState (info w) = IDLE \<Longrightarrow> room s w"
  shows "\<exists>u now. run_event resolve (EFire ValidAfterTimes t) s = Returns ((), u)
    \<and> now \<in> range (clock s) \<and> t \<le> now
    \<and> (\<forall>i r v w. requests (rc u) i = Some r \<longrightarrow> is_ready r now \<longrightarrow> workers (wl u) v = Some w \<longrightarrow>
         \<not> eligible (uGroups (Owner r)) (RCaps r) w)"
proof -
  have "wp (fire ValidAfterTimes t) (\<lambda>_ u. \<exists>now \<in> range (clock s). t \<le> now \<and> (\<forall>i. \<not> pending_at u now i)) s"
    using assms reachable_ok [OF assms(1)] by (intro wp_fire_valid) (auto simp: env_ok_def)
  then obtain u where "fire ValidAfterTimes t s = Returns ((), u)"
      "\<exists>now \<in> range (clock s). t \<le> now \<and> (\<forall>i. \<not> pending_at u now i)"
    by (auto simp: wp_iff)
  then show ?thesis
    by (fastforce simp: pending_at_def has_worker_def)
qed

lemma matching_is_complete_witness:
  "\<exists>u now. run_event demo_resolve (EFire ValidAfterTimes 102) waiting_server = Returns ((), u)
    \<and> now \<in> range (clock waiting_server) \<and> 102 \<le> now
    \<and> (\<forall>i r v w. requests (rc u) i = Some r \<longrightarrow> is_ready r now \<longrightarrow> workers (wl u) v = Some w \<longrightarrow>
         \<not> eligible (uGroups (Owner r)) (RCaps r) w)"
  by (rule matching_is_complete [OF waiting_reachable])
     (auto simp: waiting_server_def prepared_def timer_due_def room_def demo_worker_def
       backgroundOperationsBufferSize_def split: if_splits)

end
