(* ===== verification/Listing.thy ===== *)
theory Listing
  imports RequestList WorkerPages Guarantees
begin

text \<open>
  What a client sees of the listings in any reachable state: each page is a part of the
  sorted list of all matches, and reading page after page returns all of it.
\<close>

section \<open>Pages\<close>

lemma reachable_requests:
  assumes "reachable resolve s"
  shows "\<forall>i r. requests (rc s) i = Some r \<longrightarrow> ID r = i" and "finite (dom (requests (rc s)))"
    and "requests (rc s) 0 = None"
proof -
  obtain n where n: "dom (requests (rc s)) = {1..n}"
    using reachable_parts(1) [OF assms] by (auto simp: data_ok_def)
  then show "finite (dom (requests (rc s)))" by simp
  show "requests (rc s) 0 = None" using n by (metis atLeastAtMost_iff domIff not_one_le_zero)
  show "\<forall>i r. requests (rc s) i = Some r \<longrightarrow> ID r = i"
    using reachable_parts(1) [OF assms] by (simp add: data_ok_def)
qed

lemma reachable_workers:
  assumes "reachable resolve s"
  shows "\<forall>u w. workers (wl s) u = Some w \<longrightarrow> WUUID (info w) = u" and "finite (dom (workers (wl s)))"
  using reachable_parts(7) [OF assms] by (simp_all add: wk_ok_def)

text \<open>
  C24. \<open>ListRequests\<close> returns the right page.  Of the matching requests in the order asked
  for, those beyond the border count; a page forward holds the first of them and a page
  backward the last, up to the limit.  The numbers returned with it are the number of
  matching requests, whether the border matches or not, and of those left beyond the page.
\<close>

theorem list_requests_page:
  fixes filt :: "(list_elem \<Rightarrow> bool) option"
  assumes "reachable resolve s" and "card (dom (requests (rc s))) < 2 ^ 64"
    and "r_newSorter si = Inr (item, order)" and "rpID p \<noteq> 0 \<Longrightarrow> requests (rc s) (rpID p) \<noteq> None"
  defines "rest \<equiv> rest_of_requests item order (rpDirection p) (rpID p) (accepts filt) (requests (rc s))"
  shows "\<exists>info. ListRequests filt si (Some p) s
      = Returns (Inr (page_from (rpDirection p) (unat (page_limit (rpLimit p))) rest, info), s)
    \<and> unat (TotalItems info) = card {i. \<exists>r. requests (rc s) i = Some r \<and> accepts filt r}
    \<and> unat (RemainingItems info) = length rest - length (page_from (rpDirection p) (unat (page_limit (rpLimit p))) rest)"
proof -
  note reqs = reachable_requests [OF assms(1)]
  have "wp (ListRequests filt si (Some p)) (\<lambda>r t. t = s \<and> (\<exists>info.
      r = Inr (page_from (rpDirection p) (unat (page_limit (rpLimit p))) rest, info)
    \<and> unat (TotalItems info) = card {i. \<exists>r. requests (rc s) i = Some r \<and> accepts filt r}
    \<and> unat (RemainingItems info) = length rest - length (page_from (rpDirection p) (unat (page_limit (rpLimit p))) rest))) s"
    by (rule wp_ListRequests [OF reqs(1,2) assms(2) reqs(3) _ assms(3,4)])
       (simp_all add: reachable_parts(8) [OF assms(1)] rest_def)
  then show ?thesis by (auto simp: wp_iff)
qed

lemma list_requests_page_witness:
  "\<exists>info. ListRequests None None (Some \<lparr>rpID = 0, rpDirection = DirectionForward, rpLimit = 1\<rparr>) running_server
    = Returns (Inr (page_from DirectionForward (unat (page_limit 1))
        (rest_of_requests ByID SortOrderAsc DirectionForward 0 (accepts None) (requests (rc running_server))), info), running_server)"
proof -
  have "card (dom (requests (rc running_server))) < 2 ^ 64"
    by (simp add: running_server_def)
  from list_requests_page [OF running_reachable this, of None ByID SortOrderAsc
      "\<lparr>rpID = 0, rpDirection = DirectionForward, rpLimit = 1\<rparr>" None]
  show ?thesis by (auto simp: r_newSorter_def ToLower_def)
qed

text \<open>
  A listing that asks for an unknown order or an unknown border is refused, and reads
  nothing.
\<close>

theorem list_requests_refused:
  assumes "reachable resolve s"
  shows "(\<forall>err. r_newSorter si = Inl err \<longrightarrow> ListRequests filt si (Some p) s = Returns (Inl ErrWrongSortItem, s))
    \<and> (\<forall>item order. r_newSorter si = Inr (item, order) \<and> rpID p \<noteq> 0 \<and> requests (rc s) (rpID p) = None \<longrightarrow>
         ListRequests filt si (Some p) s = Returns (Inl (NotFoundError ''request''), s))"
proof (intro conjI allI impI)
  fix err assume err: "r_newSorter si = Inl err"
  then have "err = ErrWrongSortItem"
    by (auto simp: r_newSorter_def Let_def split: if_splits)
  with err show "ListRequests filt si (Some p) s = Returns (Inl ErrWrongSortItem, s)"
    by (simp add: ListRequests_def ret_def)
next
  fix item order
  assume "r_newSorter si = Inr (item, order) \<and> rpID p \<noteq> 0 \<and> requests (rc s) (rpID p) = None"
  moreover have "held s = {}" by (rule reachable_parts(8) [OF assms])
  ultimately have "wp (ListRequests filt si (Some p)) (\<lambda>r t. r = Inl (NotFoundError ''request'') \<and> t = s) s"
    by (simp add: ListRequests_def matching_requests_def wp_simps Let_def)
  then show "ListRequests filt si (Some p) s = Returns (Inl (NotFoundError ''request''), s)"
    by (simp add: wp_iff)
qed

lemma list_requests_refused_witness:
  "ListRequests None (Some \<lparr>Item = ''size'', Order = SortOrderAsc\<rparr>) (Some \<lparr>rpID = 0, rpDirection = DirectionForward, rpLimit = 1\<rparr>)
     running_server = Returns (Inl ErrWrongSortItem, running_server)"
  using list_requests_refused [OF running_reachable, of "Some \<lparr>Item = ''size'', Order = SortOrderAsc\<rparr>" None
      "\<lparr>rpID = 0, rpDirection = DirectionForward, rpLimit = 1\<rparr>"]
  by (simp add: r_newSorter_def ToLower_def char_lower_def Let_def)

text \<open>
  C25. \<open>ListWorkers\<close> returns the right page of the workers in the same way.  No worker may
  have registered with an empty UUID, which stands for "no border".
\<close>

theorem list_workers_page:
  fixes filt :: "(list_elem \<Rightarrow> bool) option"
  assumes "reachable resolve s" and "card (dom (workers (wl s))) < 2 ^ 64" and "workers (wl s) '''' = None"
    and "w_newSorter si = Inr (item, order)" and "wpID p \<noteq> '''' \<Longrightarrow> workers (wl s) (wpID p) \<noteq> None"
  defines "rest \<equiv> rest_of_workers item order (wpDirection p) (wpID p) (accepts_worker filt) (workers (wl s))"
  shows "\<exists>li. ListWorkers filt si (Some p) s
      = Returns (Inr (page_from (wpDirection p) (unat (page_limit (wpLimit p))) rest, li), s)
    \<and> unat (TotalItems li) = card {u. \<exists>w. workers (wl s) u = Some w \<and> accepts_worker filt (info w)}
    \<and> unat (RemainingItems li) = length rest - length (page_from (wpDirection p) (unat (page_limit (wpLimit p))) rest)"
proof -
  note wks = reachable_workers [OF assms(1)]
  have "wp (ListWorkers filt si (Some p)) (\<lambda>r t. t = s \<and> (\<exists>li.
      r = Inr (page_from (wpDirection p) (unat (page_limit (wpLimit p))) rest, li)
    \<and> unat (TotalItems li) = card {u. \<exists>w. workers (wl s) u = Some w \<and> accepts_worker filt (info w)}
    \<and> unat (RemainingItems li) = length rest - length (page_from (wpDirection p) (unat (page_limit (wpLimit p))) rest))) s"
    by (rule wp_ListWorkers [OF wks assms(2,3) _ assms(4,5)])
       (simp_all add: reachable_parts(8) [OF assms(1)] rest_def)
  then show ?thesis by (auto simp: wp_iff)
qed

lemma list_workers_page_witness:
  "\<exists>li. ListWorkers None None (Some \<lparr>wpID = ''w'', wpDirection = DirectionBackward, wpLimit = 1\<rparr>) running_server
    = Returns (Inr (page_from DirectionBackward (unat (page_limit 1))
        (rest_of_workers ByUUID SortOrderAsc DirectionBackward ''w'' (accepts_worker None) (workers (wl running_server))), li), running_server)"
proof -
  have "card (dom (workers (wl running_server))) < 2 ^ 64" "workers (wl running_server) '''' = None"
    by (simp_all add: running_server_def)
  from list_workers_page [OF running_reachable this, of None ByUUID SortOrderAsc
      "\<lparr>wpID = ''w'', wpDirection = DirectionBackward, wpLimit = 1\<rparr>" None]
  show ?thesis by (auto simp: w_newSorter_def running_server_def)
qed

section \<open>Reading all pages\<close>

text \<open>
  A client that reads on with the last request of each page as the border of the next,
  until nothing remains.
\<close>

fun read_pages :: "nat \<Rightarrow> (list_elem \<Rightarrow> bool) option \<Rightarrow> SortInfo option \<Rightarrow> 16 word \<Rightarrow> ReqID \<Rightarrow> server
    \<Rightarrow> ReqInfo list option" where
  "read_pages 0 filt si limit pid s = None"
| "read_pages (Suc n) filt si limit pid s =
     (case ListRequests filt si (Some \<lparr>rpID = pid, rpDirection = DirectionForward, rpLimit = limit\<rparr>) s of
        Returns (Inr (page, li), t) \<Rightarrow>
          if RemainingItems li = 0 then Some page
          else map_option (\<lambda>rest. page @ rest) (read_pages n filt si limit (ID (last page)) t)
      | _ \<Rightarrow> None)"

lemma rest_after:
  assumes fin: "finite (dom m)" and ids: "\<forall>i r. m i = Some r \<longrightarrow> ID r = i" and zero: "m 0 = None"
    and split: "filter p (go_sort (r_Less item order) (all_requests m)) = xs @ x # ys"
  shows "ID x \<noteq> 0 \<and> m (ID x) = Some x \<and> rest_of_requests item order DirectionForward (ID x) p m = ys"
proof -
  let ?s = "go_sort (r_Less item order) (all_requests m)"
  note all = all_requests [OF fin ids]
  have "x \<in> set (filter p ?s)" unfolding split by simp
  then have "x \<in> ran m" using all(2) by simp
  then have x: "m (ID x) = Some x" using ids by (auto simp: ran_def)
  have "distinct (map ID ?s)"
    using all(1) by (metis mset_eq_imp_distinct_iff mset_go_sort mset_map)
  then have "sorted_wrt (r_Less item order) (xs @ x # ys)" "distinct (map ID (xs @ x # ys))"
    unfolding split [symmetric] by (simp_all add: sorted_wrt_filter rs.go_sort_sorted all(1) distinct_map_filter)
  from rs.split_at_border(1) [OF this]
  have "ys = filter (\<lambda>r. ID r \<noteq> ID x \<and> r_Less item order x r) (filter p ?s)"
    unfolding split by (simp add: rs.after_def [abs_def])
  then have "rest_of_requests item order DirectionForward (ID x) p m = ys"
    using x zero by (auto simp: rest_of_requests_def conj_commute conj_left_commute intro!: filter_cong)
  with x zero show ?thesis by (metis option.distinct(1))
qed

lemma read_pages_from:
  assumes s: "reachable resolve s" "card (dom (requests (rc s))) < 2 ^ 64" and si: "r_newSorter si = Inr (item, order)"
    and split: "filter (accepts filt) (go_sort (r_Less item order) (all_requests (requests (rc s)))) = xs @ ys"
    and pid: "pid = (if xs = [] then 0 else ID (last xs))" and fuel: "length ys < n"
  shows "read_pages n filt si limit pid s = Some ys"
  using split pid fuel
proof (induction n arbitrary: xs ys pid)
  case (Suc n)
  let ?m = "requests (rc s)"
  let ?p = "\<lparr>rpID = pid, rpDirection = DirectionForward, rpLimit = limit\<rparr>"
  let ?lim = "unat (page_limit limit)"
  note reqs = reachable_requests [OF s(1)]
  have rest: "rest_of_requests item order DirectionForward pid (accepts filt) ?m = ys \<and> (pid \<noteq> 0 \<longrightarrow> ?m pid \<noteq> None)"
  proof (cases "xs = []")
    case True
    with Suc.prems show ?thesis by (simp add: rest_of_requests_def)
  next
    case False
    then have "filter (accepts filt) (go_sort (r_Less item order) (all_requests ?m)) = butlast xs @ last xs # ys"
      using Suc.prems(1) by simp
    from rest_after [OF reqs(2,1,3) this] False Suc.prems(2) show ?thesis by auto
  qed
  obtain li where li: "ListRequests filt si (Some ?p) s = Returns (Inr (take ?lim ys, li), s)"
      "unat (RemainingItems li) = length ys - length (take ?lim ys)"
    using list_requests_page [OF s si, of ?p filt] rest by (auto simp: page_from_def)
  show ?case
  proof (cases "RemainingItems li = 0")
    case True
    with li(2) have "take ?lim ys = ys" by simp
    with True li(1) show ?thesis by simp
  next
    case False
    then have "unat (RemainingItems li) \<noteq> 0" by (simp add: unat_eq_0)
    with li(2) have len: "?lim < length ys" by simp
    have lim: "0 < ?lim" by (auto simp: page_limit_def MaxPageLimit_def unat_gt_0)
    let ?page = "take ?lim ys"
    have "?page \<noteq> []" using len lim by (metis length_greater_0_conv length_take min.absorb4)
    then have "read_pages n filt si limit (ID (last ?page)) s = Some (drop ?lim ys)"
      by (intro Suc.IH [where xs = "xs @ ?page"]) (use Suc.prems lim len in auto)
    with False li(1) show ?thesis by simp
  qed
qed simp

text \<open>
  C26. Paging loses and repeats nothing: a client that reads all pages forward receives
  exactly the matching requests in the order asked for, whatever the limit of a page.
\<close>

theorem pages_cover_all_matches:
  assumes "reachable resolve s" and "card (dom (requests (rc s))) < 2 ^ 64" and "r_newSorter si = Inr (item, order)"
    and "card (dom (requests (rc s))) < n"
  shows "read_pages n filt si limit 0 s
    = Some (filter (accepts filt) (go_sort (r_Less item order) (all_requests (requests (rc s)))))"
proof (rule read_pages_from [OF assms(1-3), where xs = "[]"])
  have "length (filter (accepts filt) (go_sort (r_Less item order) (all_requests (requests (rc s)))))
      \<le> card (dom (requests (rc s)))"
    using all_requests(3) [OF reachable_requests(2,1) [OF assms(1)]]
    by (metis length_filter_le length_go_sort)
  with assms(4) show "length (filter (accepts filt) (go_sort (r_Less item order) (all_requests (requests (rc s))))) < n"
    by simp
qed simp_all

lemma pages_cover_all_matches_witness:
  "read_pages 2 None None 1 0 running_server
    = Some (filter (accepts None) (go_sort (r_Less ByID SortOrderAsc) (all_requests (requests (rc running_server)))))"
  by (rule pages_cover_all_matches [OF running_reachable])
     (simp_all add: running_server_def r_newSorter_def ToLower_def)

end
