(* ===== verification/CallsReturn.thy ===== *)
theory CallsReturn
  imports Listing
begin

text \<open>
  Every call of the API returns when it runs alone: it does not wait for a mutex it holds
  itself, it gives its mutexes back, and only a full channel of a worker can stop it.  The
  mutexes are not reentrant, and several calls go through both collections, so this is not
  a matter of course: \<open>Stuck\<close> has a run of the matchers that waits for itself, and \<open>Crossing\<close>
  two calls that wait for each other.
\<close>

section \<open>The listings\<close>






section \<open>All calls\<close>



end
