(* ===== verification/QueueOrder.thy ===== *)
theory QueueOrder
  imports Queue
begin

text \<open>
  The order the queue serves requests in, over whole histories of it: requests are pushed,
  removed and moved to another priority, and then the iterator goes through the queue.
\<close>

section \<open>Histories\<close>

datatype q_op =
    QPush ReqID Priority
  | QRemove ReqID Priority
  | QSetPriority ReqID Priority Priority

fun q_run :: "q_op \<Rightarrow> (prioQueue, unit) prog" where
  "q_run (QPush x p) = q_push x p"
| "q_run (QRemove x p) = q_remove x p"
| "q_run (QSetPriority x p p') = q_setPriority x p p'"

text \<open>Who waits under which priority, in the order of arrival there.\<close>

type_synonym line = "(ReqID \<times> Priority) list"

fun in_line :: "q_op \<Rightarrow> line \<Rightarrow> line" where
  "in_line (QPush x p) l = l @ [(x, p)]"
| "in_line (QRemove x p) l = filter (\<lambda>y. fst y \<noteq> x) l"
| "in_line (QSetPriority x p p') l = filter (\<lambda>y. fst y \<noteq> x) l @ [(x, p')]"

definition arrivals :: "q_op list \<Rightarrow> line" where
  "arrivals ops = fold in_line ops []"

text \<open>
  What the collection of requests keeps to: a request is pushed once, under one of the
  priorities, and removed and moved from where it waits.
\<close>

fun q_allowed :: "q_op \<Rightarrow> line \<Rightarrow> bool" where
  "q_allowed (QPush x p) l = (prio_ok p \<and> x \<notin> fst ` set l)"
| "q_allowed (QRemove x p) l = ((x, p) \<in> set l)"
| "q_allowed (QSetPriority x p p') l = ((x, p) \<in> set l \<and> prio_ok p')"

fun history :: "q_op list \<Rightarrow> line \<Rightarrow> bool" where
  "history [] l = True"
| "history (a # as) l = (q_allowed a l \<and> history as (in_line a l))"

section \<open>The queue keeps the line\<close>

definition at_prio :: "line \<Rightarrow> Priority \<Rightarrow> ReqID list" where
  "at_prio l p = map fst (filter (\<lambda>y. snd y = p) l)"

definition holds_line :: "prioQueue \<Rightarrow> line \<Rightarrow> bool" where
  "holds_line pq l \<longleftrightarrow> q_inv pq \<and> distinct (map fst l) \<and> (\<forall>y \<in> set l. prio_ok (snd y)) \<and> view pq = at_prio l"

lemma in_at_prio: "x \<in> set (at_prio l p) \<longleftrightarrow> (x, p) \<in> set l"
  by (force simp: at_prio_def)

lemma at_prio_append: "at_prio (l @ [(x, p)]) = (at_prio l)(p := at_prio l p @ [x])"
  by (auto simp: fun_eq_iff at_prio_def)

lemma distinct_map_filter_fst: "distinct (map fst l) \<Longrightarrow> distinct (map fst (filter P l))"
  by (induction l) auto

lemma at_prio_without:
  assumes "distinct (map fst l)" and "(x, p) \<in> set l"
  shows "at_prio (filter (\<lambda>y. fst y \<noteq> x) l) = (at_prio l)(p := remove1 x (at_prio l p))"
proof
  fix q
  have "at_prio (filter (\<lambda>y. fst y \<noteq> x) l) q = filter (\<lambda>y. y \<noteq> x) (at_prio l q)"
    by (auto simp: at_prio_def filter_map comp_def intro!: arg_cong [where f = "map fst"] filter_cong)
  also have "\<dots> = remove1 x (at_prio l q)"
    using distinct_map_filter_fst [OF assms(1)] by (auto simp: at_prio_def distinct_remove1_removeAll removeAll_filter_not_eq intro!: filter_cong)
  also have "\<dots> = (if q = p then remove1 x (at_prio l p) else at_prio l q)"
  proof (cases "q = p")
    case False
    then have "(x, q) \<notin> set l" using assms by (metis distinct_map inj_onD fst_conv snd_conv)
    with False show ?thesis by (simp add: remove1_idem in_at_prio)
  qed simp
  finally show "at_prio (filter (\<lambda>y. fst y \<noteq> x) l) q = ((at_prio l)(p := remove1 x (at_prio l p))) q" by simp
qed

lemma push_line:
  assumes "holds_line pq l" and "q_allowed (QPush x p) l"
  shows "wp (q_push x p) (\<lambda>_ pq'. holds_line pq' (l @ [(x, p)])) pq"
  by (rule wp_mono [OF q_push_law])
     (use assms in \<open>auto simp: holds_line_def in_at_prio at_prio_append image_iff\<close>)

lemma remove_line:
  assumes "holds_line pq l" and "(x, p) \<in> set l"
  shows "wp (q_remove x p) (\<lambda>_ pq'. holds_line pq' (filter (\<lambda>y. fst y \<noteq> x) l)) pq"
  by (rule wp_mono [OF q_remove_law])
     (use assms in \<open>auto simp: holds_line_def in_at_prio at_prio_without distinct_map_filter_fst\<close>)

lemma run_line:
  assumes "holds_line pq l" and "q_allowed a l"
  shows "wp (q_run a) (\<lambda>_ pq'. holds_line pq' (in_line a l)) pq"
proof (cases a)
  case (QPush x p)
  with assms show ?thesis using push_line by simp
next
  case (QRemove x p)
  with assms show ?thesis using remove_line by simp
next
  case (QSetPriority x p p')
  have "wp (q_remove x p) (\<lambda>_ q. wp (q_push x p') (\<lambda>_ pq'. holds_line pq' (in_line a l)) q) pq"
    by (rule wp_mono [OF remove_line [OF assms(1)]])
       (use assms(2) QSetPriority in \<open>auto intro!: push_line\<close>)
  with QSetPriority show ?thesis by (simp add: q_setPriority_def wp_thn)
qed

lemma history_line:
  "history ops l \<Longrightarrow> holds_line pq l \<Longrightarrow> wp (for_each q_run ops) (\<lambda>_ pq'. holds_line pq' (fold in_line ops l)) pq"
proof (induction ops arbitrary: l pq)
  case (Cons a as)
  then show ?case
    by (auto simp: wp_thn intro!: wp_mono [OF run_line])
qed (simp add: wp_ret)

text \<open>List by list is sorted by priority, and in the order of arrival within one.\<close>

lemma insort_key_between:
  "\<forall>a \<in> set as. f a < f x \<Longrightarrow> \<forall>b \<in> set bs. f x \<le> f b \<Longrightarrow> insort_key f x (as @ bs) = as @ x # bs"
  by (induction as) (auto simp: insort_is_Cons)

lemma sort_key_buckets:
  fixes f :: "'a \<Rightarrow> nat"
  assumes "\<forall>y \<in> set l. m \<le> f y \<and> f y < n"
  shows "sort_key f l = concat (map (\<lambda>i. filter (\<lambda>y. f y = i) l) [m..<n])"
  using assms
proof (induction l)
  case (Cons x l)
  define B where "B k js = concat (map (\<lambda>i. filter (\<lambda>y. f y = i) k) js)" for k js
  have "[m..<n] = [m..<f x] @ f x # [Suc (f x)..<n]"
    using Cons.prems by (metis list.set_intros(1) upt_conv_Cons upt_add_eq_append le_add_diff_inverse le_less_trans order_less_imp_le)
  then have b: "B k [m..<n] = B k [m..<f x] @ filter (\<lambda>y. f y = f x) k @ B k [Suc (f x)..<n]" for k
    by (simp add: B_def)
  have other: "B (x # l) js = B l js" if "f x \<notin> set js" for js
    using that by (auto simp: B_def intro!: arg_cong [where f = concat] map_cong)
  have "sort_key f (x # l) = insort_key f x (B l [m..<f x] @ filter (\<lambda>y. f y = f x) l @ B l [Suc (f x)..<n])"
    using Cons b by (simp add: B_def)
  also have "\<dots> = B l [m..<f x] @ x # filter (\<lambda>y. f y = f x) l @ B l [Suc (f x)..<n]"
    by (rule insort_key_between) (auto simp: B_def)
  also have "\<dots> = B (x # l) [m..<n]"
    unfolding b [of "x # l"] by (simp add: other)
  finally show ?case by (simp only: B_def)
qed (simp add: concat_eq_Nil_conv)

lemma contents_line:
  assumes "holds_line pq l"
  shows "contents pq = map fst (sort_key (\<lambda>y. unat (snd y)) l)"
proof -
  have "\<forall>y \<in> set l. 1 \<le> unat (snd y) \<and> unat (snd y) < 17"
    using assms by (auto simp: holds_line_def prio_ok_unat)
  moreover have "filter (\<lambda>y. snd y = of_nat i) l = filter (\<lambda>y. unat (snd y) = i) l" if "i < 17" for i
    using that by (auto intro!: filter_cong simp: unat_of_nat_prio)
  then have "map (\<lambda>i. filter (\<lambda>y. snd y = of_nat i) l) [1..<17] = map (\<lambda>i. filter (\<lambda>y. unat (snd y) = i) l) [1..<17]"
    by (intro map_cong) simp_all
  moreover have "contents pq = map fst (concat (map (\<lambda>i. filter (\<lambda>y. snd y = of_nat i) l) [1..<17]))"
    using assms by (simp add: contents_def from_prio_def holds_line_def at_prio_def map_concat comp_def)
  ultimately show ?thesis by (simp only: sort_key_buckets)
qed

section \<open>What the iterator serves\<close>

text \<open>
  C22. The iterator serves every waiting request exactly once: priority 1 first, and within a
  priority in the order of arrival, where a request whose priority is changed arrives anew.
  This is so after every history of the queue; the iterator leaves it as it was, and says
  that there is nothing left when it has served everything.
\<close>

theorem queue_iteration_order:
  assumes "history ops []"
  shows "wp (for_each q_run ops) (\<lambda>_ pq. qlength pq = length (arrivals ops)
     \<and> wp (thn q_initIterator (drain_queue (Suc (qlength pq)) []))
         (\<lambda>served pq'. served = map fst (sort_key (\<lambda>y. unat (snd y)) (arrivals ops)) \<and> distinct served
            \<and> view pq' = view pq) pq) newPrioQueue"
proof (rule wp_mono [OF history_line [OF assms]])
  show "holds_line newPrioQueue []"
    by (simp add: holds_line_def q_inv_newPrioQueue view_newPrioQueue at_prio_def fun_eq_iff)
next
  fix u pq assume l: "holds_line pq (fold in_line ops [])"
  then have inv: "q_inv pq" by (simp add: holds_line_def)
  have len: "length (contents pq) = length (arrivals ops)"
    by (simp add: contents_line [OF l] arrivals_def)
  have "wp (thn q_initIterator (drain_queue (Suc (qlength pq)) []))
      (\<lambda>served pq'. served = contents pq \<and> distinct served \<and> view pq' = view pq) pq"
    by (rule wp_mono [OF drain_contents [OF inv]]) (simp add: contents_def from_prio_def)
  with len show "qlength pq = length (arrivals ops) \<and> wp (thn q_initIterator (drain_queue (Suc (qlength pq)) []))
      (\<lambda>served pq'. served = map fst (sort_key (\<lambda>y. unat (snd y)) (arrivals ops)) \<and> distinct served \<and> view pq' = view pq) pq"
    using contents_line [OF l] qlength_contents [OF inv] by (simp add: arrivals_def)
qed

lemma queue_iteration_order_witness:
  "\<exists>pq pq'. for_each q_run [QPush 7 3, QPush 8 2, QPush 9 3, QSetPriority 8 2 3] newPrioQueue = Returns ((), pq)
    \<and> thn q_initIterator (drain_queue 4 []) pq = Returns ([7, 9, 8], pq')"
proof -
  let ?ops = "[QPush 7 3, QPush 8 2, QPush 9 3, QSetPriority 8 2 3]"
  have prio: "prio_ok 2" "prio_ok 3" by (simp_all add: prio_ok_def HiPrio_def LoPrio_def)
  have "arrivals ?ops = [(7, 3), (9, 3), (8, 3)]" by (simp add: arrivals_def)
  with queue_iteration_order [of ?ops] prio
  obtain pq where pq: "for_each q_run ?ops newPrioQueue = Returns ((), pq)" "qlength pq = 3"
    and drain: "wp (thn q_initIterator (drain_queue (Suc (qlength pq)) [])) (\<lambda>served _. served = [7, 9, 8]) pq"
    by (auto simp: wp_iff numeral_eq_Suc simp del: drain_queue.simps for_each.simps)
  moreover have "Suc (qlength pq) = 4" using pq(2) by simp
  ultimately show ?thesis by (auto simp: wp_iff)
qed

end
