(* ===== verification/Strconv.thy ===== *)
theory Strconv
  imports Lists
begin

text \<open>
  Numbers and identifiers as text: what the program uses of \<open>strconv\<close> and
  \<open>fmt.Sscanf\<close>, and the pattern of a UUID (\<open>isValidUUID\<close> of
  \<open>http/server/api/v1/api.go\<close>).
\<close>

section \<open>Decimal numbers\<close>

definition digit_char :: "nat \<Rightarrow> char" where
  "digit_char n = char_of (48 + n)"

fun FormatUint :: "nat \<Rightarrow> string" where
  "FormatUint n = (if n < 10 then [digit_char n] else FormatUint (n div 10) @ [digit_char (n mod 10)])"

declare FormatUint.simps [simp del]

definition is_digit :: "char \<Rightarrow> bool" where
  "is_digit c = (let n = of_char c :: nat in 48 \<le> n \<and> n \<le> 57)"

fun parse_digits :: "string \<Rightarrow> nat \<Rightarrow> nat option" where
  "parse_digits [] n = Some n"
| "parse_digits (c # cs) n =
     (if is_digit c then parse_digits cs (10 * n + (of_char c - 48)) else None)"

text \<open>\<open>strconv.ParseUint(s, 10, 64)\<close>: an empty text, another character and overflow are errors.\<close>

definition ParseUint :: "string \<Rightarrow> nat option" where
  "ParseUint s = (if s = '''' then None
     else case parse_digits s 0 of None \<Rightarrow> None | Some n \<Rightarrow> if n < 2 ^ 64 then Some n else None)"

text \<open>\<open>fmt.Sscanf(s, "%d", &n)\<close> with an unsigned \<open>n\<close>: leading spaces are skipped and what
  follows the digits is ignored.\<close>

definition scan_uint :: "string \<Rightarrow> nat option" where
  "scan_uint s = ParseUint (takeWhile is_digit (dropWhile (\<lambda>c. c = CHR '' '') s))"

section \<open>Formatting and parsing\<close>

lemma digit_char: "d < 10 \<Longrightarrow> is_digit (digit_char d) \<and> of_char (digit_char d) = 48 + d"
  by (simp add: is_digit_def digit_char_def)

lemma FormatUint_digits: "c \<in> set (FormatUint n) \<Longrightarrow> is_digit c"
  by (induction n rule: FormatUint.induct)
     (subst (asm) (2) FormatUint.simps, auto simp: digit_char split: if_splits)

lemma FormatUint_nonempty [simp]: "FormatUint n \<noteq> []"
  by (subst FormatUint.simps) simp

lemma parse_digits_append:
  "parse_digits (s @ t) n = (case parse_digits s n of None \<Rightarrow> None | Some m \<Rightarrow> parse_digits t m)"
  by (induction s arbitrary: n) auto

lemma parse_digits_FormatUint: "parse_digits (FormatUint n) 0 = Some n"
proof (induction n rule: FormatUint.induct)
  case (1 n)
  show ?case
  proof (cases "n < 10")
    case True
    then show ?thesis by (subst FormatUint.simps) (simp add: digit_char)
  next
    case False
    with 1 show ?thesis by (subst FormatUint.simps) (simp add: parse_digits_append digit_char)
  qed
qed

lemma ParseUint_FormatUint [simp]: "n < 2 ^ 64 \<Longrightarrow> ParseUint (FormatUint n) = Some n"
  by (simp add: ParseUint_def parse_digits_FormatUint)

lemma ParseUint_bound: "ParseUint s = Some n \<Longrightarrow> n < 2 ^ 64"
  by (auto simp: ParseUint_def split: if_splits option.splits)

lemma scan_uint_FormatUint [simp]: "n < 2 ^ 64 \<Longrightarrow> scan_uint (FormatUint n) = Some n"
proof -
  assume n: "n < 2 ^ 64"
  have digit: "is_digit c \<Longrightarrow> c \<noteq> CHR '' ''" for c by (auto simp: is_digit_def)
  have "dropWhile (\<lambda>c. c = CHR '' '') (FormatUint n) = FormatUint n"
    by (subst dropWhile_eq_self_iff) (use digit FormatUint_digits [of _ n] in \<open>auto simp: hd_in_set\<close>)
  moreover have "takeWhile is_digit (FormatUint n) = FormatUint n"
    using FormatUint_digits by (simp add: takeWhile_eq_all_conv)
  ultimately show ?thesis unfolding scan_uint_def by (metis ParseUint_FormatUint n)
qed

section \<open>UUIDs\<close>

definition is_hex :: "char \<Rightarrow> bool" where
  "is_hex c = (is_digit c \<or> (let n = of_char c :: nat in 97 \<le> n \<and> n \<le> 102))"

text \<open>The pattern \<open>^[0-9a-f]{8}-([0-9a-f]{4}-){3}[0-9a-f]{12}$\<close>.\<close>

definition isValidUUID :: "string \<Rightarrow> bool" where
  "isValidUUID s = (length s = 36 \<and>
     list_all (\<lambda>(i, c). if i \<in> {8, 13, 18, 23} then c = CHR ''-'' else is_hex c) (zip [0..<36] s))"

lemma isValidUUID_chars: "isValidUUID s \<Longrightarrow> c \<in> set s \<Longrightarrow> c = CHR ''-'' \<or> is_hex c"
proof -
  assume s: "isValidUUID s" and "c \<in> set s"
  then obtain i where "i < 36" "c = s ! i" by (auto simp: in_set_conv_nth isValidUUID_def)
  then have "(i, c) \<in> set (zip [0..<36] s)"
    using s by (auto simp: set_zip isValidUUID_def intro!: exI [of _ i])
  with s show ?thesis by (auto simp: isValidUUID_def list_all_iff split: if_splits)
qed

lemma isValidUUID_nonempty: "isValidUUID s \<Longrightarrow> s \<noteq> '''' \<and> CHR ''/'' \<notin> set s"
  using isValidUUID_chars [of s "CHR ''/''"]
  by (auto simp: isValidUUID_def is_hex_def is_digit_def)

end
