(* ===== verification/HttpErrors.thy ===== *)
theory HttpErrors
  imports Types
begin

text \<open>
  The errors a call of the HTTP API can meet and what the client is told of them:
  \<open>http/error.go\<close>, with the texts of \<open>errors.go\<close>, \<open>requests/errors.go\<close>,
  \<open>workers/error.go\<close> and \<open>matcher/error.go\<close>.
\<close>

section \<open>Texts of errors\<close>

fun error_text :: "error \<Rightarrow> string" where
  "error_text (NotFoundError what) = what @ '' not found''"
| "error_text ErrInternalLogicError = ''Boruta's internal logic error''"
| "error_text ErrWrongSortItem = ''unknown name of item by which list should be sorted''"
| "error_text ErrWrongSortOrder = ''unknown sort order (valid: ascending or descending)''"
| "error_text ErrWrongListDirection = ''unknown direction (valid: forward or backward)''"
| "error_text ErrPriority = ''requested priority out of bounds''"
| "error_text ErrInvalidTimeRange = ''requested time range illegal - ValidAfter must be before Deadline''"
| "error_text ErrDeadlineInThePast = ''deadline in the past''"
| "error_text ErrWorkerNotAssigned = ''worker not assigned''"
| "error_text ErrModificationForbidden = ''action cannot be executed in current state''"
| "error_text ErrMissingUUID = ''Capabilities are missing UUID entry''"
| "error_text ErrInMaintenance = ''It is forbidden to set FAIL state when Worker is in MAINTENANCE state''"
| "error_text ErrNotInFailOrMaintenance = ''Worker is not in FAIL or MAINTENANCE state''"
| "error_text ErrWrongStateArgument = ''Only state changes to IDLE and MAINTENANCE are allowed''"
| "error_text ErrForbiddenStateChange = ''Invalid state transition was requested''"
| "error_text ErrNoMatchingWorker = ''No matching worker''"
| "error_text ErrMissingIP = ''IP address is missing from address''"
| "error_text ErrMissingPort = ''Port is missing from address''"
| "error_text ErrWorkerBusy = ''worker is busy''"
| "error_text ErrJobAlreadyExists = ''job already exists''"
| "error_text (OtherError text) = text"

text \<open>
  Every error a handler may hand on: those of the server's packages, those of package
  \<open>http\<close>, \<open>io.EOF\<close> of an empty body, and the errors of \<open>encoding/json\<close>, which carry
  their text.
\<close>

datatype go_error =
    Boruta error
  | ErrNotImplemented
  | ErrInternalServerError
  | ErrBadRequest
  | ErrBadID
  | ErrBadUUID
  | ErrIDMismatch
  | EOF
  | JSONError string

fun go_error_text :: "go_error \<Rightarrow> string" where
  "go_error_text (Boruta err) = error_text err"
| "go_error_text ErrNotImplemented = ''not implemented yet''"
| "go_error_text ErrInternalServerError = ''internal server error''"
| "go_error_text ErrBadRequest = ''invalid request''"
| "go_error_text ErrBadID = ''ID provided in URL isn't valid''"
| "go_error_text ErrBadUUID = ''ID provided in URL isn't valid UUID''"
| "go_error_text ErrIDMismatch = ''request ID set in JSON doesn't match ID from URL''"
| "go_error_text EOF = ''EOF''"
| "go_error_text (JSONError text) = text"

section \<open>Errors sent to a client\<close>

record ServerError =
  Err :: string
  Status :: nat

definition isNotFoundError :: "go_error \<Rightarrow> bool" where
  "isNotFoundError err = (case err of Boruta (NotFoundError _) \<Rightarrow> True | _ \<Rightarrow> False)"

definition NewServerError :: "go_error \<Rightarrow> string list \<Rightarrow> ServerError" where
  "NewServerError err details =
     (let text = (case details of [] \<Rightarrow> go_error_text err | d # _ \<Rightarrow> go_error_text err @ '': '' @ d) in
      if isNotFoundError err then \<lparr>Err = text, Status = 404\<rparr>
      else (case err of
          ErrNotImplemented \<Rightarrow> \<lparr>Err = text, Status = 501\<rparr>
        | ErrInternalServerError \<Rightarrow> \<lparr>Err = text, Status = 500\<rparr>
        | ErrBadRequest \<Rightarrow> \<lparr>Err = text, Status = 400\<rparr>
        | EOF \<Rightarrow> \<lparr>Err = ''no body provided in HTTP request'', Status = 400\<rparr>
        | _ \<Rightarrow> \<lparr>Err = go_error_text ErrBadRequest @ '': '' @ text, Status = 400\<rparr>))"

text \<open>What a client gets for an error of the server: only a missing item is told apart.\<close>

lemma NewServerError_Boruta:
  "NewServerError (Boruta err) [] = (case err of
       NotFoundError what \<Rightarrow> \<lparr>Err = what @ '' not found'', Status = 404\<rparr>
     | _ \<Rightarrow> \<lparr>Err = ''invalid request: '' @ error_text err, Status = 400\<rparr>)"
  by (cases err) (simp_all add: NewServerError_def isNotFoundError_def)

lemma NewServerError_status: "400 \<le> Status (NewServerError err details)"
  by (cases err) (auto simp: NewServerError_def Let_def isNotFoundError_def split: error.split)

end
