(* ===== verification/Json.thy ===== *)
theory Json
  imports Strconv HttpErrors
begin

text \<open>
  JSON values and the rules by which \<open>encoding/json\<close> reads them into Go values, as far
  as the API of the server depends on them.

  A body is a tree.  The text of a JSON string is kept by what it denotes when the
  program reads it as a point in time (RFC 3339), as a PEM block or as base64; such
  strings are not used where the program stores plain strings, and are a mismatch there.
  The wording of the library's own errors is shortened.  Strings stand for valid UTF-8; in
  any other the library replaces the bytes that are not.

  Decoding updates an existing value, as in Go: \<open>null\<close> leaves numbers, strings and
  structs alone and clears pointers, slices and maps; unknown members are skipped; the
  name of a member is matched exactly or else regardless of case.
\<close>

section \<open>Trees\<close>

datatype text_value =
    Text string
  | TimeText time zone
  | PemText string PrivateKey
  | Base64 "Priority list"

text \<open>\<open>JFloat\<close> stands for a number with a fraction or an exponent, which no field takes.\<close>

datatype json =
    JNull
  | JBool bool
  | JNum int
  | JFloat
  | JStr text_value
  | JArr "json list"
  | JObj "(string \<times> json) list"

text \<open>The body of a message; \<open>BrokenBody\<close> is one that cannot be read to its end.\<close>

datatype payload =
    EmptyBody
  | JsonBody json
  | PlainBody string
  | BrokenBody string

section \<open>Times\<close>

definition second_ns :: int where
  "second_ns = 1000000000"

text \<open>
  RFC 3339 has texts for the years 0 to 9999 only, as the clock of the time's own location
  shows them.  A text outside them is none; \<open>MarshalJSON\<close> refuses to write one and there is
  none to be read.
\<close>

definition time_fits :: "time \<times> zone \<Rightarrow> bool" where
  "time_fits tz = (let clock = fst tz + snd tz * minute_ns in
     - 366 * 86400 * second_ns \<le> clock \<and> clock < 3652059 * 86400 * second_ns)"

section \<open>Decoding\<close>

type_synonym 'a decoder = "json \<Rightarrow> 'a \<Rightarrow> go_error + 'a"

definition mismatch :: "go_error + 'a" where
  "mismatch = Inl (JSONError ''json: cannot unmarshal value'')"

definition dec_string :: "string decoder" where
  "dec_string j old = (case j of JNull \<Rightarrow> Inr old | JStr (Text s) \<Rightarrow> Inr s | _ \<Rightarrow> mismatch)"

definition dec_ReqID :: "ReqID decoder" where
  "dec_ReqID j old = (case j of JNull \<Rightarrow> Inr old
     | JNum n \<Rightarrow> if 0 \<le> n \<and> n < 2 ^ 64 then Inr (nat n) else mismatch | _ \<Rightarrow> mismatch)"

definition dec_word :: "('a::len) word decoder" where
  "dec_word j old = (case j of JNull \<Rightarrow> Inr old
     | JNum n \<Rightarrow> if 0 \<le> n \<and> n < 2 ^ LENGTH('a) then Inr (of_int n) else mismatch | _ \<Rightarrow> mismatch)"

definition dec_int :: "int decoder" where
  "dec_int j old = (case j of JNull \<Rightarrow> Inr old
     | JNum n \<Rightarrow> if - (2 ^ 63) \<le> n \<and> n < 2 ^ 63 then Inr n else mismatch | _ \<Rightarrow> mismatch)"

definition dec_time :: "(time \<times> zone) decoder" where
  "dec_time j old = (case j of JNull \<Rightarrow> Inr old
     | JStr (TimeText t z) \<Rightarrow> if time_fits (t, z) then Inr (t, z) else Inl (JSONError ''parsing time'')
     | _ \<Rightarrow> Inl (JSONError ''parsing time''))"

text \<open>A type with \<open>UnmarshalText\<close>, whose errors are passed on as they are.\<close>

definition dec_text_type :: "(string \<Rightarrow> error + 'a) \<Rightarrow> 'a decoder" where
  "dec_text_type unmarshal j old = (case j of JNull \<Rightarrow> Inr old
     | JStr (Text s) \<Rightarrow> (case unmarshal s of Inl err \<Rightarrow> Inl (Boruta err) | Inr x \<Rightarrow> Inr x)
     | _ \<Rightarrow> mismatch)"

fun dec_elems :: "'a decoder \<Rightarrow> 'a \<Rightarrow> json list \<Rightarrow> go_error + 'a list" where
  "dec_elems d zero [] = Inr []"
| "dec_elems d zero (j # js) = (case d j zero of
       Inl err \<Rightarrow> Inl err
     | Inr x \<Rightarrow> (case dec_elems d zero js of Inl err \<Rightarrow> Inl err | Inr xs \<Rightarrow> Inr (x # xs)))"

definition dec_slice :: "'a decoder \<Rightarrow> 'a \<Rightarrow> 'a list decoder" where
  "dec_slice d zero j old = (case j of JNull \<Rightarrow> Inr [] | JArr js \<Rightarrow> dec_elems d zero js | _ \<Rightarrow> mismatch)"

text \<open>A slice of bytes may also be written in base64.\<close>

definition dec_priorities :: "Priority list decoder" where
  "dec_priorities j old = (case j of JStr (Base64 bs) \<Rightarrow> Inr bs | _ \<Rightarrow> dec_slice dec_word 0 j old)"

fun dec_entries :: "(string \<times> json) list \<Rightarrow> (string \<rightharpoonup> string) \<Rightarrow> go_error + (string \<rightharpoonup> string)" where
  "dec_entries [] m = Inr m"
| "dec_entries ((k, j) # es) m = (case dec_string j '''' of
       Inl err \<Rightarrow> Inl err
     | Inr v \<Rightarrow> dec_entries es (m(k \<mapsto> v)))"

definition dec_map :: "(string \<rightharpoonup> string) decoder" where
  "dec_map j old = (case j of JNull \<Rightarrow> Inr (\<lambda>_. None) | JObj es \<Rightarrow> dec_entries es old | _ \<Rightarrow> mismatch)"

definition dec_ptr :: "'a decoder \<Rightarrow> 'a \<Rightarrow> 'a option decoder" where
  "dec_ptr d zero j old = (case j of JNull \<Rightarrow> Inr None
     | _ \<Rightarrow> (case d j (case old of None \<Rightarrow> zero | Some x \<Rightarrow> x) of Inl err \<Rightarrow> Inl err | Inr x \<Rightarrow> Inr (Some x)))"

text \<open>A struct is given by its fields: the name, and how a value is read into it.\<close>

type_synonym 'r field = "string \<times> 'r decoder"

definition at :: "('r \<Rightarrow> 'a) \<Rightarrow> ('a \<Rightarrow> 'r \<Rightarrow> 'r) \<Rightarrow> 'a decoder \<Rightarrow> 'r decoder" where
  "at get put d j r = (case d j (get r) of Inl err \<Rightarrow> Inl err | Inr x \<Rightarrow> Inr (put x r))"

definition EqualFold :: "string \<Rightarrow> string \<Rightarrow> bool" where
  "EqualFold a b = (ToLower a = ToLower b)"

definition find_field :: "'r field list \<Rightarrow> string \<Rightarrow> 'r decoder option" where
  "find_field fs k = (case map_of fs k of
       Some d \<Rightarrow> Some d
     | None \<Rightarrow> map_option snd (List.find (\<lambda>f. EqualFold (fst f) k) fs))"

fun dec_members :: "'r field list \<Rightarrow> (string \<times> json) list \<Rightarrow> 'r \<Rightarrow> go_error + 'r" where
  "dec_members fs [] r = Inr r"
| "dec_members fs ((k, j) # ms) r = (case find_field fs k of
       None \<Rightarrow> dec_members fs ms r
     | Some d \<Rightarrow> (case d j r of Inl err \<Rightarrow> Inl err | Inr r' \<Rightarrow> dec_members fs ms r'))"

definition dec_struct :: "'r field list \<Rightarrow> 'r decoder" where
  "dec_struct fs j r = (case j of JNull \<Rightarrow> Inr r | JObj ms \<Rightarrow> dec_members fs ms r | _ \<Rightarrow> mismatch)"

text \<open>\<open>json.NewDecoder(body).Decode(&x)\<close>\<close>

definition Decode :: "'a decoder \<Rightarrow> payload \<Rightarrow> 'a \<Rightarrow> go_error + 'a" where
  "Decode d body zero = (case body of
       EmptyBody \<Rightarrow> Inl EOF
     | PlainBody _ \<Rightarrow> Inl (JSONError ''invalid character looking for beginning of value'')
     | BrokenBody err \<Rightarrow> Inl (JSONError err)
     | JsonBody j \<Rightarrow> d j zero)"

section \<open>Encoding\<close>

definition enc_string :: "string \<Rightarrow> json" where
  "enc_string s = JStr (Text s)"

definition enc_word :: "('a::len) word \<Rightarrow> json" where
  "enc_word w = JNum (uint w)"

definition enc_time :: "time \<times> zone \<Rightarrow> json" where
  "enc_time t = JStr (TimeText (fst t) (snd t))"

definition enc_map :: "(string \<rightharpoonup> string) \<Rightarrow> json" where
  "enc_map m = JObj (map (\<lambda>k. (k, JStr (Text (the (m k))))) (sorted_list_of_set (dom m)))"

definition enc_ptr :: "('a \<Rightarrow> json) \<Rightarrow> 'a option \<Rightarrow> json" where
  "enc_ptr e x = (case x of None \<Rightarrow> JNull | Some v \<Rightarrow> e v)"

section \<open>Reading what was written\<close>

named_theorems json_simps \<open>decoding of encoded values\<close>

lemma dec_string_text [json_simps]: "dec_string (enc_string s) old = Inr s"
  by (simp add: dec_string_def enc_string_def)

lemma dec_ReqID_num [json_simps]: "n < 2 ^ 64 \<Longrightarrow> dec_ReqID (JNum (int n)) old = Inr n"
  by (simp add: dec_ReqID_def)

lemma dec_word_enc [json_simps]: "dec_word (enc_word w) old = Inr w"
  using uint_lt2p [of w] by (simp add: dec_word_def enc_word_def)

lemma dec_time_enc [json_simps]: "time_fits t \<Longrightarrow> dec_time (enc_time t) old = Inr t"
  by (simp add: dec_time_def enc_time_def)

lemma dec_elems_map:
  "\<forall>x \<in> set xs. d (e x) zero = Inr x \<Longrightarrow> dec_elems d zero (map e xs) = Inr xs"
  by (induction xs) auto

lemma dec_slice_enc [json_simps]:
  "\<forall>x \<in> set xs. d (e x) zero = Inr x \<Longrightarrow> dec_slice d zero (JArr (map e xs)) old = Inr xs"
  by (simp add: dec_slice_def dec_elems_map)

lemma dec_entries_map:
  "dec_entries (map (\<lambda>k. (k, JStr (Text (the (m k))))) ks) f = Inr (\<lambda>k. if k \<in> set ks then Some (the (m k)) else f k)"
proof (induction ks arbitrary: f)
  case (Cons k ks)
  then show ?case by (auto simp: dec_string_def fun_eq_iff)
qed simp

lemma dec_map_enc [json_simps]:
  "finite (dom m) \<Longrightarrow> dec_map (enc_map m) (\<lambda>_. None) = Inr m"
proof -
  assume fin: "finite (dom m)"
  have "(\<lambda>k. if k \<in> dom m then Some (the (m k)) else None) = m"
    by (auto simp: fun_eq_iff domIff)
  with fin show ?thesis by (simp add: dec_map_def enc_map_def dec_entries_map)
qed

lemma dec_ptr_enc:
  "e v \<noteq> JNull \<Longrightarrow> d (e v) zero = Inr v \<Longrightarrow> dec_ptr d zero (enc_ptr e (Some v)) None = Inr (Some v)"
  by (cases "e v") (simp_all add: dec_ptr_def enc_ptr_def)

lemma dec_ptr_null [json_simps]: "dec_ptr d zero (enc_ptr e None) old = Inr None"
  by (simp add: dec_ptr_def enc_ptr_def)

text \<open>A member whose name is a field is read by that field.\<close>

lemma find_field_eq: "map_of fs k = Some d \<Longrightarrow> find_field fs k = Some d"
  by (simp add: find_field_def)

lemma dec_members_Cons:
  "map_of fs k = Some d \<Longrightarrow> d j r = Inr r' \<Longrightarrow> dec_members fs ((k, j) # ms) r = dec_members fs ms r'"
  by (simp add: find_field_eq)

lemma at_Inr: "d j (get r) = Inr x \<Longrightarrow> at get put d j r = Inr (put x r)"
  by (simp add: at_def)

end
