(* ===== verification/Wire.thy ===== *)
theory Wire
  imports Json Paging ListFilter
begin

text \<open>
  What travels between client and server: the structures of \<open>http/http.go\<close> and
  \<open>boruta.go\<close> as JSON, and that reading what was written gives the value back.

  The state of a request or a worker is a text in Go.  The server sends only the texts of
  the constants; when a client sends another one in a \<open>ReqInfo\<close>, no handler looks at it.
\<close>

section \<open>Structures of the API\<close>

record RequestsListSpec =
  rFilter :: "RequestsFilter option"
  rSorter :: "SortInfo option"
  rPaginator :: "RequestsPaginator option"

record WorkersListSpec =
  wFilter :: "WorkersFilter option"
  wSorter :: "SortInfo option"
  wPaginator :: "WorkersPaginator option"

record AccessInfo2 =
  Addr2 :: "TCPAddr option"
  Key2 :: text_value
  Username2 :: string

record BorutaVersion =
  Server :: string
  API :: string
  vState :: string

text \<open>
  Zero values.  The zero state is the empty text, which is none of the constants; the
  value \<open>INVALID\<close> stands for it where a decoder starts.
\<close>

definition zero_ReqInfo :: ReqInfo where
  "zero_ReqInfo = \<lparr>ID = 0, Prio = 0, Owner = \<lparr>uGroups = []\<rparr>, Deadline = 0, DeadlineZone = 0,
     ValidAfter = 0, ValidAfterZone = 0,
     RState = INVALID, RJob = None, RCaps = (\<lambda>_. None)\<rparr>"

definition zero_WorkerInfo :: WorkerInfo where
  "zero_WorkerInfo = \<lparr>WUUID = '''', WState = MAINTENANCE, WGroups = [], WCaps = (\<lambda>_. None)\<rparr>"

section \<open>States\<close>

definition dec_ReqState :: "ReqState decoder" where
  "dec_ReqState j old = (case dec_string j (ReqState_text old) of
       Inl err \<Rightarrow> Inl err
     | Inr s \<Rightarrow> (case List.find (\<lambda>st. ReqState_text st = s) [WAIT, INPROGRESS, CANCEL, TIMEOUT, INVALID, DONE, FAILED] of
          None \<Rightarrow> Inr old | Some st \<Rightarrow> Inr st))"

definition dec_WorkerState :: "WorkerState decoder" where
  "dec_WorkerState j old = (case dec_string j (WorkerState_text old) of
       Inl err \<Rightarrow> Inl err
     | Inr s \<Rightarrow> (case List.find (\<lambda>st. WorkerState_text st = s) [MAINTENANCE, IDLE, RUN, FAIL, PREPARE, BUSY] of
          None \<Rightarrow> Inr old | Some st \<Rightarrow> Inr st))"

lemma dec_ReqState_enc [json_simps]: "dec_ReqState (enc_string (ReqState_text st)) old = Inr st"
  by (cases st) (simp_all add: dec_ReqState_def json_simps)

lemma dec_WorkerState_enc [json_simps]: "dec_WorkerState (enc_string (WorkerState_text st)) old = Inr st"
  by (cases st) (simp_all add: dec_WorkerState_def json_simps)

section \<open>Requests and workers\<close>

text \<open>The times of a request, as they are written and read.\<close>

definition deadline_time :: "ReqInfo \<Rightarrow> time \<times> zone" where
  "deadline_time r = (Deadline r, DeadlineZone r)"

definition valid_after_time :: "ReqInfo \<Rightarrow> time \<times> zone" where
  "valid_after_time r = (ValidAfter r, ValidAfterZone r)"

definition timeout_time :: "JobInfo \<Rightarrow> time \<times> zone" where
  "timeout_time j = (Timeout_at j, TimeoutZone j)"

lemmas time_defs = deadline_time_def valid_after_time_def timeout_time_def

definition enc_groups :: "Groups \<Rightarrow> json" where
  "enc_groups gs = JArr (map enc_string gs)"

definition dec_groups :: "Groups decoder" where
  "dec_groups = dec_slice dec_string ''''"

lemma dec_groups_enc [json_simps]: "dec_groups (enc_groups gs) old = Inr gs"
  by (simp add: dec_groups_def enc_groups_def json_simps)

definition enc_UserInfo :: "UserInfo \<Rightarrow> json" where
  "enc_UserInfo u = JObj [(''Groups'', enc_groups (uGroups u))]"

definition dec_UserInfo :: "UserInfo decoder" where
  "dec_UserInfo = dec_struct [(''Groups'', at uGroups (\<lambda>x r. r\<lparr>uGroups := x\<rparr>) dec_groups)]"

definition enc_JobInfo :: "JobInfo \<Rightarrow> json" where
  "enc_JobInfo j = JObj [(''WorkerUUID'', enc_string (jWorkerUUID j)), (''Timeout'', enc_time (timeout_time j))]"

definition dec_JobInfo :: "JobInfo decoder" where
  "dec_JobInfo = dec_struct
     [(''WorkerUUID'', at jWorkerUUID (\<lambda>x r. r\<lparr>jWorkerUUID := x\<rparr>) dec_string),
      (''Timeout'', at timeout_time (\<lambda>(t, z) r. r\<lparr>Timeout_at := t, TimeoutZone := z\<rparr>) dec_time)]"

definition enc_ReqInfo :: "ReqInfo \<Rightarrow> json" where
  "enc_ReqInfo r = JObj
     [(''ID'', JNum (int (ID r))), (''Priority'', enc_word (Prio r)), (''Owner'', enc_UserInfo (Owner r)),
      (''Deadline'', enc_time (deadline_time r)), (''ValidAfter'', enc_time (valid_after_time r)),
      (''State'', enc_string (ReqState_text (RState r))), (''Job'', enc_ptr enc_JobInfo (RJob r)),
      (''Caps'', enc_map (RCaps r))]"

definition ReqInfo_fields :: "ReqInfo field list" where
  "ReqInfo_fields =
     [(''ID'', at ID (\<lambda>x r. r\<lparr>ID := x\<rparr>) dec_ReqID),
      (''Priority'', at Prio (\<lambda>x r. r\<lparr>Prio := x\<rparr>) dec_word),
      (''Owner'', at Owner (\<lambda>x r. r\<lparr>Owner := x\<rparr>) dec_UserInfo),
      (''Deadline'', at deadline_time (\<lambda>(t, z) r. r\<lparr>Deadline := t, DeadlineZone := z\<rparr>) dec_time),
      (''ValidAfter'', at valid_after_time (\<lambda>(t, z) r. r\<lparr>ValidAfter := t, ValidAfterZone := z\<rparr>) dec_time),
      (''State'', at RState (\<lambda>x r. r\<lparr>RState := x\<rparr>) dec_ReqState),
      (''Job'', at RJob (\<lambda>x r. r\<lparr>RJob := x\<rparr>) (dec_ptr dec_JobInfo \<lparr>jWorkerUUID = '''', Timeout_at = 0, TimeoutZone = 0\<rparr>)),
      (''Caps'', at RCaps (\<lambda>x r. r\<lparr>RCaps := x\<rparr>) dec_map)]"

definition dec_ReqInfo :: "ReqInfo decoder" where
  "dec_ReqInfo = dec_struct ReqInfo_fields"

definition enc_WorkerInfo :: "WorkerInfo \<Rightarrow> json" where
  "enc_WorkerInfo w = JObj
     [(''WorkerUUID'', enc_string (WUUID w)), (''State'', enc_string (WorkerState_text (WState w))),
      (''Groups'', enc_groups (WGroups w)), (''Caps'', enc_map (WCaps w))]"

definition dec_WorkerInfo :: "WorkerInfo decoder" where
  "dec_WorkerInfo = dec_struct
     [(''WorkerUUID'', at WUUID (\<lambda>x r. r\<lparr>WUUID := x\<rparr>) dec_string),
      (''State'', at WState (\<lambda>x r. r\<lparr>WState := x\<rparr>) dec_WorkerState),
      (''Groups'', at WGroups (\<lambda>x r. r\<lparr>WGroups := x\<rparr>) dec_groups),
      (''Caps'', at WCaps (\<lambda>x r. r\<lparr>WCaps := x\<rparr>) dec_map)]"

lemmas struct_simps = dec_struct_def find_field_def at_def

lemma dec_UserInfo_enc [json_simps]: "dec_UserInfo (enc_UserInfo u) old = Inr u"
  by (simp add: dec_UserInfo_def enc_UserInfo_def struct_simps json_simps)

lemma dec_JobInfo_enc [json_simps]: "time_fits (timeout_time j) \<Longrightarrow> dec_JobInfo (enc_JobInfo j) old = Inr j"
  by (simp add: dec_JobInfo_def enc_JobInfo_def struct_simps json_simps time_defs)

definition req_times_fit :: "ReqInfo \<Rightarrow> bool" where
  "req_times_fit r = (time_fits (deadline_time r) \<and> time_fits (valid_after_time r) \<and>
     (case RJob r of None \<Rightarrow> True | Some j \<Rightarrow> time_fits (timeout_time j)))"

lemma dec_Job_enc [json_simps]:
  assumes "\<forall>job. j = Some job \<longrightarrow> time_fits (timeout_time job)"
  shows "dec_ptr dec_JobInfo zero (enc_ptr enc_JobInfo j) None = Inr j"
proof (cases j)
  case (Some job)
  have "enc_JobInfo job \<noteq> JNull" by (simp add: enc_JobInfo_def)
  with Some assms show ?thesis by (simp add: dec_ptr_enc json_simps)
qed (simp add: json_simps)

text \<open>What the server keeps of a request fits into its JSON types.\<close>

definition ReqInfo_fits :: "ReqInfo \<Rightarrow> bool" where
  "ReqInfo_fits r = (ID r < 2 ^ 64 \<and> finite (dom (RCaps r)))"

lemma dec_ReqInfo_enc: "ReqInfo_fits r \<Longrightarrow> req_times_fit r \<Longrightarrow> dec_ReqInfo (enc_ReqInfo r) zero_ReqInfo = Inr r"
  by (simp add: dec_ReqInfo_def enc_ReqInfo_def ReqInfo_fields_def zero_ReqInfo_def ReqInfo_fits_def req_times_fit_def
      struct_simps json_simps time_defs split: option.splits)

lemma dec_WorkerInfo_enc: "finite (dom (WCaps w)) \<Longrightarrow> dec_WorkerInfo (enc_WorkerInfo w) zero_WorkerInfo = Inr w"
  by (simp add: dec_WorkerInfo_def enc_WorkerInfo_def zero_WorkerInfo_def struct_simps json_simps)

section \<open>Answers\<close>

definition enc_TCPAddr :: "TCPAddr \<Rightarrow> json" where
  "enc_TCPAddr a = JObj
     [(''IP'', enc_string (case IP a of None \<Rightarrow> '''' | Some ip \<Rightarrow> ip)), (''Port'', JNum (Port a)), (''Zone'', enc_string '''')]"

definition dec_TCPAddr :: "TCPAddr decoder" where
  "dec_TCPAddr = dec_struct
     [(''IP'', at IP (\<lambda>x r. r\<lparr>IP := x\<rparr>) (dec_text_type (\<lambda>t. Inr (if t = '''' then None else Some t)))),
      (''Port'', at Port (\<lambda>x r. r\<lparr>Port := x\<rparr>) dec_int)]"

definition enc_AccessInfo2 :: "AccessInfo2 \<Rightarrow> json" where
  "enc_AccessInfo2 a = JObj
     [(''Addr'', enc_ptr enc_TCPAddr (Addr2 a)), (''Key'', JStr (Key2 a)), (''Username'', enc_string (Username2 a))]"

definition dec_text_value :: "text_value decoder" where
  "dec_text_value j old = (case j of JNull \<Rightarrow> Inr old | JStr t \<Rightarrow> Inr t | _ \<Rightarrow> mismatch)"

definition dec_AccessInfo2 :: "AccessInfo2 decoder" where
  "dec_AccessInfo2 = dec_struct
     [(''Addr'', at Addr2 (\<lambda>x r. r\<lparr>Addr2 := x\<rparr>) (dec_ptr dec_TCPAddr \<lparr>IP = None, Port = 0\<rparr>)),
      (''Key'', at Key2 (\<lambda>x r. r\<lparr>Key2 := x\<rparr>) dec_text_value),
      (''Username'', at Username2 (\<lambda>x r. r\<lparr>Username2 := x\<rparr>) dec_string)]"

text \<open>The status of an error is not part of its JSON.\<close>

definition enc_ServerError :: "ServerError \<Rightarrow> json" where
  "enc_ServerError e = JObj [(''message'', enc_string (Err e))]"

definition dec_ServerError :: "ServerError decoder" where
  "dec_ServerError = dec_struct [(''message'', at Err (\<lambda>x r. r\<lparr>Err := x\<rparr>) dec_string)]"

text \<open>\<open>ReqIDPack\<close> and \<open>WorkerStatePack\<close> embed their only field.\<close>

definition enc_ReqIDPack :: "ReqID \<Rightarrow> json" where
  "enc_ReqIDPack i = JObj [(''ReqID'', JNum (int i))]"

definition dec_ReqIDPack :: "ReqID decoder" where
  "dec_ReqIDPack = dec_struct [(''ReqID'', dec_ReqID)]"

definition enc_WorkerStatePack :: "string \<Rightarrow> json" where
  "enc_WorkerStatePack st = JObj [(''WorkerState'', enc_string st)]"

definition dec_WorkerStatePack :: "string decoder" where
  "dec_WorkerStatePack = dec_struct [(''WorkerState'', dec_string)]"

definition enc_BorutaVersion :: "BorutaVersion \<Rightarrow> json" where
  "enc_BorutaVersion v = JObj
     [(''Server'', enc_string (Server v)), (''API_Version'', enc_string (API v)), (''API_State'', enc_string (vState v))]"

definition TCPAddr_fits :: "TCPAddr \<Rightarrow> bool" where
  "TCPAddr_fits a = (IP a \<noteq> Some '''' \<and> - (2 ^ 63) \<le> Port a \<and> Port a < 2 ^ 63)"

lemma dec_text_type_enc [json_simps]:
  "dec_text_type f (enc_string s) old = (case f s of Inl err \<Rightarrow> Inl (Boruta err) | Inr x \<Rightarrow> Inr x)"
  by (simp add: dec_text_type_def enc_string_def)

lemma dec_TCPAddr_enc: "TCPAddr_fits a \<Longrightarrow> dec_TCPAddr (enc_TCPAddr a) old = Inr a"
  by (cases "IP a")
     (auto simp: dec_TCPAddr_def enc_TCPAddr_def TCPAddr_fits_def dec_int_def EqualFold_def ToLower_def
        char_lower_def Let_def struct_simps json_simps)

lemma dec_AccessInfo2_enc:
  assumes "Addr2 a = Some addr" and "TCPAddr_fits addr"
  shows "dec_AccessInfo2 (enc_AccessInfo2 a) \<lparr>Addr2 = None, Key2 = Text '''', Username2 = ''''\<rparr> = Inr a"
proof -
  have "enc_TCPAddr addr \<noteq> JNull" by (simp add: enc_TCPAddr_def)
  with assms show ?thesis
    by (simp add: dec_AccessInfo2_def enc_AccessInfo2_def dec_text_value_def struct_simps json_simps
        dec_ptr_enc dec_TCPAddr_enc)
qed

lemma dec_ServerError_enc [json_simps]: "dec_ServerError (enc_ServerError e) old = Inr (old\<lparr>Err := Err e\<rparr>)"
  by (simp add: dec_ServerError_def enc_ServerError_def struct_simps json_simps)

lemma dec_ReqIDPack_enc [json_simps]: "i < 2 ^ 64 \<Longrightarrow> dec_ReqIDPack (enc_ReqIDPack i) old = Inr i"
  by (simp add: dec_ReqIDPack_def enc_ReqIDPack_def struct_simps json_simps)

lemma dec_WorkerStatePack_enc [json_simps]: "dec_WorkerStatePack (enc_WorkerStatePack st) old = Inr st"
  by (simp add: dec_WorkerStatePack_def enc_WorkerStatePack_def struct_simps json_simps)

section \<open>Parameters of listings\<close>

text \<open>The priorities of a filter are a slice of bytes, which is written in base64.\<close>

definition enc_RequestsFilter :: "RequestsFilter \<Rightarrow> json" where
  "enc_RequestsFilter f = JObj
     [(''IDs'', JArr (map (\<lambda>i. JNum (int i)) (fIDs f))), (''Priorities'', JStr (Base64 (fPriorities f))),
      (''States'', JArr (map enc_string (fStates f)))]"

definition dec_RequestsFilter :: "RequestsFilter decoder" where
  "dec_RequestsFilter = dec_struct
     [(''IDs'', at fIDs (\<lambda>x r. r\<lparr>fIDs := x\<rparr>) (dec_slice dec_ReqID 0)),
      (''Priorities'', at fPriorities (\<lambda>x r. r\<lparr>fPriorities := x\<rparr>) dec_priorities),
      (''States'', at fStates (\<lambda>x r. r\<lparr>fStates := x\<rparr>) (dec_slice dec_string ''''))]"

text \<open>The table of groups of a workers filter is not exported, so it does not travel.\<close>

definition enc_WorkersFilter :: "WorkersFilter \<Rightarrow> json" where
  "enc_WorkersFilter f = JObj [(''Groups'', enc_groups (fGroups f)), (''Capabilities'', enc_map (fCaps f))]"

definition dec_WorkersFilter :: "WorkersFilter decoder" where
  "dec_WorkersFilter = dec_struct
     [(''Groups'', at fGroups (\<lambda>x r. r\<lparr>fGroups := x\<rparr>) dec_groups),
      (''Capabilities'', at fCaps (\<lambda>x r. r\<lparr>fCaps := x\<rparr>) dec_map)]"

definition enc_SortInfo :: "SortInfo \<Rightarrow> json" where
  "enc_SortInfo si = JObj [(''Item'', enc_string (Item si)), (''Order'', enc_string (SortOrder_String (Order si)))]"

definition dec_SortInfo :: "SortInfo decoder" where
  "dec_SortInfo = dec_struct
     [(''Item'', at Item (\<lambda>x r. r\<lparr>Item := x\<rparr>) dec_string),
      (''Order'', at Order (\<lambda>x r. r\<lparr>Order := x\<rparr>) (dec_text_type SortOrder_Unmarshal))]"

definition enc_RequestsPaginator :: "RequestsPaginator \<Rightarrow> json" where
  "enc_RequestsPaginator p = JObj
     [(''ID'', JNum (int (rpID p))), (''Direction'', enc_string (ListDirection_String (rpDirection p))),
      (''Limit'', enc_word (rpLimit p))]"

definition dec_RequestsPaginator :: "RequestsPaginator decoder" where
  "dec_RequestsPaginator = dec_struct
     [(''ID'', at rpID (\<lambda>x r. r\<lparr>rpID := x\<rparr>) dec_ReqID),
      (''Direction'', at rpDirection (\<lambda>x r. r\<lparr>rpDirection := x\<rparr>) (dec_text_type ListDirection_Unmarshal)),
      (''Limit'', at rpLimit (\<lambda>x r. r\<lparr>rpLimit := x\<rparr>) dec_word)]"

definition enc_WorkersPaginator :: "WorkersPaginator \<Rightarrow> json" where
  "enc_WorkersPaginator p = JObj
     [(''ID'', enc_string (wpID p)), (''Direction'', enc_string (ListDirection_String (wpDirection p))),
      (''Limit'', enc_word (wpLimit p))]"

definition dec_WorkersPaginator :: "WorkersPaginator decoder" where
  "dec_WorkersPaginator = dec_struct
     [(''ID'', at wpID (\<lambda>x r. r\<lparr>wpID := x\<rparr>) dec_string),
      (''Direction'', at wpDirection (\<lambda>x r. r\<lparr>wpDirection := x\<rparr>) (dec_text_type ListDirection_Unmarshal)),
      (''Limit'', at wpLimit (\<lambda>x r. r\<lparr>wpLimit := x\<rparr>) dec_word)]"

definition zero_SortInfo :: SortInfo where
  "zero_SortInfo = \<lparr>Item = '''', Order = SortOrderAsc\<rparr>"

definition zero_RequestsPaginator :: RequestsPaginator where
  "zero_RequestsPaginator = \<lparr>rpID = 0, rpDirection = DirectionForward, rpLimit = 0\<rparr>"

definition zero_WorkersPaginator :: WorkersPaginator where
  "zero_WorkersPaginator = \<lparr>wpID = '''', wpDirection = DirectionForward, wpLimit = 0\<rparr>"

definition enc_RequestsListSpec :: "RequestsListSpec \<Rightarrow> json" where
  "enc_RequestsListSpec s = JObj
     [(''Filter'', enc_ptr enc_RequestsFilter (rFilter s)), (''Sorter'', enc_ptr enc_SortInfo (rSorter s)),
      (''Paginator'', enc_ptr enc_RequestsPaginator (rPaginator s))]"

definition dec_RequestsListSpec :: "RequestsListSpec decoder" where
  "dec_RequestsListSpec = dec_struct
     [(''Filter'', at rFilter (\<lambda>x r. r\<lparr>rFilter := x\<rparr>) (dec_ptr dec_RequestsFilter \<lparr>fIDs = [], fPriorities = [], fStates = []\<rparr>)),
      (''Sorter'', at rSorter (\<lambda>x r. r\<lparr>rSorter := x\<rparr>) (dec_ptr dec_SortInfo zero_SortInfo)),
      (''Paginator'', at rPaginator (\<lambda>x r. r\<lparr>rPaginator := x\<rparr>) (dec_ptr dec_RequestsPaginator zero_RequestsPaginator))]"

definition enc_WorkersListSpec :: "WorkersListSpec \<Rightarrow> json" where
  "enc_WorkersListSpec s = JObj
     [(''Filter'', enc_ptr enc_WorkersFilter (wFilter s)), (''Sorter'', enc_ptr enc_SortInfo (wSorter s)),
      (''Paginator'', enc_ptr enc_WorkersPaginator (wPaginator s))]"

definition dec_WorkersListSpec :: "WorkersListSpec decoder" where
  "dec_WorkersListSpec = dec_struct
     [(''Filter'', at wFilter (\<lambda>x r. r\<lparr>wFilter := x\<rparr>)
         (dec_ptr dec_WorkersFilter \<lparr>fGroups = [], fCaps = (\<lambda>_. None), fmatcher = (\<lambda>_. None)\<rparr>)),
      (''Sorter'', at wSorter (\<lambda>x r. r\<lparr>wSorter := x\<rparr>) (dec_ptr dec_SortInfo zero_SortInfo)),
      (''Paginator'', at wPaginator (\<lambda>x r. r\<lparr>wPaginator := x\<rparr>) (dec_ptr dec_WorkersPaginator zero_WorkersPaginator))]"

section \<open>Round trips of the parameters\<close>

lemma SortOrder_round_trip [json_simps]: "SortOrder_Unmarshal (SortOrder_String order) = Inr order"
  by (cases order) (simp_all add: SortOrder_Unmarshal_def SortOrder_String_def SortOrderAsc_def SortOrderDesc_def
      ToLower_def char_lower_def)

lemma ListDirection_round_trip [json_simps]: "ListDirection_Unmarshal (ListDirection_String d) = Inr d"
  by (cases d) (simp_all add: ListDirection_Unmarshal_def ListDirection_String_def DirectionForward_def
      DirectionBackward_def ToLower_def char_lower_def)

lemma dec_SortInfo_enc [json_simps]: "dec_SortInfo (enc_SortInfo si) old = Inr si"
  by (simp add: dec_SortInfo_def enc_SortInfo_def struct_simps json_simps)

lemma dec_RequestsPaginator_enc: "rpID p < 2 ^ 64 \<Longrightarrow> dec_RequestsPaginator (enc_RequestsPaginator p) old = Inr p"
  by (simp add: dec_RequestsPaginator_def enc_RequestsPaginator_def struct_simps json_simps)

lemma dec_WorkersPaginator_enc: "dec_WorkersPaginator (enc_WorkersPaginator p) old = Inr p"
  by (simp add: dec_WorkersPaginator_def enc_WorkersPaginator_def struct_simps json_simps)

lemma dec_RequestsFilter_enc:
  "\<forall>i \<in> set (fIDs f). i < 2 ^ 64 \<Longrightarrow> dec_RequestsFilter (enc_RequestsFilter f) old = Inr f"
  by (simp add: dec_RequestsFilter_def enc_RequestsFilter_def dec_priorities_def struct_simps json_simps)

text \<open>The table is lost on the way; the server makes it anew.\<close>

lemma dec_WorkersFilter_enc:
  "finite (dom (fCaps f)) \<Longrightarrow>
   dec_WorkersFilter (enc_WorkersFilter f) \<lparr>fGroups = [], fCaps = (\<lambda>_. None), fmatcher = (\<lambda>_. None)\<rparr>
     = Inr (f\<lparr>fmatcher := (\<lambda>_. None)\<rparr>)"
  by (simp add: dec_WorkersFilter_def enc_WorkersFilter_def struct_simps json_simps)

text \<open>Objects are not null, so a pointer to one survives.\<close>

lemma dec_ptr_obj:
  assumes "\<And>x. \<exists>ms. e x = JObj ms" and "\<forall>y. x = Some y \<longrightarrow> d (e y) zero = Inr (g y)"
  shows "dec_ptr d zero (enc_ptr e x) None = Inr (map_option g x)"
proof (cases x)
  case (Some y)
  obtain ms where "e y = JObj ms" using assms(1) by blast
  with Some assms(2) show ?thesis by (simp add: dec_ptr_def enc_ptr_def)
qed (simp add: json_simps)

definition RequestsListSpec_fits :: "RequestsListSpec \<Rightarrow> bool" where
  "RequestsListSpec_fits s =
     ((\<forall>f. rFilter s = Some f \<longrightarrow> (\<forall>i \<in> set (fIDs f). i < 2 ^ 64)) \<and> (\<forall>p. rPaginator s = Some p \<longrightarrow> rpID p < 2 ^ 64))"

lemma dec_RequestsListSpec_enc:
  assumes "RequestsListSpec_fits s"
  shows "dec_RequestsListSpec (enc_RequestsListSpec s) \<lparr>rFilter = None, rSorter = None, rPaginator = None\<rparr> = Inr s"
proof -
  have "dec_ptr dec_RequestsFilter \<lparr>fIDs = [], fPriorities = [], fStates = []\<rparr> (enc_ptr enc_RequestsFilter (rFilter s)) None
      = Inr (map_option id (rFilter s))"
    by (rule dec_ptr_obj, simp add: enc_RequestsFilter_def)
       (use assms in \<open>auto simp: RequestsListSpec_fits_def dec_RequestsFilter_enc\<close>)
  moreover have "dec_ptr dec_SortInfo zero_SortInfo (enc_ptr enc_SortInfo (rSorter s)) None = Inr (map_option id (rSorter s))"
    by (rule dec_ptr_obj, simp add: enc_SortInfo_def) (simp add: json_simps)
  moreover have "dec_ptr dec_RequestsPaginator zero_RequestsPaginator (enc_ptr enc_RequestsPaginator (rPaginator s)) None
      = Inr (map_option id (rPaginator s))"
    by (rule dec_ptr_obj, simp add: enc_RequestsPaginator_def)
       (use assms in \<open>auto simp: RequestsListSpec_fits_def dec_RequestsPaginator_enc\<close>)
  ultimately show ?thesis
    by (simp add: dec_RequestsListSpec_def enc_RequestsListSpec_def struct_simps option.map_id)
qed

lemma dec_WorkersListSpec_enc:
  assumes "\<forall>f. wFilter s = Some f \<longrightarrow> finite (dom (fCaps f))"
  shows "dec_WorkersListSpec (enc_WorkersListSpec s) \<lparr>wFilter = None, wSorter = None, wPaginator = None\<rparr>
    = Inr (s\<lparr>wFilter := map_option (\<lambda>f. f\<lparr>fmatcher := (\<lambda>_. None)\<rparr>) (wFilter s)\<rparr>)"
proof -
  have "dec_ptr dec_WorkersFilter \<lparr>fGroups = [], fCaps = (\<lambda>_. None), fmatcher = (\<lambda>_. None)\<rparr>
      (enc_ptr enc_WorkersFilter (wFilter s)) None = Inr (map_option (\<lambda>f. f\<lparr>fmatcher := (\<lambda>_. None)\<rparr>) (wFilter s))"
    by (rule dec_ptr_obj, simp add: enc_WorkersFilter_def) (use assms in \<open>auto simp: dec_WorkersFilter_enc\<close>)
  moreover have "dec_ptr dec_SortInfo zero_SortInfo (enc_ptr enc_SortInfo (wSorter s)) None = Inr (map_option id (wSorter s))"
    by (rule dec_ptr_obj, simp add: enc_SortInfo_def) (simp add: json_simps)
  moreover have "dec_ptr dec_WorkersPaginator zero_WorkersPaginator (enc_ptr enc_WorkersPaginator (wPaginator s)) None
      = Inr (map_option id (wPaginator s))"
    by (rule dec_ptr_obj, simp add: enc_WorkersPaginator_def) (simp add: dec_WorkersPaginator_enc)
  ultimately show ?thesis
    by (simp add: dec_WorkersListSpec_def enc_WorkersListSpec_def struct_simps option.map_id)
qed

end
