(* ===== verification/Http.thy ===== *)
theory Http
  imports Wire State
begin

text \<open>
  What the HTTP server and client share, \<open>http/http.go\<close>, and the part of \<open>net/http\<close>
  their code works with: headers, requests, responses and the \<open>ResponseWriter\<close>.
\<close>

section \<open>Headers\<close>

definition ListTotalItemsHdr :: string where
  "ListTotalItemsHdr = ''Boruta-List-Total''"

definition ListRemainingItemsHdr :: string where
  "ListRemainingItemsHdr = ''Boruta-List-Remaining''"

definition ListBatchSizeHdr :: string where
  "ListBatchSizeHdr = ''Boruta-List-Batch-Size''"

definition boruta_Version :: string where
  "boruta_Version = ''0.2.1''"

definition RequestStateHdr :: string where
  "RequestStateHdr = ''Boruta-Request-State''"

definition JobTimeoutHdr :: string where
  "JobTimeoutHdr = ''Boruta-Job-Timeout''"

definition WorkerStateHdr :: string where
  "WorkerStateHdr = ''Boruta-Worker-State''"

definition ServerVersionHdr :: string where
  "ServerVersionHdr = ''Boruta-Server-Version''"

definition APIVersionHdr :: string where
  "APIVersionHdr = ''Boruta-Api-Version''"

definition APIStateHdr :: string where
  "APIStateHdr = ''Boruta-Api-State''"

definition ContentTypeHdr :: string where
  "ContentTypeHdr = ''Content-Type''"

lemmas header_names = ListTotalItemsHdr_def ListRemainingItemsHdr_def ListBatchSizeHdr_def RequestStateHdr_def
  JobTimeoutHdr_def WorkerStateHdr_def ServerVersionHdr_def APIVersionHdr_def APIStateHdr_def ContentTypeHdr_def

definition Devel :: string where
  "Devel = ''devel''"

type_synonym headers = "(string \<times> text_value) list"

definition hdr_Get :: "headers \<Rightarrow> string \<Rightarrow> text_value" where
  "hdr_Get h k = (case map_of h k of None \<Rightarrow> Text '''' | Some v \<Rightarrow> v)"

definition hdr_Add :: "string \<Rightarrow> text_value \<Rightarrow> headers \<Rightarrow> headers" where
  "hdr_Add k v h = h @ [(k, v)]"

definition hdr_Set :: "string \<Rightarrow> text_value \<Rightarrow> headers \<Rightarrow> headers" where
  "hdr_Set k v h = filter (\<lambda>x. fst x \<noteq> k) h @ [(k, v)]"

text \<open>\<open>DateFormat\<close> writes whole seconds.\<close>

definition format_date :: "time \<times> zone \<Rightarrow> text_value" where
  "format_date t = TimeText (fst t div second_ns * second_ns) (snd t)"

text \<open>
  What \<open>encoding/json\<close> says of a \<open>time.Time\<close> outside the years 0 to 9999; nothing else that
  is written here can fail.
\<close>

definition marshal_time_error :: string where
  "marshal_time_error =
     ''json: error calling MarshalJSON for type time.Time: Time.MarshalJSON: year outside of range [0,9999]''"

section \<open>Requests and responses\<close>

record http_request =
  Method :: string
  Path :: string
  ReqBody :: payload

record http_response =
  StatusCode :: nat
  Header :: headers
  Body :: payload

text \<open>
  A \<open>ResponseWriter\<close>: status and headers are fixed by the first \<open>WriteHeader\<close>, later ones
  and later changes of the headers have no effect.  No handler writes a body twice.
\<close>

record writer =
  w_headers :: headers
  w_sent :: "(nat \<times> headers) option"
  w_body :: payload

definition new_writer :: writer where
  "new_writer = \<lparr>w_headers = [], w_sent = None, w_body = EmptyBody\<rparr>"

definition set_headers :: "(headers \<Rightarrow> headers) \<Rightarrow> writer \<Rightarrow> writer" where
  "set_headers f w = w\<lparr>w_headers := f (w_headers w)\<rparr>"

definition WriteHeader :: "nat \<Rightarrow> writer \<Rightarrow> writer" where
  "WriteHeader status w = (case w_sent w of
       None \<Rightarrow> w\<lparr>w_sent := Some (status, w_headers w)\<rparr>
     | Some _ \<Rightarrow> w)"

definition write_body :: "payload \<Rightarrow> writer \<Rightarrow> writer" where
  "write_body b w = (WriteHeader 200 w)\<lparr>w_body := b\<rparr>"

text \<open>What is sent in the end: the answer to \<open>HEAD\<close> has no body.\<close>

definition response_of :: "string \<Rightarrow> writer \<Rightarrow> http_response" where
  "response_of method w = (case w_sent (WriteHeader 200 w) of
       None \<Rightarrow> \<lparr>StatusCode = 200, Header = w_headers w, Body = w_body w\<rparr>
     | Some (status, h) \<Rightarrow> \<lparr>StatusCode = status, Header = h, Body = (if method = ''HEAD'' then EmptyBody else w_body w)\<rparr>)"

section \<open>What a handler returns\<close>

datatype data =
    NilData
  | ErrorData go_error
  | ServerErrorData ServerError
  | ReqInfoData ReqInfo
  | ReqInfosData "ReqInfo list"
  | WorkerInfoData WorkerInfo
  | WorkerInfosData "WorkerInfo list"
  | ReqIDData ReqID
  | AccessData AccessInfo2
  | VersionData BorutaVersion

record Response =
  Data :: data
  Headers :: headers

definition NewResponse :: "data \<Rightarrow> headers \<Rightarrow> Response" where
  "NewResponse d h = (case d of
       ServerErrorData _ \<Rightarrow> \<lparr>Data = d, Headers = h\<rparr>
     | ErrorData err \<Rightarrow> \<lparr>Data = ServerErrorData (NewServerError err []), Headers = h\<rparr>
     | _ \<Rightarrow> \<lparr>Data = d, Headers = h\<rparr>)"

text \<open>An \<open>error\<close> result: \<open>nil\<close> is no data.\<close>

definition error_data :: "error option \<Rightarrow> data" where
  "error_data err = (case err of None \<Rightarrow> NilData | Some e \<Rightarrow> ErrorData (Boruta e))"

end
