(* ===== verification/Handlers.thy ===== *)
theory Handlers
  imports Http RequestList WorkerPages
begin

text \<open>
  The handlers of version 1 of the API, \<open>http/server/api/v1/api.go\<close> and \<open>handlers.go\<close>.
  A handler reads identifiers from the URL and parameters from the body, calls the
  collection of requests or the list of workers, and its result is written as JSON with
  the headers that fit it.
\<close>

section \<open>Marshalling\<close>

fun data_fits :: "data \<Rightarrow> bool" where
  "data_fits (ReqInfoData r) = req_times_fit r"
| "data_fits (ReqInfosData rs) = list_all req_times_fit rs"
| "data_fits _ = True"

fun marshal :: "data \<Rightarrow> json" where
  "marshal NilData = JNull"
| "marshal (ErrorData err) = JObj []"
| "marshal (ServerErrorData e) = enc_ServerError e"
| "marshal (ReqInfoData r) = enc_ReqInfo r"
| "marshal (ReqInfosData rs) = JArr (map enc_ReqInfo rs)"
| "marshal (WorkerInfoData w) = enc_WorkerInfo w"
| "marshal (WorkerInfosData ws) = JArr (map enc_WorkerInfo ws)"
| "marshal (ReqIDData i) = enc_ReqIDPack i"
| "marshal (AccessData a) = enc_AccessInfo2 a"
| "marshal (VersionData v) = enc_BorutaVersion v"

definition jsonMustMarshal :: "data \<Rightarrow> ServerError + json" where
  "jsonMustMarshal d = (if data_fits d then Inr (marshal d)
     else Inl (NewServerError ErrInternalServerError
       [''unable to marshal JSON:'' @ marshal_time_error]))"

section \<open>Writing the result of a handler\<close>

type_synonym params = "(string \<times> string) list"
type_synonym reqHandler = "http_request \<Rightarrow> params \<Rightarrow> Response op"

definition param :: "params \<Rightarrow> string \<Rightarrow> string" where
  "param ps k = (case map_of ps k of None \<Rightarrow> '''' | Some v \<Rightarrow> v)"

text \<open>A panic the router recovers from, with the value it was raised with.\<close>

datatype panic_value =
    ServerPanic ServerError
  | RuntimePanic string

text \<open>The headers of a result, or the panic of a request in progress that has no job.\<close>

definition data_headers :: "data \<Rightarrow> panic_value + headers" where
  "data_headers d = (case d of
       ReqInfoData r \<Rightarrow>
         if RState r = INPROGRESS
         then (case RJob r of
             None \<Rightarrow> Inl (RuntimePanic ''invalid memory address or nil pointer dereference'')
           | Some j \<Rightarrow> Inr [(RequestStateHdr, Text (ReqState_text (RState r))), (JobTimeoutHdr, format_date (timeout_time j))])
         else Inr [(RequestStateHdr, Text (ReqState_text (RState r)))]
     | ReqInfosData rs \<Rightarrow> Inr [(ListBatchSizeHdr, Text (FormatUint (length rs)))]
     | WorkerInfoData w \<Rightarrow> Inr [(WorkerStateHdr, Text (WorkerState_text (WState w)))]
     | WorkerInfosData ws \<Rightarrow> Inr [(ListBatchSizeHdr, Text (FormatUint (length ws)))]
     | VersionData v \<Rightarrow> Inr [(ServerVersionHdr, Text (Server v)), (APIVersionHdr, Text (API v)), (APIStateHdr, Text (vState v))]
     | _ \<Rightarrow> Inr [])"

text \<open>
  What \<open>routerSetHandler\<close> does with the response: the status is sent before the body is
  marshalled.
\<close>

definition respond :: "nat \<Rightarrow> Response \<Rightarrow> writer \<Rightarrow> panic_value option \<times> writer" where
  "respond success resp w =
     (let status = (case Data resp of ServerErrorData e \<Rightarrow> Status e | _ \<Rightarrow> success) in
      case data_headers (Data resp) of
        Inl p \<Rightarrow> (Some p, set_headers (hdr_Add RequestStateHdr (Text (ReqState_text INPROGRESS))) w)
      | Inr hs \<Rightarrow>
        let w = set_headers (\<lambda>h. h @ hs) w;
            w = (if status \<noteq> 204 then set_headers (hdr_Set ContentTypeHdr (Text ''application/json'')) w else w);
            w = set_headers (\<lambda>h. h @ Headers resp) w;
            w = WriteHeader status w
        in if status = 204 then (None, w)
           else (case jsonMustMarshal (Data resp) of
               Inl e \<Rightarrow> (Some (ServerPanic e), w)
             | Inr j \<Rightarrow> (None, write_body (JsonBody j) w)))"

type_synonym handler = "http_request \<Rightarrow> params \<Rightarrow> (panic_value option \<times> writer) op"

definition routerSetHandler :: "reqHandler \<Rightarrow> nat \<Rightarrow> handler" where
  "routerSetHandler handle success r ps = bnd (handle r ps) (\<lambda>resp. ret (respond success resp new_writer))"

section \<open>Requests\<close>

definition bad :: "go_error \<Rightarrow> Response op" where
  "bad err = ret (NewResponse (ErrorData err) [])"

text \<open>A new request is created with its times in UTC, so the location they came in is dropped.\<close>

definition newRequestHandler :: reqHandler where
  "newRequestHandler r ps = (case Decode dec_ReqInfo (ReqBody r) zero_ReqInfo of
       Inl err \<Rightarrow> bad err
     | Inr newReq \<Rightarrow>
         bnd (NewRequest (RCaps newReq) (Prio newReq) \<lparr>uGroups = []\<rparr> (ValidAfter newReq) (Deadline newReq))
           (\<lambda>res. case res of Inl err \<Rightarrow> bad (Boruta err) | Inr rid \<Rightarrow> ret (NewResponse (ReqIDData rid) [])))"

text \<open>\<open>parseReqID\<close>\<close>

definition parseReqID :: "string \<Rightarrow> ReqID option" where
  "parseReqID s = ParseUint s"

definition closeRequestHandler :: reqHandler where
  "closeRequestHandler r ps = (case parseReqID (param ps ''id'') of
       None \<Rightarrow> bad ErrBadID
     | Some reqid \<Rightarrow> bnd (CloseRequest reqid) (\<lambda>err. ret (NewResponse (error_data err) [])))"

definition updateRequestHandler :: reqHandler where
  "updateRequestHandler r ps = (case parseReqID (param ps ''id'') of
       None \<Rightarrow> bad ErrBadID
     | Some reqid \<Rightarrow> (case Decode dec_ReqInfo (ReqBody r) zero_ReqInfo of
           Inl err \<Rightarrow> bad err
         | Inr req \<Rightarrow>
             if ID req \<noteq> 0 \<and> ID req \<noteq> reqid then bad ErrIDMismatch
             else bnd (UpdateRequest (Some (req\<lparr>ID := reqid\<rparr>))) (\<lambda>err. ret (NewResponse (error_data err) []))))"

definition getRequestInfoHandler :: reqHandler where
  "getRequestInfoHandler r ps = (case parseReqID (param ps ''id'') of
       None \<Rightarrow> bad ErrBadID
     | Some reqid \<Rightarrow> bnd (GetRequestInfo reqid) (\<lambda>res. case res of
           Inl err \<Rightarrow> bad (Boruta err)
         | Inr reqinfo \<Rightarrow> ret (NewResponse (ReqInfoData reqinfo) [])))"

definition list_headers :: "ListInfo \<Rightarrow> headers" where
  "list_headers li = hdr_Set ListRemainingItemsHdr (Text (FormatUint (unat (RemainingItems li))))
     (hdr_Set ListTotalItemsHdr (Text (FormatUint (unat (TotalItems li)))) [])"

text \<open>A nil filter, or the \<open>Match\<close> method of one.\<close>

definition requests_filter :: "RequestsFilter option \<Rightarrow> (list_elem \<Rightarrow> bool) option" where
  "requests_filter f = map_option Requests_Match f"

definition listRequestsHandler :: reqHandler where
  "listRequestsHandler r ps =
     (case (case Decode dec_RequestsListSpec (ReqBody r) \<lparr>rFilter = None, rSorter = None, rPaginator = None\<rparr> of
              Inl err \<Rightarrow> if err \<noteq> EOF then Inl err else Inr \<lparr>rFilter = None, rSorter = None, rPaginator = None\<rparr>
            | Inr listSpec \<Rightarrow> Inr listSpec) of
        Inl err \<Rightarrow> bad err
      | Inr listSpec \<Rightarrow>
          bnd (ListRequests (requests_filter (rFilter listSpec)) (rSorter listSpec) (rPaginator listSpec)) (\<lambda>res. case res of
            Inl err \<Rightarrow> bad (Boruta err)
          | Inr (reqs, li) \<Rightarrow> ret (NewResponse (ReqInfosData reqs) (list_headers li))))"

definition acquireWorkerHandler :: reqHandler where
  "acquireWorkerHandler r ps = (case parseReqID (param ps ''id'') of
       None \<Rightarrow> bad ErrBadID
     | Some reqid \<Rightarrow> bnd (AcquireWorker reqid) (\<lambda>res. case res of
           Inl err \<Rightarrow> bad (Boruta err)
         | Inr accessInfo \<Rightarrow> ret (NewResponse (AccessData
             \<lparr>Addr2 = Some (Addr accessInfo), Key2 = PemText ''RSA PRIVATE KEY'' (Key accessInfo),
              Username2 = Username accessInfo\<rparr>) [])))"

definition prolongAccessHandler :: reqHandler where
  "prolongAccessHandler r ps = (case parseReqID (param ps ''id'') of
       None \<Rightarrow> bad ErrBadID
     | Some reqid \<Rightarrow> bnd (ProlongAccess reqid) (\<lambda>err. ret (NewResponse (error_data err) [])))"

section \<open>Workers\<close>

definition workers_filter :: "WorkersFilter option \<Rightarrow> (list_elem \<Rightarrow> bool) option" where
  "workers_filter f = map_option Workers_Match f"

definition listWorkersHandler :: reqHandler where
  "listWorkersHandler r ps =
     (case (case Decode dec_WorkersListSpec (ReqBody r) \<lparr>wFilter = None, wSorter = None, wPaginator = None\<rparr> of
              Inl err \<Rightarrow> if err \<noteq> EOF then Inl err else Inr \<lparr>wFilter = None, wSorter = None, wPaginator = None\<rparr>
            | Inr listSpec \<Rightarrow> Inr listSpec) of
        Inl err \<Rightarrow> bad err
      | Inr listSpec \<Rightarrow>
          let filt = map_option (\<lambda>f. NewWorkers (fGroups f) (fCaps f)) (wFilter listSpec) in
          bnd (ListWorkers (workers_filter filt) (wSorter listSpec) (wPaginator listSpec)) (\<lambda>res. case res of
            Inl err \<Rightarrow> bad (Boruta err)
          | Inr (ws, li) \<Rightarrow> ret (NewResponse (WorkerInfosData ws) (list_headers li))))"

definition getWorkerInfoHandler :: reqHandler where
  "getWorkerInfoHandler r ps =
     (if \<not> isValidUUID (param ps ''id'') then bad ErrBadUUID
      else bnd (GetWorkerInfo (param ps ''id'')) (\<lambda>res. case res of
          Inl err \<Rightarrow> bad (Boruta err)
        | Inr workerinfo \<Rightarrow> ret (NewResponse (WorkerInfoData workerinfo) [])))"

definition setWorkerStateHandler :: reqHandler where
  "setWorkerStateHandler r ps =
     (if \<not> isValidUUID (param ps ''id'') then bad ErrBadUUID
      else (case Decode dec_WorkerStatePack (ReqBody r) '''' of
          Inl err \<Rightarrow> bad err
        | Inr state \<Rightarrow> bnd (SetState (param ps ''id'') state) (\<lambda>err. ret (NewResponse (error_data err) []))))"

definition setWorkerGroupsHandler :: reqHandler where
  "setWorkerGroupsHandler r ps =
     (if \<not> isValidUUID (param ps ''id'') then bad ErrBadUUID
      else (case Decode dec_groups (ReqBody r) [] of
          Inl err \<Rightarrow> bad err
        | Inr groups \<Rightarrow> bnd (SetGroups (param ps ''id'') groups) (\<lambda>err. ret (NewResponse (error_data err) []))))"

definition workerDeregister :: reqHandler where
  "workerDeregister r ps =
     (if \<not> isValidUUID (param ps ''id'') then bad ErrBadUUID
      else bnd (Deregister (param ps ''id'')) (\<lambda>err. ret (NewResponse (error_data err) [])))"

text \<open>The version of the API.\<close>

definition v1_Version :: string where
  "v1_Version = ''v1''"

definition versionHandler :: reqHandler where
  "versionHandler r ps = ret (NewResponse (VersionData \<lparr>Server = boruta_Version, API = v1_Version, vState = Devel\<rparr>) [])"

section \<open>The routes\<close>

text \<open>
  \<open>NewAPI\<close>: the methods and patterns below \<open>/api/v1\<close> with their handlers and the status
  of success.
\<close>

definition v1_routes :: "(string list \<times> string \<times> handler) list" where
  "v1_routes =
     [([''POST''], ''/reqs/list'', routerSetHandler listRequestsHandler 200),
      ([''POST''], ''/reqs/'', routerSetHandler newRequestHandler 201),
      ([''GET'', ''HEAD''], ''/reqs/:id'', routerSetHandler getRequestInfoHandler 200),
      ([''POST''], ''/reqs/:id'', routerSetHandler updateRequestHandler 204),
      ([''POST''], ''/reqs/:id/close'', routerSetHandler closeRequestHandler 204),
      ([''POST''], ''/reqs/:id/acquire_worker'', routerSetHandler acquireWorkerHandler 200),
      ([''POST''], ''/reqs/:id/prolong'', routerSetHandler prolongAccessHandler 204),
      ([''GET'', ''HEAD''], ''/workers/'', routerSetHandler listWorkersHandler 200),
      ([''POST''], ''/workers/list'', routerSetHandler listWorkersHandler 200),
      ([''GET'', ''HEAD''], ''/workers/:id'', routerSetHandler getWorkerInfoHandler 200),
      ([''POST''], ''/workers/:id/setstate'', routerSetHandler setWorkerStateHandler 202),
      ([''POST''], ''/workers/:id/setgroups'', routerSetHandler setWorkerGroupsHandler 204),
      ([''POST''], ''/workers/:id/deregister'', routerSetHandler workerDeregister 204),
      ([''GET'', ''HEAD''], ''/version'', routerSetHandler versionHandler 200)]"

end
