(* ===== verification/ApiServer.thy ===== *)
theory ApiServer
  imports Handlers
begin

text \<open>
  The server of all API versions, \<open>http/server/api/api.go\<close>: the table of routes, the
  redirection to the default version, and what becomes of a panic in a handler.

  The router (\<open>httptreemux\<close>) and the CORS filter (\<open>rs/cors\<close>) are libraries.  They are
  parameters, and the locale \<open>deployment\<close> states what their documentation promises.  The
  filter's own headers (\<open>Vary\<close>, \<open>Access-Control-...\<close>), which are for browsers and which neither
  the server nor the client looks at, are left out: a request without an origin passes it.
\<close>

section \<open>Handlers of the server itself\<close>

definition default_api :: string where
  "default_api = v1_Version"

text \<open>
  \<open>panicHandler\<close>: when the handler has already sent its status, the status and the type
  set here come too late.
\<close>

definition panicHandler :: "panic_value \<Rightarrow> writer \<Rightarrow> writer" where
  "panicHandler p w =
     (case (case p of ServerPanic e \<Rightarrow> (Err e, Status e) | RuntimePanic text \<Rightarrow> (text, 500)) of
        (reason, status) \<Rightarrow>
          write_body (PlainBody (''Internal Server Error:'' @ [CHR 0x0A] @ reason))
            (WriteHeader status (set_headers (hdr_Set ContentTypeHdr (Text ''text/plain; charset=utf-8'')) w)))"

text \<open>\<open>http.Redirect\<close> answers \<open>GET\<close> and \<open>HEAD\<close> with a short page as well.\<close>

definition redirectToDefault :: handler where
  "redirectToDefault r ps =
     (let url = ''/api/'' @ default_api @ ''/'' @ param ps ''path'';
          w = set_headers (hdr_Set ''Location'' (Text url)) new_writer;
          w = (if Method r = ''GET'' \<or> Method r = ''HEAD''
               then set_headers (hdr_Set ContentTypeHdr (Text ''text/html; charset=utf-8'')) w else w);
          w = WriteHeader 308 w
      in ret (None, if Method r = ''GET''
                    then write_body (PlainBody (''<a href='' @ [CHR 0x22] @ url @ [CHR 0x22] @ ''>Permanent Redirect</a>.'')) w
                    else w))"

definition notFoundHandler :: handler where
  "notFoundHandler r ps =
     (let srvErr = NewServerError (Boruta (NotFoundError (Path r))) [];
          w = set_headers (hdr_Set ContentTypeHdr (Text ''application/json'')) new_writer
      in ret (None, write_body (JsonBody (enc_ServerError srvErr)) (WriteHeader (Status srvErr) w)))"

section \<open>The table of routes\<close>

type_synonym route = "(string \<times> string) \<times> handler"

definition setDefaultAPIRedirect :: "route list" where
  "setDefaultAPIRedirect = concat (map (\<lambda>m.
      [((m, ''/api/*path''), redirectToDefault), ((m, ''/api/'' @ default_api @ ''/*path''), notFoundHandler)])
    [''GET'', ''HEAD'', ''POST'', ''PUT'', ''PATCH'', ''DELETE'', ''CONNECT'', ''OPTIONS'', ''TRACE''])"

definition all_routes :: "route list" where
  "all_routes = concat (map (\<lambda>(methods, pattern, h). map (\<lambda>m. ((m, ''/api/'' @ v1_Version @ pattern), h)) methods) v1_routes)
     @ setDefaultAPIRedirect"

record cors_options =
  AllowedOrigins :: "string list"
  AllowedMethods :: "string list"
  AllowedHeaders :: "string list"
  ExposedHeaders :: "string list"
  MaxAge :: int

definition api_cors :: "string list \<Rightarrow> int \<Rightarrow> cors_options" where
  "api_cors origins age = \<lparr>AllowedOrigins = origins, AllowedMethods = [''GET'', ''HEAD'', ''POST''],
     AllowedHeaders = [ContentTypeHdr],
     ExposedHeaders = [ListTotalItemsHdr, ListRemainingItemsHdr, RequestStateHdr, ListBatchSizeHdr, JobTimeoutHdr,
       WorkerStateHdr, ServerVersionHdr, APIVersionHdr, APIStateHdr],
     MaxAge = age\<rparr>"

section \<open>Serving a request\<close>

text \<open>
  The router finds the pattern of a request with the values of its parameters, or answers
  itself.
\<close>

type_synonym tree = "(string \<times> string) list \<Rightarrow> http_request \<Rightarrow> http_response + (string \<times> params)"
type_synonym http_handler = "http_request \<Rightarrow> http_response op"
type_synonym cors = "cors_options \<Rightarrow> http_handler \<Rightarrow> http_handler"

definition run_handler :: "handler \<Rightarrow> http_request \<Rightarrow> params \<Rightarrow> http_response op" where
  "run_handler h r ps = bnd (h r ps) (\<lambda>res. case res of
       (None, w) \<Rightarrow> ret (response_of (Method r) w)
     | (Some p, w) \<Rightarrow> ret (response_of (Method r) (panicHandler p w)))"

definition serve_tree :: "tree \<Rightarrow> http_handler" where
  "serve_tree tree r = (case tree (map fst all_routes) r of
       Inl resp \<Rightarrow> ret resp
     | Inr (pattern, ps) \<Rightarrow> (case map_of all_routes (Method r, pattern) of
           None \<Rightarrow> ret \<lparr>StatusCode = 404, Header = [], Body = EmptyBody\<rparr>
         | Some h \<Rightarrow> run_handler h r ps))"

text \<open>\<open>NewAPI\<close>: the router behind the CORS filter.\<close>

definition NewAPI :: "tree \<Rightarrow> cors \<Rightarrow> string list \<Rightarrow> int \<Rightarrow> http_handler" where
  "NewAPI tree cors origins age = cors (api_cors origins age) (serve_tree tree)"

section \<open>What the router promises\<close>

fun split_path :: "string \<Rightarrow> string list" where
  "split_path [] = [[]]"
| "split_path (c # cs) = (if c = CHR ''/'' then [] # split_path cs
     else (case split_path cs of [] \<Rightarrow> [[c]] | s # ss \<Rightarrow> (c # s) # ss))"

fun join_path :: "string list \<Rightarrow> string" where
  "join_path [] = []"
| "join_path [s] = s"
| "join_path (s # ss) = s @ CHR ''/'' # join_path ss"

text \<open>A segment of a pattern: 0 is static, 1 is a parameter, 2 takes the rest of the path.\<close>

definition rank :: "string \<Rightarrow> nat" where
  "rank p = (case p of [] \<Rightarrow> 0 | c # _ \<Rightarrow> if c = CHR '':'' then 1 else if c = CHR ''*'' then 2 else 0)"

fun match_segs :: "string list \<Rightarrow> string list \<Rightarrow> params option" where
  "match_segs [] [] = Some []"
| "match_segs (p # ps) (s # ss) =
     (if rank p = 2 then (if ps = [] \<and> join_path (s # ss) \<noteq> '''' then Some [(tl p, join_path (s # ss))] else None)
      else if rank p = 1 then (if s = '''' then None else map_option (\<lambda>r. (tl p, s) # r) (match_segs ps ss))
      else if p = s then match_segs ps ss else None)"
| "match_segs _ _ = None"

text \<open>A static segment goes before a parameter, and a parameter before the rest of the path.\<close>

fun better :: "string list \<Rightarrow> string list \<Rightarrow> bool" where
  "better (p # ps) (q # qs) = (if p = q then better ps qs else rank p < rank q)"
| "better _ _ = False"

definition path_match :: "string \<Rightarrow> string \<Rightarrow> params option" where
  "path_match pattern path = match_segs (split_path pattern) (split_path path)"

locale deployment =
  fixes tree :: tree and cors :: cors
  assumes finds: "(Method r, p) \<in> set T \<Longrightarrow> path_match p (Path r) = Some ps \<Longrightarrow>
      (\<And>q. (Method r, q) \<in> set T \<Longrightarrow> q \<noteq> p \<Longrightarrow> path_match q (Path r) \<noteq> None \<Longrightarrow>
         better (split_path p) (split_path q)) \<Longrightarrow>
      tree T r = Inr (p, ps)"
    and passes: "cors opts h r = h r"

text \<open>A router and a filter that keep the promise: the best of the patterns that match.\<close>

definition best_match :: tree where
  "best_match T r =
     (let ps = filter (\<lambda>p. (Method r, p) \<in> set T \<and> path_match p (Path r) \<noteq> None) (map snd T) in
      case List.find (\<lambda>p. list_all (\<lambda>q. q = p \<or> better (split_path p) (split_path q)) ps) ps of
        None \<Rightarrow> Inl \<lparr>StatusCode = 404, Header = [], Body = PlainBody ''404 page not found''\<rparr>
      | Some p \<Rightarrow> Inr (p, the (path_match p (Path r))))"

definition no_cors :: cors where
  "no_cors opts h = h"

lemma better_asym: "better p q \<Longrightarrow> \<not> better q p"
  by (induction p q rule: better.induct) (auto split: if_splits)

lemma find_unique:
  assumes "x \<in> set xs" and "P x" and "\<forall>y \<in> set xs. P y \<longrightarrow> y = x"
  shows "List.find P xs = Some x"
proof (cases "List.find P xs")
  case None
  with assms(1,2) show ?thesis by (simp add: find_None_iff)
next
  case (Some y)
  then have "y \<in> set xs \<and> P y" by (auto simp: find_Some_iff)
  with assms(3) Some show ?thesis by simp
qed

interpretation best: deployment best_match no_cors
proof
  fix r :: http_request and p T ps
  assume p: "(Method r, p) \<in> set T" "path_match p (Path r) = Some ps"
    and other: "\<And>q. (Method r, q) \<in> set T \<Longrightarrow> q \<noteq> p \<Longrightarrow> path_match q (Path r) \<noteq> None \<Longrightarrow>
       better (split_path p) (split_path q)"
  let ?ps = "filter (\<lambda>p. (Method r, p) \<in> set T \<and> path_match p (Path r) \<noteq> None) (map snd T)"
  let ?best = "\<lambda>p. list_all (\<lambda>q. q = p \<or> better (split_path p) (split_path q)) ?ps"
  have "p \<in> set ?ps" using p by force
  moreover have "?best p" using other by (auto simp: list_all_iff)
  moreover have "q = p" if q: "q \<in> set ?ps" "?best q" for q
  proof (rule ccontr)
    assume neq: "q \<noteq> p"
    have q': "(Method r, q) \<in> set T" "path_match q (Path r) \<noteq> None" using q(1) by simp_all
    have "better (split_path p) (split_path q)" by (rule other [OF q'(1) neq q'(2)])
    moreover have "p = q \<or> better (split_path q) (split_path p)"
      by (rule bspec [OF q(2) [unfolded list_all_iff] \<open>p \<in> set ?ps\<close>])
    ultimately show False using better_asym neq by metis
  qed
  ultimately have "List.find ?best ?ps = Some p"
    by (intro find_unique) blast+
  then show "best_match T r = Inr (p, ps)" using p(2) by (simp add: best_match_def Let_def)
qed (simp add: no_cors_def)

end
