(* ===== verification/Routing.thy ===== *)
theory Routing
  imports ApiServer
begin

text \<open>
  Which handler serves which path.  The facts hold for every router and filter that keep
  the promise of the locale \<open>deployment\<close>.
\<close>

section \<open>Paths\<close>

lemma split_path_nil [simp]: "split_path s \<noteq> []"
  by (induction s) (auto split: list.split)

lemma split_path_segment: "CHR ''/'' \<notin> set a \<Longrightarrow> split_path a = [a]"
  by (induction a) auto

lemma split_path_append: "CHR ''/'' \<notin> set a \<Longrightarrow> split_path (a @ CHR ''/'' # b) = a # split_path b"
  by (induction a) auto

text \<open>An identifier that can stand in a path.\<close>

definition path_id :: "string \<Rightarrow> bool" where
  "path_id s = (s \<noteq> '''' \<and> CHR ''/'' \<notin> set s \<and> s \<noteq> ''list'')"

lemma path_id_FormatUint: "path_id (FormatUint i)"
proof -
  have "CHR ''/'' \<notin> set (FormatUint i)" using FormatUint_digits [of "CHR ''/''" i] by (auto simp: is_digit_def)
  moreover have "FormatUint i \<noteq> ''list''"
    using FormatUint_digits [of "CHR ''l''" i] by (auto simp: is_digit_def)
  ultimately show ?thesis by (simp add: path_id_def)
qed

lemma path_id_UUID: "isValidUUID u \<Longrightarrow> path_id u"
  using isValidUUID_nonempty [of u] by (auto simp: path_id_def isValidUUID_def)

section \<open>The routes of version 1\<close>

definition patterns_of :: "string \<Rightarrow> (string \<times> 'a) list \<Rightarrow> 'a list" where
  "patterns_of m T = map snd (filter (\<lambda>k. fst k = m) T)"

lemma patterns_of_iff: "(m, q) \<in> set T \<longleftrightarrow> q \<in> set (patterns_of m T)"
  by (force simp: patterns_of_def)

lemmas handler_of = all_routes_def v1_routes_def setDefaultAPIRedirect_def default_api_def v1_Version_def

lemma patterns_POST:
  "patterns_of ''POST'' (map fst all_routes) =
    [''/api/v1/reqs/list'', ''/api/v1/reqs/'', ''/api/v1/reqs/:id'', ''/api/v1/reqs/:id/close'',
     ''/api/v1/reqs/:id/acquire_worker'', ''/api/v1/reqs/:id/prolong'', ''/api/v1/workers/list'',
     ''/api/v1/workers/:id/setstate'', ''/api/v1/workers/:id/setgroups'', ''/api/v1/workers/:id/deregister'',
     ''/api/*path'', ''/api/v1/*path'']"
  by (simp add: patterns_of_def handler_of)

lemma patterns_GET:
  "patterns_of ''GET'' (map fst all_routes) =
    [''/api/v1/reqs/:id'', ''/api/v1/workers/'', ''/api/v1/workers/:id'', ''/api/v1/version'',
     ''/api/*path'', ''/api/v1/*path'']"
  by (simp add: patterns_of_def handler_of)

lemma patterns_HEAD:
  "patterns_of ''HEAD'' (map fst all_routes) =
    [''/api/v1/reqs/:id'', ''/api/v1/workers/'', ''/api/v1/workers/:id'', ''/api/v1/version'',
     ''/api/*path'', ''/api/v1/*path'']"
  by (simp add: patterns_of_def handler_of)

lemmas patterns = patterns_POST patterns_GET patterns_HEAD

lemmas path_simps = path_match_def rank_def split_path_append split_path_segment path_id_def

lemma handlers:
  "map_of all_routes (''POST'', ''/api/v1/reqs/list'') = Some (routerSetHandler listRequestsHandler 200)"
  "map_of all_routes (''POST'', ''/api/v1/reqs/'') = Some (routerSetHandler newRequestHandler 201)"
  "map_of all_routes (''GET'', ''/api/v1/reqs/:id'') = Some (routerSetHandler getRequestInfoHandler 200)"
  "map_of all_routes (''HEAD'', ''/api/v1/reqs/:id'') = Some (routerSetHandler getRequestInfoHandler 200)"
  "map_of all_routes (''POST'', ''/api/v1/reqs/:id'') = Some (routerSetHandler updateRequestHandler 204)"
  "map_of all_routes (''POST'', ''/api/v1/reqs/:id/close'') = Some (routerSetHandler closeRequestHandler 204)"
  "map_of all_routes (''POST'', ''/api/v1/reqs/:id/acquire_worker'') = Some (routerSetHandler acquireWorkerHandler 200)"
  "map_of all_routes (''POST'', ''/api/v1/reqs/:id/prolong'') = Some (routerSetHandler prolongAccessHandler 204)"
  "map_of all_routes (''POST'', ''/api/v1/workers/list'') = Some (routerSetHandler listWorkersHandler 200)"
  "map_of all_routes (''GET'', ''/api/v1/workers/:id'') = Some (routerSetHandler getWorkerInfoHandler 200)"
  "map_of all_routes (''HEAD'', ''/api/v1/workers/:id'') = Some (routerSetHandler getWorkerInfoHandler 200)"
  "map_of all_routes (''POST'', ''/api/v1/workers/:id/setstate'') = Some (routerSetHandler setWorkerStateHandler 202)"
  "map_of all_routes (''POST'', ''/api/v1/workers/:id/setgroups'') = Some (routerSetHandler setWorkerGroupsHandler 204)"
  "map_of all_routes (''POST'', ''/api/v1/workers/:id/deregister'') = Some (routerSetHandler workerDeregister 204)"
  "map_of all_routes (''GET'', ''/api/v1/version'') = Some (routerSetHandler versionHandler 200)"
  "map_of all_routes (''HEAD'', ''/api/v1/version'') = Some (routerSetHandler versionHandler 200)"
  by (simp_all add: handler_of)

text \<open>The pattern that serves a path, the values of its parameters and its handler.\<close>

definition routed :: "string \<Rightarrow> string \<Rightarrow> string \<Rightarrow> params \<Rightarrow> handler \<Rightarrow> bool" where
  "routed m path p ps h \<longleftrightarrow>
     list_all (\<lambda>q. q = p \<or> path_match q path = None \<or> better (split_path p) (split_path q))
       (patterns_of m (map fst all_routes))
     \<and> p \<in> set (patterns_of m (map fst all_routes)) \<and> path_match p path = Some ps
     \<and> map_of all_routes (m, p) = Some h"

lemmas route_simps = routed_def patterns handlers path_simps

lemma routed_ids:
  assumes "path_id i"
  shows "routed ''POST'' (''/api/v1/reqs/'' @ i @ ''/close'') ''/api/v1/reqs/:id/close'' [(''id'', i)] (routerSetHandler closeRequestHandler 204)"
    and "routed ''POST'' (''/api/v1/reqs/'' @ i @ ''/acquire_worker'') ''/api/v1/reqs/:id/acquire_worker'' [(''id'', i)] (routerSetHandler acquireWorkerHandler 200)"
    and "routed ''POST'' (''/api/v1/reqs/'' @ i @ ''/prolong'') ''/api/v1/reqs/:id/prolong'' [(''id'', i)] (routerSetHandler prolongAccessHandler 204)"
    and "routed ''POST'' (''/api/v1/reqs/'' @ i) ''/api/v1/reqs/:id'' [(''id'', i)] (routerSetHandler updateRequestHandler 204)"
    and "routed ''GET'' (''/api/v1/reqs/'' @ i) ''/api/v1/reqs/:id'' [(''id'', i)] (routerSetHandler getRequestInfoHandler 200)"
    and "routed ''HEAD'' (''/api/v1/reqs/'' @ i) ''/api/v1/reqs/:id'' [(''id'', i)] (routerSetHandler getRequestInfoHandler 200)"
    and "routed ''GET'' (''/api/v1/workers/'' @ i) ''/api/v1/workers/:id'' [(''id'', i)] (routerSetHandler getWorkerInfoHandler 200)"
    and "routed ''HEAD'' (''/api/v1/workers/'' @ i) ''/api/v1/workers/:id'' [(''id'', i)] (routerSetHandler getWorkerInfoHandler 200)"
    and "routed ''POST'' (''/api/v1/workers/'' @ i @ ''/setstate'') ''/api/v1/workers/:id/setstate'' [(''id'', i)] (routerSetHandler setWorkerStateHandler 202)"
    and "routed ''POST'' (''/api/v1/workers/'' @ i @ ''/setgroups'') ''/api/v1/workers/:id/setgroups'' [(''id'', i)] (routerSetHandler setWorkerGroupsHandler 204)"
    and "routed ''POST'' (''/api/v1/workers/'' @ i @ ''/deregister'') ''/api/v1/workers/:id/deregister'' [(''id'', i)] (routerSetHandler workerDeregister 204)"
  using assms by (simp_all add: route_simps) auto

lemma routed_fixed:
  shows "routed ''POST'' ''/api/v1/reqs/'' ''/api/v1/reqs/'' [] (routerSetHandler newRequestHandler 201)"
    and "routed ''POST'' ''/api/v1/reqs/list'' ''/api/v1/reqs/list'' [] (routerSetHandler listRequestsHandler 200)"
    and "routed ''POST'' ''/api/v1/workers/list'' ''/api/v1/workers/list'' [] (routerSetHandler listWorkersHandler 200)"
    and "routed ''GET'' ''/api/v1/version'' ''/api/v1/version'' [] (routerSetHandler versionHandler 200)"
    and "routed ''HEAD'' ''/api/v1/version'' ''/api/v1/version'' [] (routerSetHandler versionHandler 200)"
  by (simp_all add: route_simps)

context deployment
begin

lemma NewAPI_routed:
  assumes "routed m path p ps h"
  shows "NewAPI tree cors origins age \<lparr>Method = m, Path = path, ReqBody = b\<rparr>
    = run_handler h \<lparr>Method = m, Path = path, ReqBody = b\<rparr> ps"
proof -
  have "tree (map fst all_routes) \<lparr>Method = m, Path = path, ReqBody = b\<rparr> = Inr (p, ps)"
    by (rule finds)
       (use assms in \<open>auto simp: routed_def patterns_of_iff list_all_iff simp del: set_map\<close>)
  with assms show ?thesis by (simp add: routed_def NewAPI_def passes serve_tree_def)
qed

end

end
