(* ===== verification/Client.thy ===== *)
theory Client
  imports Http
begin

text \<open>
  The client, \<open>http/client/client.go\<close>.  \<open>net/http\<close> is the parameter \<open>send\<close>: given the
  method, the URL and the body it answers with a response or the text of an error, in a
  state of its own.
\<close>

section \<open>Errors\<close>

text \<open>
  Errors of the transport, errors the client makes itself, and errors the server reported;
  \<open>RemoteError\<close> carries a \<open>*util.ServerError\<close>.
\<close>

datatype client_error =
    TransportError string
  | ClientError string
  | RemoteError ServerError

type_synonym 's send = "string \<Rightarrow> string \<Rightarrow> payload \<Rightarrow> ('s, string + http_response) prog"

definition apiPrefix :: string where
  "apiPrefix = ''/api/v1/''"

definition contentType :: string where
  "contentType = ''application/json''"

text \<open>\<open>NewBorutaClient\<close>: a client is the URL it puts in front of every path.\<close>

definition NewBorutaClient :: "string \<Rightarrow> string" where
  "NewBorutaClient url = url @ apiPrefix"

section \<open>Processing of responses\<close>

definition readBody :: "payload \<Rightarrow> client_error + payload" where
  "readBody body = (case body of
       BrokenBody err \<Rightarrow> Inl (ClientError (''unable to read server response: '' @ err))
     | _ \<Rightarrow> Inr body)"

text \<open>
  \<open>json.Unmarshal\<close> of a whole body.  An empty one is an error, and so is a nil destination
  (\<open>dec_nil\<close>).
\<close>

definition Unmarshal :: "'a decoder \<Rightarrow> payload \<Rightarrow> 'a \<Rightarrow> go_error + 'a" where
  "Unmarshal d body zero = (case body of
       JsonBody j \<Rightarrow> d j zero
     | EmptyBody \<Rightarrow> Inl (JSONError ''unexpected end of JSON input'')
     | PlainBody _ \<Rightarrow> Inl (JSONError ''invalid character looking for beginning of value'')
     | BrokenBody err \<Rightarrow> Inl (JSONError err))"

definition dec_nil :: "unit decoder" where
  "dec_nil j old = Inl (JSONError ''json: Unmarshal(nil)'')"

definition bodyJSONUnmarshal :: "'a decoder \<Rightarrow> payload \<Rightarrow> 'a \<Rightarrow> client_error + 'a" where
  "bodyJSONUnmarshal d body zero = (case readBody body of
       Inl err \<Rightarrow> Inl err
     | Inr content \<Rightarrow> (case Unmarshal d content zero of
           Inl err \<Rightarrow> Inl (ClientError (''unmarshalling JSON response failed: '' @ go_error_text err))
         | Inr x \<Rightarrow> Inr x))"

text \<open>
  The text of a body that is shown to the user as it is.  A JSON body that is not announced
  as JSON has a text as well, which the model does not keep.
\<close>

definition body_text :: "payload \<Rightarrow> string" where
  "body_text body = (case body of PlainBody text \<Rightarrow> text | _ \<Rightarrow> '''')"

definition getServerError :: "http_response \<Rightarrow> client_error option" where
  "getServerError resp =
     (if StatusCode resp < 400 then None
      else if hdr_Get (Header resp) ContentTypeHdr = Text contentType
      then (case bodyJSONUnmarshal dec_ServerError (Body resp) \<lparr>Err = '''', Status = 0\<rparr> of
          Inl err \<Rightarrow> Some err
        | Inr srvErr \<Rightarrow> Some (RemoteError (srvErr\<lparr>Status := StatusCode resp\<rparr>)))
      else (case readBody (Body resp) of
          Inl err \<Rightarrow> Some err
        | Inr msg \<Rightarrow> Some (RemoteError \<lparr>Err = body_text msg, Status = StatusCode resp\<rparr>)))"

text \<open>
  \<open>processResponse\<close> with a destination that starts at its zero value: without content it
  stays zero.
\<close>

definition processResponse :: "'a decoder \<Rightarrow> 'a \<Rightarrow> http_response \<Rightarrow> client_error + 'a" where
  "processResponse d zero resp =
     (if StatusCode resp = 204 then Inr zero
      else if StatusCode resp \<ge> 400
      then (case getServerError resp of None \<Rightarrow> Inr zero | Some err \<Rightarrow> Inl err)
      else bodyJSONUnmarshal d (Body resp) zero)"

definition StatusText :: "nat \<Rightarrow> string" where
  "StatusText code = (if code = 200 then ''OK'' else if code = 201 then ''Created'' else if code = 202 then ''Accepted''
     else if code = 204 then ''No Content'' else if code = 308 then ''Permanent Redirect''
     else if code = 400 then ''Bad Request'' else if code = 404 then ''Not Found''
     else if code = 500 then ''Internal Server Error'' else if code = 501 then ''Not Implemented'' else '''')"

definition checkStatus :: "nat \<Rightarrow> http_response \<Rightarrow> client_error option" where
  "checkStatus shouldBe resp =
     (if StatusCode resp \<noteq> shouldBe
      then Some (ClientError (''bad HTTP status: '' @ FormatUint (StatusCode resp) @ '' '' @ StatusText (StatusCode resp)))
      else None)"

text \<open>The two numbers of a listing, read with \<open>fmt.Sscanf\<close>.\<close>

definition uint_header :: "headers \<Rightarrow> string \<Rightarrow> client_error + 64 word" where
  "uint_header h k = (if map_of h k = None then Inl (ClientError (''couldn't find header: '' @ k))
     else (case hdr_Get h k of
         Text s \<Rightarrow> (case scan_uint s of
             None \<Rightarrow> Inl (ClientError ''couldn't parse header: expected integer'')
           | Some n \<Rightarrow> Inr (of_nat n))
       | _ \<Rightarrow> Inl (ClientError ''couldn't parse header: expected integer'')))"

definition listInfoFromHeaders :: "headers \<Rightarrow> client_error + ListInfo" where
  "listInfoFromHeaders h = (case uint_header h ListTotalItemsHdr of
       Inl err \<Rightarrow> Inl err
     | Inr n \<Rightarrow> (case uint_header h ListRemainingItemsHdr of
           Inl err \<Rightarrow> Inl err
         | Inr left \<Rightarrow> Inr \<lparr>TotalItems = n, RemainingItems = left\<rparr>))"

section \<open>Requests\<close>

text \<open>Posting and getting, with the error of the transport handed on.\<close>

definition http_call :: "'s send \<Rightarrow> string \<Rightarrow> string \<Rightarrow> payload \<Rightarrow> (http_response \<Rightarrow> client_error + 'a)
    \<Rightarrow> ('s, client_error + 'a) prog" where
  "http_call send m url body f = bnd (send m url body) (\<lambda>res. case res of
       Inl err \<Rightarrow> ret (Inl (TransportError err))
     | Inr resp \<Rightarrow> ret (f resp))"

definition no_value :: "http_response \<Rightarrow> client_error + unit" where
  "no_value resp = processResponse dec_nil () resp"

definition client_NewRequest :: "'s send \<Rightarrow> string \<Rightarrow> Capabilities \<Rightarrow> Priority \<Rightarrow> UserInfo \<Rightarrow> time \<times> zone
    \<Rightarrow> time \<times> zone \<Rightarrow> ('s, client_error + ReqID) prog" where
  "client_NewRequest send client caps priority owner validAfter deadline =
     (if \<not> time_fits deadline \<or> \<not> time_fits validAfter then ret (Inl (ClientError marshal_time_error))
      else http_call send ''POST'' (client @ ''reqs/'')
       (JsonBody (JObj
          [(''ID'', JNum 0), (''Priority'', enc_word priority), (''Owner'', enc_UserInfo owner),
           (''Deadline'', enc_time deadline), (''ValidAfter'', enc_time validAfter), (''State'', enc_string ''''),
           (''Job'', JNull), (''Caps'', enc_map caps)]))
       (processResponse dec_ReqIDPack 0))"

definition client_CloseRequest :: "'s send \<Rightarrow> string \<Rightarrow> ReqID \<Rightarrow> ('s, client_error + unit) prog" where
  "client_CloseRequest send client reqID =
     http_call send ''POST'' (client @ ''reqs/'' @ FormatUint reqID @ ''/close'') EmptyBody no_value"

definition client_UpdateRequest :: "'s send \<Rightarrow> string \<Rightarrow> ReqInfo option \<Rightarrow> ('s, client_error + unit) prog" where
  "client_UpdateRequest send client reqInfo = (case reqInfo of
       None \<Rightarrow> ret (Inl (ClientError ''nil reqInfo passed''))
     | Some r \<Rightarrow>
         if \<not> time_fits (deadline_time r) \<or> \<not> time_fits (valid_after_time r) then ret (Inl (ClientError marshal_time_error))
         else http_call send ''POST'' (client @ ''reqs/'' @ FormatUint (ID r))
         (JsonBody (JObj [(''Priority'', enc_word (Prio r)), (''Deadline'', enc_time (deadline_time r)),
            (''ValidAfter'', enc_time (valid_after_time r))]))
         no_value)"

definition client_GetRequestInfo :: "'s send \<Rightarrow> string \<Rightarrow> ReqID \<Rightarrow> ('s, client_error + ReqInfo) prog" where
  "client_GetRequestInfo send client reqID =
     http_call send ''GET'' (client @ ''reqs/'' @ FormatUint reqID) EmptyBody (processResponse dec_ReqInfo zero_ReqInfo)"

text \<open>Both listings: the headers are read first, and then the list.\<close>

definition list_response :: "'a list decoder \<Rightarrow> http_response \<Rightarrow> client_error + ('a list \<times> ListInfo)" where
  "list_response d resp = (case listInfoFromHeaders (Header resp) of
       Inl err \<Rightarrow> Inl err
     | Inr li \<Rightarrow> (case processResponse d [] resp of Inl err \<Rightarrow> Inl err | Inr xs \<Rightarrow> Inr (xs, li)))"

text \<open>A filter of another type than the one of the listing is refused.\<close>

datatype client_filter =
    ForRequests RequestsFilter
  | ForWorkers WorkersFilter
  | OtherFilter

definition client_ListRequests :: "'s send \<Rightarrow> string \<Rightarrow> client_filter option \<Rightarrow> SortInfo option
    \<Rightarrow> RequestsPaginator option \<Rightarrow> ('s, client_error + (ReqInfo list \<times> ListInfo)) prog" where
  "client_ListRequests send client f s p =
     (case (case f of None \<Rightarrow> Inr None | Some (ForRequests rfilter) \<Rightarrow> Inr (Some rfilter)
              | Some _ \<Rightarrow> Inl (ClientError ''only *filter.Requests type is supported'')) of
        Inl err \<Rightarrow> ret (Inl err)
      | Inr rfilter \<Rightarrow> http_call send ''POST'' (client @ ''reqs/list'')
          (JsonBody (enc_RequestsListSpec \<lparr>rFilter = rfilter, rSorter = s, rPaginator = p\<rparr>))
          (list_response (dec_slice dec_ReqInfo zero_ReqInfo)))"

text \<open>The key travels as a PEM block; without an \<open>AccessInfo2\<close> in the answer its field panics.\<close>

definition client_AcquireWorker :: "'s send \<Rightarrow> string \<Rightarrow> ReqID
    \<Rightarrow> ('s, client_error + (TCPAddr option \<times> PrivateKey \<times> string)) prog" where
  "client_AcquireWorker send client reqID =
     bnd (http_call send ''POST'' (client @ ''reqs/'' @ FormatUint reqID @ ''/acquire_worker'') EmptyBody
            (processResponse (dec_ptr dec_AccessInfo2 \<lparr>Addr2 = None, Key2 = Text '''', Username2 = ''''\<rparr>)
               None)) (\<lambda>res. case res of
         Inl err \<Rightarrow> ret (Inl err)
       | Inr None \<Rightarrow> panic ''invalid memory address or nil pointer dereference''
       | Inr (Some accInfo2) \<Rightarrow> (case Key2 accInfo2 of
             PemText kind key \<Rightarrow>
               if kind = ''RSA PRIVATE KEY'' then ret (Inr (Addr2 accInfo2, key, Username2 accInfo2))
               else ret (Inl (ClientError ''wrong key: ''))
           | Text s \<Rightarrow> ret (Inl (ClientError (''wrong key: '' @ s)))
           | _ \<Rightarrow> ret (Inl (ClientError ''wrong key: ''))))"

definition client_ProlongAccess :: "'s send \<Rightarrow> string \<Rightarrow> ReqID \<Rightarrow> ('s, client_error + unit) prog" where
  "client_ProlongAccess send client reqID =
     http_call send ''POST'' (client @ ''reqs/'' @ FormatUint reqID @ ''/prolong'') EmptyBody no_value"

section \<open>Workers\<close>

definition client_ListWorkers :: "'s send \<Rightarrow> string \<Rightarrow> client_filter option \<Rightarrow> SortInfo option
    \<Rightarrow> WorkersPaginator option \<Rightarrow> ('s, client_error + (WorkerInfo list \<times> ListInfo)) prog" where
  "client_ListWorkers send client f s p =
     (case (case f of None \<Rightarrow> Inr None | Some (ForWorkers wfilter) \<Rightarrow> Inr (Some wfilter)
              | Some _ \<Rightarrow> Inl (ClientError ''only *filter.Workers type is supported'')) of
        Inl err \<Rightarrow> ret (Inl err)
      | Inr wfilter \<Rightarrow> http_call send ''POST'' (client @ ''workers/list'')
          (JsonBody (enc_WorkersListSpec \<lparr>wFilter = wfilter, wSorter = s, wPaginator = p\<rparr>))
          (list_response (dec_slice dec_WorkerInfo zero_WorkerInfo)))"

definition client_GetWorkerInfo :: "'s send \<Rightarrow> string \<Rightarrow> WorkerUUID \<Rightarrow> ('s, client_error + WorkerInfo) prog" where
  "client_GetWorkerInfo send client uuid =
     http_call send ''GET'' (client @ ''workers/'' @ uuid) EmptyBody (processResponse dec_WorkerInfo zero_WorkerInfo)"

definition client_SetState :: "'s send \<Rightarrow> string \<Rightarrow> WorkerUUID \<Rightarrow> string \<Rightarrow> ('s, client_error + unit) prog" where
  "client_SetState send client uuid state =
     http_call send ''POST'' (client @ ''workers/'' @ uuid @ ''/setstate'') (JsonBody (enc_WorkerStatePack state)) no_value"

definition client_SetGroups :: "'s send \<Rightarrow> string \<Rightarrow> WorkerUUID \<Rightarrow> Groups \<Rightarrow> ('s, client_error + unit) prog" where
  "client_SetGroups send client uuid groups =
     http_call send ''POST'' (client @ ''workers/'' @ uuid @ ''/setgroups'') (JsonBody (enc_groups groups)) no_value"

definition client_Deregister :: "'s send \<Rightarrow> string \<Rightarrow> WorkerUUID \<Rightarrow> ('s, client_error + unit) prog" where
  "client_Deregister send client uuid =
     http_call send ''POST'' (client @ ''workers/'' @ uuid @ ''/deregister'') EmptyBody no_value"

section \<open>Headers only\<close>

definition getHeaders :: "'s send \<Rightarrow> string \<Rightarrow> ('s, client_error + headers) prog" where
  "getHeaders send url = http_call send ''HEAD'' url EmptyBody (\<lambda>resp.
     case checkStatus 204 resp of Some err \<Rightarrow> Inl err | None \<Rightarrow> Inr (Header resp))"

definition client_GetRequestState :: "'s send \<Rightarrow> string \<Rightarrow> ReqID \<Rightarrow> ('s, client_error + text_value) prog" where
  "client_GetRequestState send client reqID =
     bnd (getHeaders send (client @ ''reqs/'' @ FormatUint reqID)) (\<lambda>res. case res of
       Inl err \<Rightarrow> ret (Inl err)
     | Inr headers \<Rightarrow> ret (Inr (hdr_Get headers ''Boruta-Request-State'')))"

definition client_GetWorkerState :: "'s send \<Rightarrow> string \<Rightarrow> WorkerUUID \<Rightarrow> ('s, client_error + text_value) prog" where
  "client_GetWorkerState send client uuid =
     bnd (getHeaders send (client @ ''workers/'' @ uuid)) (\<lambda>res. case res of
       Inl err \<Rightarrow> ret (Inl err)
     | Inr headers \<Rightarrow> ret (Inr (hdr_Get headers ''Boruta-Worker-State'')))"

definition client_GetJobTimeout :: "'s send \<Rightarrow> string \<Rightarrow> ReqID \<Rightarrow> ('s, client_error + time \<times> zone) prog" where
  "client_GetJobTimeout send client reqID =
     bnd (getHeaders send (client @ ''reqs/'' @ FormatUint reqID)) (\<lambda>res. case res of
       Inl err \<Rightarrow> ret (Inl err)
     | Inr headers \<Rightarrow>
         if hdr_Get headers ''Boruta-Request-State'' \<noteq> Text (ReqState_text INPROGRESS)
         then ret (Inl (ClientError (''request must be in '' @ [CHR 0x22] @ ''IN PROGRESS'' @ [CHR 0x22] @ '' state'')))
         else (case hdr_Get headers ''Boruta-Job-Timeout'' of
             TimeText t z \<Rightarrow> ret (Inr (t, z))
           | _ \<Rightarrow> ret (Inl (ClientError ''parsing time''))))"

record Version =
  vClient :: string
  vServer :: text_value
  vAPI :: text_value
  vAPIState :: text_value

definition client_Version :: "'s send \<Rightarrow> string \<Rightarrow> ('s, client_error + Version) prog" where
  "client_Version send client =
     bnd (getHeaders send (client @ ''/version'')) (\<lambda>res. case res of
       Inl err \<Rightarrow> ret (Inl err)
     | Inr headers \<Rightarrow> ret (Inr \<lparr>vClient = boruta_Version, vServer = hdr_Get headers ServerVersionHdr,
         vAPI = hdr_Get headers APIVersionHdr, vAPIState = hdr_Get headers APIStateHdr\<rparr>))"

end
