(* ===== verification/Remote.thy ===== *)
theory Remote
  imports Routing Client
begin

text \<open>
  The client talking to the server: what a call of the client does to the state of the
  server and what it returns, for every router and CORS filter that keep their promise.
\<close>

section \<open>The connection\<close>

text \<open>\<open>net/http\<close> hands a request to the server its URL names, without failing.\<close>

definition deliver :: "string \<Rightarrow> http_handler \<Rightarrow> server send" where
  "deliver base srv m url body =
     (if take (length base) url = base
      then bnd (srv \<lparr>Method = m, Path = drop (length base) url, ReqBody = body\<rparr>) (\<lambda>resp. ret (Inr resp))
      else ret (Inl ''no such host''))"

text \<open>The server that \<open>cmd/boruta\<close> starts: any origin, answers to CORS are kept for a day.\<close>

definition remote :: "tree \<Rightarrow> cors \<Rightarrow> string \<Rightarrow> server send" where
  "remote tree cors url = deliver url (NewAPI tree cors [''*''] 86400)"

section \<open>Answers\<close>

definition answer :: "nat \<Rightarrow> string \<Rightarrow> Response \<Rightarrow> http_response" where
  "answer success m resp = (case respond success resp new_writer of
       (None, w) \<Rightarrow> response_of m w
     | (Some p, w) \<Rightarrow> response_of m (panicHandler p w))"

declare bnd_ret [simp]

lemma run_handler_answer:
  "run_handler (routerSetHandler h n) r ps = bnd (h r ps) (\<lambda>resp. ret (answer n (Method r) resp))"
proof -
  have "run_handler (routerSetHandler h n) r ps
      = bnd (h r ps) (\<lambda>resp. bnd (ret (respond n resp new_writer)) (\<lambda>res. case res of
          (None, w) \<Rightarrow> ret (response_of (Method r) w) | (Some p, w) \<Rightarrow> ret (response_of (Method r) (panicHandler p w))))"
    by (simp add: run_handler_def routerSetHandler_def bnd_bnd)
  moreover have "(\<lambda>resp. bnd (ret (respond n resp new_writer)) (\<lambda>res. case res of
          (None, w) \<Rightarrow> ret (response_of (Method r) w) | (Some p, w) \<Rightarrow> ret (response_of (Method r) (panicHandler p w))))
      = (\<lambda>resp. ret (answer n (Method r) resp) :: http_response op)"
    by (auto simp: fun_eq_iff answer_def split: prod.split option.split)
  ultimately show ?thesis by simp
qed

lemma answer_nil: "answer 204 m (NewResponse NilData []) = \<lparr>StatusCode = 204, Header = [], Body = EmptyBody\<rparr>"
  by (simp add: answer_def respond_def NewResponse_def data_headers_def new_writer_def set_headers_def
      WriteHeader_def response_of_def)

lemma answer_data:
  assumes "n \<noteq> 204" and "m \<noteq> ''HEAD''" and "data_headers d = Inr hs" and "data_fits d"
    and "\<forall>e. d \<noteq> ServerErrorData e" and "\<forall>e. d \<noteq> ErrorData e"
  shows "answer n m (NewResponse d h) = \<lparr>StatusCode = n,
     Header = hdr_Set ContentTypeHdr (Text contentType) hs @ h, Body = JsonBody (marshal d)\<rparr>"
  using assms
  by (cases d) (simp_all add: answer_def respond_def NewResponse_def new_writer_def set_headers_def jsonMustMarshal_def
      WriteHeader_def write_body_def response_of_def contentType_def)

lemma answer_error:
  assumes "m \<noteq> ''HEAD''"
  shows "answer n m (NewResponse (ErrorData err) []) = \<lparr>StatusCode = Status (NewServerError err []),
     Header = [(ContentTypeHdr, Text contentType)], Body = JsonBody (enc_ServerError (NewServerError err []))\<rparr>"
proof -
  have "Status (NewServerError err []) \<noteq> 204" using NewServerError_status [of err "[]"] by auto
  with assms show ?thesis
    by (simp add: answer_def respond_def NewResponse_def data_headers_def new_writer_def set_headers_def hdr_Set_def
        jsonMustMarshal_def WriteHeader_def write_body_def response_of_def contentType_def)
qed

section \<open>What the client sees\<close>

text \<open>The result of an operation of the server as its client sees it.\<close>

definition seen :: "(error + 'a) \<Rightarrow> client_error + 'a" where
  "seen r = (case r of Inl err \<Rightarrow> Inl (RemoteError (NewServerError (Boruta err) [])) | Inr x \<Rightarrow> Inr x)"

definition seen_error :: "error option \<Rightarrow> client_error + unit" where
  "seen_error err = (case err of None \<Rightarrow> Inr () | Some e \<Rightarrow> Inl (RemoteError (NewServerError (Boruta e) [])))"

lemma processResponse_error:
  "m \<noteq> ''HEAD'' \<Longrightarrow> processResponse d zero (answer n m (NewResponse (ErrorData err) [])) = Inl (RemoteError (NewServerError err []))"
  using NewServerError_status [of err "[]"]
  by (auto simp: answer_error processResponse_def getServerError_def hdr_Get_def bodyJSONUnmarshal_def readBody_def
      Unmarshal_def json_simps)

lemma processResponse_data:
  assumes "n < 400" "n \<noteq> 204" and "m \<noteq> ''HEAD''" and "data_headers dt = Inr hs" and "data_fits dt"
    and "\<forall>e. dt \<noteq> ServerErrorData e" and "\<forall>e. dt \<noteq> ErrorData e" and "d (marshal dt) zero = Inr x"
  shows "processResponse d zero (answer n m (NewResponse dt h)) = Inr x"
  using assms by (simp add: answer_data processResponse_def bodyJSONUnmarshal_def readBody_def Unmarshal_def)

lemma no_value_answer:
  "m \<noteq> ''HEAD'' \<Longrightarrow> no_value (answer 204 m (NewResponse (error_data err) [])) = seen_error err"
  by (cases err) (simp_all add: no_value_def error_data_def seen_error_def processResponse_error,
     simp add: answer_nil processResponse_def)

lemma bad_answer:
  "m \<noteq> ''HEAD'' \<Longrightarrow> bnd (bad err) (\<lambda>resp. ret (processResponse d zero (answer n m resp)))
    = ret (Inl (RemoteError (NewServerError err [])))"
  by (simp add: bad_def processResponse_error)

lemma param_id [simp]: "param [(''id'', i)] ''id'' = i"
  by (simp add: param_def)

section \<open>Results of the operations\<close>

lemma bnd_cong_at: "(\<And>a t. m s = Returns (a, t) \<Longrightarrow> f a t = g a t) \<Longrightarrow> bnd m f s = bnd m g s"
  by (auto simp: bnd_def split: outcome.split)

lemmas result_simps = critical_def lock_def unlock_def time_Now_def get_requests_def get_workers_def bnd_def thn_def
  ret_def gets_def modify_def Let_def block_def

lemma NewRequest_ID:
  "NewRequest caps p owner va dl s = Returns (Inr i, t) \<Longrightarrow> i = card (dom (requests (rc s))) + 1"
  by (auto simp: NewRequest_def store_request_def deadline_in_past_def result_simps split: outcome.splits if_splits)

lemma GetRequestInfo_result: "GetRequestInfo i s = Returns (Inr r, t) \<Longrightarrow> requests (rc s) i = Some r"
  by (auto simp: GetRequestInfo_def Get_def result_simps split: outcome.splits if_splits option.splits)

lemma GetWorkerInfo_result:
  "GetWorkerInfo u s = Returns (Inr w, t) \<Longrightarrow> \<exists>mw. workers (wl s) u = Some mw \<and> w = info mw"
  by (auto simp: GetWorkerInfo_def result_simps split: outcome.splits if_splits option.splits)

text \<open>\<open>UpdateRequest\<close> reads six fields of its argument.\<close>

lemma UpdateRequest_reads:
  assumes "ID r = ID q" "Prio r = Prio q" "valid_after_time r = valid_after_time q" "deadline_time r = deadline_time q"
  shows "UpdateRequest (Some r) = UpdateRequest (Some q)"
proof -
  note same = assms [unfolded time_defs prod.inject]
  have a: "apply_update r = apply_update q" by (rule ext)+ (simp only: apply_update_def same)
  have "updateRequest r = updateRequest q" by (simp only: updateRequest_def same a)
  then show ?thesis by (simp only: UpdateRequest_def option.case same)
qed

section \<open>Calls of the client\<close>

context deployment
begin

lemma remote_call:
  assumes "path = ''/api/v1/'' @ rest" and "routed m path p ps (routerSetHandler h n)"
  shows "http_call (remote tree cors url) m (NewBorutaClient url @ rest) b f
    = bnd (h \<lparr>Method = m, Path = path, ReqBody = b\<rparr> ps) (\<lambda>resp. ret (f (answer n m resp)))"
proof -
  have "remote tree cors url m (NewBorutaClient url @ rest) b
      = bnd (h \<lparr>Method = m, Path = path, ReqBody = b\<rparr> ps) (\<lambda>resp. ret (Inr (answer n m resp)))"
    using NewAPI_routed [OF assms(2), of "[''*'']" 86400 b]
    by (simp add: assms(1) remote_def deliver_def NewBorutaClient_def apiPrefix_def run_handler_answer bnd_bnd)
  then show ?thesis by (simp add: http_call_def bnd_bnd)
qed

lemmas remote_simps = parseReqID_def bnd_bnd no_value_answer path_id_FormatUint path_id_UUID

lemma remote_CloseRequest:
  "i < 2 ^ 64 \<Longrightarrow> client_CloseRequest (remote tree cors url) (NewBorutaClient url) i
    = bnd (CloseRequest i) (\<lambda>err. ret (seen_error err))"
  by (simp add: client_CloseRequest_def remote_call [OF _ routed_ids(1)] closeRequestHandler_def remote_simps)

lemma remote_ProlongAccess:
  "i < 2 ^ 64 \<Longrightarrow> client_ProlongAccess (remote tree cors url) (NewBorutaClient url) i
    = bnd (ProlongAccess i) (\<lambda>err. ret (seen_error err))"
  by (simp add: client_ProlongAccess_def remote_call [OF _ routed_ids(3)] prolongAccessHandler_def remote_simps)

lemma remote_Deregister:
  "isValidUUID u \<Longrightarrow> client_Deregister (remote tree cors url) (NewBorutaClient url) u
    = bnd (Deregister u) (\<lambda>err. ret (seen_error err))"
  by (simp add: client_Deregister_def remote_call [OF _ routed_ids(11)] workerDeregister_def remote_simps)

lemma remote_SetGroups:
  "isValidUUID u \<Longrightarrow> client_SetGroups (remote tree cors url) (NewBorutaClient url) u gs
    = bnd (SetGroups u gs) (\<lambda>err. ret (seen_error err))"
  by (simp add: client_SetGroups_def remote_call [OF _ routed_ids(10)] setWorkerGroupsHandler_def Decode_def
      remote_simps json_simps)

lemma remote_UpdateRequest:
  assumes "ID r < 2 ^ 64" and "time_fits (deadline_time r)" and "time_fits (valid_after_time r)"
  shows "client_UpdateRequest (remote tree cors url) (NewBorutaClient url) (Some r)
    = bnd (UpdateRequest (Some r)) (\<lambda>err. ret (seen_error err))"
proof -
  let ?q = "zero_ReqInfo\<lparr>Prio := Prio r, Deadline := Deadline r, DeadlineZone := DeadlineZone r,
     ValidAfter := ValidAfter r, ValidAfterZone := ValidAfterZone r\<rparr>"
  have "dec_ReqInfo (JObj [(''Priority'', enc_word (Prio r)), (''Deadline'', enc_time (deadline_time r)),
      (''ValidAfter'', enc_time (valid_after_time r))]) zero_ReqInfo = Inr ?q"
    using assms by (simp add: dec_ReqInfo_def ReqInfo_fields_def struct_simps json_simps time_defs)
  moreover have "UpdateRequest (Some (?q\<lparr>ID := ID r\<rparr>)) = UpdateRequest (Some r)"
    by (rule UpdateRequest_reads) (simp_all add: time_defs)
  moreover have "ID ?q = 0" by (simp add: zero_ReqInfo_def)
  ultimately show ?thesis
    using assms by (simp add: client_UpdateRequest_def remote_call [OF _ routed_ids(4)] updateRequestHandler_def Decode_def remote_simps)
qed

lemma remote_NewRequest:
  assumes "time_fits deadline" and "time_fits validAfter" and "finite (dom caps)"
    and "card (dom (requests (rc s))) + 1 < 2 ^ 64"
  shows "client_NewRequest (remote tree cors url) (NewBorutaClient url) caps priority owner validAfter deadline s
    = bnd (NewRequest caps priority \<lparr>uGroups = []\<rparr> (fst validAfter) (fst deadline)) (\<lambda>r. ret (seen r)) s"
proof -
  let ?j = "JObj [(''ID'', JNum 0), (''Priority'', enc_word priority), (''Owner'', enc_UserInfo owner),
     (''Deadline'', enc_time deadline), (''ValidAfter'', enc_time validAfter), (''State'', enc_string ''''),
     (''Job'', JNull), (''Caps'', enc_map caps)]"
  let ?q = "zero_ReqInfo\<lparr>Prio := priority, Owner := owner, Deadline := fst deadline, DeadlineZone := snd deadline,
     ValidAfter := fst validAfter, ValidAfterZone := snd validAfter, RCaps := caps\<rparr>"
  have "dec_ReqInfo ?j zero_ReqInfo = Inr ?q"
    using assms(1-3)
    by (cases deadline; cases validAfter) (simp add: dec_ReqInfo_def ReqInfo_fields_def dec_ReqID_def dec_ReqState_def dec_ptr_def zero_ReqInfo_def
        struct_simps json_simps)
  then have "client_NewRequest (remote tree cors url) (NewBorutaClient url) caps priority owner validAfter deadline
    = bnd (NewRequest caps priority \<lparr>uGroups = []\<rparr> (fst validAfter) (fst deadline)) (\<lambda>res. bnd
        (case res of Inl err \<Rightarrow> bad (Boruta err) | Inr rid \<Rightarrow> ret (NewResponse (ReqIDData rid) []))
        (\<lambda>resp. ret (processResponse dec_ReqIDPack 0 (answer 201 ''POST'' resp))))"
    using assms(1,2)
    by (simp add: client_NewRequest_def remote_call [OF _ routed_fixed(1)] newRequestHandler_def Decode_def bnd_bnd)
  moreover have "processResponse dec_ReqIDPack 0 (answer 201 ''POST'' (NewResponse (ReqIDData i) [])) = Inr i"
    if "i < 2 ^ 64" for i
    by (rule processResponse_data) (use that in \<open>simp_all add: data_headers_def json_simps\<close>)
  ultimately show ?thesis
    using assms(4) by (auto intro!: bnd_cong_at dest!: NewRequest_ID simp: seen_def bad_answer split: sum.split)
qed

lemma remote_GetRequestInfo:
  assumes "i < 2 ^ 64" and "\<And>r. requests (rc s) i = Some r \<Longrightarrow>
      ReqInfo_fits r \<and> req_times_fit r \<and> (RState r = INPROGRESS \<longrightarrow> RJob r \<noteq> None)"
  shows "client_GetRequestInfo (remote tree cors url) (NewBorutaClient url) i s
    = bnd (GetRequestInfo i) (\<lambda>r. ret (seen r)) s"
proof -
  have "client_GetRequestInfo (remote tree cors url) (NewBorutaClient url) i
    = bnd (GetRequestInfo i) (\<lambda>res. bnd
        (case res of Inl err \<Rightarrow> bad (Boruta err) | Inr r \<Rightarrow> ret (NewResponse (ReqInfoData r) []))
        (\<lambda>resp. ret (processResponse dec_ReqInfo zero_ReqInfo (answer 200 ''GET'' resp))))"
    using assms(1)
    by (simp add: client_GetRequestInfo_def remote_call [OF _ routed_ids(5)] getRequestInfoHandler_def remote_simps)
  moreover have "processResponse dec_ReqInfo zero_ReqInfo (answer 200 ''GET'' (NewResponse (ReqInfoData r) [])) = Inr r"
    if r: "requests (rc s) i = Some r" for r
  proof -
    have "\<exists>hs. data_headers (ReqInfoData r) = Inr hs"
      using assms(2) [OF r] by (auto simp: data_headers_def)
    then obtain hs where "data_headers (ReqInfoData r) = Inr hs" ..
    then show ?thesis
      by (rule processResponse_data [rotated 3]) (use assms(2) [OF r] in \<open>simp_all add: dec_ReqInfo_enc\<close>)
  qed
  ultimately show ?thesis
    by (auto intro!: bnd_cong_at dest!: GetRequestInfo_result simp: seen_def bad_answer split: sum.split)
qed

lemma remote_GetWorkerInfo:
  assumes "isValidUUID u" and "\<And>w. workers (wl s) u = Some w \<Longrightarrow> finite (dom (WCaps (info w)))"
  shows "client_GetWorkerInfo (remote tree cors url) (NewBorutaClient url) u s
    = bnd (GetWorkerInfo u) (\<lambda>r. ret (seen r)) s"
proof -
  have "client_GetWorkerInfo (remote tree cors url) (NewBorutaClient url) u
    = bnd (GetWorkerInfo u) (\<lambda>res. bnd
        (case res of Inl err \<Rightarrow> bad (Boruta err) | Inr w \<Rightarrow> ret (NewResponse (WorkerInfoData w) []))
        (\<lambda>resp. ret (processResponse dec_WorkerInfo zero_WorkerInfo (answer 200 ''GET'' resp))))"
    using assms(1)
    by (simp add: client_GetWorkerInfo_def remote_call [OF _ routed_ids(7)] getWorkerInfoHandler_def remote_simps)
  moreover have "processResponse dec_WorkerInfo zero_WorkerInfo (answer 200 ''GET'' (NewResponse (WorkerInfoData (info w)) [])) = Inr (info w)"
    if "workers (wl s) u = Some w" for w
    by (rule processResponse_data)
       (use assms(2) [OF that] in \<open>simp_all add: data_headers_def dec_WorkerInfo_enc\<close>)
  ultimately show ?thesis
    by (auto intro!: bnd_cong_at dest!: GetWorkerInfo_result simp: seen_def bad_answer split: sum.split)
qed

end

end
