(* ===== verification/RemoteLists.thy ===== *)
theory RemoteLists
  imports Remote
begin

text \<open>
  Listings and access to a worker through the client.
\<close>

section \<open>Results\<close>

lemma paginate_subset: "paginate ident pid given direction limit bm res = Some (page, li) \<Longrightarrow> set page \<subseteq> set res"
  by (auto simp: paginate_def slice_of_def Let_def split: if_splits prod.splits option.splits
      dest: in_set_takeD in_set_dropD)

lemma all_of_map: "i \<in> set (sorted_list_of_set (dom m)) \<Longrightarrow> the (m i) \<in> ran m"
  by (cases "finite (dom m)") (auto simp: ran_def)

lemma matching_requests_result:
  "matching_requests filt pid s = Returns (Inr (b, ms), t) \<Longrightarrow> set ms \<subseteq> ran (requests (rc s))"
  by (auto simp: matching_requests_def result_simps all_of_map split: outcome.splits if_splits)

lemma ListRequests_result:
  assumes "ListRequests filt si p s = Returns (Inr (page, li), t)"
  shows "set page \<subseteq> ran (requests (rc s))"
proof -
  obtain item order pid ms b given d l bm where
    "matching_requests filt pid s = Returns (Inr (b, ms), t)"
    and "paginate ID pid given d l bm (go_sort (r_Less item order) ms) = Some (page, li)"
    using assms
    by (auto simp: ListRequests_def bnd_def ret_def panic_def Let_def split: sum.splits outcome.splits option.splits)
  then show ?thesis using matching_requests_result paginate_subset by fastforce
qed

lemma listWorkers_result:
  "listWorkers filt si pid only s = Returns (Inr ws, t) \<Longrightarrow> t = s \<and> set ws \<subseteq> info ` ran (workers (wl s))"
  by (auto simp: listWorkers_def result_simps Let_def intro!: imageI all_of_map split: sum.splits if_splits outcome.splits)

lemma ListWorkers_result:
  assumes "ListWorkers filt si p s = Returns (Inr (page, li), t)"
  shows "set page \<subseteq> info ` ran (workers (wl s))"
proof -
  obtain ws s' u given d l bm where
    "listWorkers filt si u False (s\<lparr>held := insert WorkersMutex (held s)\<rparr>) = Returns (Inr ws, s')"
    and "paginate WUUID u given d l bm ws = Some (page, li)"
    using assms
    by (auto simp: ListWorkers_def result_simps panic_def split: sum.splits outcome.splits option.splits if_splits)
  then show ?thesis using listWorkers_result paginate_subset by fastforce
qed

lemma AcquireWorker_result:
  "AcquireWorker i s = Returns (Inr a, t) \<Longrightarrow> a \<in> Access ` ran (jobs s)"
  by (auto simp: AcquireWorker_def jobs_Get_def result_simps intro!: imageI ranI split: outcome.splits if_splits option.splits sum.splits)

section \<open>The headers of a listing\<close>

lemma list_headers_read:
  "listInfoFromHeaders (hdr_Set ContentTypeHdr ct [(ListBatchSizeHdr, b)] @ list_headers li) = Inr li"
proof -
  have "unat w < 2 ^ 64" for w :: "64 word" using unsigned_less [of w] by simp
  then show ?thesis
    by (cases li) (simp add: listInfoFromHeaders_def uint_header_def hdr_Get_def hdr_Set_def list_headers_def header_names)
qed

lemma list_headers_missing:
  "m \<noteq> ''HEAD'' \<Longrightarrow> list_response d (answer n m (NewResponse (ErrorData err) []))
    = Inl (ClientError ''couldn't find header: Boruta-List-Total'')"
  by (simp add: list_response_def answer_error listInfoFromHeaders_def uint_header_def header_names)

text \<open>A listing that succeeds; every error reaches the user as a missing header.\<close>

definition seen_list :: "(error + 'b) \<Rightarrow> client_error + 'b" where
  "seen_list r = (case r of Inl err \<Rightarrow> Inl (ClientError ''couldn't find header: Boruta-List-Total'') | Inr x \<Rightarrow> Inr x)"

lemma list_response_data:
  assumes "d (marshal dt) [] = Inr xs" and "data_headers dt = Inr [(ListBatchSizeHdr, b)]" and "data_fits dt"
    and "\<forall>e. dt \<noteq> ServerErrorData e" and "\<forall>e. dt \<noteq> ErrorData e"
  shows "list_response d (answer 200 ''POST'' (NewResponse dt (list_headers li))) = Inr (xs, li)"
proof -
  have "processResponse d [] (answer 200 ''POST'' (NewResponse dt (list_headers li))) = Inr xs"
    by (rule processResponse_data) (use assms in simp_all)
  with assms show ?thesis by (simp add: list_response_def answer_data list_headers_read)
qed

context deployment
begin

lemma remote_ListRequests:
  assumes "RequestsListSpec_fits \<lparr>rFilter = f, rSorter = si, rPaginator = p\<rparr>"
    and "\<forall>r \<in> ran (requests (rc s)). ReqInfo_fits r \<and> req_times_fit r"
  shows "client_ListRequests (remote tree cors url) (NewBorutaClient url) (map_option ForRequests f) si p s
    = bnd (ListRequests (requests_filter f) si p) (\<lambda>r. ret (seen_list r)) s"
proof -
  have "client_ListRequests (remote tree cors url) (NewBorutaClient url) (map_option ForRequests f) si p
    = bnd (ListRequests (requests_filter f) si p) (\<lambda>res. bnd
        (case res of Inl err \<Rightarrow> bad (Boruta err) | Inr (reqs, li) \<Rightarrow> ret (NewResponse (ReqInfosData reqs) (list_headers li)))
        (\<lambda>resp. ret (list_response (dec_slice dec_ReqInfo zero_ReqInfo) (answer 200 ''POST'' resp))))"
    using assms(1)
    by (cases f) (simp_all add: client_ListRequests_def remote_call [OF _ routed_fixed(2)] listRequestsHandler_def
        Decode_def dec_RequestsListSpec_enc bnd_bnd)
  moreover have "list_response (dec_slice dec_ReqInfo zero_ReqInfo)
      (answer 200 ''POST'' (NewResponse (ReqInfosData reqs) (list_headers li))) = Inr (reqs, li)"
    if "ListRequests (requests_filter f) si p s = Returns (Inr (reqs, li), t)" for reqs li t
  proof (rule list_response_data)
    have "\<forall>r \<in> set reqs. ReqInfo_fits r \<and> req_times_fit r"
      using ListRequests_result [OF that] assms(2) by blast
    then show "dec_slice dec_ReqInfo zero_ReqInfo (marshal (ReqInfosData reqs)) [] = Inr reqs" "data_fits (ReqInfosData reqs)"
      by (simp_all add: dec_slice_enc dec_ReqInfo_enc list_all_iff)
  qed (simp_all add: data_headers_def)
  ultimately show ?thesis
    by (auto intro!: bnd_cong_at simp: seen_list_def bad_def list_headers_missing split: sum.split)
qed

lemma remote_ListWorkers:
  assumes "\<forall>g. f = Some g \<longrightarrow> finite (dom (fCaps g))"
    and "\<forall>w \<in> ran (workers (wl s)). finite (dom (WCaps (info w)))"
  shows "client_ListWorkers (remote tree cors url) (NewBorutaClient url) (map_option ForWorkers f) si p s
    = bnd (ListWorkers (workers_filter (map_option (\<lambda>g. NewWorkers (fGroups g) (fCaps g)) f)) si p)
        (\<lambda>r. ret (seen_list r)) s"
proof -
  let ?f = "workers_filter (map_option (\<lambda>g. NewWorkers (fGroups g) (fCaps g)) f)"
  have "client_ListWorkers (remote tree cors url) (NewBorutaClient url) (map_option ForWorkers f) si p
    = bnd (ListWorkers ?f si p) (\<lambda>res. bnd
        (case res of Inl err \<Rightarrow> bad (Boruta err) | Inr (ws, li) \<Rightarrow> ret (NewResponse (WorkerInfosData ws) (list_headers li)))
        (\<lambda>resp. ret (list_response (dec_slice dec_WorkerInfo zero_WorkerInfo) (answer 200 ''POST'' resp))))"
    using assms(1)
    by (cases f) (simp_all add: client_ListWorkers_def remote_call [OF _ routed_fixed(3)] listWorkersHandler_def
        Decode_def dec_WorkersListSpec_enc bnd_bnd)
  moreover have "list_response (dec_slice dec_WorkerInfo zero_WorkerInfo)
      (answer 200 ''POST'' (NewResponse (WorkerInfosData ws) (list_headers li))) = Inr (ws, li)"
    if "ListWorkers ?f si p s = Returns (Inr (ws, li), t)" for ws li t
  proof (rule list_response_data)
    have "\<forall>w \<in> set ws. finite (dom (WCaps w))"
      using ListWorkers_result [OF that] assms(2) by blast
    then show "dec_slice dec_WorkerInfo zero_WorkerInfo (marshal (WorkerInfosData ws)) [] = Inr ws"
      by (simp add: dec_slice_enc dec_WorkerInfo_enc)
  qed (simp_all add: data_headers_def)
  ultimately show ?thesis
    by (auto intro!: bnd_cong_at simp: seen_list_def bad_def list_headers_missing split: sum.split)
qed

lemma remote_AcquireWorker:
  assumes "i < 2 ^ 64" and "\<forall>j \<in> ran (jobs s). TCPAddr_fits (Addr (Access j))"
  shows "client_AcquireWorker (remote tree cors url) (NewBorutaClient url) i s
    = bnd (AcquireWorker i) (\<lambda>r. ret (map_sum id (\<lambda>a. (Some (Addr a), Key a, Username a)) (seen r))) s"
proof -
  let ?dec = "dec_ptr dec_AccessInfo2 \<lparr>Addr2 = None, Key2 = Text '''', Username2 = ''''\<rparr>"
  let ?data = "\<lambda>a. \<lparr>Addr2 = Some (Addr a), Key2 = PemText ''RSA PRIVATE KEY'' (Key a), Username2 = Username a\<rparr>"
  have "processResponse ?dec None (answer 200 ''POST'' (NewResponse (AccessData (?data a)) [])) = Inr (Some (?data a))"
    if "a \<in> Access ` ran (jobs s)" for a
  proof (rule processResponse_data)
    have "enc_AccessInfo2 (?data a) \<noteq> JNull" by (simp add: enc_AccessInfo2_def)
    moreover have "TCPAddr_fits (Addr a)" using that assms(2) by auto
    ultimately show "?dec (marshal (AccessData (?data a))) None = Inr (Some (?data a))"
      using dec_ptr_enc [of enc_AccessInfo2 "?data a"] by (simp add: enc_ptr_def dec_AccessInfo2_enc)
  qed (simp_all add: data_headers_def)
  then show ?thesis
    using assms(1)
    by (auto intro!: bnd_cong_at dest!: AcquireWorker_result simp: client_AcquireWorker_def bnd_bnd seen_def bad_def
        remote_call [OF _ routed_ids(2)] acquireWorkerHandler_def remote_simps processResponse_error split: sum.split)
qed

end

end
