(* ===== verification/RemoteGuarantees.thy ===== *)
theory RemoteGuarantees
  imports RemoteLists Listing
begin

text \<open>
  What users get through the HTTP API, for every router and CORS filter that keep their
  promise (\<open>deployment\<close>): the calls of the client do what the operations of the server do,
  wrong input changes nothing, and the calls of the client that cannot succeed.
\<close>

section \<open>Calls that reach the server\<close>

text \<open>
  C28. Closing and prolonging a request, changing the groups of a worker and deregistering
  it through the client is the operation of the server: the same effect on its state, and
  the error, if any, with its text and status.
\<close>

theorem commands_reach_server:
  fixes url :: string
  assumes "deployment tree cors" and "i < 2 ^ 64" and "isValidUUID u"
  defines "send \<equiv> remote tree cors url" and "client \<equiv> NewBorutaClient url"
  shows "client_CloseRequest send client i = bnd (CloseRequest i) (\<lambda>err. ret (seen_error err))
    \<and> client_ProlongAccess send client i = bnd (ProlongAccess i) (\<lambda>err. ret (seen_error err))
    \<and> client_SetGroups send client u gs = bnd (SetGroups u gs) (\<lambda>err. ret (seen_error err))
    \<and> client_Deregister send client u = bnd (Deregister u) (\<lambda>err. ret (seen_error err))"
  using deployment.remote_CloseRequest [OF assms(1,2)] deployment.remote_ProlongAccess [OF assms(1,2)]
    deployment.remote_SetGroups [OF assms(1,3)] deployment.remote_Deregister [OF assms(1,3)]
  by (simp add: send_def client_def)

text \<open>A UUID, for the witnesses.\<close>

definition demo_uuid :: WorkerUUID where
  "demo_uuid = ''01234567-89ab-cdef-0123-456789abcdef''"

lemma demo_uuid_valid: "isValidUUID demo_uuid"
  by (simp add: demo_uuid_def isValidUUID_def is_hex_def is_digit_def upt_rec)

lemma commands_reach_server_witness:
  "client_CloseRequest (remote best_match no_cors ''http://boruta'') (NewBorutaClient ''http://boruta'') 1
     = bnd (CloseRequest 1) (\<lambda>err. ret (seen_error err))"
  using commands_reach_server [OF best.deployment_axioms _ demo_uuid_valid, of 1] by simp

text \<open>
  C29. A new request reaches the server with its capabilities, priority and times, but
  without its owner and with the times in UTC, and its number comes back; a change of a
  request reaches it with the fields the server looks at, its times in their own location.
\<close>

theorem requests_reach_server:
  fixes url :: string
  assumes "deployment tree cors" and "time_fits deadline" and "time_fits validAfter" and "finite (dom caps)"
    and "reachable resolve s" and "card (dom (requests (rc s))) + 1 < 2 ^ 64"
    and "ID r < 2 ^ 64" and "time_fits (deadline_time r)" and "time_fits (valid_after_time r)"
  defines "send \<equiv> remote tree cors url" and "client \<equiv> NewBorutaClient url"
  shows "client_NewRequest send client caps priority owner validAfter deadline s
      = bnd (NewRequest caps priority \<lparr>uGroups = []\<rparr> (fst validAfter) (fst deadline)) (\<lambda>res. ret (seen res)) s
    \<and> client_UpdateRequest send client (Some r) s = bnd (UpdateRequest (Some r)) (\<lambda>err. ret (seen_error err)) s"
  using deployment.remote_NewRequest [OF assms(1-4,6)] deployment.remote_UpdateRequest [OF assms(1,7-9)]
  by (simp add: send_def client_def)

lemma requests_reach_server_witness:
  "client_NewRequest (remote best_match no_cors ''http://boruta'') (NewBorutaClient ''http://boruta'')
      demo_caps 3 \<lparr>uGroups = [''lab'']\<rparr> (101, 0) (5000, 120) prepared
    = bnd (NewRequest demo_caps 3 \<lparr>uGroups = []\<rparr> 101 5000) (\<lambda>res. ret (seen res)) prepared"
proof -
  have "card (dom (requests (rc prepared))) + 1 < 2 ^ 64" by (simp add: prepared_def)
  moreover have "time_fits (5000, 120)" "time_fits (101, 0)" "finite (dom demo_caps)"
    by (simp_all add: time_fits_def second_ns_def minute_ns_def demo_caps_def)
  ultimately show ?thesis
    using requests_reach_server [OF best.deployment_axioms _ _ _ prepared_reachable, where r = zero_ReqInfo
        and deadline = "(5000, 120)" and validAfter = "(101, 0)" and caps = demo_caps and priority = 3 and owner = "\<lparr>uGroups = [''lab'']\<rparr>"
        and url = "''http://boruta''"]
    by (simp add: zero_ReqInfo_def time_defs time_fits_def second_ns_def)
qed

text \<open>
  C27. What the client reads about a request or a worker is what the server stores: JSON
  loses nothing, and asking changes nothing the operation itself does not.
\<close>

theorem reads_return_stored:
  fixes url :: string
  assumes "deployment tree cors" and "reachable resolve s" and "i < 2 ^ 64" and "isValidUUID u"
    and "\<forall>r. requests (rc s) i = Some r \<longrightarrow> req_times_fit r \<and> finite (dom (RCaps r))"
    and "\<forall>w. workers (wl s) u = Some w \<longrightarrow> finite (dom (WCaps (info w)))"
  defines "send \<equiv> remote tree cors url" and "client \<equiv> NewBorutaClient url"
  shows "client_GetRequestInfo send client i s = Returns (case requests (rc s) i of
        None \<Rightarrow> Inl (RemoteError \<lparr>Err = ''Request not found'', Status = 404\<rparr>) | Some r \<Rightarrow> Inr r, s)
    \<and> client_GetWorkerInfo send client u s = Returns (case workers (wl s) u of
        None \<Rightarrow> Inl (RemoteError \<lparr>Err = ''Worker not found'', Status = 404\<rparr>) | Some w \<Rightarrow> Inr (info w), s)"
proof
  have held: "held s = {}" by (rule reachable_parts(8) [OF assms(2)])
  have fits: "ReqInfo_fits r \<and> req_times_fit r \<and> (RState r = INPROGRESS \<longrightarrow> RJob r \<noteq> None)"
    if "requests (rc s) i = Some r" for r
    using that assms(3,5) reachable_parts(1) [OF assms(2)] by (auto simp: data_ok_def ReqInfo_fits_def)
  have get: "GetRequestInfo i s = Returns (case requests (rc s) i of None \<Rightarrow> Inl (NotFoundError ''Request'') | Some r \<Rightarrow> Inr r, s)"
    using held by (auto simp: GetRequestInfo_def Get_def result_simps split: option.split)
  then show "client_GetRequestInfo send client i s = Returns (case requests (rc s) i of
        None \<Rightarrow> Inl (RemoteError \<lparr>Err = ''Request not found'', Status = 404\<rparr>) | Some r \<Rightarrow> Inr r, s)"
    using deployment.remote_GetRequestInfo [OF assms(1,3) fits, where url = url]
    by (auto simp: send_def client_def bnd_def ret_def seen_def NewServerError_Boruta split: option.split)
  have "GetWorkerInfo u s = Returns (case workers (wl s) u of None \<Rightarrow> Inl ErrWorkerNotFound | Some w \<Rightarrow> Inr (info w), s)"
    using held by (auto simp: GetWorkerInfo_def result_simps split: option.split)
  then show "client_GetWorkerInfo send client u s = Returns (case workers (wl s) u of
        None \<Rightarrow> Inl (RemoteError \<lparr>Err = ''Worker not found'', Status = 404\<rparr>) | Some w \<Rightarrow> Inr (info w), s)"
    using deployment.remote_GetWorkerInfo [OF assms(1,4), where url = url and s = s] assms(6)
    by (auto simp: send_def client_def bnd_def ret_def seen_def NewServerError_Boruta ErrWorkerNotFound_def split: option.split)
qed

lemma running_times_fit: "requests (rc running_server) i = Some r \<Longrightarrow> req_times_fit r \<and> finite (dom (RCaps r))"
  by (auto simp: demo_defs req_times_fit_def time_defs time_fits_def second_ns_def hour_ns_def demo_caps_def split: if_splits)

lemma reads_return_stored_witness:
  "client_GetRequestInfo (remote best_match no_cors ''http://boruta'') (NewBorutaClient ''http://boruta'') 1 running_server
     = Returns (Inr (demo_request INPROGRESS (Some \<lparr>jWorkerUUID = ''w'', Timeout_at = 103 + hour_ns, TimeoutZone = 0\<rparr>)), running_server)"
proof -
  have "workers (wl running_server) demo_uuid = Some w \<Longrightarrow> finite (dom (WCaps (info w)))" for w
    by (simp add: running_server_def demo_uuid_def)
  then show ?thesis
    using reads_return_stored [OF best.deployment_axioms running_reachable _ demo_uuid_valid, of 1 "''http://boruta''"]
      running_times_fit [of 1]
    by (simp add: running_server_def)
qed

text \<open>
  C30. A listing through the client returns the page and the counts of the listing on the
  server; the table of groups, which does not travel, is made anew there.  An error of the
  server, though, is reported as a missing header, whatever it was.
\<close>

theorem listings_reach_server:
  fixes url :: string
  assumes "deployment tree cors" and "reachable resolve s"
    and "RequestsListSpec_fits \<lparr>rFilter = f, rSorter = si, rPaginator = p\<rparr>"
    and "\<forall>i r. requests (rc s) i = Some r \<longrightarrow> i < 2 ^ 64 \<and> req_times_fit r \<and> finite (dom (RCaps r))"
    and "\<forall>u w. workers (wl s) u = Some w \<longrightarrow> finite (dom (WCaps (info w)))" and "finite (dom caps)"
  defines "send \<equiv> remote tree cors url" and "client \<equiv> NewBorutaClient url"
  shows "client_ListRequests send client (map_option ForRequests f) si p s
      = bnd (ListRequests (requests_filter f) si p) (\<lambda>res. ret (seen_list res)) s
    \<and> client_ListWorkers send client (Some (ForWorkers (NewWorkers groups caps))) wsi wpag s
      = bnd (ListWorkers (Some (Workers_Match (NewWorkers groups caps))) wsi wpag) (\<lambda>res. ret (seen_list res)) s"
proof
  have "\<forall>r \<in> ran (requests (rc s)). ReqInfo_fits r \<and> req_times_fit r"
    using assms(4) reachable_requests(1) [OF assms(2)] by (auto simp: ran_def ReqInfo_fits_def)
  then show "client_ListRequests send client (map_option ForRequests f) si p s
      = bnd (ListRequests (requests_filter f) si p) (\<lambda>res. ret (seen_list res)) s"
    unfolding send_def client_def by (rule deployment.remote_ListRequests [OF assms(1,3)])
  have "client_ListWorkers send client (map_option ForWorkers (Some (NewWorkers groups caps))) wsi wpag s
      = bnd (ListWorkers (workers_filter (map_option (\<lambda>g. NewWorkers (fGroups g) (fCaps g)) (Some (NewWorkers groups caps)))) wsi wpag)
          (\<lambda>res. ret (seen_list res)) s"
    unfolding send_def client_def
    by (rule deployment.remote_ListWorkers [OF assms(1)]) (use assms(5,6) in \<open>auto simp: NewWorkers_def ran_def\<close>)
  then show "client_ListWorkers send client (Some (ForWorkers (NewWorkers groups caps))) wsi wpag s
      = bnd (ListWorkers (Some (Workers_Match (NewWorkers groups caps))) wsi wpag) (\<lambda>res. ret (seen_list res)) s"
    by (simp add: workers_filter_def NewWorkers_def)
qed

lemma running_caps: "workers (wl running_server) u = Some w \<Longrightarrow> finite (dom (WCaps (info w)))"
  by (auto simp: running_server_def demo_worker_def demo_caps_def split: if_splits)

lemma listings_reach_server_witness:
  "client_ListRequests (remote best_match no_cors ''http://boruta'') (NewBorutaClient ''http://boruta'') None None None running_server
     = bnd (ListRequests None None None) (\<lambda>res. ret (seen_list res)) running_server"
proof -
  have "\<forall>i r. requests (rc running_server) i = Some r \<longrightarrow> i < 2 ^ 64 \<and> req_times_fit r \<and> finite (dom (RCaps r))"
    using running_times_fit by (auto simp: running_server_def split: if_splits)
  moreover have "RequestsListSpec_fits \<lparr>rFilter = None, rSorter = None, rPaginator = None\<rparr>"
    by (simp add: RequestsListSpec_fits_def)
  ultimately show ?thesis
    using listings_reach_server [OF best.deployment_axioms running_reachable, of None None None "\<lambda>_. None"
        "''http://boruta''"] running_caps
    by (simp add: requests_filter_def)
qed

text \<open>
  C31. The access to a worker reaches its user: the address of the tunnel, the name of the
  user and the private key, which travels as a PEM block.
\<close>

theorem access_reaches_user:
  fixes url :: string
  assumes "deployment tree cors" and "i < 2 ^ 64" and "\<forall>u j. jobs s u = Some j \<longrightarrow> TCPAddr_fits (Addr (Access j))"
  shows "client_AcquireWorker (remote tree cors url) (NewBorutaClient url) i s
    = bnd (AcquireWorker i) (\<lambda>res. ret (case res of
        Inl err \<Rightarrow> Inl (RemoteError (NewServerError (Boruta err) []))
      | Inr a \<Rightarrow> Inr (Some (Addr a), Key a, Username a))) s"
proof -
  have "\<forall>j \<in> ran (jobs s). TCPAddr_fits (Addr (Access j))" using assms(3) by (auto simp: ran_def)
  from deployment.remote_AcquireWorker [OF assms(1,2) this, of url]
  show ?thesis by (auto simp: seen_def intro!: bnd_cong_at split: sum.split)
qed

lemma access_reaches_user_witness:
  "client_AcquireWorker (remote best_match no_cors ''http://boruta'') (NewBorutaClient ''http://boruta'') 1 running_server
     = Returns (Inr (Some \<lparr>IP = None, Port = 0\<rparr>, 7, ''boruta-user''), running_server)"
proof -
  have "\<forall>u j. jobs running_server u = Some j \<longrightarrow> TCPAddr_fits (Addr (Access j))"
    by (simp add: running_server_def demo_job_def TCPAddr_fits_def)
  from access_reaches_user [OF best.deployment_axioms _ this, of 1 "''http://boruta''"]
  show ?thesis
    by (simp add: AcquireWorker_def jobs_Get_def result_simps demo_defs defaultDryadUsername_def)
qed

section \<open>Wrong input\<close>

text \<open>The answer to an error.\<close>

definition error_response :: "go_error \<Rightarrow> http_response" where
  "error_response err = \<lparr>StatusCode = Status (NewServerError err []), Header = [(ContentTypeHdr, Text contentType)],
     Body = JsonBody (enc_ServerError (NewServerError err []))\<rparr>"

lemma refused:
  assumes "deployment tree cors" and "routed m path p ps (routerSetHandler h n)"
    and "h \<lparr>Method = m, Path = path, ReqBody = b\<rparr> ps = bad err" and "m \<noteq> ''HEAD''"
  shows "NewAPI tree cors origins age \<lparr>Method = m, Path = path, ReqBody = b\<rparr> = ret (error_response err)"
  using assms(3,4)
  by (simp add: deployment.NewAPI_routed [OF assms(1,2)] run_handler_answer bad_def answer_error error_response_def)

lemmas wrong_input_simps = parseReqID_def closeRequestHandler_def acquireWorkerHandler_def prolongAccessHandler_def
  updateRequestHandler_def getRequestInfoHandler_def getWorkerInfoHandler_def setWorkerStateHandler_def
  setWorkerGroupsHandler_def workerDeregister_def newRequestHandler_def error_response_def NewServerError_def
  isNotFoundError_def

lemma routed_workers:
  "routed ''GET'' ''/api/v1/workers/'' ''/api/v1/workers/'' [] (routerSetHandler listWorkersHandler 200)"
proof -
  have "map_of all_routes (''GET'', ''/api/v1/workers/'') = Some (routerSetHandler listWorkersHandler 200)"
    by (simp add: handler_of)
  then show ?thesis by (simp add: route_simps)
qed

definition no_requests_spec :: RequestsListSpec where
  "no_requests_spec = \<lparr>rFilter = None, rSorter = None, rPaginator = None\<rparr>"

definition no_workers_spec :: WorkersListSpec where
  "no_workers_spec = \<lparr>wFilter = None, wSorter = None, wPaginator = None\<rparr>"

lemma listRequests_refused:
  "Decode dec_RequestsListSpec b no_requests_spec = Inl err \<Longrightarrow> err \<noteq> EOF \<Longrightarrow>
   listRequestsHandler \<lparr>Method = m, Path = p, ReqBody = b\<rparr> ps = bad err"
  by (simp add: listRequestsHandler_def no_requests_spec_def)

lemma listWorkers_refused:
  "Decode dec_WorkersListSpec b no_workers_spec = Inl err \<Longrightarrow> err \<noteq> EOF \<Longrightarrow>
   listWorkersHandler \<lparr>Method = m, Path = p, ReqBody = b\<rparr> ps = bad err"
  by (simp add: listWorkersHandler_def no_workers_spec_def)

text \<open>
  C32. Wrong input is answered with its error, and the server does nothing: a request number
  that is not a number and a worker that is no UUID, with status 400; a body that is missing
  or cannot be decoded, for a new request, a change of one, a state or the groups of a worker,
  and, unless it is missing, for a listing; and a change that names another request in its body
  than in its path.  A listing without a body is one without parameters.
\<close>

theorem wrong_input_refused:
  fixes origins :: "string list" and age :: int and b :: payload
  assumes "deployment tree cors" and "path_id i" and "ParseUint i = None" and "path_id u" and "\<not> isValidUUID u"
    and "n < 2 ^ 64" and "isValidUUID v"
  defines "api m path body \<equiv> NewAPI tree cors origins age \<lparr>Method = m, Path = path, ReqBody = body\<rparr>"
  shows "api ''POST'' (''/api/v1/reqs/'' @ i @ ''/close'') b = ret (error_response ErrBadID)
    \<and> api ''POST'' (''/api/v1/reqs/'' @ i @ ''/acquire_worker'') b = ret (error_response ErrBadID)
    \<and> api ''POST'' (''/api/v1/reqs/'' @ i @ ''/prolong'') b = ret (error_response ErrBadID)
    \<and> api ''POST'' (''/api/v1/reqs/'' @ i) b = ret (error_response ErrBadID)
    \<and> api ''GET'' (''/api/v1/reqs/'' @ i) b = ret (error_response ErrBadID)
    \<and> api ''GET'' (''/api/v1/workers/'' @ u) b = ret (error_response ErrBadUUID)
    \<and> api ''POST'' (''/api/v1/workers/'' @ u @ ''/setstate'') b = ret (error_response ErrBadUUID)
    \<and> api ''POST'' (''/api/v1/workers/'' @ u @ ''/setgroups'') b = ret (error_response ErrBadUUID)
    \<and> api ''POST'' (''/api/v1/workers/'' @ u @ ''/deregister'') b = ret (error_response ErrBadUUID)
    \<and> StatusCode (error_response ErrBadID) = 400 \<and> StatusCode (error_response ErrBadUUID) = 400
    \<and> (Decode dec_ReqInfo b zero_ReqInfo = Inl err \<longrightarrow>
         api ''POST'' ''/api/v1/reqs/'' b = ret (error_response err)
         \<and> api ''POST'' (''/api/v1/reqs/'' @ FormatUint n) b = ret (error_response err))
    \<and> (Decode dec_ReqInfo b zero_ReqInfo = Inr req \<and> ID req \<noteq> 0 \<and> ID req \<noteq> n \<longrightarrow>
         api ''POST'' (''/api/v1/reqs/'' @ FormatUint n) b = ret (error_response ErrIDMismatch))
    \<and> (Decode dec_WorkerStatePack b '''' = Inl err \<longrightarrow>
         api ''POST'' (''/api/v1/workers/'' @ v @ ''/setstate'') b = ret (error_response err))
    \<and> (Decode dec_groups b [] = Inl err \<longrightarrow>
         api ''POST'' (''/api/v1/workers/'' @ v @ ''/setgroups'') b = ret (error_response err))
    \<and> (Decode dec_RequestsListSpec b no_requests_spec = Inl err \<and> err \<noteq> EOF \<longrightarrow>
         api ''POST'' ''/api/v1/reqs/list'' b = ret (error_response err))
    \<and> (Decode dec_WorkersListSpec b no_workers_spec = Inl err \<and> err \<noteq> EOF \<longrightarrow>
         api ''POST'' ''/api/v1/workers/list'' b = ret (error_response err)
         \<and> api ''GET'' ''/api/v1/workers/'' b = ret (error_response err))
    \<and> api ''POST'' ''/api/v1/reqs/list'' EmptyBody = api ''POST'' ''/api/v1/reqs/list'' (JsonBody (JObj []))
    \<and> api ''POST'' ''/api/v1/workers/list'' EmptyBody = api ''POST'' ''/api/v1/workers/list'' (JsonBody (JObj []))"
proof -
  note request_refused = routed_ids(1-5) [OF assms(2), THEN refused [OF assms(1)]]
  note worker_refused = routed_ids(7,9-11) [OF assms(4), THEN refused [OF assms(1)]]
  note fixed_refused = routed_fixed(1-3) [THEN refused [OF assms(1)]] routed_workers [THEN refused [OF assms(1)]]
  note update_refused = routed_ids(4) [OF path_id_FormatUint, THEN refused [OF assms(1)]]
  note pack_refused = routed_ids(9,10) [OF path_id_UUID [OF assms(7)], THEN refused [OF assms(1)]]
  have numbers: "ParseUint (FormatUint n) = Some n" using assms(6) by simp
  have empty: "api ''POST'' ''/api/v1/reqs/list'' EmptyBody = api ''POST'' ''/api/v1/reqs/list'' (JsonBody (JObj []))"
    "api ''POST'' ''/api/v1/workers/list'' EmptyBody = api ''POST'' ''/api/v1/workers/list'' (JsonBody (JObj []))"
    unfolding api_def deployment.NewAPI_routed [OF assms(1) routed_fixed(2)] deployment.NewAPI_routed [OF assms(1) routed_fixed(3)]
    by (simp_all add: run_handler_answer listRequestsHandler_def listWorkersHandler_def Decode_def dec_RequestsListSpec_def
        dec_WorkersListSpec_def dec_struct_def)
  have bodies: "Decode dec_ReqInfo b zero_ReqInfo = Inl err \<longrightarrow>
         api ''POST'' ''/api/v1/reqs/'' b = ret (error_response err)
         \<and> api ''POST'' (''/api/v1/reqs/'' @ FormatUint n) b = ret (error_response err)"
    "Decode dec_ReqInfo b zero_ReqInfo = Inr req \<and> ID req \<noteq> 0 \<and> ID req \<noteq> n \<longrightarrow>
         api ''POST'' (''/api/v1/reqs/'' @ FormatUint n) b = ret (error_response ErrIDMismatch)"
    "Decode dec_WorkerStatePack b '''' = Inl err \<longrightarrow>
         api ''POST'' (''/api/v1/workers/'' @ v @ ''/setstate'') b = ret (error_response err)"
    "Decode dec_groups b [] = Inl err \<longrightarrow>
         api ''POST'' (''/api/v1/workers/'' @ v @ ''/setgroups'') b = ret (error_response err)"
    unfolding api_def using assms(7)
    by (intro impI conjI fixed_refused update_refused pack_refused; simp add: wrong_input_simps numbers)+
  have lists: "Decode dec_RequestsListSpec b no_requests_spec = Inl err \<and> err \<noteq> EOF \<longrightarrow>
         api ''POST'' ''/api/v1/reqs/list'' b = ret (error_response err)"
    "Decode dec_WorkersListSpec b no_workers_spec = Inl err \<and> err \<noteq> EOF \<longrightarrow>
         api ''POST'' ''/api/v1/workers/list'' b = ret (error_response err)
         \<and> api ''GET'' ''/api/v1/workers/'' b = ret (error_response err)"
    unfolding api_def
    by (intro impI conjI fixed_refused; simp add: listRequests_refused listWorkers_refused)+
  show ?thesis
    unfolding api_def
    using assms(2-5) empty bodies lists
    by (intro conjI request_refused worker_refused) (simp_all add: wrong_input_simps api_def)
qed

lemma wrong_input_refused_witness:
  "NewAPI best_match no_cors [] 0 \<lparr>Method = ''POST'', Path = ''/api/v1/reqs/-1/close'', ReqBody = EmptyBody\<rparr>
     = ret (error_response ErrBadID)
   \<and> NewAPI best_match no_cors [] 0 \<lparr>Method = ''POST'', Path = ''/api/v1/workers/'' @ demo_uuid @ ''/setgroups'', ReqBody = EmptyBody\<rparr>
     = ret (error_response EOF)"
  using wrong_input_refused [OF best.deployment_axioms _ _ _ _ _ demo_uuid_valid, of "''-1''" "''w''" 1 "[]" 0 EmptyBody EOF]
  by (simp add: path_id_def ParseUint_def is_digit_def isValidUUID_def Decode_def)

section \<open>Calls of the client that cannot succeed\<close>

lemma SetState_answer:
  "no_value (answer 202 ''POST'' (NewResponse (error_data err) [])) = Inl (case err of
     None \<Rightarrow> ClientError ''unmarshalling JSON response failed: json: Unmarshal(nil)''
   | Some e \<Rightarrow> RemoteError (NewServerError (Boruta e) []))"
proof (cases err)
  case None
  have "answer 202 ''POST'' (NewResponse NilData []) = \<lparr>StatusCode = 202,
      Header = hdr_Set ContentTypeHdr (Text contentType) [] @ [], Body = JsonBody (marshal NilData)\<rparr>"
    by (rule answer_data) (simp_all add: data_headers_def)
  with None show ?thesis
    by (simp add: error_data_def no_value_def processResponse_def bodyJSONUnmarshal_def readBody_def Unmarshal_def dec_nil_def)
qed (simp add: error_data_def no_value_def processResponse_error)

text \<open>
  \<open>SetState\<close> of the client changes the state of the worker and reports a failure all
  the same: the server answers a success with status 202 and the body \<open>null\<close>, which the
  client decodes into nothing.
\<close>

theorem SetState_reports_failure:
  fixes url :: string
  assumes "deployment tree cors" and "isValidUUID u"
  shows "client_SetState (remote tree cors url) (NewBorutaClient url) u state
    = bnd (SetState u state) (\<lambda>err. ret (Inl (case err of
        None \<Rightarrow> ClientError ''unmarshalling JSON response failed: json: Unmarshal(nil)''
      | Some e \<Rightarrow> RemoteError (NewServerError (Boruta e) []))))"
  using assms(2)
  by (simp add: client_SetState_def deployment.remote_call [OF assms(1) _ routed_ids(9)] setWorkerStateHandler_def
      Decode_def json_simps bnd_bnd path_id_UUID SetState_answer)

lemma SetState_reports_failure_witness:
  "client_SetState (remote best_match no_cors ''http://boruta'') (NewBorutaClient ''http://boruta'') demo_uuid ''IDLE''
    = bnd (SetState demo_uuid ''IDLE'') (\<lambda>err. ret (Inl (case err of
        None \<Rightarrow> ClientError ''unmarshalling JSON response failed: json: Unmarshal(nil)''
      | Some e \<Rightarrow> RemoteError (NewServerError (Boruta e) []))))"
  by (rule SetState_reports_failure [OF best.deployment_axioms demo_uuid_valid])

text \<open>The status of an answer: a panic after the headers were sent does not change it.\<close>

lemma data_headers_panic: "data_headers d = Inl p \<Longrightarrow> \<exists>text. p = RuntimePanic text"
  by (auto simp: data_headers_def split: data.splits if_splits option.splits)

lemma answer_status:
  "StatusCode (answer n m resp) = (case data_headers (Data resp) of
     Inl p \<Rightarrow> 500 | Inr hs \<Rightarrow> (case Data resp of ServerErrorData e \<Rightarrow> Status e | _ \<Rightarrow> n))"
proof (cases "data_headers (Data resp)")
  case (Inl p)
  then obtain msg where "p = RuntimePanic msg" using data_headers_panic by blast
  with Inl show ?thesis
    by (simp add: answer_def respond_def panicHandler_def new_writer_def set_headers_def WriteHeader_def write_body_def response_of_def)
next
  case (Inr hs)
  then show ?thesis
    by (simp add: answer_def respond_def panicHandler_def new_writer_def set_headers_def WriteHeader_def write_body_def
        response_of_def Let_def split: sum.split panic_value.split prod.split)
qed

lemma answer_not_204:
  assumes "n \<noteq> 204" and "\<forall>e. d \<noteq> ServerErrorData e"
  shows "StatusCode (answer n m (NewResponse d h)) \<noteq> 204"
proof -
  have err: "Status (NewServerError err []) \<noteq> 204" for err using NewServerError_status [of err "[]"] by auto
  show ?thesis
    by (cases d) (use assms err in \<open>simp_all add: answer_status NewResponse_def split: sum.split\<close>)
qed

lemma head_refused:
  assumes "\<forall>e. d \<noteq> ServerErrorData e"
  shows "\<exists>err. (case checkStatus 204 (answer 200 ''HEAD'' (NewResponse d h)) of
     Some err \<Rightarrow> Inl err | None \<Rightarrow> Inr (Header (answer 200 ''HEAD'' (NewResponse d h)))) = Inl (err :: client_error)"
  using answer_not_204 [of 200 d "''HEAD''" h] assms by (simp add: checkStatus_def)

lemma bnd_Inl: "(\<And>a. \<exists>e. g a = Inl e) \<Longrightarrow> bnd m (\<lambda>a. ret (g a)) s \<noteq> Returns (Inr x, t)"
  by (auto simp: bnd_def ret_def split: outcome.splits) (metis Inl_Inr_False)

text \<open>A handler behind \<open>HEAD\<close> whose result is data or an error of an operation.\<close>

lemma getHeaders_fails:
  fixes op :: "'a op"
  assumes "deployment tree cors" and "path = ''/api/v1/'' @ rest"
    and "routed ''HEAD'' path p ps (routerSetHandler hdl 200)"
    and "hdl \<lparr>Method = ''HEAD'', Path = path, ReqBody = EmptyBody\<rparr> ps = bnd op (\<lambda>res. ret (NewResponse (k res) []))"
    and "\<forall>res e. k res \<noteq> ServerErrorData e"
  shows "getHeaders (remote tree cors url) (NewBorutaClient url @ rest) s \<noteq> Returns (Inr h, t)"
  unfolding getHeaders_def deployment.remote_call [OF assms(1-3)] assms(4) bnd_bnd bnd_ret
  by (rule bnd_Inl, rule head_refused) (use assms(5) in blast)

lemma request_headers_fail:
  assumes "deployment tree cors" and "i < 2 ^ 64"
  shows "getHeaders (remote tree cors url) (NewBorutaClient url @ ''reqs/'' @ FormatUint i) s \<noteq> Returns (Inr h, t)"
proof (rule getHeaders_fails [OF assms(1) _ routed_ids(6) [OF path_id_FormatUint]])
  show "getRequestInfoHandler \<lparr>Method = ''HEAD'', Path = ''/api/v1/reqs/'' @ FormatUint i, ReqBody = EmptyBody\<rparr> [(''id'', FormatUint i)]
    = bnd (GetRequestInfo i) (\<lambda>res. ret (NewResponse (case res of Inl err \<Rightarrow> ErrorData (Boruta err) | Inr r \<Rightarrow> ReqInfoData r) []))"
    using assms(2) by (auto simp: getRequestInfoHandler_def parseReqID_def bad_def intro!: arg_cong2 [where f = bnd] split: sum.split)
qed (simp_all split: sum.split)

lemma worker_headers_fail:
  assumes "deployment tree cors" and "isValidUUID u"
  shows "getHeaders (remote tree cors url) (NewBorutaClient url @ ''workers/'' @ u) s \<noteq> Returns (Inr h, t)"
proof (rule getHeaders_fails [OF assms(1) _ routed_ids(8) [OF path_id_UUID [OF assms(2)]]])
  show "getWorkerInfoHandler \<lparr>Method = ''HEAD'', Path = ''/api/v1/workers/'' @ u, ReqBody = EmptyBody\<rparr> [(''id'', u)]
    = bnd (GetWorkerInfo u) (\<lambda>res. ret (NewResponse (case res of Inl err \<Rightarrow> ErrorData (Boruta err) | Inr w \<Rightarrow> WorkerInfoData w) []))"
    using assms(2) by (auto simp: getWorkerInfoHandler_def bad_def intro!: arg_cong2 [where f = bnd] split: sum.split)
qed (simp_all split: sum.split)

lemma no_result: "(\<And>h t. m s \<noteq> Returns (Inr h, t)) \<Longrightarrow>
   bnd m (\<lambda>res. case res of Inl err \<Rightarrow> ret (Inl err) | Inr h \<Rightarrow> f h) s \<noteq> Returns (Inr x, t)"
  by (auto simp: bnd_def ret_def split: outcome.splits sum.splits)

text \<open>
  C33. \<open>GetRequestState\<close>, \<open>GetJobTimeout\<close> and \<open>GetWorkerState\<close> of the client never succeed:
  they ask for the headers only and insist on status 204, while the server answers with
  200 or with an error.
\<close>

theorem head_calls_fail:
  fixes url :: string
  assumes "deployment tree cors" and "i < 2 ^ 64" and "isValidUUID u"
  defines "send \<equiv> remote tree cors url" and "client \<equiv> NewBorutaClient url"
  shows "client_GetRequestState send client i s \<noteq> Returns (Inr st, t)
    \<and> client_GetJobTimeout send client i s \<noteq> Returns (Inr d, t)
    \<and> client_GetWorkerState send client u s \<noteq> Returns (Inr wst, t)"
  unfolding client_GetRequestState_def client_GetJobTimeout_def client_GetWorkerState_def send_def client_def
  using request_headers_fail [OF assms(1,2)] worker_headers_fail [OF assms(1,3)]
  by (intro conjI no_result)

lemma head_calls_fail_witness:
  "client_GetRequestState (remote best_match no_cors ''http://boruta'') (NewBorutaClient ''http://boruta'') 1 running_server
     \<noteq> Returns (Inr (Text ''IN PROGRESS''), running_server)"
  using head_calls_fail [OF best.deployment_axioms _ demo_uuid_valid, of 1] by simp

section \<open>An answer that cannot be written\<close>

definition broken_answer :: http_response where
  "broken_answer = \<lparr>StatusCode = 200,
     Header = [(RequestStateHdr, Text ''WAITING''), (ContentTypeHdr, Text contentType)],
     Body = PlainBody (''Internal Server Error:'' @ [CHR 0x0A] @ ''internal server error: unable to marshal JSON:'' @ marshal_time_error)\<rparr>"

text \<open>
  C34. A waiting request with a time that its own clock puts behind the year 9999 breaks every
  answer it is part of.  The panic comes after the status has been sent: the client is told
  200 and gets a text instead of JSON.  A client can create such a request with a time in the
  year 9999 west of Greenwich, since a new request is stored in UTC.
\<close>

theorem late_request_breaks_answer:
  fixes url :: string
  assumes "deployment tree cors" and "reachable resolve s" and "i < 2 ^ 64"
    and "requests (rc s) i = Some r" and "RState r = WAIT" and "\<not> req_times_fit r"
  shows "NewAPI tree cors origins age \<lparr>Method = ''GET'', Path = ''/api/v1/reqs/'' @ FormatUint i, ReqBody = EmptyBody\<rparr> s
      = Returns (broken_answer, s)
    \<and> client_GetRequestInfo (remote tree cors url) (NewBorutaClient url) i s = Returns (Inl (ClientError
        ''unmarshalling JSON response failed: invalid character looking for beginning of value''), s)"
proof -
  have "GetRequestInfo i s = Returns (Inr r, s)"
    using assms(4) reachable_parts(8) [OF assms(2)] by (auto simp: GetRequestInfo_def Get_def result_simps)
  then have handler: "getRequestInfoHandler req [(''id'', FormatUint i)] s = Returns (NewResponse (ReqInfoData r) [], s)" for req
    using assms(3) by (simp add: getRequestInfoHandler_def parseReqID_def bnd_def ret_def)
  have answer: "answer 200 ''GET'' (NewResponse (ReqInfoData r) []) = broken_answer"
    using assms(5,6)
    by (simp add: answer_def respond_def NewResponse_def data_headers_def new_writer_def set_headers_def hdr_Set_def
        jsonMustMarshal_def WriteHeader_def write_body_def response_of_def panicHandler_def broken_answer_def
        contentType_def header_names NewServerError_def isNotFoundError_def)
  have "processResponse dec_ReqInfo zero_ReqInfo broken_answer
      = Inl (ClientError ''unmarshalling JSON response failed: invalid character looking for beginning of value'')"
    by (simp add: broken_answer_def processResponse_def bodyJSONUnmarshal_def readBody_def Unmarshal_def)
  then have "client_GetRequestInfo (remote tree cors url) (NewBorutaClient url) i s = Returns (Inl (ClientError
        ''unmarshalling JSON response failed: invalid character looking for beginning of value''), s)"
    by (simp add: client_GetRequestInfo_def deployment.remote_call [OF assms(1) _ routed_ids(5) [OF path_id_FormatUint]]
        bnd_def ret_def handler answer)
  moreover have "NewAPI tree cors origins age \<lparr>Method = ''GET'', Path = ''/api/v1/reqs/'' @ FormatUint i, ReqBody = EmptyBody\<rparr> s
      = Returns (broken_answer, s)"
    unfolding deployment.NewAPI_routed [OF assms(1) routed_ids(5) [OF path_id_FormatUint]] run_handler_answer
    by (simp add: bnd_def ret_def handler answer)
  ultimately show ?thesis by simp
qed

text \<open>The last second of 9999 an hour west of Greenwich, which is in the year 10000 in UTC.\<close>

definition far_deadline :: time where
  "far_deadline = 3652059 * 86400 * second_ns + 3599 * second_ns"

definition far_server :: server where
  "far_server = overdue_server\<lparr>rc := (rc overdue_server)\<lparr>requests := [1 \<mapsto> (demo_request WAIT None)\<lparr>Deadline := far_deadline\<rparr>],
     deadlineTimes := \<lparr>times = [RequestTime far_deadline 1], timer = Some far_deadline, rt_matcher = Some DeadlineMatcher\<rparr>\<rparr>\<rparr>"

lemma run_far:
  "run_events demo_resolve [ENewRequest demo_caps 3 \<lparr>uGroups = []\<rparr> 101 far_deadline]
     (start_server (\<lambda>n. if n = 0 then 100 else 6000) 0 (\<lambda>n. None) 1000000) = Some far_server"
  by (simp add: far_server_def far_deadline_def second_ns_def overdue_server_def demo_request_def run_simps
      times_run_simps request_run_simps)

lemma far_reachable: "reachable demo_resolve far_server"
  by (rule run_events_reachable [OF reachable.init run_far])

lemma late_request_breaks_answer_witness:
  "time_fits (far_deadline, - 60) \<and> (\<exists>s. reachable demo_resolve s \<and>
     NewAPI best_match no_cors [] 0 \<lparr>Method = ''GET'', Path = ''/api/v1/reqs/1'', ReqBody = EmptyBody\<rparr> s = Returns (broken_answer, s))"
proof -
  have "FormatUint 1 = ''1''" by code_simp
  moreover have "\<not> req_times_fit ((demo_request WAIT None)\<lparr>Deadline := far_deadline\<rparr>)"
    by (simp add: req_times_fit_def time_defs time_fits_def far_deadline_def second_ns_def demo_request_def)
  ultimately show ?thesis
    using late_request_breaks_answer [OF best.deployment_axioms far_reachable, of 1] far_reachable
    by (auto simp: far_server_def demo_request_def time_fits_def far_deadline_def second_ns_def minute_ns_def)
qed

end
