(* ===== verification/Liberal.thy ===== *)
theory Liberal
  imports Effects
begin

text \<open>
  Partial correctness: \<open>wlp\<close> is the weakest liberal precondition, which says nothing about
  a call that does not return.  Its equations compute it along the structure of a program;
  the theories that follow what happens to a request or a worker through all operations use
  it.
\<close>

section \<open>Calls that return\<close>

named_theorems wlp_simps \<open>equations that compute the weakest liberal precondition of a program\<close>

definition wlp :: "('s, 'a) prog \<Rightarrow> ('a \<Rightarrow> 's \<Rightarrow> bool) \<Rightarrow> 's \<Rightarrow> bool" where
  "wlp m Q s \<longleftrightarrow> (\<forall>a t. m s = Returns (a, t) \<longrightarrow> Q a t)"

lemma wlp_basic [wlp_simps]:
  "wlp (ret a) Q = Q a" "wlp (gets f) Q = (\<lambda>s. Q (f s) s)" "wlp (modify h) P = (\<lambda>s. P () (h s))"
  "wlp (panic e) Q = (\<lambda>_. True)" "wlp block Q = (\<lambda>_. True)" "wlp out_of_fuel Q = (\<lambda>_. True)"
  by (simp_all add: fun_eq_iff wlp_def ret_def gets_def modify_def panic_def block_def out_of_fuel_def)

lemma wlp_bnd [wlp_simps]: "wlp (bnd m f) Q = wlp m (\<lambda>a. wlp (f a) Q)"
  by (auto simp: fun_eq_iff wlp_def bnd_Returns)

lemma wlp_thn [wlp_simps]: "wlp (thn m n) Q = wlp m (\<lambda>_. wlp n Q)"
  by (simp add: thn_def wlp_bnd)

lemma wlp_branches [wlp_simps]:
  "wlp (if c then m else n) Q = (\<lambda>s. if c then wlp m Q s else wlp n Q s)"
  "wlp (case x of None \<Rightarrow> m | Some a \<Rightarrow> f a) Q = (\<lambda>s. case x of None \<Rightarrow> wlp m Q s | Some a \<Rightarrow> wlp (f a) Q s)"
  "wlp (case y of Inl e \<Rightarrow> g e | Inr d \<Rightarrow> h d) Q = (\<lambda>s. case y of Inl e \<Rightarrow> wlp (g e) Q s | Inr d \<Rightarrow> wlp (h d) Q s)"
  "wlp (case p of (d, e) \<Rightarrow> k d e) Q = (\<lambda>s. case p of (d, e) \<Rightarrow> wlp (k d e) Q s)"
  "wlp (Let v l) Q = (\<lambda>s. let a = v in wlp (l a) Q s)"
  by (auto simp: fun_eq_iff split: option.splits sum.splits prod.splits)

lemma wlp_mono: "wlp m Q s \<Longrightarrow> (\<And>a t. Q a t \<Longrightarrow> R a t) \<Longrightarrow> wlp m R s"
  by (simp add: wlp_def)

lemma wlp_preserves: "preserves f m \<Longrightarrow> (\<And>a t. f t = f s \<Longrightarrow> Q a t) \<Longrightarrow> wlp m Q s"
  by (simp add: wlp_def preserves_def)

lemma wlp_critical [wlp_simps]:
  "wlp (critical l m) Q = (\<lambda>s. l \<notin> held s \<longrightarrow>
     wlp m (\<lambda>r t. l \<in> held t \<longrightarrow> Q r (t\<lparr>held := held t - {l}\<rparr>)) (s\<lparr>held := insert l (held s)\<rparr>))"
  by (auto simp: fun_eq_iff wlp_def critical_Returns)

lemma wlp_state [wlp_simps]:
  "wlp get_requests P = (\<lambda>s. P (requests (rc s)) s)"
  "wlp get_workers R = (\<lambda>s. R (workers (wl s)) s)"
  "wlp (put_request i r) Q = (\<lambda>s. Q () (s\<lparr>rc := (rc s)\<lparr>requests := (requests (rc s))(i \<mapsto> r)\<rparr>\<rparr>))"
  "wlp (upd_request i f) Q = (\<lambda>s. Q () (s\<lparr>rc := (rc s)\<lparr>requests :=
     (requests (rc s))(i := map_option f (requests (rc s) i))\<rparr>\<rparr>))"
  "wlp (Tunnel_Close tun) Q = (\<lambda>s. tun_id tun \<in> open_tunnels s \<longrightarrow>
     Q () (s\<lparr>open_tunnels := open_tunnels s - {tun_id tun}\<rparr>))"
  "wlp time_Now T = (\<lambda>s. T (clock s 0) (s\<lparr>clock := (\<lambda>i. clock s (Suc i))\<rparr>))"
  by (simp_all add: fun_eq_iff get_requests_def get_workers_def put_request_def upd_request_def
      Tunnel_Close_def time_Now_def wlp_simps)

lemma wlp_finish_job [wlp_simps]:
  "wlp (finish_job u) Q = (\<lambda>s. JobsMutex \<notin> held s \<longrightarrow> (case jobs s u of
       None \<Rightarrow> Q (Some (NotFoundError ''Job'')) s
     | Some j \<Rightarrow> tun_id (jTunnel j) \<in> open_tunnels s \<longrightarrow>
         Q None (s\<lparr>open_tunnels := open_tunnels s - {tun_id (jTunnel j)}, jobs := (jobs s)(u := None)\<rparr>)))"
  by (auto simp: fun_eq_iff finish_job_def wlp_simps split: option.splits)

text \<open>An invariant a program keeps whenever it returns; the rules follow its structure.\<close>

definition keeps :: "('s \<Rightarrow> bool) \<Rightarrow> ('s, 'a) prog \<Rightarrow> bool" where
  "keeps I m \<longleftrightarrow> (\<forall>s. I s \<longrightarrow> wlp m (\<lambda>_. I) s)"

named_theorems keeps_intros \<open>rules for invariants a program keeps\<close>

lemma keeps_basic [keeps_intros]:
  "keeps I (ret a)" "keeps I (gets g)" "keeps I (panic e)" "keeps I block" "keeps I out_of_fuel"
  by (simp_all add: keeps_def wlp_basic)

lemma wlp_keeps: "keeps I m \<Longrightarrow> I s \<Longrightarrow> wlp m (\<lambda>_. I) s"
  by (simp add: keeps_def)

lemma keeps_bnd [keeps_intros]:
  assumes "keeps I m" and "\<And>a. keeps I (f a)"
  shows "keeps I (bnd m f)"
  unfolding keeps_def wlp_bnd
proof (intro allI impI)
  fix s assume "I s"
  with assms(1) have "wlp m (\<lambda>_. I) s" by (rule wlp_keeps)
  then show "wlp m (\<lambda>a. wlp (f a) (\<lambda>_. I)) s"
    by (rule wlp_mono) (rule wlp_keeps [OF assms(2)])
qed

lemma keeps_thn [keeps_intros]: "keeps I m \<Longrightarrow> keeps I n \<Longrightarrow> keeps I (thn m n)"
  unfolding thn_def by (rule keeps_bnd)

lemma keeps_branches [keeps_intros]:
  "keeps I m \<Longrightarrow> keeps I n \<Longrightarrow> keeps I (if c then m else n)"
  "keeps I m \<Longrightarrow> (\<And>a. keeps I (g a)) \<Longrightarrow> keeps I (case x of None \<Rightarrow> m | Some a \<Rightarrow> g a)"
  "(\<And>e. keeps I (h e)) \<Longrightarrow> (\<And>c. keeps I (k c)) \<Longrightarrow> keeps I (case y of Inl e \<Rightarrow> h e | Inr c \<Rightarrow> k c)"
  "(\<And>d e. keeps I (l d e)) \<Longrightarrow> keeps I (case p of (d, e) \<Rightarrow> l d e)"
  "(\<And>a. keeps I (q a)) \<Longrightarrow> keeps I (let a = v in q a)"
  by (auto split: option.splits sum.splits prod.splits)

lemma keeps_modify [keeps_intros]: "(\<And>s. I s \<Longrightarrow> I (h s)) \<Longrightarrow> keeps I (modify h)"
  by (simp add: keeps_def wlp_basic)

lemma keeps_zoom [keeps_intros]: "(\<And>s q. I s \<Longrightarrow> I (put q s)) \<Longrightarrow> keeps I (zoom get put m)"
  by (auto simp: keeps_def wlp_def zoom_def split: outcome.splits)

lemma keeps_for_each [keeps_intros]: "(\<And>x. keeps I (g x)) \<Longrightarrow> keeps I (for_each g xs)"
  by (induction xs) (auto intro: keeps_intros)

end
