(* ===== verification/LifeCycle.thy ===== *)
theory LifeCycle
  imports Scenario Liberal
begin

text \<open>
  The life of a request, as a relation between any two states of a run: a request is never
  lost or renumbered, its state only moves forward, and once it has left the queue, or has
  ended, what was promised about it no longer changes.  The proof compares the state before
  and after each operation that returns.
\<close>

section \<open>How a request changes\<close>

definition moves :: "ReqState \<Rightarrow> ReqState \<Rightarrow> bool" where
  "moves a b \<longleftrightarrow> a = b \<or> a = WAIT \<and> b \<noteq> INVALID \<or> a = INPROGRESS \<and> b \<in> {DONE, FAILED}"

definition has_ended :: "ReqState \<Rightarrow> bool" where
  "has_ended st \<longleftrightarrow> st \<notin> {WAIT, INPROGRESS}"

definition job_worker :: "ReqInfo \<Rightarrow> WorkerUUID option" where
  "job_worker r = map_option jWorkerUUID (RJob r)"

definition later :: "ReqInfo \<Rightarrow> ReqInfo \<Rightarrow> bool" where
  "later r r' \<longleftrightarrow> ID r' = ID r \<and> Owner r' = Owner r \<and> RCaps r' = RCaps r
     \<and> moves (RState r) (RState r')
     \<and> (RState r \<noteq> WAIT \<longrightarrow> Prio r' = Prio r \<and> ValidAfter r' = ValidAfter r \<and> Deadline r' = Deadline r
          \<and> job_worker r' = job_worker r)
     \<and> (has_ended (RState r) \<longrightarrow> r' = r)"

text \<open>With \<open>w\<close> the waiting requests have to stay as they are.\<close>

definition evolves :: "bool \<Rightarrow> (ReqID \<rightharpoonup> ReqInfo) \<Rightarrow> (ReqID \<rightharpoonup> ReqInfo) \<Rightarrow> bool" where
  "evolves w m m' \<longleftrightarrow> (\<forall>i r. m i = Some r \<longrightarrow> (\<exists>r'. m' i = Some r' \<and> later r r'
     \<and> (w \<longrightarrow> RState r = WAIT \<longrightarrow> r' = r)))"

lemma later_refl [simp]: "later r r"
  by (simp add: later_def moves_def)

lemma later_trans: "later a b \<Longrightarrow> later b c \<Longrightarrow> later a c"
  unfolding later_def moves_def has_ended_def by auto

lemma evolves_refl [simp]: "evolves w m m"
  by (simp add: evolves_def)

lemma evolves_trans:
  assumes "evolves w a b" and "evolves w b c"
  shows "evolves w a c"
  unfolding evolves_def
proof (intro allI impI)
  fix i r
  assume "a i = Some r"
  then obtain r' where r': "b i = Some r'" "later r r'" "w \<longrightarrow> RState r = WAIT \<longrightarrow> r' = r"
    using assms(1) by (force simp: evolves_def)
  then obtain r'' where "c i = Some r''" "later r' r''" "w \<longrightarrow> RState r' = WAIT \<longrightarrow> r'' = r'"
    using assms(2) by (force simp: evolves_def)
  with r' show "\<exists>r'. c i = Some r' \<and> later r r' \<and> (w \<longrightarrow> RState r = WAIT \<longrightarrow> r' = r)"
    by (auto intro: later_trans)
qed

lemma evolves_upd: "m i = Some r \<Longrightarrow> later r r' \<Longrightarrow> (w \<longrightarrow> RState r \<noteq> WAIT) \<Longrightarrow>
    evolves w m (m(i \<mapsto> r'))"
  by (auto simp: evolves_def)

text \<open>
  What the comparison rests on: the requests are numbered without gaps, and every job
  belongs to a request that runs on its worker.
\<close>

definition base_ok :: "(ReqID \<rightharpoonup> ReqInfo) \<Rightarrow> (WorkerUUID \<rightharpoonup> Job) \<Rightarrow> bool" where
  "base_ok m js \<longleftrightarrow> (\<exists>n. dom m = {1..n}) \<and> (\<forall>i r. m i = Some r \<longrightarrow> ID r = i)
     \<and> (\<forall>u j. js u = Some j \<longrightarrow> (\<exists>r. m (jReq j) = Some r \<and> runs_on r u))"

definition onward :: "bool \<Rightarrow> server \<Rightarrow> server \<Rightarrow> bool" where
  "onward w s t \<longleftrightarrow> (base_ok (requests (rc s)) (jobs s) \<longrightarrow>
     base_ok (requests (rc t)) (jobs t) \<and> evolves w (requests (rc s)) (requests (rc t)))"

lemma onward_refl [simp]: "onward w s s"
  by (simp add: onward_def)

lemma onward_trans: "onward w r s \<Longrightarrow> onward w s t \<Longrightarrow> onward w r t"
  by (auto simp: onward_def intro: evolves_trans)

definition both :: "server \<Rightarrow> (ReqID \<rightharpoonup> ReqInfo) \<times> (WorkerUUID \<rightharpoonup> Job)" where
  "both s = (requests (rc s), jobs s)"

lemma onward_both: "both s = both s' \<Longrightarrow> both t = both t' \<Longrightarrow> onward w s t = onward w s' t'"
  by (simp add: onward_def both_def)

definition tracks :: "bool \<Rightarrow> 'a op \<Rightarrow> bool" where
  "tracks w m \<longleftrightarrow> (\<forall>s. wlp m (\<lambda>_. onward w s) s)"

named_theorems tracks_intros \<open>rules for operations that only move requests forward\<close>

lemma tracks_basic [tracks_intros]:
  "tracks w (ret a)" "tracks w (gets g)" "tracks w (panic e)" "tracks w block" "tracks w out_of_fuel"
  by (simp_all add: tracks_def wlp_simps)

lemma tracks_weaken: "tracks True m \<Longrightarrow> tracks w m"
  unfolding tracks_def by (intro allI) (erule allE, erule wlp_mono, auto simp: onward_def evolves_def)

lemma wlp_tracks: "tracks w m \<Longrightarrow> onward w r s \<Longrightarrow> wlp m (\<lambda>_. onward w r) s"
  unfolding tracks_def by (erule allE, erule wlp_mono) (auto intro: onward_trans)

lemma tracks_bnd [tracks_intros]:
  assumes "tracks w m" and "\<And>a. tracks w (f a)"
  shows "tracks w (bnd m f)"
  unfolding tracks_def wlp_bnd
proof
  fix s
  have "wlp m (\<lambda>_. onward w s) s" using assms(1) by (simp add: tracks_def)
  then show "wlp m (\<lambda>a. wlp (f a) (\<lambda>_. onward w s)) s"
    by (rule wlp_mono) (rule wlp_tracks [OF assms(2)])
qed

lemma tracks_thn [tracks_intros]: "tracks w m \<Longrightarrow> tracks w n \<Longrightarrow> tracks w (thn m n)"
  unfolding thn_def by (rule tracks_bnd)

lemma tracks_branches [tracks_intros]:
  "tracks w m \<Longrightarrow> tracks w n \<Longrightarrow> tracks w (if c then m else n)"
  "tracks w m \<Longrightarrow> (\<And>a. tracks w (g a)) \<Longrightarrow> tracks w (case x of None \<Rightarrow> m | Some a \<Rightarrow> g a)"
  "(\<And>e. tracks w (h e)) \<Longrightarrow> (\<And>c. tracks w (k c)) \<Longrightarrow> tracks w (case y of Inl e \<Rightarrow> h e | Inr c \<Rightarrow> k c)"
  "(\<And>d e. tracks w (l d e)) \<Longrightarrow> tracks w (case p of (d, e) \<Rightarrow> l d e)"
  "(\<And>a. tracks w (q a)) \<Longrightarrow> tracks w (let a = v in q a)"
  by (auto split: option.splits sum.splits prod.splits)

lemma tracks_same: "preserves both m \<Longrightarrow> tracks w m"
  unfolding tracks_def preserves_def wlp_def by (metis onward_both onward_refl)

lemma tracks_modify [tracks_intros]: "(\<And>s. both (h s) = both s) \<Longrightarrow> tracks w (modify h)"
  by (rule tracks_same) (rule preserves_modify)

lemma tracks_zoom [tracks_intros]: "(\<And>s q. both (put q s) = both s) \<Longrightarrow> tracks w (zoom get put m)"
  by (rule tracks_same) (rule preserves_zoom)

lemma tracks_critical [tracks_intros]: "tracks w m \<Longrightarrow> tracks w (critical l m)"
  unfolding critical_def lock_def unlock_def
  by (intro tracks_intros) (simp_all add: both_def)

lemma tracks_for_each [tracks_intros]: "(\<And>x. tracks w (g x)) \<Longrightarrow> tracks w (for_each g xs)"
  by (induction xs) (auto intro: tracks_intros)

section \<open>Ending a job\<close>

text \<open>Of the job store only one entry goes; \<open>base_ok\<close> asks nothing of absent jobs.\<close>

lemma base_ok_no_job: "base_ok m js \<Longrightarrow> base_ok m (js(u := None))"
  by (auto simp: base_ok_def)

lemma tracks_finish_job [tracks_intros]: "tracks w (finish_job u)"
  by (auto simp: tracks_def wlp_simps onward_def base_ok_no_job split: option.splits)

lemma job_request: "base_ok m js \<Longrightarrow> js u = Some j \<Longrightarrow> \<exists>r. m (jReq j) = Some r \<and> runs_on r u"
  by (auto simp: base_ok_def)

lemma base_ok_upd:
  assumes ok: "base_ok m js" and r: "m i = Some r" "ID r' = ID r"
    and js: "\<And>u j. js' u = Some j \<Longrightarrow> js u = Some j \<and> (jReq j = i \<longrightarrow> runs_on r' u)"
  shows "base_ok (m(i \<mapsto> r')) js'"
  unfolding base_ok_def
proof (intro conjI allI impI)
  have "dom (m(i \<mapsto> r')) = dom m" using r(1) by auto
  with ok show "\<exists>n. dom (m(i \<mapsto> r')) = {1..n}" by (simp add: base_ok_def)
  show "ID q = k" if "(m(i \<mapsto> r')) k = Some q" for k q
    using ok r that by (auto simp: base_ok_def split: if_splits)
  show "\<exists>q. (m(i \<mapsto> r')) (jReq j) = Some q \<and> runs_on q u" if "js' u = Some j" for u j
    using js [OF that] job_request [OF ok, of u j] by auto
qed

lemma later_ended: "RState r = INPROGRESS \<Longrightarrow> e \<in> {DONE, FAILED} \<Longrightarrow> later r (r\<lparr>RState := e\<rparr>)"
  by (auto simp: later_def moves_def has_ended_def job_worker_def)

lemma onward_ended:
  assumes r: "requests (rc s) i = Some r" "RState r = INPROGRESS" and e: "e \<in> {DONE, FAILED}"
    and t: "both t = ((requests (rc s))(i \<mapsto> r\<lparr>RState := e\<rparr>), js)"
    and js: "\<And>u j. js u = Some j \<Longrightarrow> jobs s u = Some j \<and> job_worker r \<noteq> Some u"
  shows "onward w s t"
  unfolding onward_def
proof
  assume ok: "base_ok (requests (rc s)) (jobs s)"
  have "\<not> (js u = Some j \<and> jReq j = i)" for u j
    using r js [of u j] job_request [OF ok, of u j] by (auto simp: runs_on_def job_worker_def)
  then have "base_ok ((requests (rc s))(i \<mapsto> r\<lparr>RState := e\<rparr>)) js"
    using js by (intro base_ok_upd [OF ok r(1)]) auto
  moreover have "evolves w (requests (rc s)) ((requests (rc s))(i \<mapsto> r\<lparr>RState := e\<rparr>))"
    using r e by (intro evolves_upd) (auto intro: later_ended)
  ultimately show "base_ok (requests (rc t)) (jobs t) \<and> evolves w (requests (rc s)) (requests (rc t))"
    using t by (simp add: both_def)
qed

lemma tracks_OnWorkerFail [tracks_intros]: "tracks w (OnWorkerFail u)"
  unfolding OnWorkerFail_def
proof (rule tracks_critical)
  show "tracks w (bnd (jobs_Get u) (\<lambda>r. case r of Inl err \<Rightarrow> ret ()
     | Inr job \<Rightarrow> bnd get_requests (\<lambda>rs. case rs (jReq job) of
           None \<Rightarrow> panic ''request related to job not found''
         | Some req \<Rightarrow> thn (finish_job u) (upd_request (jReq job) (\<lambda>r. r\<lparr>RState := FAILED\<rparr>)))))"
    unfolding tracks_def
  proof
    fix s
    have "onward w s (s\<lparr>open_tunnels := X, jobs := (jobs s)(u := None), rc := (rc s)\<lparr>requests := (requests (rc s))(jReq j \<mapsto> r\<lparr>RState := FAILED\<rparr>)\<rparr>\<rparr>)"
      if j: "jobs s u = Some j" and r: "requests (rc s) (jReq j) = Some r" for X j r
    proof (cases "base_ok (requests (rc s)) (jobs s)")
      case True
      with j r have "runs_on r u" using job_request by fastforce
      then show ?thesis
        by (intro onward_ended [OF r, of FAILED _ "(jobs s)(u := None)"])
           (auto simp: runs_on_def job_worker_def both_def split: if_splits)
    qed (simp add: onward_def)
    then show "wlp (bnd (jobs_Get u) (\<lambda>r. case r of Inl err \<Rightarrow> ret ()
     | Inr job \<Rightarrow> bnd get_requests (\<lambda>rs. case rs (jReq job) of
           None \<Rightarrow> panic ''request related to job not found''
         | Some req \<Rightarrow> thn (finish_job u) (upd_request (jReq job) (\<lambda>r. r\<lparr>RState := FAILED\<rparr>))))) (\<lambda>_. onward w s) s"
      by (auto simp: wlp_simps jobs_Get_def split: option.splits)
  qed
qed

section \<open>Operations on workers\<close>

lemmas state_op_defs = get_requests_def get_workers_def upd_worker_def time_Now_def chan_send_def chan_close_def
  on_rt_def on_queue_def times_insert_def pushRequest_def removeRequest_def setRequestPriority_def

lemma tracks_setState [tracks_intros]: "tracks w (setState u st)"
  unfolding setState_def OnWorkerIdle_def state_op_defs
  by (intro tracks_intros) (simp_all add: both_def)

lemma tracks_PrepareWorker [tracks_intros]: "tracks w (PrepareWorker u k)"
  unfolding PrepareWorker_def state_op_defs by (intro tracks_intros)

lemma tracks_workers [tracks_intros]:
  "tracks w (TakeBestMatchingWorker gs caps)" "tracks w (Register resolve caps d sa)" "tracks w (SetFail u reason)"
  "tracks w (SetState u name)" "tracks w (SetGroups u gs)" "tracks w (Deregister u)" "tracks w (GetWorkerInfo u)"
  "tracks w (getWorkerAddr u)" "tracks w (setWorkerKey u key)"
  unfolding TakeBestMatchingWorker_def listWorkers_def Register_def SetFail_def SetState_def SetGroups_def
    Deregister_def GetWorkerInfo_def getWorkerAddr_def setWorkerKey_def OnWorkerIdle_def state_op_defs
  by (intro tracks_intros; simp add: both_def)+

lemma tracks_background [tracks_intros]: "tracks w (bg_step answer key c)"
proof -
  have goto: "tracks w (goto d pc ch)" for d pc ch
    unfolding goto_def by (intro tracks_intros) (simp add: both_def)
  have check: "tracks w (checkPendingOperation d)" "tracks w (receive d)" for d
    unfolding checkPendingOperation_def receive_def
    by (intro tracks_intros; (simp add: both_def split: list.split)?)+
       (auto intro!: tracks_intros simp: both_def split: list.split)
  have loop: "tracks w (dispatch d op)" for d op
    unfolding dispatch_def by (auto intro!: goto tracks_intros split: WorkerState.split)
  show ?thesis
    unfolding bg_step_def bg_call_def loop_head_def after_call_def settle_def
    by (auto intro!: tracks_intros goto check loop split: bg_pc.split)
qed

section \<open>Operations on requests\<close>

lemma tracks_queue [tracks_intros]:
  "tracks w (pushRequest r)" "tracks w (removeRequest r)" "tracks w (setRequestPriority r p)"
  "tracks w (times_insert k x)"
  unfolding state_op_defs by (intro tracks_intros; simp add: both_def)+

lemma wlp_then_tracks:
  assumes "wlp m (\<lambda>_. onward w r) s" and "\<And>a. tracks w (f a)"
  shows "wlp m (\<lambda>a. wlp (f a) (\<lambda>_. onward w r)) s"
  using assms(1) by (rule wlp_mono) (rule wlp_tracks [OF assms(2)])

lemma onward_upd:
  assumes "requests (rc s) i = Some r" and "both t = ((requests (rc s))(i \<mapsto> r'), jobs s)"
    and "later r r'" and "RState r = WAIT \<Longrightarrow> \<not> w" and "\<And>u. runs_on r u \<Longrightarrow> runs_on r' u"
  shows "onward w s t"
  unfolding onward_def
proof
  assume ok: "base_ok (requests (rc s)) (jobs s)"
  have "base_ok ((requests (rc s))(i \<mapsto> r')) (jobs s)"
  proof (rule base_ok_upd [OF ok assms(1)])
    show "ID r' = ID r" using assms(3) by (simp add: later_def)
    show "jobs s u = Some j \<and> (jReq j = i \<longrightarrow> runs_on r' u)" if "jobs s u = Some j" for u j
      using that job_request [OF ok that] assms(1,5) by auto
  qed
  then show "base_ok (requests (rc t)) (jobs t) \<and> evolves w (requests (rc s)) (requests (rc t))"
    using assms by (auto simp: both_def intro: evolves_upd)
qed

lemma wlp_closeRequest_now:
  assumes r: "requests (rc s) i = Some r" "RState r = INPROGRESS"
  shows "wlp (closeRequest i) (\<lambda>_. onward w s) s"
proof -
  let ?s = "s\<lparr>rc := (rc s)\<lparr>requests := (requests (rc s))(i \<mapsto> r\<lparr>RState := DONE\<rparr>)\<rparr>\<rparr>"
  have none: "onward w s ?s" if "RJob r = None"
    unfolding onward_def
  proof
    assume ok: "base_ok (requests (rc s)) (jobs s)"
    show "base_ok (requests (rc ?s)) (jobs ?s) \<and> evolves w (requests (rc s)) (requests (rc ?s))"
      using onward_ended [OF r, of DONE ?s "jobs s" w] ok that job_request [OF ok]
      by (auto simp: both_def onward_def job_worker_def)
  qed
  have "onward w s (?s\<lparr>open_tunnels := X, jobs := (jobs s)(jWorkerUUID j := None)\<rparr>)" if "RJob r = Some j" for X j
    by (rule onward_ended [OF r, of DONE _ "(jobs s)(jWorkerUUID j := None)"])
       (use that in \<open>auto simp: both_def job_worker_def split: if_splits\<close>)
  moreover have "onward w s ?s" if "RJob r = Some j" "jobs s (jWorkerUUID j) = None" for j
    by (rule onward_ended [OF r, of DONE _ "jobs s"]) (use that in \<open>auto simp: both_def job_worker_def\<close>)
  ultimately have "wlp (finish_job (jWorkerUUID j)) (\<lambda>_. onward w s) ?s" if "RJob r = Some j" for j
    using that by (auto simp: wlp_simps split: option.splits)
  then have "wlp (Finish (jWorkerUUID j) True) (\<lambda>_. onward w s) ?s" if "RJob r = Some j" for j
    unfolding Finish_def wlp_bnd using that by (intro wlp_then_tracks tracks_intros)
  with none r show ?thesis
    by (simp add: closeRequest_def wlp_simps split: option.split)
qed

lemma onward_fields [simp]:
  "onward w s (t\<lparr>held := H\<rparr>) = onward w s t" "onward w (s\<lparr>held := H\<rparr>) t = onward w s t"
  "onward w s (t\<lparr>clock := c\<rparr>) = onward w s t" "onward w (s\<lparr>clock := c\<rparr>) t = onward w s t"
  by (simp_all add: onward_def)

lemma wlp_closeRequest:
  assumes "both t = both s" and "requests (rc s) i = Some r" "RState r = INPROGRESS"
  shows "wlp (closeRequest i) (\<lambda>_. onward w s) t"
  using wlp_closeRequest_now [of t i r w] assms onward_both [of s t]
  by (auto simp: both_def elim!: wlp_mono)

lemma later_from_wait: "RState r = WAIT \<Longrightarrow> st \<noteq> INVALID \<Longrightarrow> later r (r\<lparr>RState := st\<rparr>)"
  by (simp add: later_def moves_def has_ended_def)

lemma onward_leaves:
  assumes "requests (rc s) i = Some r" and "RState r = WAIT" and "st \<in> {CANCEL, TIMEOUT}"
    and "both t = ((requests (rc s))(i \<mapsto> r\<lparr>RState := st\<rparr>), jobs s)"
  shows "onward False s t"
  using assms by (intro onward_upd [OF assms(1,4)]) (auto simp: runs_on_def intro: later_from_wait)

lemma tracks_critical_wlp: "(\<And>s. wlp m (\<lambda>_. onward w s) s) \<Longrightarrow> tracks w (critical l m)"
  by (rule tracks_critical) (simp add: tracks_def)

lemma wlp_leaves:
  assumes "requests (rc s) i = Some r" and "RState r = WAIT" and "st \<in> {CANCEL, TIMEOUT}" and "both t = both s"
  shows "wlp (removeRequest q) (\<lambda>_. onward False s)
    (t\<lparr>rc := (rc t)\<lparr>requests := (requests (rc t))(i \<mapsto> r\<lparr>RState := st\<rparr>)\<rparr>\<rparr>)"
  using assms by (intro wlp_tracks tracks_intros onward_leaves [of _ i]) (auto simp: both_def)

lemma tracks_CloseRequest [tracks_intros]: "tracks False (CloseRequest i)"
  unfolding CloseRequest_def
  by (rule tracks_critical_wlp)
     (auto simp: wlp_simps both_def intro!: wlp_closeRequest wlp_leaves split: option.split ReqState.split)

lemma tracks_Timeout [tracks_intros]: "tracks False (Timeout i)"
  unfolding Timeout_def
  by (rule tracks_critical_wlp)
     (auto simp: wlp_simps both_def intro!: wlp_leaves [where t = "s\<lparr>clock := c\<rparr>" for s c, simplified]
       split: option.split)

lemma tracks_Close [tracks_intros]: "tracks False (Close i)"
  unfolding Close_def
  by (rule tracks_critical_wlp)
     (auto simp: wlp_simps both_def intro!: wlp_closeRequest split: option.split)

text \<open>A prolonged job keeps its worker.\<close>

lemma later_timeout:
  "RState r = INPROGRESS \<Longrightarrow> later r (r\<lparr>RJob := map_option (\<lambda>j. j\<lparr>Timeout_at := x, TimeoutZone := z\<rparr>) (RJob r)\<rparr>)"
  by (auto simp: later_def moves_def has_ended_def job_worker_def option.map_comp comp_def)

lemma wlp_set_timeout:
  assumes "requests (rc s) i = Some r" and "RState r = INPROGRESS"
  shows "wlp (set_timeout i) (\<lambda>_. onward w s) s"
  unfolding set_timeout_def wlp_simps
  by (intro wlp_tracks tracks_intros onward_upd [of _ i r _ "r\<lparr>RJob := map_option (\<lambda>j. j\<lparr>Timeout_at := clock s 0 + hour_ns, TimeoutZone := tz_offset s\<rparr>) (RJob r)\<rparr>"])
     (use assms in \<open>auto simp: both_def runs_on_def intro: later_timeout\<close>)

lemma tracks_ProlongAccess [tracks_intros]: "tracks False (ProlongAccess i)"
  unfolding ProlongAccess_def
  by (rule tracks_critical_wlp) (auto simp: wlp_simps intro!: wlp_set_timeout split: option.split)

lemma tracks_reads [tracks_intros]: "tracks w (GetRequestInfo i)" "tracks w (AcquireWorker i)"
  unfolding GetRequestInfo_def Get_def AcquireWorker_def jobs_Get_def state_op_defs
  by (intro tracks_intros)+

text \<open>A new request takes a number that is free.\<close>

lemma base_ok_add:
  assumes "base_ok m js" and "i = card (dom m) + 1" and "ID r = i"
  shows "base_ok (m(i \<mapsto> r)) js \<and> evolves w m (m(i \<mapsto> r))"
proof -
  obtain n where n: "dom m = {1..n}" using assms(1) by (auto simp: base_ok_def)
  then have i: "i = Suc n" "i \<notin> dom m" using assms(2) by simp_all
  then have "dom (m(i \<mapsto> r)) = {1..Suc n}" using n by auto
  moreover have "j \<noteq> i" if "m j = Some q" for j q using i(2) that by auto
  ultimately show ?thesis
    using assms(1,3) unfolding base_ok_def evolves_def by (auto 0 3)
qed

lemma tracks_NewRequest [tracks_intros]: "tracks w (NewRequest caps p owner va dl)"
proof -
  have "tracks w (store_request r)" for r
    unfolding store_request_def
  proof (rule tracks_critical_wlp)
    fix s
    have "onward w s (u\<lparr>rc := (rc u)\<lparr>requests := (requests (rc u))(Suc (card (dom (requests (rc s)))) \<mapsto> q)\<rparr>\<rparr>)"
      if "both u = both s" "ID q = Suc (card (dom (requests (rc s))))" for u q
      using base_ok_add [of "requests (rc s)" "jobs s" _ q w] that by (simp add: onward_def both_def)
    moreover have "preserves both (pushRequest q)" for q
      unfolding state_op_defs op_defs by (intro preserves_intros) (simp_all add: both_def)
    ultimately show "wlp (bnd get_requests (\<lambda>m. let i = card (dom m) + 1; req = r\<lparr>ID := i\<rparr>
       in thn (pushRequest req) (thn (put_request i req) (ret i)))) (\<lambda>_. onward w s) s"
      by (auto simp: wlp_simps Let_def intro!: wlp_preserves [of both])
  qed
  then show ?thesis
    unfolding NewRequest_def deadline_in_past_def state_op_defs
    by (intro tracks_intros; simp add: both_def state_op_defs [symmetric])
qed

text \<open>
  Only a waiting request is updated.  \<open>rewritten s i r t\<close>: the request \<open>i\<close>, which was \<open>r\<close>
  in \<open>s\<close>, still waits in \<open>t\<close>, possibly with another priority and other dates.
\<close>

definition rewritten :: "server \<Rightarrow> ReqID \<Rightarrow> ReqInfo \<Rightarrow> server \<Rightarrow> bool" where
  "rewritten s i r t \<longleftrightarrow> (\<exists>r'. both t = ((requests (rc s))(i \<mapsto> r'), jobs s)
     \<and> ID r' = ID r \<and> Owner r' = Owner r \<and> RCaps r' = RCaps r \<and> RState r' = WAIT)"

lemma rewritten_onward:
  assumes "requests (rc s) i = Some r" and "RState r = WAIT" and "rewritten s i r t"
  shows "onward False s t"
proof -
  obtain r' where r': "both t = ((requests (rc s))(i \<mapsto> r'), jobs s)" "ID r' = ID r" "Owner r' = Owner r"
      "RCaps r' = RCaps r" "RState r' = WAIT"
    using assms(3) by (auto simp: rewritten_def)
  show ?thesis
    by (rule onward_upd [OF assms(1) r'(1)])
       (use assms(2) r' in \<open>auto simp: later_def moves_def has_ended_def runs_on_def\<close>)
qed

lemma rewritten_start: "requests (rc s) i = Some r \<Longrightarrow> RState r = WAIT \<Longrightarrow> both t = both s \<Longrightarrow> rewritten s i r t"
  by (auto simp: rewritten_def both_def intro!: exI [of _ r])

lemma rewritten_upd:
  assumes "rewritten s i r t" and "\<And>q. ID (f q) = ID q \<and> Owner (f q) = Owner q \<and> RCaps (f q) = RCaps q \<and> RState (f q) = RState q"
  shows "rewritten s i r (t\<lparr>rc := (rc t)\<lparr>requests := (requests (rc t))(i := map_option f (requests (rc t) i))\<rparr>\<rparr>)"
proof -
  obtain r' where "both t = ((requests (rc s))(i \<mapsto> r'), jobs s)" "ID r' = ID r" "Owner r' = Owner r"
      "RCaps r' = RCaps r" "RState r' = WAIT"
    using assms(1) by (auto simp: rewritten_def)
  then show ?thesis
    unfolding rewritten_def by (intro exI [of _ "f r'"]) (use assms(2) in \<open>simp add: both_def\<close>)
qed

lemma wlp_seq: "wlp m (\<lambda>_. I) s \<Longrightarrow> (\<And>t. I t \<Longrightarrow> wlp n (\<lambda>_. I) t) \<Longrightarrow> wlp (thn m n) (\<lambda>_. I) s"
  by (auto simp: wlp_thn elim!: wlp_mono)

lemma wlp_optional: "I s \<Longrightarrow> (\<And>t. I t \<Longrightarrow> wlp m (\<lambda>_. I) t) \<Longrightarrow> wlp (if c then m else ret ()) (\<lambda>_. I) s"
  by (simp add: wlp_basic)

lemma wlp_apply_update:
  assumes "requests (rc s) (ID src) = Some r" and "RState r = WAIT" and "both t = both s"
  shows "wlp (apply_update src r d) (\<lambda>_. rewritten s (ID src) r) t"
proof -
  let ?R = "rewritten s (ID src) r"
  have upd: "wlp (upd_request (ID src) f) (\<lambda>_. ?R) u"
    if "?R u" "\<And>q. ID (f q) = ID q \<and> Owner (f q) = Owner q \<and> RCaps (f q) = RCaps q \<and> RState (f q) = RState q" for f u
    using rewritten_upd [OF that] by (simp add: wlp_simps)
  have same: "preserves both (setRequestPriority r p)" for p
    unfolding state_op_defs op_defs by (intro preserves_intros) (simp_all add: both_def)
  have prio: "wlp (setRequestPriority r p) (\<lambda>_. ?R) u" if "?R u" for p u
    by (rule wlp_preserves [OF same]) (use that in \<open>simp add: rewritten_def\<close>)
  show ?thesis
    unfolding apply_update_def
    by (rule wlp_seq wlp_optional upd prio rewritten_start [OF assms] | assumption | simp add: wlp_basic)+
qed

lemma tracks_UpdateRequest [tracks_intros]: "tracks False (UpdateRequest src)"
proof -
  have "tracks False (updateRequest q)" for q
    unfolding updateRequest_def
  proof (rule tracks_critical_wlp)
    fix s
    have "wlp (apply_update q r d) (\<lambda>_. onward False s) t"
      if "requests (rc s) (ID q) = Some r" "RState r = WAIT" "both t = both s" for r d t
      using wlp_apply_update [OF that] by (rule wlp_mono) (rule rewritten_onward [OF that(1,2)])
    then show "wlp (bnd get_requests (\<lambda>m. case m (ID q) of
       None \<Rightarrow> ret (Inl (NotFoundError ''Request''))
     | Some dst \<Rightarrow>
       if \<not> modificationPossible (RState dst) then ret (Inl ErrModificationForbidden)
       else if Prio q = Prio dst \<and> ValidAfter q = ValidAfter dst \<and> Deadline q = Deadline dst
       then ret (Inr (None, None))
       else if Prio q \<noteq> 0 \<and> (Prio q < HiPrio \<or> LoPrio < Prio q) then ret (Inl ErrPriority)
       else bnd (if \<not> IsZero (Deadline q) then deadline_in_past (Deadline q) else ret False) (\<lambda>past.
       if past then ret (Inl ErrDeadlineInThePast)
       else
       let deadline = (if \<not> IsZero (Deadline q) then Deadline q else Deadline dst) in
       if \<not> IsZero (ValidAfter q) \<and> \<not> IsZero deadline \<and> deadline < ValidAfter q
       then ret (Inl ErrInvalidTimeRange)
       else
       apply_update q dst deadline))) (\<lambda>_. onward False s) s"
      by (auto simp: wlp_simps deadline_in_past_def modificationPossible_def Let_def both_def split: option.split)
  qed
  then show ?thesis
    unfolding UpdateRequest_def insert_if_def by (intro tracks_intros)
qed

section \<open>Matchers\<close>

text \<open>
  The iteration and its lookups.  Until \<open>Run\<close> the request that is being matched waits, so
  the job \<open>Create\<close> stores for it becomes the job of a running request.
\<close>

lemma tracks_iteration [tracks_intros]:
  "tracks w InitIteration" "tracks w TerminateIteration" "tracks w Next" "tracks w end_iteration"
  unfolding InitIteration_def TerminateIteration_def end_iteration_def releaseIterator_def initIterator_def
    Next_def lock_def unlock_def on_queue_def
  by (intro tracks_intros; simp add: both_def)+

lemma base_ok_job:
  assumes "base_ok m js" and "m (jReq j) = Some r" and "runs_on r u"
  shows "base_ok m (js(u \<mapsto> j))"
  using assms unfolding base_ok_def by (metis (mono_tags, lifting) fun_upd_apply option.inject)

lemma onward_run:
  assumes r: "requests (rc s) i = Some r" "RState r = WAIT" and u: "jobs s u = None"
    and t: "both t = ((requests (rc s))(i \<mapsto> r\<lparr>RState := INPROGRESS, RJob := Some \<lparr>jWorkerUUID = u, Timeout_at = x, TimeoutZone = z\<rparr>\<rparr>),
                      (jobs s)(u \<mapsto> j))" and j: "jReq j = i"
  shows "onward False s t"
  unfolding onward_def
proof
  let ?r = "r\<lparr>RState := INPROGRESS, RJob := Some \<lparr>jWorkerUUID = u, Timeout_at = x, TimeoutZone = z\<rparr>\<rparr>"
  assume ok: "base_ok (requests (rc s)) (jobs s)"
  have no: "jReq k \<noteq> i" if "jobs s v = Some k" for v k
    using job_request [OF ok that] r by (auto simp: runs_on_def)
  have "base_ok ((requests (rc s))(i \<mapsto> ?r)) (jobs s)"
    using ok r(1) by (rule base_ok_upd) (use no in auto)
  then have "base_ok ((requests (rc s))(i \<mapsto> ?r)) ((jobs s)(u \<mapsto> j))"
    using j by (intro base_ok_job [where r = ?r]) (auto simp: runs_on_def)
  moreover have "evolves False (requests (rc s)) ((requests (rc s))(i \<mapsto> ?r))"
    using r by (intro evolves_upd) (auto simp: later_def moves_def has_ended_def)
  ultimately show "base_ok (requests (rc t)) (jobs t) \<and> evolves False (requests (rc s)) (requests (rc t))"
    using t by (simp add: both_def)
qed

text \<open>Running the request for which a job has just been created.\<close>

lemma wlp_Run:
  assumes r: "requests (rc s) i = Some r" "RState r = WAIT" and u: "jobs s u = None"
    and t: "both t = (requests (rc s), (jobs s)(u \<mapsto> j))" and j: "jReq j = i"
  shows "wlp (Run i u) (\<lambda>e t. e = None \<and> onward False s t) t"
proof -
  let ?r = "\<lambda>x. r\<lparr>RState := INPROGRESS, RJob := Some \<lparr>jWorkerUUID = u, Timeout_at = x, TimeoutZone = 0\<rparr>\<rparr>"
  let ?t = "t\<lparr>rc := (rc t)\<lparr>requests := (requests (rc t))(i \<mapsto> ?r 0)\<rparr>\<rparr>"
  have now: "onward False s v" if "both v = both ?t" for v
    by (rule onward_run [OF r u _ j]) (use t that in \<open>simp add: both_def\<close>)
  have "preserves both end_iteration" "preserves both (removeRequest r)"
    unfolding end_iteration_def releaseIterator_def state_op_defs op_defs
    by (intro preserves_intros; simp add: both_def)+
  then have same: "preserves both (thn end_iteration (removeRequest r))"
    by (rule preserves_thn)
  have "wlp (thn (set_timeout i) (ret None)) (\<lambda>e t. e = None \<and> onward False s t) v" if v: "both v = both ?t" for v
  proof -
    have "wlp (set_timeout i) (\<lambda>_. onward False v) v"
      by (rule wlp_set_timeout [of _ _ "?r 0"]) (use v in \<open>simp_all add: both_def\<close>)
    then have "wlp (set_timeout i) (\<lambda>_. onward False s) v"
      by (rule wlp_mono) (rule onward_trans [OF now [OF v]])
    then show ?thesis by (simp add: wlp_simps)
  qed
  then have "wlp (thn end_iteration (removeRequest r)) (\<lambda>_. wlp (thn (set_timeout i) (ret None))
      (\<lambda>e t. e = None \<and> onward False s t)) ?t"
    by (intro wlp_preserves [OF same])
  then show ?thesis
    using t r by (simp add: Run_def wlp_simps both_def)
qed

lemma wlp_Create:
  assumes "requests (rc s) i = Some r" and "RState r = WAIT" and "both t = both s"
  shows "wlp (Create i u) (\<lambda>e t. if e = None
    then jobs s u = None \<and> requests (rc t) = requests (rc s) \<and> jobs t = (jobs s)(u := jobs t u)
      \<and> (\<exists>j. jobs t u = Some j \<and> jReq j = i)
    else both t = both s) t"
  using assms(3)
  unfolding Create_def
  by (auto simp: wlp_simps GetWorkerSSHAddr_def GetWorkerKey_def Tunnel_Create_def both_def split: option.split)

lemma wlp_matchWorkers:
  assumes r: "requests (rc s) (ID r) = Some r" "RState r = WAIT" and ok: "base_ok (requests (rc s)) (jobs s)"
  shows "wlp (matchWorkers RM WM JM r) (\<lambda>_. onward False s) s"
proof -
  have assigned: "wlp (bnd (Create (ID r) u) (\<lambda>err. case err of
           Some e \<Rightarrow> thn (PrepareWorker u False) (ret False)
         | None \<Rightarrow> bnd (Run (ID r) u) (\<lambda>err. case err of
               Some e \<Rightarrow> thn (PrepareWorker u False) (ret False)
             | None \<Rightarrow> ret True))) (\<lambda>_. onward False s) t"
    if t: "onward True s t" for u t
  proof -
    have st: "onward False s t" using t by (auto simp: onward_def evolves_def)
    have rt: "requests (rc t) (ID r) = Some r"
      using t ok r by (fastforce simp: onward_def evolves_def)
    have failed: "wlp (thn (PrepareWorker u False) (ret False)) (\<lambda>_. onward False s) v" if "onward False s v" for v
      using that by (intro wlp_tracks tracks_intros)
    show ?thesis
      unfolding wlp_bnd [of "Create (ID r) u"]
    proof (rule wlp_mono [OF wlp_Create [OF rt r(2) refl]])
      fix e v
      assume v: "if e = None
        then jobs t u = None \<and> requests (rc v) = requests (rc t) \<and> jobs v = (jobs t)(u := jobs v u)
          \<and> (\<exists>j. jobs v u = Some j \<and> jReq j = ID r)
        else both v = both t"
      show "wlp (case e of Some e \<Rightarrow> thn (PrepareWorker u False) (ret False)
         | None \<Rightarrow> bnd (Run (ID r) u) (\<lambda>err. case err of
               Some e \<Rightarrow> thn (PrepareWorker u False) (ret False) | None \<Rightarrow> ret True)) (\<lambda>_. onward False s) v"
      proof (cases e)
        case None
        with v obtain j where j: "jobs t u = None" "jReq j = ID r" "both v = (requests (rc t), (jobs t)(u \<mapsto> j))"
          by (auto simp: both_def)
        show ?thesis
          unfolding None option.case wlp_bnd
          by (rule wlp_mono [OF wlp_Run [OF rt r(2) j(1) j(3) j(2)]]) (auto simp: wlp_simps intro: onward_trans [OF st])
      next
        case (Some x)
        with v st onward_both [of s s v t False] show ?thesis by (auto intro: failed)
      qed
    qed
  qed
  have taken: "wlp (TakeBestMatchingWorker gs caps) (\<lambda>_. onward True s) s" for gs caps
    by (intro wlp_tracks tracks_intros) simp
  have "wlp (TakeBestMatchingWorker gs caps) (\<lambda>r'. wlp (case r' of Inl err \<Rightarrow> ret False
     | Inr u \<Rightarrow> bnd (Create (ID r) u) (\<lambda>err. case err of
           Some e \<Rightarrow> thn (PrepareWorker u False) (ret False)
         | None \<Rightarrow> bnd (Run (ID r) u) (\<lambda>err. case err of
               Some e \<Rightarrow> thn (PrepareWorker u False) (ret False)
             | None \<Rightarrow> ret True))) (\<lambda>_. onward False s)) s" for gs caps
  proof (rule wlp_mono [OF taken])
    fix r' t
    assume t: "onward True s t"
    then have "onward False s t" by (auto simp: onward_def evolves_def)
    with assigned [OF t] show "wlp (case r' of Inl err \<Rightarrow> ret False
     | Inr u \<Rightarrow> bnd (Create (ID r) u) (\<lambda>err. case err of
           Some e \<Rightarrow> thn (PrepareWorker u False) (ret False)
         | None \<Rightarrow> bnd (Run (ID r) u) (\<lambda>err. case err of
               Some e \<Rightarrow> thn (PrepareWorker u False) (ret False)
             | None \<Rightarrow> ret True))) (\<lambda>_. onward False s) t"
      by (auto simp: wlp_basic split: sum.split)
  qed
  then show ?thesis
    unfolding matchWorkers_def RM_def WM_def JM_def wlp_bnd [of "TakeBestMatchingWorker gs caps" for gs caps]
      RequestsManager.simps WorkersManager.simps JobsManager.simps
    by (simp only: wlp_bnd [of "TakeBestMatchingWorker gs caps" for gs caps])
qed

lemma tracks_cong: "(\<And>s. base_ok (requests (rc s)) (jobs s) \<Longrightarrow> wlp m (\<lambda>_. onward w s) s) \<Longrightarrow> tracks w m"
  by (auto simp: tracks_def wlp_def onward_def)

lemma wlp_lookups:
  "wlp (bnd (VerifyIfReady i now) f) Q s
   = wlp (f (case requests (rc s) i of None \<Rightarrow> False | Some r \<Rightarrow> is_ready r now)) Q s"
  "wlp (bnd (Get i) g) Q s
   = wlp (g (case requests (rc s) i of None \<Rightarrow> Inl (NotFoundError ''Request'') | Some r \<Rightarrow> Inr r)) Q s"
  by (simp_all add: VerifyIfReady_def Get_def wlp_simps split: option.split)

lemma tracks_match:
  "tracks False (bnd (VerifyIfReady i now) (\<lambda>ready. if \<not> ready then m
     else bnd (Get i) (\<lambda>r. case r of Inl err \<Rightarrow> m
       | Inr req \<Rightarrow> bnd (matchWorkers RM WM JM req) (\<lambda>matched. if matched then ret True else m))))"
  if m: "tracks False m"
proof (rule tracks_cong)
  fix s :: server
  assume ok: "base_ok (requests (rc s)) (jobs s)"
  have "wlp (bnd (matchWorkers RM WM JM r) (\<lambda>matched. if matched then ret True else m)) (\<lambda>_. onward False s) s"
    if r: "requests (rc s) i = Some r" "is_ready r now" for r
    unfolding wlp_bnd
  proof (rule wlp_then_tracks)
    show "wlp (matchWorkers RM WM JM r) (\<lambda>_. onward False s) s"
      by (rule wlp_matchWorkers) (use ok r in \<open>auto simp: base_ok_def is_ready_def\<close>)
  qed (intro tracks_intros m)
  moreover have "wlp m (\<lambda>_. onward False s) s" using m by (simp add: tracks_def)
  ultimately show "wlp (bnd (VerifyIfReady i now) (\<lambda>ready. if \<not> ready then m
     else bnd (Get i) (\<lambda>r. case r of Inl err \<Rightarrow> m
       | Inr req \<Rightarrow> bnd (matchWorkers RM WM JM req) (\<lambda>matched. if matched then ret True else m)))) (\<lambda>_. onward False s) s"
    by (auto simp: wlp_lookups split: option.split)
qed

lemma tracks_visit [tracks_intros]: "tracks False (visit RM WM JM now n)"
proof (induction n)
  case (Suc n)
  then show ?case
    unfolding visit.simps RM_methods by (intro tracks_intros tracks_match)
qed (simp add: tracks_intros)

lemma tracks_valid_notify [tracks_intros]: "tracks False (valid_notify RM WM JM time_Now n turns)"
proof (induction turns)
  case (Suc turns)
  then show ?case
    unfolding valid_notify.simps iterateRequests_def RM_methods state_op_defs
    by (intro tracks_intros) (simp_all add: both_def)
qed (simp add: tracks_intros)

lemma tracks_fire [tracks_intros]: "tracks False (fire k t)"
proof -
  have "tracks False (Notify mk past)" for mk past
    unfolding Notify_def deadline_notify_def timeout_notify_def RM_methods
    by (cases mk) (auto intro!: tracks_intros)
  then show ?thesis
    unfolding fire_def process_def on_rt_def by (intro tracks_intros) (simp_all add: both_def)
qed

section \<open>Events and runs\<close>

lemma tracks_run_event: "tracks False (run_event resolve e)"
  by (cases e) (simp_all add: ignore_def tracks_intros)

lemma reachable_base: "reachable resolve s \<Longrightarrow> base_ok (requests (rc s)) (jobs s)"
  using reachable_ok [of resolve s] invD [of "{}" nobody nobody "{}" s]
  by (auto simp: ok_def data_ok_def job_ok_def base_ok_def)

lemma steps_onward:
  "(step resolve)\<^sup>*\<^sup>* s t \<Longrightarrow> reachable resolve s \<Longrightarrow> reachable resolve t \<and> evolves False (requests (rc s)) (requests (rc t))"
proof (induction rule: rtranclp_induct)
  case (step t u)
  then obtain e where "run_event resolve e t = Returns ((), u)" by (auto elim: stepE)
  with tracks_run_event [of resolve e] have "onward False t u"
    by (auto simp: tracks_def wlp_def)
  with step reachable_base show ?case
    by (auto simp: onward_def intro: evolves_trans reachable.more)
qed simp

text \<open>
  C3. The life of a request.  However a run goes on, a stored request is never lost: it keeps
  its number, its owner and its requirements; its state only moves from waiting to running,
  cancelled or timed out, and from running to done or failed; once it has left the queue its
  priority, its dates and its worker are fixed; and once it has ended it never changes.
\<close>

theorem request_life_cycle:
  assumes "reachable resolve s" and "(step resolve)\<^sup>*\<^sup>* s t" and "requests (rc s) i = Some r"
  shows "\<exists>r'. requests (rc t) i = Some r' \<and> ID r' = i \<and> Owner r' = Owner r \<and> RCaps r' = RCaps r
    \<and> (RState r' = RState r
       \<or> RState r = WAIT \<and> RState r' \<in> {INPROGRESS, CANCEL, TIMEOUT, DONE, FAILED}
       \<or> RState r = INPROGRESS \<and> RState r' \<in> {DONE, FAILED})
    \<and> (RState r \<noteq> WAIT \<longrightarrow> Prio r' = Prio r \<and> ValidAfter r' = ValidAfter r \<and> Deadline r' = Deadline r
         \<and> map_option jWorkerUUID (RJob r') = map_option jWorkerUUID (RJob r))
    \<and> (RState r \<notin> {WAIT, INPROGRESS} \<longrightarrow> r' = r)"
proof -
  obtain r' where r': "requests (rc t) i = Some r'" "later r r'"
    using steps_onward [OF assms(2,1)] assms(3) by (force simp: evolves_def)
  have "ID r = i" using reachable_base [OF assms(1)] assms(3) by (simp add: base_ok_def)
  moreover have "RState r' \<in> {INPROGRESS, CANCEL, TIMEOUT, DONE, FAILED}" if "RState r' \<noteq> INVALID" "RState r' \<noteq> WAIT"
    using that by (cases "RState r'") auto
  ultimately show ?thesis
    using r' unfolding later_def moves_def has_ended_def job_worker_def by (intro exI [of _ r']) auto
qed

lemma request_life_cycle_witness:
  "\<exists>r'. requests (rc running_server) 1 = Some r' \<and> ID r' = 1 \<and> RState r' \<in> {WAIT, INPROGRESS, CANCEL, TIMEOUT, DONE, FAILED}"
proof -
  have "step demo_resolve waiting_server running_server"
    using run_running by (intro step.event [of "EFire ValidAfterTimes 102"]) (auto split: if_splits outcome.splits)
  then show ?thesis
    using request_life_cycle [OF waiting_reachable r_into_rtranclp, of running_server 1 "demo_request WAIT None"]
    by (auto simp: waiting_server_def demo_request_def)
qed

end
