(* ===== verification/Posix.thy ===== *)
theory Posix
  imports Strconv Prelude
begin

text \<open>
  What the agent on a device uses of its operating system and of Go's standard library:
  paths, decimal numbers with a sign, the user database, and files with their owners.
  Every call of the system takes the next entry of \<open>failures\<close>: a text, and then the call
  fails with it and does nothing, or none, and then it does its work.  The programs
  \<open>useradd\<close> and \<open>userdel\<close> are not part of the repository; running a command is an
  argument of the definitions.
\<close>

section \<open>Texts\<close>

text \<open>\<open>strings.Join\<close> and its counterpart.\<close>

fun Join :: "string list \<Rightarrow> string \<Rightarrow> string" where
  "Join [] sep = ''''"
| "Join [s] sep = s"
| "Join (s # t # ss) sep = s @ sep @ Join (t # ss) sep"

fun split_at :: "char \<Rightarrow> string \<Rightarrow> string list" where
  "split_at c [] = [[]]"
| "split_at c (x # xs) = (if x = c then [] # split_at c xs
     else (case split_at c xs of [] \<Rightarrow> [[x]] | s # ss \<Rightarrow> (x # s) # ss))"

text \<open>\<open>strconv.Atoi\<close> on a machine with 64 bits.\<close>

definition Atoi :: "string \<Rightarrow> string + int" where
  "Atoi s = (let (neg, digits) = (case s of [] \<Rightarrow> (False, s)
        | c # cs \<Rightarrow> if c = CHR ''-'' then (True, cs) else if c = CHR ''+'' then (False, cs) else (False, s));
       failure = (\<lambda>what. Inl (''strconv.Atoi: parsing '' @ [char_of (34 :: nat)] @ s @ [char_of (34 :: nat)] @ '': '' @ what))
     in if digits = '''' then failure ''invalid syntax''
        else case parse_digits digits 0 of
          None \<Rightarrow> failure ''invalid syntax''
        | Some n \<Rightarrow> if (if neg then n \<le> 2 ^ 63 else n < 2 ^ 63) then Inr (if neg then - int n else int n)
                    else failure ''value out of range'')"

section \<open>Paths\<close>

text \<open>
  \<open>path.Clean\<close>: empty elements and dots go, and two dots remove the element before
  them.
\<close>

fun clean_elems :: "bool \<Rightarrow> string list \<Rightarrow> string list \<Rightarrow> string list" where
  "clean_elems rooted [] out = rev out"
| "clean_elems rooted (e # es) out =
     (if e = '''' \<or> e = ''.'' then clean_elems rooted es out
      else if e = ''..'' then
        (case out of
           [] \<Rightarrow> clean_elems rooted es (if rooted then [] else [''..''])
         | e' # rest \<Rightarrow> if e' = ''..'' then clean_elems rooted es (''..'' # out) else clean_elems rooted es rest)
      else clean_elems rooted es (e # out))"

definition path_Clean :: "string \<Rightarrow> string" where
  "path_Clean p = (if p = '''' then ''.'' else
     let rooted = (hd p = CHR ''/''); es = clean_elems rooted (split_at (CHR ''/'') p) []
     in if rooted then ''/'' @ Join es ''/'' else if es = [] then ''.'' else Join es ''/'')"

definition path_Join :: "string list \<Rightarrow> string" where
  "path_Join ps = (let qs = filter (\<lambda>p. p \<noteq> '''') ps in if qs = [] then '''' else path_Clean (Join qs ''/''))"

text \<open>The directories on the way to a path, and the path itself.\<close>

definition ancestors :: "string \<Rightarrow> string list" where
  "ancestors p = map (\<lambda>i. take i p) (filter (\<lambda>i. p ! i = CHR ''/'') [1..<length p]) @ [p]"

section \<open>The system\<close>

record account =
  Uid :: string
  Gid :: string
  HomeDir :: string

record fs_dir =
  dir_owner :: "int \<times> int"
  dir_mode :: nat

record fs_file =
  content :: string
  file_owner :: "int \<times> int"
  file_mode :: nat

record unix =
  accounts :: "string \<rightharpoonup> account"
  dirs :: "string \<rightharpoonup> fs_dir"
  files :: "string \<rightharpoonup> fs_file"

text \<open>
  What running a command ends with: success, an exit status, or another failure such as a
  command that is not found; with the text of the error and the output.
\<close>

datatype cmd_result =
    CmdDone string
  | CmdExit int string string
  | CmdFailed string string

type_synonym commands = "string list \<Rightarrow> unix \<Rightarrow> cmd_result \<times> unix"

record host =
  unix :: unix
  failures :: "nat \<Rightarrow> string option"

type_synonym ('m, 'a) host_op = "('m host_scheme, 'a) prog"

section \<open>Calls of the system\<close>

definition os_answer :: "('m, string option) host_op" where
  "os_answer = bnd (gets (\<lambda>h. failures h 0)) (\<lambda>f.
     thn (modify (\<lambda>h. h\<lparr>failures := (\<lambda>i. failures h (Suc i))\<rparr>)) (ret f))"

definition syscall :: "(unix \<Rightarrow> string + unix) \<Rightarrow> ('m, string option) host_op" where
  "syscall f = bnd os_answer (\<lambda>a. case a of
       Some e \<Rightarrow> ret (Some e)
     | None \<Rightarrow> bnd (gets unix) (\<lambda>u. case f u of
           Inl e \<Rightarrow> ret (Some e)
         | Inr u' \<Rightarrow> thn (modify (\<lambda>h. h\<lparr>unix := u'\<rparr>)) (ret None)))"

datatype user_error =
    UnknownUserError string
  | LookupError string

fun user_error_text :: "user_error \<Rightarrow> string" where
  "user_error_text (UnknownUserError name) = ''user: unknown user '' @ name"
| "user_error_text (LookupError e) = e"

definition user_Lookup :: "string \<Rightarrow> ('m, user_error + account) host_op" where
  "user_Lookup name = bnd os_answer (\<lambda>a. case a of
       Some e \<Rightarrow> ret (Inl (LookupError e))
     | None \<Rightarrow> bnd (gets (\<lambda>h. accounts (unix h) name)) (\<lambda>r. case r of
           None \<Rightarrow> ret (Inl (UnknownUserError name))
         | Some acc \<Rightarrow> ret (Inr acc)))"

definition exec_Command :: "commands \<Rightarrow> string list \<Rightarrow> ('m, cmd_result) host_op" where
  "exec_Command cmds args = bnd (gets unix) (\<lambda>u. case cmds args u of
     (r, u') \<Rightarrow> thn (modify (\<lambda>h. h\<lparr>unix := u'\<rparr>)) (ret r))"

text \<open>\<open>os.MkdirAll\<close>: what is missing on the way is created, what exists keeps owner and mode.\<close>

definition make_dirs :: "string \<Rightarrow> nat \<Rightarrow> unix \<Rightarrow> unix" where
  "make_dirs p m u = u\<lparr>dirs := (\<lambda>d. if dirs u d = None \<and> d \<in> set (ancestors p)
     then Some \<lparr>dir_owner = (0, 0), dir_mode = m\<rparr> else dirs u d)\<rparr>"

definition os_MkdirAll :: "string \<Rightarrow> nat \<Rightarrow> ('m, string option) host_op" where
  "os_MkdirAll p m = syscall (\<lambda>u.
     if \<exists>a \<in> set (ancestors p). files u a \<noteq> None then Inl (''mkdir '' @ p @ '': not a directory'')
     else Inr (make_dirs p m u))"

text \<open>\<open>os.OpenFile\<close> with \<open>O_WRONLY|O_CREATE|O_TRUNC\<close>: an existing file only loses its content.\<close>

definition truncated :: "string \<Rightarrow> nat \<Rightarrow> unix \<Rightarrow> unix" where
  "truncated p m u = u\<lparr>files := (files u)(p \<mapsto> (case files u p of
       None \<Rightarrow> \<lparr>content = '''', file_owner = (0, 0), file_mode = m\<rparr>
     | Some f \<Rightarrow> f\<lparr>content := ''''\<rparr>))\<rparr>"

definition os_OpenFile :: "string \<Rightarrow> nat \<Rightarrow> ('m, string option) host_op" where
  "os_OpenFile p m = syscall (\<lambda>u.
     if dirs u p \<noteq> None then Inl (''open '' @ p @ '': is a directory'')
     else if \<exists>a \<in> set (butlast (ancestors p)). dirs u a = None
     then Inl (''open '' @ p @ '': no such file or directory'')
     else Inr (truncated p m u))"

definition os_Chown :: "string \<Rightarrow> int \<Rightarrow> int \<Rightarrow> ('m, string option) host_op" where
  "os_Chown p uid gid = syscall (\<lambda>u. case dirs u p of
       Some d \<Rightarrow> Inr (u\<lparr>dirs := (dirs u)(p \<mapsto> d\<lparr>dir_owner := (uid, gid)\<rparr>)\<rparr>)
     | None \<Rightarrow> (case files u p of
         Some f \<Rightarrow> Inr (u\<lparr>files := (files u)(p \<mapsto> f\<lparr>file_owner := (uid, gid)\<rparr>)\<rparr>)
       | None \<Rightarrow> Inl (''chown '' @ p @ '': no such file or directory'')))"

text \<open>The calls on the open file, which is still at its start.\<close>

definition file_Chown :: "string \<Rightarrow> int \<Rightarrow> int \<Rightarrow> ('m, string option) host_op" where
  "file_Chown p uid gid = syscall (\<lambda>u.
     Inr (u\<lparr>files := (files u)(p := map_option (\<lambda>f. f\<lparr>file_owner := (uid, gid)\<rparr>) (files u p))\<rparr>))"

definition file_Write :: "string \<Rightarrow> string \<Rightarrow> ('m, string option) host_op" where
  "file_Write p text = syscall (\<lambda>u.
     Inr (u\<lparr>files := (files u)(p := map_option (\<lambda>f. f\<lparr>content := text\<rparr>) (files u p))\<rparr>))"

section \<open>Weakest preconditions\<close>

lemma wp_os_answer [wp_simps]:
  "wpg b os_answer Q = (\<lambda>h. Q (failures h 0) (h\<lparr>failures := (\<lambda>i. failures h (Suc i))\<rparr>))"
  by (simp add: os_answer_def wp_simps)

text \<open>
  \<open>ticked h\<close> stands for the system after one call; only the answers that are left differ.
\<close>

definition ticked :: "'m host_scheme \<Rightarrow> 'm host_scheme" where
  "ticked h = h\<lparr>failures := (\<lambda>i. failures h (Suc i))\<rparr>"

lemma wp_syscall [wp_simps]:
  "wpg b (syscall f) Q = (\<lambda>h. case failures h 0 of
       Some e \<Rightarrow> Q (Some e) (ticked h)
     | None \<Rightarrow> (case f (unix h) of Inl e \<Rightarrow> Q (Some e) (ticked h) | Inr u \<Rightarrow> Q None (ticked h\<lparr>unix := u\<rparr>)))"
  by (auto simp: fun_eq_iff syscall_def wp_simps ticked_def split: option.split sum.split)

lemma wp_user_Lookup [wp_simps]:
  "wpg b (user_Lookup name) Q = (\<lambda>h. case failures h 0 of
       Some e \<Rightarrow> Q (Inl (LookupError e)) (ticked h)
     | None \<Rightarrow> (case accounts (unix h) name of
         None \<Rightarrow> Q (Inl (UnknownUserError name)) (ticked h) | Some a \<Rightarrow> Q (Inr a) (ticked h)))"
  by (auto simp: fun_eq_iff user_Lookup_def wp_simps ticked_def split: option.split)

lemma wp_exec_Command [wp_simps]:
  "wpg b (exec_Command cmds args) Q = (\<lambda>h. Q (fst (cmds args (unix h))) (h\<lparr>unix := snd (cmds args (unix h))\<rparr>))"
  by (simp add: fun_eq_iff exec_Command_def wp_simps split: prod.split)

lemma ticked_fields [simp]: "unix (ticked h) = unix h" "host.more (ticked h) = host.more h"
  by (simp_all add: ticked_def)

end
