(* ===== verification/Dryad.thy ===== *)
theory Dryad
  imports Posix
begin

text \<open>
  The agent that runs on a device, package \<open>dryad\<close>: the user account a job is served
  with (\<open>user.go\<close>), the key it is reached with (\<open>key.go\<close>), the display and the lights of
  the board (\<open>muxpi.go\<close>), and \<open>Rusalka\<close>, which implements the interface \<open>Dryad\<close> with
  them (\<open>rusalka.go\<close>).  The board's library answers each call with the next entry of
  \<open>stm_answers\<close>; what it was told is recorded.  The goroutine that blinks while the device
  is in maintenance is a machine of its own, and the state has one entry for each that was
  started.
\<close>

section \<open>State\<close>

record colorLED =
  red_part :: nat
  green_part :: nat
  blue_part :: nat

definition rgb :: "nat \<Rightarrow> nat \<Rightarrow> nat \<Rightarrow> colorLED" where
  "rgb r g b = \<lparr>red_part = r, green_part = g, blue_part = b\<rparr>"

definition led_off :: colorLED where "led_off = rgb 0 0 0"

definition led_yellow :: colorLED where "led_yellow = rgb 96 144 0"

datatype LED = LED1 | LED2

datatype stm_call =
    ClearDisplay
  | PrintText nat nat string
  | SetLED LED colorLED
  | PowerTick int

text \<open>Where the goroutine of \<open>blinkMaintenanceLED\<close> is: before the call that is named.\<close>

datatype blink_pc = Led1On | Led1Off | Led2On | Led2Off | AskDone | Deferred | Returned

record blinker =
  blink_at :: blink_pc
  cancelled :: bool

record rusalka = host +
  username :: string
  groups :: "string list"
  user :: "account option"
  stm_answers :: "nat \<Rightarrow> string option"
  stm_log :: "stm_call list"
  cancelMaintenance :: "nat option"
  blinkers :: "nat \<rightharpoonup> blinker"
  next_blinker :: nat

type_synonym 'a dop = "(rusalka, 'a) prog"

type_synonym PublicKey = nat

section \<open>The board\<close>

definition stm :: "stm_call \<Rightarrow> string option dop" where
  "stm c = bnd (gets (\<lambda>d. stm_answers d 0)) (\<lambda>a.
     thn (modify (\<lambda>d. d\<lparr>stm_answers := (\<lambda>i. stm_answers d (Suc i)), stm_log := stm_log d @ [c]\<rparr>)) (ret a))"

definition setLED :: "LED \<Rightarrow> colorLED \<Rightarrow> string option dop" where
  "setLED led col = stm (SetLED led col)"

definition printMessage :: "string \<Rightarrow> string option dop" where
  "printMessage msg = bnd (stm ClearDisplay) (\<lambda>err.
     if err \<noteq> None then ret err else stm (PrintText 0 0 msg))"

definition second_ns :: int where
  "second_ns = 1000000000"

definition powerTick :: "string option dop" where
  "powerTick = stm (PowerTick second_ns)"

text \<open>One step of the goroutine \<open>i\<close>; the errors of the lights are ignored.\<close>

definition blink_goto :: "nat \<Rightarrow> blink_pc \<Rightarrow> unit dop" where
  "blink_goto i pc = modify (\<lambda>d. d\<lparr>blinkers := (blinkers d)(i := map_option (\<lambda>b. b\<lparr>blink_at := pc\<rparr>) (blinkers d i))\<rparr>)"

definition blink_step :: "nat \<Rightarrow> unit dop" where
  "blink_step i = bnd (gets (\<lambda>d. blinkers d i)) (\<lambda>g. case g of
       None \<Rightarrow> ret ()
     | Some b \<Rightarrow> (case blink_at b of
         Led1On \<Rightarrow> thn (setLED LED1 led_yellow) (blink_goto i Led1Off)
       | Led1Off \<Rightarrow> thn (setLED LED1 led_off) (blink_goto i Led2On)
       | Led2On \<Rightarrow> thn (setLED LED2 led_yellow) (blink_goto i Led2Off)
       | Led2Off \<Rightarrow> thn (setLED LED2 led_off) (blink_goto i AskDone)
       | AskDone \<Rightarrow> blink_goto i (if cancelled b then Deferred else Led1On)
       | Deferred \<Rightarrow> thn (stm ClearDisplay) (blink_goto i Returned)
       | Returned \<Rightarrow> ret ()))"

section \<open>The account\<close>

definition userAddExit :: "int \<rightharpoonup> string" where
  "userAddExit = [0 \<mapsto> ''success'', 1 \<mapsto> ''can't update password file'', 2 \<mapsto> ''invalid command syntax'',
     3 \<mapsto> ''invalid argument to option'', 4 \<mapsto> ''UID already in use (and no -o)'',
     6 \<mapsto> ''specified group doesn't exist'', 9 \<mapsto> ''username already in use'',
     10 \<mapsto> ''can't update group file'', 12 \<mapsto> ''can't create home directory'',
     14 \<mapsto> ''can't update SELinux user mapping'']"

definition userDelExit :: "int \<rightharpoonup> string" where
  "userDelExit = [0 \<mapsto> ''success'', 1 \<mapsto> ''can't update password file'', 2 \<mapsto> ''invalid command syntax'',
     6 \<mapsto> ''specified user doesn't exist'', 8 \<mapsto> ''user currently logged in'',
     10 \<mapsto> ''can't update group file'', 12 \<mapsto> ''can't remove home directory'']"

definition prepareGroups :: "string list \<Rightarrow> string" where
  "prepareGroups gs = Join gs '',''"

definition handleUserCmdError :: "(int \<rightharpoonup> string) \<Rightarrow> cmd_result \<Rightarrow> string option" where
  "handleUserCmdError codeToMsg r = (case r of
       CmdDone output \<Rightarrow> None
     | CmdExit code err output \<Rightarrow> Some (case codeToMsg code of
           Some errmsg \<Rightarrow> ''command failed: '' @ errmsg
         | None \<Rightarrow> ''command failed: '' @ err @ '', '' @ output)
     | CmdFailed err output \<Rightarrow> Some (''command failed: '' @ err @ '', '' @ output))"

definition prepareUserAddCmd :: "string \<Rightarrow> string list \<Rightarrow> string list" where
  "prepareUserAddCmd name gs = [''useradd'', ''-p'', ''*'', ''-m'', ''-G'', prepareGroups gs, name]"

definition prepareUserDelCmd :: "string \<Rightarrow> string list" where
  "prepareUserDelCmd name = [''userdel'', ''-r'', ''-f'', name]"

definition bu_update :: "user_error option dop" where
  "bu_update = bnd (gets username) (\<lambda>name. bnd (user_Lookup name) (\<lambda>r. case r of
       Inl err \<Rightarrow> thn (modify (\<lambda>d. d\<lparr>user := None\<rparr>)) (ret (Some err))
     | Inr acc \<Rightarrow> thn (modify (\<lambda>d. d\<lparr>user := Some acc\<rparr>)) (ret None)))"

definition bu_add :: "commands \<Rightarrow> string option dop" where
  "bu_add cmds = bnd bu_update (\<lambda>err.
     if err = None then ret None
     else bnd (gets (\<lambda>d. prepareUserAddCmd (username d) (groups d))) (\<lambda>args.
          bnd (exec_Command cmds args) (\<lambda>r. ret (handleUserCmdError userAddExit r))))"

definition bu_delete :: "commands \<Rightarrow> string option dop" where
  "bu_delete cmds = bnd bu_update (\<lambda>err. case err of
       Some (UnknownUserError name) \<Rightarrow> ret None
     | Some e \<Rightarrow> ret (Some (user_error_text e))
     | None \<Rightarrow> bnd (gets (\<lambda>d. prepareUserDelCmd (username d))) (\<lambda>args.
          bnd (exec_Command cmds args) (\<lambda>r. case handleUserCmdError userDelExit r of
             Some e \<Rightarrow> ret (Some e)
           | None \<Rightarrow> thn (modify (\<lambda>d. d\<lparr>user := None\<rparr>)) (ret None))))"

section \<open>The key\<close>

text \<open>Running the next call only when the one before has not failed.\<close>

definition and_then :: "('s, string option) prog \<Rightarrow> ('s, string option) prog \<Rightarrow> ('s, string option) prog" where
  "and_then m n = bnd m (\<lambda>err. if err \<noteq> None then ret err else n)"

definition updateOwnership :: "string \<Rightarrow> string \<Rightarrow> string \<Rightarrow> string \<Rightarrow> string option dop" where
  "updateOwnership key sshDir uidStr gidStr = (case Atoi uidStr of
       Inl err \<Rightarrow> ret (Some err)
     | Inr uid \<Rightarrow> (case Atoi gidStr of
         Inl err \<Rightarrow> ret (Some err)
       | Inr gid \<Rightarrow> and_then (os_Chown sshDir uid gid) (file_Chown key uid gid)))"

definition installPublicKey :: "(PublicKey \<Rightarrow> string) \<Rightarrow> PublicKey option \<Rightarrow> string \<Rightarrow> string \<Rightarrow> string
    \<Rightarrow> string option dop" where
  "installPublicKey marshal key homedir uid gid = (case key of
       None \<Rightarrow> ret (Some ''empty public key'')
     | Some k \<Rightarrow>
        let sshDir = path_Join [homedir, ''.ssh'']; f = path_Join [sshDir, ''authorized_keys'']
        in and_then (os_MkdirAll sshDir 493)
          (and_then (os_OpenFile f 384)
          (and_then (updateOwnership f sshDir uid gid)
                    (file_Write f (marshal k)))))"

text \<open>The account has to be there: a \<open>nil\<close> user is dereferenced.\<close>

definition installKey :: "(PublicKey \<Rightarrow> string) \<Rightarrow> PublicKey option \<Rightarrow> string option dop" where
  "installKey marshal key = bnd (gets user) (\<lambda>u. case u of
       None \<Rightarrow> panic ''nil pointer dereference''
     | Some acc \<Rightarrow> installPublicKey marshal key (HomeDir acc) (Uid acc) (Gid acc))"

section \<open>Rusalka\<close>

definition cancel :: "nat \<Rightarrow> unit dop" where
  "cancel i = modify (\<lambda>d. d\<lparr>blinkers := (blinkers d)(i := map_option (\<lambda>b. b\<lparr>cancelled := True\<rparr>) (blinkers d i))\<rparr>)"

definition PutInMaintenance :: "string \<Rightarrow> string option dop" where
  "PutInMaintenance msg = bnd (printMessage msg) (\<lambda>err.
     if err \<noteq> None then ret err
     else bnd (gets next_blinker) (\<lambda>i.
       thn (modify (\<lambda>d. d\<lparr>cancelMaintenance := Some i, next_blinker := Suc i,
              blinkers := (blinkers d)(i \<mapsto> \<lparr>blink_at = Led1On, cancelled = False\<rparr>)\<rparr>))
           (ret None)))"

definition prefixed :: "string \<Rightarrow> ('s, string option) prog \<Rightarrow> ('s, string option) prog" where
  "prefixed what m = bnd m (\<lambda>err. ret (map_option (\<lambda>e. what @ e) err))"

definition Prepare :: "commands \<Rightarrow> (PublicKey \<Rightarrow> string) \<Rightarrow> PublicKey option \<Rightarrow> string option dop" where
  "Prepare cmds marshal key =
     thn (bnd (gets cancelMaintenance) (\<lambda>c. case c of
            None \<Rightarrow> ret ()
          | Some i \<Rightarrow> thn (cancel i) (modify (\<lambda>d. d\<lparr>cancelMaintenance := None\<rparr>))))
    (and_then (prefixed ''user removal failed: '' (bu_delete cmds))
    (and_then (prefixed ''user creation failed: '' (bu_add cmds))
    (and_then (prefixed ''user information update failed: '' (bnd bu_update (\<lambda>e. ret (map_option user_error_text e))))
              (installKey marshal key))))"

definition Healthcheck :: "string option dop" where
  "Healthcheck = powerTick"

definition NewRusalka :: "unix \<Rightarrow> (nat \<Rightarrow> string option) \<Rightarrow> (nat \<Rightarrow> string option) \<Rightarrow> string \<Rightarrow> string list \<Rightarrow> rusalka" where
  "NewRusalka u fails answers name gs = \<lparr>unix = u, failures = fails, username = name, groups = gs, user = None,
     stm_answers = answers, stm_log = [], cancelMaintenance = None, blinkers = (\<lambda>_. None), next_blinker = 0\<rparr>"

end
