(* ===== verification/Rpc.thy ===== *)
theory Rpc
  imports Dryad HttpErrors Matchers
begin

text \<open>
  How the server and the agents on the devices call each other: the services and clients of
  \<open>rpc/superviser/superviser.go\<close> and \<open>rpc/dryad/dryad.go\<close>, and the reception of
  \<open>rpc/superviser/reception.go\<close>, which fills in the address a device calls from.  The Go
  interfaces \<open>Superviser\<close> and \<open>Dryad\<close> are records of methods.  A connection
  (\<open>net/rpc\<close>) carries the name of a method and its request to the server, which looks the
  method up; the answer is an error as a text, or none.
\<close>

section \<open>Connections\<close>

text \<open>A registered service answers the requests of its methods; \<open>net/rpc\<close> reports others.\<close>

type_synonym ('s, 'r) connection = "string \<Rightarrow> 'r \<Rightarrow> ('s, string option) prog"

definition no_method :: "string \<Rightarrow> ('s, string option) prog" where
  "no_method name = ret (Some (''rpc: can't find method '' @ name))"

text \<open>
  What becomes of one call.  A connection that is lost is an error of the call, whether its
  request has reached the service or not; a service that was reached does its work all the
  same.
\<close>

datatype delivery =
    Delivered
  | RequestLost string
  | ReplyLost string

definition over_wire :: "delivery \<Rightarrow> ('s, 'r) connection \<Rightarrow> ('s, 'r) connection" where
  "over_wire d client name request = (case d of
       Delivered \<Rightarrow> client name request
     | RequestLost e \<Rightarrow> ret (Some e)
     | ReplyLost e \<Rightarrow> thn (client name request) (ret (Some e)))"

text \<open>An error travels as its text.\<close>

definition wire_error :: "('s, error option) prog \<Rightarrow> ('s, string option) prog" where
  "wire_error m = bnd m (\<lambda>err. ret (map_option error_text err))"

section \<open>Superviser\<close>

record 's Superviser =
  svRegister :: "Capabilities \<Rightarrow> string \<Rightarrow> string \<Rightarrow> ('s, error option) prog"
  svSetFail :: "WorkerUUID \<Rightarrow> string \<Rightarrow> ('s, error option) prog"

record SuperviserRegisterRequest =
  reqCaps :: Capabilities
  reqDryadAddress :: string
  reqSshAddress :: string

record SuperviserSetFailRequest =
  reqUuid :: WorkerUUID
  reqReason :: string

datatype superviser_request =
    RegisterRequest SuperviserRegisterRequest
  | SetFailRequest SuperviserSetFailRequest

definition SuperviserService_Register :: "'s Superviser \<Rightarrow> SuperviserRegisterRequest \<Rightarrow> ('s, error option) prog" where
  "SuperviserService_Register impl request =
     svRegister impl (reqCaps request) (reqDryadAddress request) (reqSshAddress request)"

definition SuperviserService_SetFail :: "'s Superviser \<Rightarrow> SuperviserSetFailRequest \<Rightarrow> ('s, error option) prog" where
  "SuperviserService_SetFail impl request = svSetFail impl (reqUuid request) (reqReason request)"

definition RegisterSuperviserService :: "'s Superviser \<Rightarrow> ('s, superviser_request) connection" where
  "RegisterSuperviserService impl name request = (case request of
       RegisterRequest r \<Rightarrow> if name = ''Superviser.Register'' then wire_error (SuperviserService_Register impl r)
                            else no_method name
     | SetFailRequest r \<Rightarrow> if name = ''Superviser.SetFail'' then wire_error (SuperviserService_SetFail impl r)
                            else no_method name)"

definition SuperviserClient_Register :: "('s, superviser_request) connection \<Rightarrow> Capabilities \<Rightarrow> string \<Rightarrow> string
    \<Rightarrow> ('s, string option) prog" where
  "SuperviserClient_Register client caps dryadAddress sshAddress = client ''Superviser.Register''
     (RegisterRequest \<lparr>reqCaps = caps, reqDryadAddress = dryadAddress, reqSshAddress = sshAddress\<rparr>)"

definition SuperviserClient_SetFail :: "('s, superviser_request) connection \<Rightarrow> WorkerUUID \<Rightarrow> string
    \<Rightarrow> ('s, string option) prog" where
  "SuperviserClient_SetFail client uuid reason = client ''Superviser.SetFail''
     (SetFailRequest \<lparr>reqUuid = uuid, reqReason = reason\<rparr>)"

section \<open>Dryad\<close>

record 's DryadIface =
  drPutInMaintenance :: "string \<Rightarrow> ('s, string option) prog"
  drPrepare :: "PublicKey option \<Rightarrow> ('s, string option) prog"
  drHealthcheck :: "('s, string option) prog"

datatype dryad_request =
    PutInMaintenanceRequest string
  | PrepareRequest "PublicKey option"
  | HealthcheckRequest

definition DryadService_PutInMaintenance :: "'s DryadIface \<Rightarrow> string \<Rightarrow> ('s, string option) prog" where
  "DryadService_PutInMaintenance impl msg = drPutInMaintenance impl msg"

definition DryadService_Prepare :: "'s DryadIface \<Rightarrow> PublicKey option \<Rightarrow> ('s, string option) prog" where
  "DryadService_Prepare impl key = drPrepare impl key"

definition DryadService_Healthcheck :: "'s DryadIface \<Rightarrow> ('s, string option) prog" where
  "DryadService_Healthcheck impl = drHealthcheck impl"

definition RegisterDryadService :: "'s DryadIface \<Rightarrow> ('s, dryad_request) connection" where
  "RegisterDryadService impl name request = (case request of
       PutInMaintenanceRequest msg \<Rightarrow> if name = ''Dryad.PutInMaintenance'' then DryadService_PutInMaintenance impl msg
                                      else no_method name
     | PrepareRequest key \<Rightarrow> if name = ''Dryad.Prepare'' then DryadService_Prepare impl key else no_method name
     | HealthcheckRequest \<Rightarrow> if name = ''Dryad.Healthcheck'' then DryadService_Healthcheck impl else no_method name)"

definition DryadClient_PutInMaintenance :: "('s, dryad_request) connection \<Rightarrow> string \<Rightarrow> ('s, string option) prog" where
  "DryadClient_PutInMaintenance client msg = client ''Dryad.PutInMaintenance'' (PutInMaintenanceRequest msg)"

definition DryadClient_Prepare :: "('s, dryad_request) connection \<Rightarrow> PublicKey option \<Rightarrow> ('s, string option) prog" where
  "DryadClient_Prepare client key = client ''Dryad.Prepare'' (PrepareRequest key)"

definition DryadClient_Healthcheck :: "('s, dryad_request) connection \<Rightarrow> ('s, string option) prog" where
  "DryadClient_Healthcheck client = client ''Dryad.Healthcheck'' HealthcheckRequest"

text \<open>The agent as the implementation of the interface.\<close>

definition rusalka_iface :: "commands \<Rightarrow> (PublicKey \<Rightarrow> string) \<Rightarrow> rusalka DryadIface" where
  "rusalka_iface cmds marshal = \<lparr>drPutInMaintenance = PutInMaintenance, drPrepare = Prepare cmds marshal,
     drHealthcheck = Healthcheck\<rparr>"

definition rusalka_server :: "commands \<Rightarrow> (PublicKey \<Rightarrow> string) \<Rightarrow> (rusalka, dryad_request) connection" where
  "rusalka_server cmds marshal = RegisterDryadService (rusalka_iface cmds marshal)"

lemma agent_calls:
  "DryadClient_Prepare (rusalka_server cmds marshal) key = Prepare cmds marshal key"
  "DryadClient_PutInMaintenance (rusalka_server cmds marshal) msg = PutInMaintenance msg"
  "DryadClient_Healthcheck (rusalka_server cmds marshal) = Healthcheck"
  by (simp_all add: DryadClient_Prepare_def DryadClient_PutInMaintenance_def DryadClient_Healthcheck_def
      rusalka_server_def rusalka_iface_def RegisterDryadService_def DryadService_Prepare_def
      DryadService_PutInMaintenance_def DryadService_Healthcheck_def)

section \<open>Reception\<close>

text \<open>\<open>TCPAddr.String\<close>: an IP with colons is put in brackets; a port is printed as a number.\<close>

definition port_text :: "int \<Rightarrow> string" where
  "port_text p = (if p < 0 then ''-'' @ FormatUint (nat (- p)) else FormatUint (nat p))"

definition TCPAddr_String :: "TCPAddr \<Rightarrow> string" where
  "TCPAddr_String a = (let host = (case IP a of None \<Rightarrow> '''' | Some ip \<Rightarrow> ip)
     in if CHR '':'' \<in> set host then ''['' @ host @ '']:'' @ port_text (Port a)
        else host @ '':'' @ port_text (Port a))"

record 's addressBook =
  ab_ip :: string
  ab_sv :: "'s Superviser"

definition getTCPAddr :: "(string \<Rightarrow> string + TCPAddr) \<Rightarrow> string \<Rightarrow> string \<Rightarrow> error + TCPAddr" where
  "getTCPAddr resolve str ctx = (if str = '''' then Inl (OtherError (ctx @ '' can't be empty''))
     else case resolve str of Inl e \<Rightarrow> Inl (OtherError e) | Inr a \<Rightarrow> Inr a)"

text \<open>An address without an IP gets the one of the connection.\<close>

definition fill_ip :: "string \<Rightarrow> TCPAddr \<Rightarrow> TCPAddr" where
  "fill_ip ip a = (if IP a = None then a\<lparr>IP := Some ip\<rparr> else a)"

definition ab_Register :: "(string \<Rightarrow> string + TCPAddr) \<Rightarrow> 's addressBook \<Rightarrow> Capabilities \<Rightarrow> string \<Rightarrow> string
    \<Rightarrow> ('s, error option) prog" where
  "ab_Register resolve ab caps dryadAddress sshAddress =
     (case getTCPAddr resolve dryadAddress ''dryadAddress'' of
        Inl err \<Rightarrow> ret (Some err)
      | Inr d \<Rightarrow> let d = fill_ip (ab_ip ab) d in
     (case getTCPAddr resolve sshAddress ''sshAddress'' of
        Inl err \<Rightarrow> ret (Some err)
      | Inr s \<Rightarrow> let s = fill_ip (ab_ip ab) s in
        svRegister (ab_sv ab) caps (TCPAddr_String d) (TCPAddr_String s)))"

definition ab_SetFail :: "'s addressBook \<Rightarrow> WorkerUUID \<Rightarrow> string \<Rightarrow> ('s, error option) prog" where
  "ab_SetFail ab uuid reason = svSetFail (ab_sv ab) uuid reason"

text \<open>\<open>serve\<close>: the service one connection is answered with.\<close>

definition sr_serve :: "(string \<Rightarrow> string + TCPAddr) \<Rightarrow> 's Superviser \<Rightarrow> string \<Rightarrow> ('s, superviser_request) connection" where
  "sr_serve resolve sv ip = (let sub = \<lparr>ab_ip = ip, ab_sv = sv\<rparr> in
     RegisterSuperviserService \<lparr>svRegister = ab_Register resolve sub, svSetFail = ab_SetFail sub\<rparr>)"

text \<open>The list of workers as the implementation of the interface.\<close>

definition worker_list_iface :: "(string \<Rightarrow> string + TCPAddr) \<Rightarrow> server Superviser" where
  "worker_list_iface resolve = \<lparr>svRegister = Register resolve, svSetFail = SetFail\<rparr>"

definition reception :: "(string \<Rightarrow> string + TCPAddr) \<Rightarrow> string \<Rightarrow> (server, superviser_request) connection" where
  "reception resolve ip = sr_serve resolve (worker_list_iface resolve) ip"

lemma reception_calls:
  "SuperviserClient_Register (reception resolve ip) caps d sa
   = wire_error (ab_Register resolve \<lparr>ab_ip = ip, ab_sv = worker_list_iface resolve\<rparr> caps d sa)"
  "SuperviserClient_SetFail (reception resolve ip) u reason = wire_error (SetFail u reason)"
  by (simp_all add: SuperviserClient_Register_def SuperviserClient_SetFail_def reception_def sr_serve_def
      RegisterSuperviserService_def SuperviserService_Register_def SuperviserService_SetFail_def ab_SetFail_def
      worker_list_iface_def Let_def)

end
