(* ===== verification/Registration.thy ===== *)
theory Registration
  imports Rpc Liberal Scenario
begin

text \<open>
  A device registers through the reception: what the server stores of it, and when it is
  turned away.
\<close>

section \<open>Registering\<close>

lemma wl_callbacks [preserves_intros]:
  "preserves wl (OnWorkerIdle u)" "preserves wl (OnWorkerFail u)"
  unfolding OnWorkerIdle_def OnWorkerFail_def times_insert_def jobs_Get_def finish_job_def op_defs
  by (intro preserves_intros; simp)+

lemma wlp_setState_workers:
  "wlp (setState u st) (\<lambda>_ t. workers (wl t) =
     (workers (wl s))(u := map_option (\<lambda>w. w\<lparr>info := (info w)\<lparr>WState := st\<rparr>\<rparr>) (workers (wl s) u))) s"
proof (cases "workers (wl s) u")
  case None
  then show ?thesis by (simp add: setState_def wlp_simps fun_upd_idem)
next
  case (Some w)
  have send: "preserves wl (chan_send n st)" for n
    unfolding chan_send_def by (intro preserves_intros) simp
  show ?thesis
    unfolding setState_def wlp_bnd [of get_workers] wlp_state Some option.case wlp_thn
    by (rule wlp_preserves [OF send], rule wlp_preserves [where f = wl], intro preserves_intros)
       (simp add: upd_worker_def wlp_simps Some)
qed

text \<open>What registration does once the addresses are known.\<close>

definition known_as :: "Capabilities \<Rightarrow> TCPAddr \<Rightarrow> TCPAddr \<Rightarrow> mapWorker \<Rightarrow> bool" where
  "known_as caps d sa w \<longleftrightarrow> WCaps (info w) = caps \<and> dryad w = d \<and> sshd w = sa"

lemma wlp_Register:
  assumes "resolve dt = Inr d" and "resolve st = Inr sa" and "caps ''UUID'' = Some u" and "IP d \<noteq> None" and "IP sa \<noteq> None"
  shows "wlp (Register resolve caps dt st) (\<lambda>err t. if Port d = 0 \<or> Port sa = 0 then err = Some ErrMissingPort \<and> t = s
     else err = None \<and> (\<exists>w. workers (wl t) u = Some w \<and> known_as caps d sa w)) s"
proof -
  have set: "wlp (setState u new) (\<lambda>_ t. \<exists>w. workers (wl t) u = Some w \<and> known_as caps d sa w) v"
    if "\<exists>w. workers (wl v) u = Some w \<and> known_as caps d sa w" for new v
    by (rule wlp_mono [OF wlp_setState_workers]) (use that in \<open>auto simp: known_as_def\<close>)
  have check: "check_addr resolve what dt = (if Port d = 0 then Inl ErrMissingPort else Inr d)"
    "check_addr resolve what st = (if Port sa = 0 then Inl ErrMissingPort else Inr sa)" for what
    using assms by (auto simp: check_addr_def)
  show ?thesis
  proof (cases "Port d = 0 \<or> Port sa = 0")
    case True
    then show ?thesis by (auto simp: Register_def check assms(3) wlp_basic)
  next
    case False
    show ?thesis
    proof (cases "workers (wl s) u")
      case None
      with False show ?thesis
        by (simp add: Register_def check assms(3) wlp_simps known_as_def new_worker_def)
    next
      case (Some w)
      have "wlp (setState u new) (\<lambda>_ t. l \<in> held t \<longrightarrow> (\<exists>w. workers (wl t) u = Some w \<and> known_as caps d sa w)) v"
        if "\<exists>w. workers (wl v) u = Some w \<and> known_as caps d sa w" for new l v
        using set [OF that] by (rule wlp_mono) simp
      with False Some show ?thesis
        by (simp add: Register_def check assms(3) wlp_simps Let_def upd_worker_def known_as_def)
    qed
  qed
qed

section \<open>Registering through the reception\<close>

text \<open>
  What the resolver is documented to do with the text of an address that has an IP: it needs
  no name server and yields the same address.  \<open>ips\<close> are the IPs there are.
\<close>

definition resolves_literals :: "string set \<Rightarrow> (string \<Rightarrow> string + TCPAddr) \<Rightarrow> bool" where
  "resolves_literals ips resolve \<longleftrightarrow> (\<forall>s a. resolve s = Inr a \<longrightarrow> (\<forall>ip. IP a = Some ip \<longrightarrow> ip \<in> ips)
     \<and> (\<forall>ip \<in> ips. resolve (TCPAddr_String (a\<lparr>IP := Some ip\<rparr>)) = Inr (a\<lparr>IP := Some ip\<rparr>)))"

lemma resolve_filled:
  assumes "resolves_literals ips resolve" and "ip \<in> ips" and "resolve s = Inr a"
  shows "resolve (TCPAddr_String (fill_ip ip a)) = Inr (fill_ip ip a)"
proof -
  obtain i where i: "i \<in> ips" "fill_ip ip a = a\<lparr>IP := Some i\<rparr>"
  proof (cases "IP a")
    case None
    then show ?thesis using that [of ip] assms(2) by (simp add: fill_ip_def)
  next
    case (Some i)
    then have "i \<in> ips" using assms(1,3) by (simp add: resolves_literals_def)
    with Some show ?thesis using that [of i] by (cases a) (simp add: fill_ip_def)
  qed
  then show ?thesis using assms(1,3) by (simp add: resolves_literals_def)
qed

lemma reception_registers:
  assumes "resolves_literals ips resolve" and "ip \<in> ips" and "caps ''UUID'' = Some u"
    and "dt \<noteq> ''''" and "st \<noteq> ''''" and "resolve dt = Inr d" and "resolve st = Inr sa"
    and "SuperviserClient_Register (reception resolve ip) caps dt st s = Returns (err, t)"
  shows "if Port d = 0 \<or> Port sa = 0 then err = Some ''Port is missing from address'' \<and> t = s
    else err = None \<and> (\<exists>w. workers (wl t) u = Some w \<and> known_as caps (fill_ip ip d) (fill_ip ip sa) w)"
proof -
  let ?R = "Register resolve caps (TCPAddr_String (fill_ip ip d)) (TCPAddr_String (fill_ip ip sa))"
  have fill: "IP (fill_ip ip a) \<noteq> None" "Port (fill_ip ip a) = Port a" for a
    by (simp_all add: fill_ip_def)
  have "SuperviserClient_Register (reception resolve ip) caps dt st = wire_error ?R"
    using assms(4-7) by (simp add: reception_calls ab_Register_def getTCPAddr_def worker_list_iface_def Let_def)
  then obtain e where e: "?R s = Returns (e, t)" "err = map_option error_text e"
    using assms(8) by (auto simp: wire_error_def bnd_Returns ret_def)
  have "wlp ?R (\<lambda>err t. if Port d = 0 \<or> Port sa = 0 then err = Some ErrMissingPort \<and> t = s
     else err = None \<and> (\<exists>w. workers (wl t) u = Some w \<and> known_as caps (fill_ip ip d) (fill_ip ip sa) w)) s"
    using wlp_Register [where resolve = resolve and caps = caps and d = "fill_ip ip d" and sa = "fill_ip ip sa" and s = s, OF
        resolve_filled [OF assms(1,2,6)] resolve_filled [OF assms(1,2,7)] assms(3)]
    by (simp add: fill)
  with e show ?thesis by (auto simp: wlp_def split: if_splits)
qed

text \<open>A registration that is turned away changes nothing.\<close>

lemma wlp_True: "wlp m (\<lambda>_ _. True) s"
  by (simp add: wlp_def)

lemma Register_refused: "wlp (Register resolve caps dt st) (\<lambda>err t. err \<noteq> None \<longrightarrow> t = s) s"
proof -
  have "wlp (critical l (bnd get_workers (\<lambda>m. case m u of
      Some worker \<Rightarrow> let new = n worker in thn (f worker) (thn (h new worker) (ret (None :: error option)))
    | None \<Rightarrow> bnd (gets next_chan) (\<lambda>c. thn (modify (k c)) (ret None))))) (\<lambda>err t. err \<noteq> None \<longrightarrow> t = s) s"
    for l u n f h k
    by (auto simp: wlp_simps Let_def split: option.split intro!: wlp_mono [OF wlp_True])
  then show ?thesis
    unfolding Register_def by (auto simp: wlp_basic split: option.split sum.split)
qed

lemma reception_refuses:
  assumes "SuperviserClient_Register (reception resolve ip) caps dt st s = Returns (Some err, t)"
  shows "t = s"
proof -
  have "wlp (ab_Register resolve \<lparr>ab_ip = ip, ab_sv = worker_list_iface resolve\<rparr> caps dt st) (\<lambda>err t. err \<noteq> None \<longrightarrow> t = s) s"
    using Register_refused
    by (auto simp: ab_Register_def worker_list_iface_def Let_def wlp_basic split: sum.split)
  with assms show ?thesis
    by (auto simp: reception_calls wire_error_def bnd_Returns ret_def wlp_def)
qed

text \<open>
  C37. A device that registers is stored under its UUID with its capabilities and the
  addresses it gave, where the IP it left out is the one it called from; without a port in
  one of them it is told so and nothing changes.
\<close>

theorem registration_stores_device:
  assumes "resolves_literals ips resolve" and "ip \<in> ips" and "caps ''UUID'' = Some u"
    and "dt \<noteq> ''''" and "st \<noteq> ''''" and "resolve dt = Inr d" and "resolve st = Inr sa"
    and "SuperviserClient_Register (reception resolve ip) caps dt st s = Returns (err, t)"
  shows "if Port d = 0 \<or> Port sa = 0 then err = Some ''Port is missing from address'' \<and> t = s
    else err = None \<and> (\<exists>w. workers (wl t) u = Some w \<and> WCaps (info w) = caps
      \<and> dryad w = d\<lparr>IP := Some (case IP d of None \<Rightarrow> ip | Some i \<Rightarrow> i)\<rparr>
      \<and> sshd w = sa\<lparr>IP := Some (case IP sa of None \<Rightarrow> ip | Some i \<Rightarrow> i)\<rparr>)"
proof -
  have "fill_ip ip a = a\<lparr>IP := Some (case IP a of None \<Rightarrow> ip | Some i \<Rightarrow> i)\<rparr>" for a
    by (cases a) (auto simp: fill_ip_def split: option.split)
  with reception_registers [OF assms] show ?thesis by (auto simp: known_as_def split: if_splits)
qed

text \<open>A resolver that knows addresses written in digits and no names.\<close>

definition literal_resolver :: "string \<Rightarrow> string + TCPAddr" where
  "literal_resolver s = (let port = rev (takeWhile (\<lambda>c. c \<noteq> CHR '':'') (rev s));
       rest = dropWhile (\<lambda>c. c \<noteq> CHR '':'') (rev s); host = rev (tl rest)
     in if rest = [] \<or> CHR '':'' \<in> set host then Inl ''missing port in address''
        else case ParseUint port of
          None \<Rightarrow> Inl ''invalid port''
        | Some n \<Rightarrow> Inr \<lparr>IP = if host = [] then None else Some host, Port = int n\<rparr>)"

lemma literal_resolver_String:
  assumes "h \<noteq> []" and "CHR '':'' \<notin> set h" and "n < 2 ^ 64"
  shows "literal_resolver (TCPAddr_String \<lparr>IP = Some h, Port = int n\<rparr>) = Inr \<lparr>IP = Some h, Port = int n\<rparr>"
proof -
  have "CHR '':'' \<notin> set (FormatUint n)"
    using FormatUint_digits [of "CHR '':''" n] by (auto simp: is_digit_def)
  then have digits: "\<forall>c \<in> set (rev (FormatUint n)). c \<noteq> CHR '':''" by auto
  have "takeWhile (\<lambda>c. c \<noteq> CHR '':'') (rev (FormatUint n) @ CHR '':'' # rev h) = rev (FormatUint n)"
    "dropWhile (\<lambda>c. c \<noteq> CHR '':'') (rev (FormatUint n) @ CHR '':'' # rev h) = CHR '':'' # rev h"
    using takeWhile_append2 [of "rev (FormatUint n)" "\<lambda>c. c \<noteq> CHR '':''"] dropWhile_append2 [of "rev (FormatUint n)" "\<lambda>c. c \<noteq> CHR '':''"] digits
    by auto
  with assms show ?thesis
    by (simp add: literal_resolver_def TCPAddr_String_def port_text_def Let_def)
qed

lemma literal_resolver_ok: "resolves_literals {h. h \<noteq> [] \<and> CHR '':'' \<notin> set h} literal_resolver"
  unfolding resolves_literals_def
proof (intro allI impI conjI ballI)
  fix s a assume "literal_resolver s = Inr a"
  moreover define h where "h = rev (tl (dropWhile (\<lambda>c. c \<noteq> CHR '':'') (rev s)))"
  ultimately have "\<exists>n. a = \<lparr>IP = if h = [] then None else Some h, Port = int n\<rparr> \<and> CHR '':'' \<notin> set h \<and> n < 2 ^ 64"
    by (auto simp: literal_resolver_def Let_def dest: ParseUint_bound split: if_splits option.splits)
  then obtain n where a: "a = \<lparr>IP = if h = [] then None else Some h, Port = int n\<rparr>" "CHR '':'' \<notin> set h" "n < 2 ^ 64"
    by blast
  show "ip \<in> {h. h \<noteq> [] \<and> CHR '':'' \<notin> set h}" if "IP a = Some ip" for ip
    using a that by (auto split: if_splits)
  show "literal_resolver (TCPAddr_String (a\<lparr>IP := Some ip\<rparr>)) = Inr (a\<lparr>IP := Some ip\<rparr>)"
    if "ip \<in> {h. h \<noteq> [] \<and> CHR '':'' \<notin> set h}" for ip
    using literal_resolver_String [of ip n] a that by simp
qed

lemma registration_stores_device_witness:
  "\<exists>t w. SuperviserClient_Register (reception literal_resolver ''10.0.0.7'') demo_caps '':7175'' '':22'' started
      = Returns (None, t) \<and> workers (wl t) ''w'' = Some w \<and> dryad w = \<lparr>IP = Some ''10.0.0.7'', Port = 7175\<rparr>"
proof -
  have addresses: "literal_resolver '':7175'' = Inr \<lparr>IP = None, Port = 7175\<rparr>" "literal_resolver '':22'' = Inr \<lparr>IP = None, Port = 22\<rparr>"
    by (simp_all add: literal_resolver_def ParseUint_def is_digit_def)
  have "\<exists>err t. SuperviserClient_Register (reception literal_resolver ''10.0.0.7'') demo_caps '':7175'' '':22'' started = Returns (err, t)"
    using literal_resolver_String [of "''10.0.0.7''" 7175] literal_resolver_String [of "''10.0.0.7''" 22]
    by (simp add: reception_calls ab_Register_def getTCPAddr_def addresses fill_ip_def worker_list_iface_def wire_error_def
        Register_def check_addr_def demo_caps_def started_def run_simps)
  then obtain err t where run: "SuperviserClient_Register (reception literal_resolver ''10.0.0.7'') demo_caps '':7175'' '':22'' started
      = Returns (err, t)" by blast
  from registration_stores_device [OF literal_resolver_ok _ _ _ _ addresses run, of "''w''"]
  show ?thesis using run by (auto simp: demo_caps_def)
qed

end
