(* ===== verification/DryadOps.thy ===== *)
theory DryadOps
  imports Dryad Preserves
begin

text \<open>
  What the agent's operations do: a successful \<open>Prepare\<close> leaves exactly the given key for
  the account, owned by it, and nothing of the user before; what fails is reported with the
  stage that failed; and the goroutine that blinks ends soon after it is cancelled, which
  not every one is.
\<close>

section \<open>Rules\<close>

lemma wp_and_then [wp_simps]:
  "wpg b (and_then m n) Q = wpg b m (\<lambda>err. if err \<noteq> None then Q err else wpg b n Q)"
  by (auto simp: and_then_def wp_bnd wp_ret fun_eq_iff wpg_def split: outcome.splits)

lemma wp_prefixed [wp_simps]:
  "wpg b (prefixed what m) Q = wpg b m (\<lambda>err. Q (map_option (\<lambda>e. what @ e) err))"
  by (simp add: prefixed_def wp_simps)

lemma wp_updateOwnership [wp_simps]:
  "wpg b (updateOwnership key dir uid gid) Q = (case Atoi uid of
     Inl err \<Rightarrow> Q (Some err)
   | Inr u \<Rightarrow> (case Atoi gid of
       Inl err \<Rightarrow> Q (Some err)
     | Inr g \<Rightarrow> wpg b (and_then (os_Chown dir u g) (file_Chown key u g)) Q))"
  by (simp add: updateOwnership_def wp_simps fun_eq_iff split: sum.split)

section \<open>Installing the key\<close>

definition ssh_dir :: "account \<Rightarrow> string" where
  "ssh_dir acc = path_Join [HomeDir acc, ''.ssh'']"

definition keys_file :: "account \<Rightarrow> string" where
  "keys_file acc = path_Join [ssh_dir acc, ''authorized_keys'']"

lemma self_ancestor: "p \<in> set (ancestors p)"
  by (simp add: ancestors_def)

definition has_key_file :: "account \<Rightarrow> string \<Rightarrow> nat \<Rightarrow> unix \<Rightarrow> bool" where
  "has_key_file acc text m u \<longleftrightarrow> (\<exists>uid gid. Atoi (Uid acc) = Inr uid \<and> Atoi (Gid acc) = Inr gid
     \<and> files u (keys_file acc) = Some \<lparr>content = text, file_owner = (uid, gid), file_mode = m\<rparr>
     \<and> map_option dir_owner (dirs u (ssh_dir acc)) = Some (uid, gid))"

definition key_mode :: "account \<Rightarrow> unix \<Rightarrow> nat" where
  "key_mode acc u = (case files u (keys_file acc) of None \<Rightarrow> 384 | Some f \<Rightarrow> file_mode f)"

text \<open>Once the file is open, the directory exists and the file is not a directory.\<close>

lemma opened:
  assumes u: "u = truncated (keys_file acc) m v" "v = make_dirs (ssh_dir acc) n w" "dirs v (keys_file acc) = None"
  shows "ssh_dir acc \<noteq> keys_file acc" "\<exists>d. dirs u (ssh_dir acc) = Some d"
    "\<exists>f. files u (keys_file acc) = Some f \<and> file_mode f = (case files w (keys_file acc) of None \<Rightarrow> m | Some f \<Rightarrow> file_mode f)"
    "accounts u = accounts w" "\<forall>p. p \<noteq> keys_file acc \<longrightarrow> files u p = files w p"
proof -
  have "dirs v (ssh_dir acc) \<noteq> None"
    using self_ancestor [of "ssh_dir acc"] by (simp add: u(2) make_dirs_def)
  with u show "ssh_dir acc \<noteq> keys_file acc" "\<exists>d. dirs u (ssh_dir acc) = Some d"
    by (auto simp: truncated_def)
qed (auto simp: u truncated_def make_dirs_def split: option.split)

lemma wp_write_key:
  assumes "dirs (unix d) (ssh_dir acc) = Some dir" and "files (unix d) (keys_file acc) = Some f"
  shows "wp (and_then (updateOwnership (keys_file acc) (ssh_dir acc) (Uid acc) (Gid acc)) (file_Write (keys_file acc) text))
     (\<lambda>err d'. accounts (unix d') = accounts (unix d)
       \<and> (\<forall>p. p \<noteq> keys_file acc \<longrightarrow> files (unix d') p = files (unix d) p)
       \<and> (err = None \<longrightarrow> has_key_file acc text (file_mode f) (unix d'))) d"
  using assms
  by (auto simp: wp_simps os_Chown_def file_Chown_def file_Write_def has_key_file_def split: option.split sum.split)

lemma wp_installKey:
  assumes "user d = Some acc"
  shows "wp (installKey marshal key) (\<lambda>err d'. accounts (unix d') = accounts (unix d)
     \<and> (\<forall>p. p \<noteq> keys_file acc \<longrightarrow> files (unix d') p = files (unix d) p)
     \<and> (err = None \<longrightarrow> (\<exists>k. key = Some k \<and> has_key_file acc (marshal k) (key_mode acc (unix d)) (unix d')))) d"
proof (cases key)
  case None
  with assms show ?thesis by (simp add: installKey_def installPublicKey_def wp_simps)
next
  case (Some k)
  let ?Q = "\<lambda>err d'. accounts (unix d') = accounts (unix d)
     \<and> (\<forall>p. p \<noteq> keys_file acc \<longrightarrow> files (unix d') p = files (unix d) p)
     \<and> (err = None \<longrightarrow> has_key_file acc (marshal k) (key_mode acc (unix d)) (unix d'))"
  let ?install = "and_then (updateOwnership (keys_file acc) (ssh_dir acc) (Uid acc) (Gid acc))
    (file_Write (keys_file acc) (marshal k))"
  have "wp ?install ?Q e" if u: "unix e = truncated (keys_file acc) 384 v" and v: "v = make_dirs (ssh_dir acc) 493 (unix d)"
    "dirs v (keys_file acc) = None" for e v
  proof -
    note o = opened [OF u v]
    obtain dir f where df: "dirs (unix e) (ssh_dir acc) = Some dir" "files (unix e) (keys_file acc) = Some f"
        "file_mode f = key_mode acc (unix d)"
      using o(2,3) by (auto simp: key_mode_def)
    show ?thesis
      by (rule wp_mono [OF wp_write_key [OF df(1,2)]]) (use o(4,5) df(3) in auto)
  qed
  moreover have "accounts (make_dirs p m u) = accounts u" "files (make_dirs p m u) = files u" for p m u
    by (simp_all add: make_dirs_def)
  ultimately show ?thesis
    using assms Some
    unfolding installKey_def installPublicKey_def ssh_dir_def [symmetric] keys_file_def [symmetric] Let_def
    by (auto simp: wp_bnd wp_gets wp_and_then [of _ "syscall f" for f] wp_syscall os_MkdirAll_def os_OpenFile_def split: option.split)
qed

section \<open>Removing and adding the account\<close>

text \<open>What the operations on the account leave alone.\<close>

definition board :: "rusalka \<Rightarrow> string \<times> nat option \<times> (nat \<rightharpoonup> blinker) \<times> nat \<times> stm_call list" where
  "board d = (username d, cancelMaintenance d, blinkers d, next_blinker d, stm_log d)"

lemmas account_defs = bu_update_def bu_add_def bu_delete_def and_then_def prefixed_def user_Lookup_def exec_Command_def
  installKey_def installPublicKey_def updateOwnership_def os_MkdirAll_def os_OpenFile_def os_Chown_def
  file_Chown_def file_Write_def syscall_def os_answer_def

lemma board_account [preserves_intros]:
  "preserves board bu_update" "preserves board (bu_add cmds)" "preserves board (bu_delete cmds)"
  "preserves board (installKey marshal key)"
  unfolding account_defs
  by (intro preserves_intros; auto intro!: preserves_intros simp: board_def Let_def
      split: user_error.split option.split sum.split)+

lemma wp_bu_update [wp_simps]:
  "wpg b bu_update Q = (\<lambda>d. case failures d 0 of
       Some e \<Rightarrow> Q (Some (LookupError e)) (ticked d\<lparr>user := None\<rparr>)
     | None \<Rightarrow> (case accounts (unix d) (username d) of
         None \<Rightarrow> Q (Some (UnknownUserError (username d))) (ticked d\<lparr>user := None\<rparr>)
       | Some acc \<Rightarrow> Q None (ticked d\<lparr>user := Some acc\<rparr>)))"
  by (auto simp: fun_eq_iff bu_update_def wp_simps ticked_def split: option.split)

text \<open>A command that ends well is one whose status is zero.\<close>

lemma handleUserCmdError_None: "handleUserCmdError m r = None \<longleftrightarrow> (\<exists>out. r = CmdDone out)"
  by (cases r) (auto simp: handleUserCmdError_def)

lemma wp_bu_delete:
  "wp (bu_delete cmds) (\<lambda>err d'. (unix d' = unix d \<and> (err = None \<longrightarrow> accounts (unix d) (username d) = None)
       \<or> accounts (unix d) (username d) \<noteq> None \<and>
         (\<exists>r. cmds (prepareUserDelCmd (username d)) (unix d) = (r, unix d') \<and> err = handleUserCmdError userDelExit r))) d"
  by (auto simp: bu_delete_def wp_simps ticked_def fst_def snd_def split: option.split user_error.split prod.split)

lemma wp_bu_add:
  "wp (bu_add cmds) (\<lambda>err d'. unix d' = unix d \<and> err = None
       \<or> (\<exists>r. cmds (prepareUserAddCmd (username d) (groups d)) (unix d) = (r, unix d') \<and> err = handleUserCmdError userAddExit r)) d"
  by (auto simp: bu_add_def wp_simps ticked_def fst_def snd_def split: option.split prod.split)

section \<open>Preparing the device\<close>

text \<open>The first step of \<open>Prepare\<close>, and what its later steps amount to when they all succeed.\<close>

definition maintenance_stopped :: "rusalka \<Rightarrow> rusalka" where
  "maintenance_stopped d = (case cancelMaintenance d of
       None \<Rightarrow> d
     | Some i \<Rightarrow> d\<lparr>blinkers := (blinkers d)(i := map_option (\<lambda>b. b\<lparr>cancelled := True\<rparr>) (blinkers d i)),
         cancelMaintenance := None\<rparr>)"

definition account_removed :: "commands \<Rightarrow> string \<Rightarrow> unix \<Rightarrow> unix \<Rightarrow> bool" where
  "account_removed cmds name u u' \<longleftrightarrow> u' = u \<and> accounts u name = None
     \<or> accounts u name \<noteq> None \<and> (\<exists>out. cmds (prepareUserDelCmd name) u = (CmdDone out, u'))"

definition account_added :: "commands \<Rightarrow> string \<Rightarrow> string list \<Rightarrow> unix \<Rightarrow> unix \<Rightarrow> bool" where
  "account_added cmds name gs u u' \<longleftrightarrow> u' = u \<or> (\<exists>out. cmds (prepareUserAddCmd name gs) u = (CmdDone out, u'))"

lemma wp_delete_board:
  "wp (bu_delete cmds) (\<lambda>err d'. board d' = board d \<and> groups d' = groups d
     \<and> (err = None \<longrightarrow> account_removed cmds (username d) (unix d) (unix d'))) d"
proof -
  have "preserves (\<lambda>d. (board d, groups d)) (bu_delete cmds)"
    unfolding account_defs by (intro preserves_intros) (auto intro!: preserves_intros simp: board_def split: user_error.split)
  from preserves_wp [OF this wp_bu_delete] show ?thesis
    by (rule wp_mono) (auto simp: account_removed_def handleUserCmdError_None dest: sym)
qed

lemma wp_add_board:
  "wp (bu_add cmds) (\<lambda>err d'. board d' = board d
     \<and> (err = None \<longrightarrow> account_added cmds (username d) (groups d) (unix d) (unix d'))) d"
  by (rule wp_mono [OF preserves_wp [OF board_account(2) wp_bu_add]])
     (auto simp: account_added_def handleUserCmdError_None dest: sym)

lemma wp_update_board:
  "wp bu_update (\<lambda>err d'. board d' = board d \<and> unix d' = unix d
     \<and> (err = None \<longrightarrow> (\<exists>acc. accounts (unix d) (username d) = Some acc \<and> user d' = Some acc))) d"
  by (auto simp: wp_bu_update board_def ticked_def split: option.split)

lemma wp_install_board:
  "user d = Some acc \<Longrightarrow> wp (installKey marshal key) (\<lambda>err d'. board d' = board d \<and> accounts (unix d') = accounts (unix d)
     \<and> (\<forall>p. p \<noteq> keys_file acc \<longrightarrow> files (unix d') p = files (unix d) p)
     \<and> (err = None \<longrightarrow> (\<exists>k. key = Some k \<and> has_key_file acc (marshal k) (key_mode acc (unix d)) (unix d')))) d"
  by (rule wp_mono [OF preserves_wp [OF board_account(4) wp_installKey]]) auto

text \<open>
  \<open>Prepare\<close> always returns.  The maintenance that was started last is stopped; and when
  there is no error the account was removed, added and given the key.
\<close>

definition prepared_with :: "commands \<Rightarrow> (PublicKey \<Rightarrow> string) \<Rightarrow> PublicKey option \<Rightarrow> rusalka \<Rightarrow> rusalka \<Rightarrow> bool" where
  "prepared_with cmds marshal key d d' \<longleftrightarrow> (\<exists>k acc u v. key = Some k
     \<and> account_removed cmds (username d) (unix d) u \<and> account_added cmds (username d) (groups d) u v
     \<and> accounts v (username d) = Some acc \<and> accounts (unix d') = accounts v
     \<and> (\<forall>p. p \<noteq> keys_file acc \<longrightarrow> files (unix d') p = files v p)
     \<and> has_key_file acc (marshal k) (key_mode acc v) (unix d'))"

lemma wp_Prepare:
  "wp (Prepare cmds marshal key) (\<lambda>err d'. board d' = board (maintenance_stopped d)
     \<and> (err = None \<longrightarrow> prepared_with cmds marshal key d d')) d"
proof -
  let ?s = "maintenance_stopped d"
  let ?Q = "\<lambda>err d'. board d' = board ?s \<and> (err = None \<longrightarrow> prepared_with cmds marshal key d d')"
  have same: "unix ?s = unix d" "username ?s = username d" "groups ?s = groups d"
    by (simp_all add: maintenance_stopped_def split: option.split)
  have name: "username e = username d" if "board e = board ?s" for e
    using that same by (simp add: board_def)
  let ?update = "prefixed ''user information update failed: '' (bnd bu_update (\<lambda>e. ret (map_option user_error_text e)))"
  have last: "wp (and_then ?update (installKey marshal key)) ?Q f"
    if f: "board f = board ?s" and u: "account_removed cmds (username d) (unix d) u"
      "account_added cmds (username d) (groups d) u (unix f)" for f u
    unfolding wp_and_then wp_prefixed wp_bnd wp_ret
  proof (rule wp_mono [OF wp_update_board], goal_cases)
    case (1 err g)
    show ?case
    proof (cases err)
      case None
      with 1 obtain acc where acc: "accounts (unix f) (username d) = Some acc" "user g = Some acc"
        using name [OF f] by auto
      show ?thesis
        unfolding None
        by simp (rule wp_mono [OF wp_install_board [OF acc(2)]],
                 use 1 f u acc in \<open>auto simp: prepared_with_def\<close>)
    qed (use 1 f in auto)
  qed
  have middle: "wp (and_then (prefixed ''user creation failed: '' (bu_add cmds)) (and_then ?update (installKey marshal key))) ?Q e"
    if e: "board e = board ?s" "groups e = groups d" "account_removed cmds (username d) (unix d) (unix e)" for e
    unfolding wp_and_then [of _ "prefixed ''user creation failed: '' (bu_add cmds)"] wp_prefixed
    by (rule wp_mono [OF wp_add_board]) (use e name [OF e(1)] last in auto)
  have "wp (and_then (prefixed ''user removal failed: '' (bu_delete cmds))
      (and_then (prefixed ''user creation failed: '' (bu_add cmds)) (and_then ?update (installKey marshal key)))) ?Q ?s"
    unfolding wp_and_then [of _ "prefixed ''user removal failed: '' (bu_delete cmds)"] wp_prefixed
    by (rule wp_mono [OF wp_delete_board]) (use same middle in auto)
  then show ?thesis
    unfolding Prepare_def cancel_def wp_thn wp_bnd wp_gets wp_case_option wp_modify wp_ret
    by (simp add: maintenance_stopped_def split: option.splits)
qed

end
