(* ===== verification/DryadGuarantees.thy ===== *)
theory DryadGuarantees
  imports DryadOps
begin

text \<open>
  What the agent promises and what it does not: which key opens the device after
  \<open>Prepare\<close>, what is left of the user before, which errors are reported, and which of the
  goroutines that blink come to an end.  The calls arrive one after another and interleave
  with the steps of the goroutines.
\<close>

section \<open>Runs of the agent\<close>

datatype agent_event =
    APutInMaintenance string
  | APrepare "PublicKey option"
  | AHealthcheck
  | ABlink nat

definition agent_step :: "commands \<Rightarrow> (PublicKey \<Rightarrow> string) \<Rightarrow> agent_event \<Rightarrow> unit dop" where
  "agent_step cmds marshal e = (case e of
       APutInMaintenance msg \<Rightarrow> thn (PutInMaintenance msg) (ret ())
     | APrepare key \<Rightarrow> thn (Prepare cmds marshal key) (ret ())
     | AHealthcheck \<Rightarrow> thn Healthcheck (ret ())
     | ABlink i \<Rightarrow> blink_step i)"

definition run_agent :: "commands \<Rightarrow> (PublicKey \<Rightarrow> string) \<Rightarrow> agent_event list \<Rightarrow> unit dop" where
  "run_agent cmds marshal es = for_each (agent_step cmds marshal) es"

lemma wp_stm [wp_simps]:
  "wpg b (stm c) Q = (\<lambda>d. Q (stm_answers d 0) (d\<lparr>stm_answers := (\<lambda>i. stm_answers d (Suc i)), stm_log := stm_log d @ [c]\<rparr>))"
  by (simp add: stm_def wp_simps)

text \<open>Only the board's part matters to the goroutines.\<close>

definition lights :: "rusalka \<Rightarrow> nat option \<times> (nat \<rightharpoonup> blinker) \<times> nat" where
  "lights d = (cancelMaintenance d, blinkers d, next_blinker d)"

lemma wp_Prepare_lights: "wp (Prepare cmds marshal key) (\<lambda>_ d'. lights d' = lights (maintenance_stopped d)) d"
  by (rule wp_mono [OF wp_Prepare]) (auto simp: lights_def board_def)

text \<open>A call leaves every goroutine where it is; \<open>Prepare\<close> may cancel it.\<close>

definition pc_next :: "bool \<Rightarrow> blink_pc \<Rightarrow> blink_pc" where
  "pc_next c pc = (case pc of Led1On \<Rightarrow> Led1Off | Led1Off \<Rightarrow> Led2On | Led2On \<Rightarrow> Led2Off | Led2Off \<Rightarrow> AskDone
     | AskDone \<Rightarrow> (if c then Deferred else Led1On) | Deferred \<Rightarrow> Returned | Returned \<Rightarrow> Returned)"

lemma wp_blink_step:
  "wp (blink_step i) (\<lambda>_ d'. lights d' = (cancelMaintenance d,
     (blinkers d)(i := map_option (\<lambda>b. b\<lparr>blink_at := pc_next (cancelled b) (blink_at b)\<rparr>) (blinkers d i)), next_blinker d)) d"
proof (cases "blinkers d i")
  case None
  then show ?thesis by (simp add: blink_step_def wp_simps lights_def fun_upd_idem)
next
  case (Some b)
  then show ?thesis
    by (cases "blink_at b")
       (auto simp: blink_step_def wp_simps lights_def setLED_def blink_goto_def pc_next_def fun_upd_idem)
qed

lemma wp_PutInMaintenance:
  "wp (PutInMaintenance msg) (\<lambda>err d'. lights d' = (if err = None
     then (Some (next_blinker d), (blinkers d)(next_blinker d \<mapsto> \<lparr>blink_at = Led1On, cancelled = False\<rparr>), Suc (next_blinker d))
     else lights d)) d"
  by (auto simp: PutInMaintenance_def printMessage_def wp_simps lights_def)

text \<open>What one event does to the lights; every event returns.\<close>

definition stopped_lights :: "rusalka \<Rightarrow> nat option \<times> (nat \<rightharpoonup> blinker) \<times> nat" where
  "stopped_lights d = lights (maintenance_stopped d)"

definition lights_move :: "agent_event \<Rightarrow> rusalka \<Rightarrow> rusalka \<Rightarrow> bool" where
  "lights_move e d d' \<longleftrightarrow> (case e of
       ABlink i \<Rightarrow> lights d' = (cancelMaintenance d,
         (blinkers d)(i := map_option (\<lambda>b. b\<lparr>blink_at := pc_next (cancelled b) (blink_at b)\<rparr>) (blinkers d i)), next_blinker d)
     | APutInMaintenance msg \<Rightarrow> lights d' \<in> {lights d, (Some (next_blinker d),
         (blinkers d)(next_blinker d \<mapsto> \<lparr>blink_at = Led1On, cancelled = False\<rparr>), Suc (next_blinker d))}
     | APrepare key \<Rightarrow> lights d' = stopped_lights d
     | AHealthcheck \<Rightarrow> lights d' = lights d)"

lemma wp_agent_step: "wp (agent_step cmds marshal e) (\<lambda>_. lights_move e d) d"
proof (cases e)
  case (APutInMaintenance msg)
  show ?thesis
    unfolding APutInMaintenance agent_step_def agent_event.case wp_thn wp_ret
    by (rule wp_mono [OF wp_PutInMaintenance]) (auto simp: lights_move_def split: if_splits)
next
  case (APrepare key)
  show ?thesis
    unfolding APrepare agent_step_def agent_event.case wp_thn wp_ret
    by (rule wp_mono [OF wp_Prepare_lights]) (simp add: lights_move_def stopped_lights_def)
next
  case AHealthcheck
  then show ?thesis
    by (simp add: agent_step_def Healthcheck_def powerTick_def wp_simps lights_def lights_move_def)
next
  case (ABlink i)
  show ?thesis
    unfolding ABlink agent_step_def agent_event.case
    by (rule wp_mono [OF wp_blink_step]) (simp add: lights_move_def)
qed

lemma wp_run_agent:
  assumes "\<And>e d d'. e \<in> set es \<Longrightarrow> I d \<Longrightarrow> lights_move e d d' \<Longrightarrow> I d'" and "I d"
  shows "wp (run_agent cmds marshal es) (\<lambda>_. I) d"
  unfolding run_agent_def
proof (rule wp_for_each)
  fix e d assume "e \<in> set es" "I d"
  then show "wp (agent_step cmds marshal e) (\<lambda>_. I) d"
    by (intro wp_mono [OF wp_agent_step]) (rule assms(1))
qed fact

section \<open>Goroutines that end and goroutines that do not\<close>

text \<open>How many steps of its own a cancelled goroutine has left.\<close>

fun steps_left :: "blink_pc \<Rightarrow> nat" where
  "steps_left Led1On = 6" | "steps_left Led1Off = 5" | "steps_left Led2On = 4" | "steps_left Led2Off = 3"
| "steps_left AskDone = 2" | "steps_left Deferred = 1" | "steps_left Returned = 0"

lemma steps_left_next: "steps_left (pc_next True pc) = steps_left pc - 1"
  by (cases pc) (simp_all add: pc_next_def)

lemma steps_left_bound: "steps_left pc \<le> 6"
  by (cases pc) simp_all


lemma wp_cancelled_run:
  assumes "blinkers d i = Some b" and "cancelled b" and "i < next_blinker d"
  shows "wp (run_agent cmds marshal es) (\<lambda>_ d'. \<exists>b'. blinkers d' i = Some b' \<and> cancelled b'
     \<and> steps_left (blink_at b') = steps_left (blink_at b) - length (filter (\<lambda>e. e = ABlink i) es)) d"
  using assms unfolding run_agent_def
proof (induction es arbitrary: d b)
  case (Cons e es)
  show ?case
    unfolding for_each.simps wp_thn
  proof (rule wp_mono [OF wp_agent_step])
    fix d'
    assume m: "lights_move e d d'"
    have "\<exists>b'. blinkers d' i = Some b' \<and> cancelled b' \<and> i < next_blinker d'
        \<and> steps_left (blink_at b') = steps_left (blink_at b) - (if e = ABlink i then 1 else 0)"
      using m Cons.prems
      by (cases e) (auto simp: lights_move_def lights_def stopped_lights_def maintenance_stopped_def steps_left_next
          split: if_splits option.splits)
    then obtain b' where b': "blinkers d' i = Some b'" "cancelled b'" "i < next_blinker d'"
        "steps_left (blink_at b') = steps_left (blink_at b) - (if e = ABlink i then 1 else 0)"
      by blast
    show "wp (for_each (agent_step cmds marshal) es) (\<lambda>_ d'. \<exists>b'. blinkers d' i = Some b' \<and> cancelled b'
       \<and> steps_left (blink_at b') = steps_left (blink_at b) - length (filter (\<lambda>e. e = ABlink i) (e # es))) d'"
      by (rule wp_mono [OF Cons.IH [OF b'(1-3)]]) (use b'(4) in auto)
  qed
qed (simp add: wp_ret)

text \<open>
  C36. Once it is cancelled the goroutine that blinks ends: whatever calls and other
  goroutines come between, its next six steps bring it to its return, and no event of the
  agent fails to return.
\<close>

theorem cancelled_blinking_ends:
  assumes "blinkers d i = Some b" and "cancelled b" and "i < next_blinker d"
    and "6 \<le> length (filter (\<lambda>e. e = ABlink i) es)"
  shows "\<exists>d'. run_agent cmds marshal es d = Returns ((), d')
    \<and> blinkers d' i = Some \<lparr>blink_at = Returned, cancelled = True\<rparr>"
proof -
  have "b' = \<lparr>blink_at = Returned, cancelled = True\<rparr>" if "cancelled b'" "steps_left (blink_at b') = 0" for b'
    using that by (cases b'; cases "blink_at b'") auto
  moreover have "steps_left (blink_at b) - length (filter (\<lambda>e. e = ABlink i) es) = 0"
    using assms(4) steps_left_bound [of "blink_at b"] by linarith
  ultimately show ?thesis
    using wp_cancelled_run [OF assms(1-3), of cmds marshal es] by (auto simp: wp_iff)
qed

text \<open>The agent after maintenance was ordered on a fresh start and then the device prepared.\<close>

definition no_commands :: commands where
  "no_commands args u = (CmdFailed ''exec: not found'' '''', u)"

definition fresh_agent :: rusalka where
  "fresh_agent = NewRusalka \<lparr>accounts = (\<lambda>_. None), dirs = (\<lambda>_. None), files = (\<lambda>_. None)\<rparr>
     (\<lambda>_. None) (\<lambda>_. None) ''boruta-user'' []"

definition in_maintenance :: "nat \<Rightarrow> rusalka" where
  "in_maintenance n = fresh_agent\<lparr>stm_log := concat (replicate n [ClearDisplay, PrintText 0 0 ''maintenance'']),
     cancelMaintenance := Some (n - 1), next_blinker := n,
     blinkers := (\<lambda>i. if i < n then Some \<lparr>blink_at = Led1On, cancelled = False\<rparr> else None)\<rparr>"

lemmas maintenance_simps = PutInMaintenance_def printMessage_def stm_def bnd_def thn_def ret_def gets_def modify_def

lemma cancelled_blinking_ends_witness:
  "\<exists>d'. run_agent no_commands FormatUint (replicate 6 (ABlink 0)) (maintenance_stopped (in_maintenance 1)) = Returns ((), d')
    \<and> blinkers d' 0 = Some \<lparr>blink_at = Returned, cancelled = True\<rparr>"
  by (rule cancelled_blinking_ends [where b = "\<lparr>blink_at = Led1On, cancelled = True\<rparr>"])
     (simp_all add: maintenance_stopped_def in_maintenance_def)

text \<open>
  Maintenance ordered twice is not stopped: when the device is put in maintenance while
  a goroutine blinks for an earlier order, that goroutine is never cancelled, whatever comes
  later; it blinks on also after the device has been prepared for a user.
\<close>

theorem second_maintenance_blinks_on:
  assumes "run_agent cmds marshal es (NewRusalka u fails answers name gs) = Returns ((), d)"
    and "cancelMaintenance d = Some i" and "PutInMaintenance msg d = Returns (None, d1)"
  shows "\<exists>d2 b. run_agent cmds marshal fs d1 = Returns ((), d2) \<and> blinkers d2 i = Some b
    \<and> \<not> cancelled b \<and> blink_at b \<notin> {Deferred, Returned}"
proof -
  define I where "I d \<longleftrightarrow> (\<forall>i. cancelMaintenance d = Some i \<longrightarrow> i < next_blinker d \<and>
      (\<exists>b. blinkers d i = Some b \<and> \<not> cancelled b \<and> blink_at b \<notin> {Deferred, Returned}))" for d :: rusalka
  define K where "K d \<longleftrightarrow> (\<forall>j. cancelMaintenance d = Some j \<longrightarrow> i < j) \<and> i < next_blinker d \<and>
      (\<exists>b. blinkers d i = Some b \<and> \<not> cancelled b \<and> blink_at b \<notin> {Deferred, Returned})" for d :: rusalka
  have pc: "pc_next False p \<noteq> Deferred" "pc_next False p = Returned \<longleftrightarrow> p \<in> {Deferred, Returned}" for p
    by (cases p; simp add: pc_next_def)+
  have "I d'" if "I d" "lights_move e d d'" for e d d'
    using that by (cases e) (auto simp: I_def pc lights_move_def lights_def stopped_lights_def maintenance_stopped_def
        split: option.splits)
  then have "wp (run_agent cmds marshal es) (\<lambda>_. I) (NewRusalka u fails answers name gs)"
    by (rule wp_run_agent) (simp_all add: I_def NewRusalka_def)
  then have "I d" using assms(1) by (auto simp: wp_iff)
  moreover have "lights d1 = (Some (next_blinker d), (blinkers d)(next_blinker d \<mapsto> \<lparr>blink_at = Led1On, cancelled = False\<rparr>),
      Suc (next_blinker d))"
    using wp_resultD [OF wp_PutInMaintenance assms(3)] by simp
  ultimately have "K d1"
    using assms(2) by (auto simp: I_def K_def lights_def)
  have turn: "K d'" if "K d" "lights_move e d d'" for e d d'
    using that by (cases e) (auto simp: K_def pc lights_move_def lights_def stopped_lights_def maintenance_stopped_def
        split: option.splits)
  have "wp (run_agent cmds marshal fs) (\<lambda>_. K) d1"
    by (rule wp_run_agent [where I = K]) (use turn \<open>K d1\<close> in blast)+
  then show ?thesis by (auto simp: wp_iff K_def)
qed

lemma second_maintenance_blinks_on_witness:
  "\<exists>d2 b. run_agent no_commands FormatUint [APrepare (Some 7), ABlink 0] (in_maintenance 2) = Returns ((), d2)
    \<and> blinkers d2 0 = Some b \<and> \<not> cancelled b \<and> blink_at b \<notin> {Deferred, Returned}"
proof -
  have "run_agent no_commands FormatUint [APutInMaintenance ''maintenance''] fresh_agent = Returns ((), in_maintenance 1)"
    "PutInMaintenance ''maintenance'' (in_maintenance 1) = Returns (None, in_maintenance 2)"
    by (simp_all add: in_maintenance_def fresh_agent_def NewRusalka_def run_agent_def agent_step_def maintenance_simps
        fun_eq_iff numeral_2_eq_2)
  then show ?thesis
    by (intro second_maintenance_blinks_on [where i = 0]) (auto simp: fresh_agent_def in_maintenance_def)
qed

section \<open>The key that opens the device\<close>

text \<open>
  C17. \<open>Prepare\<close> returns, stops the maintenance that was ordered last, and, if it reports
  no error, the account exists and its file of authorized keys holds the given key and
  nothing else and belongs, like its directory, to the account.
\<close>

theorem prepare_grants_key:
  "\<exists>err d'. Prepare cmds marshal key d = Returns (err, d') \<and> cancelMaintenance d' = None
    \<and> (\<forall>i. cancelMaintenance d = Some i \<longrightarrow> blinkers d' i = map_option (\<lambda>b. b\<lparr>cancelled := True\<rparr>) (blinkers d i))
    \<and> (err = None \<longrightarrow> (\<exists>k acc uid gid f. key = Some k \<and> accounts (unix d') (username d) = Some acc
         \<and> Atoi (Uid acc) = Inr uid \<and> Atoi (Gid acc) = Inr gid
         \<and> files (unix d') (path_Join [path_Join [HomeDir acc, ''.ssh''], ''authorized_keys'']) = Some f
         \<and> content f = marshal k \<and> file_owner f = (uid, gid)
         \<and> map_option dir_owner (dirs (unix d') (path_Join [HomeDir acc, ''.ssh''])) = Some (uid, gid)))"
proof -
  obtain err d' where run: "Prepare cmds marshal key d = Returns (err, d')"
    and board: "board d' = board (maintenance_stopped d)" and good: "err = None \<longrightarrow> prepared_with cmds marshal key d d'"
    using wp_Prepare [of cmds marshal key d] by (auto simp: wp_iff)
  moreover have "cancelMaintenance d' = None \<and> (\<forall>i. cancelMaintenance d = Some i \<longrightarrow>
      blinkers d' i = map_option (\<lambda>b. b\<lparr>cancelled := True\<rparr>) (blinkers d i))"
    using board by (auto simp: board_def maintenance_stopped_def split: option.splits)
  ultimately show ?thesis
    by (fastforce simp: prepared_with_def has_key_file_def keys_file_def ssh_dir_def)
qed

text \<open>
  What the manual pages say of the two commands the agent runs.  \<open>userdel\<close> removes the account,
  and with \<open>-r\<close>, and only then, the files in its home directory; \<open>-f\<close> and \<open>-Z\<close> are its
  other flags.  \<open>useradd\<close> with \<open>-p\<close>, \<open>-m\<close> and \<open>-G\<close> creates the account and fills its home
  directory from the skeleton.
\<close>

definition under :: "string \<Rightarrow> string \<Rightarrow> bool" where
  "under home p \<longleftrightarrow> (\<exists>q. p = home @ ''/'' @ q)"

definition userdel_removes :: "commands \<Rightarrow> bool" where
  "userdel_removes cmds \<longleftrightarrow> (\<forall>flags name u u' out acc. set flags \<subseteq> {''-r'', ''-f'', ''-Z''} \<longrightarrow>
     cmds ([''userdel''] @ flags @ [name]) u = (CmdDone out, u') \<longrightarrow> accounts u name = Some acc \<longrightarrow>
     accounts u' name = None \<and> (''-r'' \<in> set flags \<longrightarrow> (\<forall>p. under (HomeDir acc) p \<longrightarrow> files u' p = None)))"

definition useradd_copies :: "string set \<Rightarrow> commands \<Rightarrow> bool" where
  "useradd_copies skel cmds \<longleftrightarrow> (\<forall>password groups name u u' out.
     cmds [''useradd'', ''-p'', password, ''-m'', ''-G'', groups, name] u = (CmdDone out, u') \<longrightarrow>
     accounts u' name \<noteq> None \<and> (\<forall>p f. files u' p = Some f \<longrightarrow> files u p = Some f \<or> content f \<in> skel))"

lemma userdel_removesD:
  assumes "userdel_removes cmds" and "cmds (prepareUserDelCmd name) u = (CmdDone out, u')" and "accounts u name = Some acc"
    and "under (HomeDir acc) p"
  shows "files u' p = None"
proof -
  have "prepareUserDelCmd name = [''userdel''] @ [''-r'', ''-f''] @ [name]" by (simp add: prepareUserDelCmd_def)
  moreover have "set [''-r'', ''-f''] \<subseteq> {''-r'', ''-f'', ''-Z''}" by simp
  ultimately show ?thesis using assms unfolding userdel_removes_def by (metis list.set_intros(1))
qed

text \<open>
  C16. Nothing of the user before is left: if \<open>Prepare\<close> reports no error, then each file below
  the home directory the account had is a copy from the skeleton of new accounts or holds the
  new key.  The commands do with their flags what they are documented to, so the home
  directory goes because the agent asks for it.
\<close>

theorem prepare_forgets_user:
  assumes "userdel_removes cmds" and "useradd_copies skel cmds"
    and "accounts (unix d) (username d) = Some old" and "Prepare cmds marshal (Some k) d = Returns (None, d')"
    and "under (HomeDir old) p" and "files (unix d') p = Some f"
  shows "content f = marshal k \<or> content f \<in> skel"
proof -
  obtain acc u v where u: "account_removed cmds (username d) (unix d) u"
    and v: "account_added cmds (username d) (groups d) u v"
    and d': "\<forall>q. q \<noteq> keys_file acc \<longrightarrow> files (unix d') q = files v q" "has_key_file acc (marshal k) (key_mode acc v) (unix d')"
    using wp_resultD [OF wp_Prepare assms(4)] by (auto simp: prepared_with_def)
  have "files u p = None"
    using u assms(1,3,5) by (auto simp: account_removed_def intro: userdel_removesD)
  then have "files v p = Some f \<Longrightarrow> content f \<in> skel"
    using v assms(2) unfolding account_added_def useradd_copies_def prepareUserAddCmd_def by fastforce
  moreover have "content f = marshal k" if "p = keys_file acc"
    using d'(2) assms(6) that by (auto simp: has_key_file_def)
  ultimately show ?thesis using d'(1) assms(6) by metis
qed

text \<open>A system with the two commands, on which they work.\<close>

definition demo_account :: account where
  "demo_account = \<lparr>Uid = ''1000'', Gid = ''1000'', HomeDir = ''/home/u''\<rparr>"

definition demo_commands :: commands where
  "demo_commands args u = (
     if hd args = ''userdel'' then
       (case accounts u (last args) of
          None \<Rightarrow> (CmdExit 6 ''exit status 6'' '''', u)
        | Some acc \<Rightarrow> (CmdDone '''', u\<lparr>accounts := (accounts u)(last args := None),
            files := (\<lambda>p. if ''-r'' \<in> set args \<and> take (length (HomeDir acc) + 1) p = HomeDir acc @ ''/'' then None else files u p)\<rparr>))
     else (CmdDone '''', u\<lparr>accounts := (accounts u)(last args \<mapsto> demo_account),
            files := (files u)(''/home/u/.profile'' \<mapsto> \<lparr>content = ''umask 022'', file_owner = (1000, 1000), file_mode = 420\<rparr>)\<rparr>))"

definition used_agent :: rusalka where
  "used_agent = NewRusalka \<lparr>accounts = [''u'' \<mapsto> demo_account], dirs = (\<lambda>_. None),
     files = [''/home/u/secret'' \<mapsto> \<lparr>content = ''of user 1'', file_owner = (1000, 1000), file_mode = 384\<rparr>]\<rparr>
     (\<lambda>_. None) (\<lambda>_. None) ''u'' []"

lemma demo_commands_work: "userdel_removes demo_commands" "useradd_copies {''umask 022''} demo_commands"
  by (auto simp: userdel_removes_def useradd_copies_def demo_commands_def under_def split: if_splits option.splits)

lemma demo_paths:
  "path_Join [''/home/u'', ''.ssh''] = ''/home/u/.ssh''"
  "path_Join [''/home/u/.ssh'', ''authorized_keys''] = ''/home/u/.ssh/authorized_keys''"
  "ancestors ''/home/u/.ssh'' = [''/home'', ''/home/u'', ''/home/u/.ssh'']"
  "ancestors ''/home/u/.ssh/authorized_keys'' = [''/home'', ''/home/u'', ''/home/u/.ssh'', ''/home/u/.ssh/authorized_keys'']"
  "Atoi ''1000'' = Inr 1000"
  by (simp_all add: path_Join_def path_Clean_def ancestors_def upt_rec Atoi_def is_digit_def)

lemma used_agent_prepared:
  "wp (Prepare demo_commands FormatUint (Some 7)) (\<lambda>err d'. err = None \<and> files (unix d') ''/home/u/.profile'' \<noteq> None
     \<and> accounts (unix d') ''u'' = Some demo_account) used_agent"
  by (simp add: used_agent_def NewRusalka_def Prepare_def wp_simps bu_delete_def bu_add_def ticked_def demo_commands_def
      prepareUserDelCmd_def prepareUserAddCmd_def handleUserCmdError_def installKey_def installPublicKey_def demo_account_def
      demo_paths os_MkdirAll_def os_OpenFile_def os_Chown_def file_Chown_def file_Write_def make_dirs_def truncated_def)

lemma prepare_grants_key_witness:
  "\<exists>d' f. Prepare demo_commands FormatUint (Some 7) used_agent = Returns (None, d')
    \<and> files (unix d') ''/home/u/.ssh/authorized_keys'' = Some f \<and> content f = FormatUint 7"
proof -
  obtain d' where d': "Prepare demo_commands FormatUint (Some 7) used_agent = Returns (None, d')"
      "accounts (unix d') ''u'' = Some demo_account"
    using used_agent_prepared by (auto simp: wp_iff)
  have name: "username used_agent = ''u''" "HomeDir demo_account = ''/home/u''"
    by (simp_all add: used_agent_def NewRusalka_def demo_account_def)
  from prepare_grants_key [of demo_commands FormatUint "Some 7" used_agent] d' show ?thesis
    by (auto simp: name demo_paths)
qed

lemma prepare_forgets_user_witness:
  "\<exists>d' f. Prepare demo_commands FormatUint (Some 7) used_agent = Returns (None, d')
    \<and> files (unix d') ''/home/u/.profile'' = Some f \<and> (content f = FormatUint 7 \<or> content f \<in> {''umask 022''})"
proof -
  obtain d' f where d': "Prepare demo_commands FormatUint (Some 7) used_agent = Returns (None, d')"
    "files (unix d') ''/home/u/.profile'' = Some f"
    using used_agent_prepared by (auto simp: wp_iff)
  have "content f = FormatUint 7 \<or> content f \<in> {''umask 022''}"
    by (rule prepare_forgets_user [OF demo_commands_work _ d'(1) _ d'(2), of demo_account])
       (simp_all add: used_agent_def NewRusalka_def under_def demo_account_def)
  with d' show ?thesis by blast
qed

end
