(* ===== verification/Fleet.thy ===== *)
theory Fleet
  imports Registration Guarantees DryadGuarantees
begin

text \<open>
  The server together with the agents on the devices.  A worker's background goroutine calls
  the agent of its device over \<open>rpc/dryad\<close>: \<open>Prepare\<close> with the public half of the key it
  has generated, and \<open>PutInMaintenance\<close>.  The call may fail on the way to the agent or back.
  Everything else the server and the agents do interleaves with this freely, but for the
  removal of workers: a goroutine that outlives its worker in the middle of a call may
  install its key after the device has been registered and prepared anew.
\<close>

section \<open>Server and agents\<close>

record fleet =
  srv :: server
  agents :: "WorkerUUID \<Rightarrow> rusalka"

fun free_event :: "event \<Rightarrow> bool" where
  "free_event (EBackground a key c) = False"
| "free_event (EDeregister u) = False"
| "free_event _ = True"

text \<open>The goroutine \<open>c\<close> is about to call its agent.\<close>

definition calls_agent :: "bg \<Rightarrow> bool" where
  "calls_agent g \<longleftrightarrow> \<not> must_check g \<and> (bg_pc g = PmOrder \<or> (\<exists>k. bg_pc g = PkInstall k))"

definition agent_call :: "commands \<Rightarrow> (PublicKey \<Rightarrow> string) \<Rightarrow> (PrivateKey \<Rightarrow> PublicKey) \<Rightarrow> bg_pc \<Rightarrow> string option dop" where
  "agent_call cmds marshal pub pc = (let client = rusalka_server cmds marshal in
     case pc of PkInstall k \<Rightarrow> DryadClient_Prepare client (Some (pub k))
              | _ \<Rightarrow> DryadClient_PutInMaintenance client ''maintenance'')"

inductive fleet_step :: "(string \<Rightarrow> string + TCPAddr) \<Rightarrow> commands \<Rightarrow> (PublicKey \<Rightarrow> string)
    \<Rightarrow> (PrivateKey \<Rightarrow> PublicKey) \<Rightarrow> fleet \<Rightarrow> fleet \<Rightarrow> bool" for resolve cmds marshal pub where
  event: "free_event e \<Longrightarrow> enabled e s \<Longrightarrow> run_event resolve e s = Returns ((), t) \<Longrightarrow>
     fleet_step resolve cmds marshal pub \<lparr>srv = s, agents = ag\<rparr> \<lparr>srv = t, agents = ag\<rparr>"
| background: "bgs s c = Some g \<Longrightarrow> \<not> calls_agent g \<Longrightarrow> bg_step answer key c s = Returns ((), t) \<Longrightarrow>
     fleet_step resolve cmds marshal pub \<lparr>srv = s, agents = ag\<rparr> \<lparr>srv = t, agents = ag\<rparr>"
| answered: "bgs s c = Some g \<Longrightarrow> calls_agent g \<Longrightarrow>
     agent_call cmds marshal pub (bg_pc g) (ag (bg_uuid g)) = Returns (err, d) \<Longrightarrow>
     bg_step (map_option OtherError err) key c s = Returns ((), t) \<Longrightarrow>
     fleet_step resolve cmds marshal pub \<lparr>srv = s, agents = ag\<rparr> \<lparr>srv = t, agents = ag(bg_uuid g := d)\<rparr>"
| broken: "bgs s c = Some g \<Longrightarrow> calls_agent g \<Longrightarrow>
     d = ag (bg_uuid g) \<or> (\<exists>err. agent_call cmds marshal pub (bg_pc g) (ag (bg_uuid g)) = Returns (err, d)) \<Longrightarrow>
     bg_step (Some e) key c s = Returns ((), t) \<Longrightarrow>
     fleet_step resolve cmds marshal pub \<lparr>srv = s, agents = ag\<rparr> \<lparr>srv = t, agents = ag(bg_uuid g := d)\<rparr>"
| blink: "blink_step i (ag u) = Returns ((), d) \<Longrightarrow>
     fleet_step resolve cmds marshal pub \<lparr>srv = s, agents = ag\<rparr> \<lparr>srv = s, agents = ag(u := d)\<rparr>"

inductive fleet_reachable :: "(string \<Rightarrow> string + TCPAddr) \<Rightarrow> commands \<Rightarrow> (PublicKey \<Rightarrow> string)
    \<Rightarrow> (PrivateKey \<Rightarrow> PublicKey) \<Rightarrow> fleet \<Rightarrow> bool" for resolve cmds marshal pub where
  init: "fleet_reachable resolve cmds marshal pub \<lparr>srv = start_server clk tz prt far, agents = ag\<rparr>"
| more: "fleet_reachable resolve cmds marshal pub f \<Longrightarrow> fleet_step resolve cmds marshal pub f f' \<Longrightarrow>
     fleet_reachable resolve cmds marshal pub f'"

text \<open>A run of the fleet is a run of the server.\<close>

lemma fleet_step_server: "fleet_step resolve cmds marshal pub f f' \<Longrightarrow> srv f' = srv f \<or> step resolve (srv f) (srv f')"
  by (induction rule: fleet_step.induct)
     (auto intro: step.event step.event [of "EBackground a k c" for a k c, simplified])

lemma fleet_server: "fleet_reachable resolve cmds marshal pub f \<Longrightarrow> reachable resolve (srv f)"
  by (induction rule: fleet_reachable.induct)
     (auto intro: reachable.init dest: fleet_step_server intro: reachable.more)

section \<open>What the agents' keys have to do with the server\<close>

text \<open>The key opens the device: it is what the account's file of authorized keys holds.\<close>

definition opens :: "(PublicKey \<Rightarrow> string) \<Rightarrow> (PrivateKey \<Rightarrow> PublicKey) \<Rightarrow> rusalka \<Rightarrow> PrivateKey \<Rightarrow> bool" where
  "opens marshal pub d k \<longleftrightarrow> (\<exists>acc f. accounts (unix d) (username d) = Some acc
     \<and> files (unix d) (keys_file acc) = Some f \<and> content f = marshal (pub k))"

text \<open>
  \<open>op u k\<close> says that the key \<open>k\<close> opens the device \<open>u\<close>.  While the worker is idle or runs,
  its goroutine rests, nothing else is in its channel, and the stored key opens it; in the
  middle of a preparation the key that was installed last opens it.
\<close>

definition at_rest :: "WorkerState \<Rightarrow> bool" where
  "at_rest st \<longleftrightarrow> st \<in> {IDLE, RUN}"

definition resting :: "bg_pc \<Rightarrow> bool" where
  "resting pc \<longleftrightarrow> (\<exists>p. pc = AtLoop p \<and> (op_got p \<longrightarrow> op_open p \<and> at_rest (op_state p)))"

definition keyed :: "(PrivateKey \<Rightarrow> bool) \<Rightarrow> mapWorker \<Rightarrow> WorkerState list \<Rightarrow> bg_pc \<Rightarrow> bool" where
  "keyed op w buffer pc \<longleftrightarrow>
     (at_rest (WState (info w)) \<longrightarrow> (\<forall>st \<in> set buffer. at_rest st) \<and> resting pc \<and> (\<exists>k. wkey w = Some k \<and> op k))
     \<and> (\<forall>k. pc = PkStore k \<longrightarrow> op k)
     \<and> (pc = Settle IDLE None \<longrightarrow> (\<exists>k. wkey w = Some k \<and> op k))
     \<and> (\<forall>st err. pc = Settle st err \<longrightarrow> st \<in> {IDLE, MAINTENANCE})"

type_synonym view = "(WorkerUUID \<rightharpoonup> mapWorker) \<times> (nat \<Rightarrow> chan) \<times> nat \<times> (nat \<rightharpoonup> bg) \<times> (WorkerUUID \<rightharpoonup> Job)"

definition vw :: "server \<Rightarrow> view" where
  "vw s = (workers (wl s), chans s, next_chan s, bgs s, jobs s)"

definition devices_ok :: "(WorkerUUID \<Rightarrow> PrivateKey \<Rightarrow> bool) \<Rightarrow> view \<Rightarrow> bool" where
  "devices_ok op v \<longleftrightarrow> (case v of (ws, chs, n, gs, js) \<Rightarrow>
     (\<forall>u w. ws u = Some w \<longrightarrow> WUUID (info w) = u \<and> backgroundOperation w < n
        \<and> (\<exists>g. gs (backgroundOperation w) = Some g \<and> bg_uuid g = u \<and> \<not> closed (chs (backgroundOperation w))
               \<and> keyed (op u) w (buf (chs (backgroundOperation w))) (bg_pc g)))
     \<and> (\<forall>c g. gs c = Some g \<longrightarrow> (\<exists>w. ws (bg_uuid g) = Some w \<and> backgroundOperation w = c))
     \<and> (\<forall>u j. js u = Some j \<longrightarrow> (\<exists>w. ws u = Some w \<and> wkey w = Some (Key (Access j)))))"

abbreviation dok :: "(WorkerUUID \<Rightarrow> PrivateKey \<Rightarrow> bool) \<Rightarrow> server \<Rightarrow> bool" where
  "dok op s \<equiv> devices_ok op (vw s)"

lemma keeps_view: "preserves vw m \<Longrightarrow> keeps (dok op) m"
  by (auto simp: keeps_def wlp_def preserves_def)

section \<open>Changing a worker, a goroutine, a job\<close>

lemma devices_okD:
  assumes "devices_ok op (ws, chs, n, gs, js)" and "ws u = Some w"
  shows "WUUID (info w) = u" "backgroundOperation w < n"
    "\<exists>g. gs (backgroundOperation w) = Some g \<and> bg_uuid g = u \<and> \<not> closed (chs (backgroundOperation w))
       \<and> keyed (op u) w (buf (chs (backgroundOperation w))) (bg_pc g)"
  using assms by (auto simp: devices_ok_def)

lemma devices_ok_bg:
  "devices_ok op (ws, chs, n, gs, js) \<Longrightarrow> gs c = Some g \<Longrightarrow> \<exists>w. ws (bg_uuid g) = Some w \<and> backgroundOperation w = c"
  by (simp add: devices_ok_def)

lemma devices_ok_job:
  "devices_ok op (ws, chs, n, gs, js) \<Longrightarrow> js u = Some j \<Longrightarrow> \<exists>w. ws u = Some w \<and> wkey w = Some (Key (Access j))"
  by (simp add: devices_ok_def)

lemma devices_ok_inj:
  assumes "devices_ok op (ws, chs, n, gs, js)" and "ws u = Some w" and "ws v = Some x"
    and "backgroundOperation w = backgroundOperation x"
  shows "u = v"
  using devices_okD(3) [OF assms(1,2)] devices_okD(3) [OF assms(1,3)] assms(4) by force

text \<open>The worker \<open>u\<close>, its channel and its goroutine change; everything else is untouched.\<close>

lemma devices_ok_upd:
  assumes ok: "devices_ok op (ws, chs, n, gs, js)" and w: "ws u = Some w" and c: "backgroundOperation w = c"
    and w': "WUUID (info w') = u" "backgroundOperation w' = c" "wkey w' = wkey w \<or> js u = None"
    and ch: "\<not> closed ch" and g: "gs c = Some g" "bg_uuid g' = u" and k: "keyed (op u) w' (buf ch) (bg_pc g')"
    and js: "\<And>v j. js' v = Some j \<Longrightarrow> js v = Some j"
  shows "devices_ok op (ws(u \<mapsto> w'), chs(c := ch), n, gs(c \<mapsto> g'), js')"
proof -
  have other: "backgroundOperation x \<noteq> c" if "ws v = Some x" "v \<noteq> u" for v x
    using devices_ok_inj [OF ok that(1) w] that c by auto
  have new: "c < n" using devices_okD(2) [OF ok w] c by simp
  have gu: "bg_uuid h = u" if "gs c = Some h" for h
    using devices_okD(3) [OF ok w] c that by auto
  show ?thesis
    unfolding devices_ok_def prod.case
  proof (intro conjI allI impI)
    fix v x assume x: "(ws(u \<mapsto> w')) v = Some x"
    show "WUUID (info x) = v" "backgroundOperation x < n"
      using x w' new devices_okD(1,2) [OF ok] by (auto split: if_splits)
    show "\<exists>h. (gs(c \<mapsto> g')) (backgroundOperation x) = Some h \<and> bg_uuid h = v
        \<and> \<not> closed ((chs(c := ch)) (backgroundOperation x))
        \<and> keyed (op v) x (buf ((chs(c := ch)) (backgroundOperation x))) (bg_pc h)"
      using x w' ch g k other devices_okD(3) [OF ok] by (cases "v = u") auto
  next
    fix d h assume h: "(gs(c \<mapsto> g')) d = Some h"
    show "\<exists>x. (ws(u \<mapsto> w')) (bg_uuid h) = Some x \<and> backgroundOperation x = d"
    proof (cases "d = c")
      case True
      with h g w' show ?thesis by simp
    next
      case False
      with h have "gs d = Some h" by simp
      then obtain x where x: "ws (bg_uuid h) = Some x" "backgroundOperation x = d"
        using devices_ok_bg [OF ok] by blast
      with False c w have "bg_uuid h \<noteq> u" by auto
      with x show ?thesis by simp
    qed
  next
    fix v j assume "js' v = Some j"
    then have j: "js v = Some j" by (rule js)
    show "\<exists>x. (ws(u \<mapsto> w')) v = Some x \<and> wkey x = Some (Key (Access j))"
      using devices_ok_job [OF ok j] w w'(3) j by (cases "v = u") auto
  qed
qed

lemma keyed_work: "\<not> at_rest (WState (info w)) \<Longrightarrow> keyed op w' b' pc \<Longrightarrow> wkey w' = wkey w \<Longrightarrow> keyed op w b pc"
  by (auto simp: keyed_def)

lemma keyed_rest:
  "at_rest (WState (info w')) \<Longrightarrow> keyed op w' b' pc \<Longrightarrow> wkey w = wkey w' \<Longrightarrow> (\<forall>st \<in> set b. at_rest st) \<Longrightarrow> keyed op w b pc"
  by (auto simp: keyed_def)

section \<open>Setting a state\<close>

lemma vw_callbacks [preserves_intros]: "preserves vw (OnWorkerIdle u)" "preserves vw (pushRequest r)"
    "preserves vw (removeRequest r)" "preserves vw (setRequestPriority r p)" "preserves vw (times_insert k x)"
    "preserves vw time_Now" "preserves vw (upd_request i f)" "preserves vw (put_request i r)" "preserves vw get_requests"
    "preserves vw get_workers" "preserves vw (lock l)" "preserves vw (unlock l)"
  unfolding OnWorkerIdle_def pushRequest_def removeRequest_def setRequestPriority_def times_insert_def put_request_def op_defs
  by (intro preserves_intros; simp add: vw_def)+

lemma vw_critical [preserves_intros]: "preserves vw m \<Longrightarrow> preserves vw (critical l m)"
  unfolding critical_def by (intro preserves_intros)

lemma keeps_critical [keeps_intros]: "keeps (dok op) m \<Longrightarrow> keeps (dok op) (critical l m)"
  unfolding critical_def
  by (intro keeps_thn keeps_bnd keeps_basic keeps_view [OF vw_callbacks(11)] keeps_view [OF vw_callbacks(12)])

lemma wlp_OnWorkerFail_vw:
  "wlp (OnWorkerFail u) (\<lambda>_ t. \<exists>js. vw t = (workers (wl s), chans s, next_chan s, bgs s, js) \<and> js \<in> {jobs s, (jobs s)(u := None)}) s"
  by (auto simp: OnWorkerFail_def jobs_Get_def wlp_simps vw_def split: option.split)

text \<open>What \<open>setState\<close> does to the view: the state is sent and stored, and a job may end.\<close>

lemma wlp_setState_vw:
  assumes "workers (wl s) u = Some w" and "backgroundOperation w = c"
  shows "wlp (setState u st) (\<lambda>_ t. \<not> closed (chans s c) \<and> (\<exists>js. js \<in> {jobs s, (jobs s)(u := None)} \<and>
     vw t = ((workers (wl s))(u \<mapsto> w\<lparr>info := (info w)\<lparr>WState := st\<rparr>\<rparr>),
             (chans s)(c := (chans s c)\<lparr>buf := buf (chans s c) @ [st]\<rparr>), next_chan s, bgs s, js))) s"
proof -
  let ?chs = "(chans s)(c := (chans s c)\<lparr>buf := buf (chans s c) @ [st]\<rparr>)"
  let ?J = "\<lambda>t. \<exists>js. js \<in> {jobs s, (jobs s)(u := None)} \<and> vw t = (workers (wl s), ?chs, next_chan s, bgs s, js)"
  let ?Q = "\<lambda>t. \<not> closed (chans s c) \<and> (\<exists>js. js \<in> {jobs s, (jobs s)(u := None)} \<and>
     vw t = ((workers (wl s))(u \<mapsto> w\<lparr>info := (info w)\<lparr>WState := st\<rparr>\<rparr>), ?chs, next_chan s, bgs s, js))"
  have fail: "keeps ?J (OnWorkerFail u)"
    unfolding keeps_def
  proof (intro allI impI)
    fix t assume "?J t"
    then show "wlp (OnWorkerFail u) (\<lambda>_. ?J) t"
      by (intro wlp_mono [OF wlp_OnWorkerFail_vw]) (auto simp: vw_def)
  qed
  have idle: "keeps ?J (OnWorkerIdle u)"
    using vw_callbacks(1) by (auto simp: keeps_def wlp_def preserves_def)
  have tell: "wlp (bnd (gets (\<lambda>s. changeListener (wl s))) (\<lambda>listening.
       if listening
       then thn (if st = IDLE then OnWorkerIdle u else ret ()) (if cond then OnWorkerFail u else ret ())
       else ret ())) (\<lambda>_. wlp (thn (upd_worker u (\<lambda>w. w\<lparr>info := (info w)\<lparr>WState := st\<rparr>\<rparr>)) (ret None)) (\<lambda>_. ?Q)) t"
    if "\<not> closed (chans s c)" "?J t" for t cond
  proof -
    have "wlp (bnd (gets (\<lambda>s. changeListener (wl s))) (\<lambda>listening.
       if listening
       then thn (if st = IDLE then OnWorkerIdle u else ret ()) (if cond then OnWorkerFail u else ret ())
       else ret ())) (\<lambda>_. ?J) t"
      by (rule wlp_keeps [where I = ?J]) (intro keeps_intros fail idle, fact that(2))
    then show ?thesis
      by (rule wlp_mono) (use assms that(1) in \<open>auto simp: wlp_simps upd_worker_def vw_def\<close>)
  qed
  have send: "wlp (chan_send c st) (\<lambda>_ t. \<not> closed (chans s c) \<and> ?J t) s"
    by (auto simp: chan_send_def wlp_simps vw_def)
  show ?thesis
    unfolding setState_def wlp_bnd [of get_workers] wlp_state assms(1) option.case assms(2)
      wlp_thn [of "chan_send c st"] wlp_thn [of "bnd (gets (\<lambda>s. changeListener (wl s))) h" for h]
    by (rule wlp_mono [OF send], rule tell) auto
qed

text \<open>A state that is not at rest may be set at any time; a restful one only after another.\<close>

lemma wlp_setState_dok:
  assumes ok: "dok op s" and st: "at_rest st \<Longrightarrow> \<exists>w. workers (wl s) u = Some w \<and> at_rest (WState (info w))"
  shows "wlp (setState u st) (\<lambda>_. dok op) s"
proof (cases "workers (wl s) u")
  case None
  with ok show ?thesis by (simp add: setState_def wlp_simps)
next
  case (Some w)
  note ok' = ok [unfolded vw_def]
  obtain g where g: "bgs s (backgroundOperation w) = Some g" "bg_uuid g = u"
      "keyed (op u) w (buf (chans s (backgroundOperation w))) (bg_pc g)"
    using devices_okD(3) [OF ok' Some] by blast
  let ?c = "backgroundOperation w" and ?w = "w\<lparr>info := (info w)\<lparr>WState := st\<rparr>\<rparr>"
  let ?ch = "(chans s ?c)\<lparr>buf := buf (chans s ?c) @ [st]\<rparr>"
  have k: "keyed (op u) ?w (buf ?ch) (bg_pc g)"
  proof (cases "at_rest st")
    case True
    with st Some g(3) show ?thesis by (auto simp: keyed_def)
  next
    case False
    then show ?thesis by (intro keyed_work [OF _ g(3)]) auto
  qed
  have "gs = gs(c \<mapsto> g)" if "gs c = Some g" for gs :: "nat \<rightharpoonup> bg" and c
    using that by (simp add: fun_upd_idem)
  then have gs: "bgs s = (bgs s)(?c \<mapsto> g)" using g(1) by blast
  have "devices_ok op ((workers (wl s))(u \<mapsto> ?w), (chans s)(?c := ?ch), next_chan s, (bgs s)(?c \<mapsto> g), js)"
    if "js \<in> {jobs s, (jobs s)(u := None)}" "\<not> closed (chans s ?c)" for js
    by (rule devices_ok_upd [OF ok' Some refl _ _ _ _ g(1,2) k])
       (use devices_okD(1) [OF ok' Some] that in \<open>auto split: if_splits\<close>)
  then show ?thesis
    by (intro wlp_mono [OF wlp_setState_vw [OF Some refl]]) (auto simp: gs [symmetric])
qed

lemma keeps_setState [keeps_intros]: "\<not> at_rest st \<Longrightarrow> keeps (dok op) (setState u st)"
  by (auto simp: keeps_def intro: wlp_setState_dok)

lemma work_states [simp]: "\<not> at_rest PREPARE" "\<not> at_rest BUSY" "\<not> at_rest FAIL" "\<not> at_rest MAINTENANCE"
    "at_rest IDLE" "at_rest RUN"
  by (simp_all add: at_rest_def)

section \<open>The operations of the server\<close>

lemma keeps_upd_worker [keeps_intros]:
  assumes f: "\<And>w. WUUID (info (f w)) = WUUID (info w) \<and> WState (info (f w)) = WState (info w)
     \<and> wkey (f w) = wkey w \<and> backgroundOperation (f w) = backgroundOperation w"
  shows "keeps (dok op) (upd_worker u f)"
  unfolding keeps_def
proof (intro allI impI)
  fix s :: server assume ok: "dok op s"
  note ok' = ok [unfolded vw_def]
  show "wlp (upd_worker u f) (\<lambda>_. dok op) s"
  proof (cases "workers (wl s) u")
    case None
    with ok show ?thesis by (simp add: upd_worker_def wlp_simps vw_def fun_upd_idem)
  next
    case (Some w)
    obtain g where g: "bgs s (backgroundOperation w) = Some g" "bg_uuid g = u" "\<not> closed (chans s (backgroundOperation w))"
        "keyed (op u) w (buf (chans s (backgroundOperation w))) (bg_pc g)"
      using devices_okD(3) [OF ok' Some] by blast
    have "keyed (op u) (f w) (buf (chans s (backgroundOperation w))) (bg_pc g)"
      using g(4) f [of w] by (simp add: keyed_def)
    then have "devices_ok op ((workers (wl s))(u \<mapsto> f w),
        (chans s)(backgroundOperation w := chans s (backgroundOperation w)), next_chan s,
        (bgs s)(backgroundOperation w \<mapsto> g), jobs s)"
      by (intro devices_ok_upd [OF ok' Some refl _ _ _ g(3,1,2)]) (use f [of w] devices_okD(1) [OF ok' Some] in auto)
    moreover have "(bgs s)(backgroundOperation w \<mapsto> g) = bgs s" using g(1) by (simp add: fun_upd_idem)
    ultimately show ?thesis using Some by (simp add: upd_worker_def wlp_simps vw_def)
  qed
qed

lemma devices_ok_new:
  assumes ok: "devices_ok op (ws, chs, n, gs, js)" and u: "ws u = None"
    and w: "WUUID (info w) = u" "backgroundOperation w = n" "\<not> at_rest (WState (info w))"
    and g: "bg_uuid g = u" "bg_pc g = AtLoop p"
  shows "devices_ok op (ws(u \<mapsto> w), chs(n := \<lparr>buf = [], closed = False\<rparr>), Suc n, gs(n \<mapsto> g), js)"
proof -
  have old: "backgroundOperation x < n" if "ws v = Some x" for v x
    by (rule devices_okD(2) [OF ok that])
  show ?thesis
    unfolding devices_ok_def prod.case
  proof (intro conjI allI impI)
    fix v x assume x: "(ws(u \<mapsto> w)) v = Some x"
    show "WUUID (info x) = v" "backgroundOperation x < Suc n"
      using x w old devices_okD(1) [OF ok] by (auto simp: less_Suc_eq split: if_splits)
    show "\<exists>h. (gs(n \<mapsto> g)) (backgroundOperation x) = Some h \<and> bg_uuid h = v
        \<and> \<not> closed ((chs(n := \<lparr>buf = [], closed = False\<rparr>)) (backgroundOperation x))
        \<and> keyed (op v) x (buf ((chs(n := \<lparr>buf = [], closed = False\<rparr>)) (backgroundOperation x))) (bg_pc h)"
    proof (cases "v = u")
      case True
      with x w g show ?thesis by (simp add: keyed_def)
    next
      case False
      with x have "ws v = Some x" by simp
      with devices_okD(3) [OF ok this] old [OF this] show ?thesis by auto
    qed
  next
    fix d h assume "(gs(n \<mapsto> g)) d = Some h"
    with g w u devices_ok_bg [OF ok, of d h] show "\<exists>x. (ws(u \<mapsto> w)) (bg_uuid h) = Some x \<and> backgroundOperation x = d"
      by (auto split: if_splits)
  next
    fix v j assume "js v = Some j"
    from devices_ok_job [OF ok this] u show "\<exists>x. (ws(u \<mapsto> w)) v = Some x \<and> wkey x = Some (Key (Access j))"
      by auto
  qed
qed

lemma keeps_PrepareWorker [keeps_intros]: "keeps (dok op) (PrepareWorker u k)"
  unfolding PrepareWorker_def
proof (rule keeps_critical)
  show "keeps (dok op) (bnd get_workers (\<lambda>m. case m u of
       None \<Rightarrow> ret (Some ErrWorkerNotFound)
     | Some worker \<Rightarrow>
         if WState (info worker) \<noteq> RUN then ret (Some ErrForbiddenStateChange)
         else if \<not> k then setState u IDLE
         else setState u PREPARE))"
    by (auto simp: keeps_def wlp_simps intro!: wlp_setState_dok split: option.split)
qed

lemma keeps_workers [keeps_intros]:
  "keeps (dok op) (SetFail u reason)" "keeps (dok op) (SetState u name)" "keeps (dok op) (SetGroups u gs)"
  "keeps (dok op) (GetWorkerInfo u)" "keeps (dok op) (getWorkerAddr u)" "keeps (dok op) (GetWorkerSSHAddr u)"
  unfolding SetFail_def SetState_def SetGroups_def GetWorkerInfo_def getWorkerAddr_def GetWorkerSSHAddr_def get_workers_def
  by (intro keeps_intros keeps_view [OF vw_callbacks(1)]; simp)+

lemma re_registered_rest:
  "re_registered_state w caps d sa \<noteq> WState (info w) \<Longrightarrow> \<not> at_rest (re_registered_state w caps d sa)"
  by (auto simp: re_registered_state_def split: if_splits)

lemma keeps_Register [keeps_intros]: "keeps (dok op) (Register resolve caps dt st)"
proof -
  have body: "keeps (dok op) (bnd get_workers (\<lambda>m. case m u of
          Some worker \<Rightarrow>
            let newState = re_registered_state worker caps d sa in
            thn (upd_worker u (\<lambda>w. w\<lparr>info := (info w)\<lparr>WCaps := caps\<rparr>, dryad := d, sshd := sa\<rparr>))
           (thn (if newState \<noteq> WState (info worker) then thn (setState u newState) (ret ()) else ret ())
                (ret (None :: error option)))
        | None \<Rightarrow> bnd (gets next_chan) (\<lambda>c.
            thn (modify (\<lambda>s. s\<lparr>
                 chans := (chans s)(c := \<lparr>buf = [], closed = False\<rparr>),
                 next_chan := Suc c,
                 wl := (wl s)\<lparr>workers := (workers (wl s))(u \<mapsto> new_worker u caps d sa c)\<rparr>,
                 bgs := (bgs s)(c \<mapsto> new_bg u)\<rparr>))
                (ret (None :: error option)))))" for u d sa
    unfolding keeps_def
  proof (intro allI impI)
    fix s :: server assume ok: "dok op s"
    have new: "devices_ok op ((workers (wl s))(u \<mapsto> new_worker u caps d sa (next_chan s)),
        (chans s)(next_chan s := \<lparr>buf = [], closed = False\<rparr>), Suc (next_chan s), (bgs s)(next_chan s \<mapsto> new_bg u), jobs s)"
      if "workers (wl s) u = None"
      using ok that unfolding vw_def
      by (rule devices_ok_new) (simp_all add: new_worker_def new_bg_def)
    have old: "keeps (dok op) (let newState = re_registered_state worker caps d sa in
            thn (upd_worker u (\<lambda>w. w\<lparr>info := (info w)\<lparr>WCaps := caps\<rparr>, dryad := d, sshd := sa\<rparr>))
           (thn (if newState \<noteq> WState (info worker) then thn (setState u newState) (ret ()) else ret ())
                (ret (None :: error option))))" for worker
      by (cases "re_registered_state worker caps d sa = WState (info worker)")
         (auto simp: Let_def intro!: keeps_intros re_registered_rest)
    show "wlp (bnd get_workers (\<lambda>m. case m u of
          Some worker \<Rightarrow>
            let newState = re_registered_state worker caps d sa in
            thn (upd_worker u (\<lambda>w. w\<lparr>info := (info w)\<lparr>WCaps := caps\<rparr>, dryad := d, sshd := sa\<rparr>))
           (thn (if newState \<noteq> WState (info worker) then thn (setState u newState) (ret ()) else ret ())
                (ret (None :: error option)))
        | None \<Rightarrow> bnd (gets next_chan) (\<lambda>c.
            thn (modify (\<lambda>s. s\<lparr>
                 chans := (chans s)(c := \<lparr>buf = [], closed = False\<rparr>),
                 next_chan := Suc c,
                 wl := (wl s)\<lparr>workers := (workers (wl s))(u \<mapsto> new_worker u caps d sa c)\<rparr>,
                 bgs := (bgs s)(c \<mapsto> new_bg u)\<rparr>))
                (ret (None :: error option))))) (\<lambda>_. dok op) s"
    proof (cases "workers (wl s) u")
      case None
      with new show ?thesis by (simp add: wlp_simps vw_def)
    next
      case (Some w)
      show ?thesis
        unfolding wlp_bnd [of get_workers] wlp_state Some option.case by (rule wlp_keeps [OF old ok])
    qed
  qed
  show ?thesis
    unfolding Register_def by (intro keeps_branches keeps_basic keeps_critical body)
qed

section \<open>Jobs and requests\<close>

text \<open>The worker that is taken was idle: only idle workers are listed.\<close>

lemma keeps_TakeBest [keeps_intros]: "keeps (dok op) (TakeBestMatchingWorker gs caps)"
  unfolding TakeBestMatchingWorker_def
proof (rule keeps_critical)
  let ?P = "\<lambda>w. (Workers_Match (NewWorkers gs caps) (WorkerElem (Some w)) \<or> WUUID w = '''') \<and> \<not> (True \<and> WState w \<noteq> IDLE)"
  let ?all = "\<lambda>m. map (\<lambda>u. info (the (m u))) (sorted_list_of_set (dom m))"
  show "keeps (dok op) (bnd (listWorkers (Some (Workers_Match (NewWorkers gs caps))) None '''' True) (\<lambda>r. case r of
       Inl err \<Rightarrow> panic ''listing workers failed''
     | Inr ms \<Rightarrow>
        (case best_loop ms MaxInt32 '''' of (bestScore, bestWorker) \<Rightarrow>
         if bestScore = MaxInt32 then ret (Inl ErrNoMatchingWorker)
         else bnd (setState bestWorker RUN) (\<lambda>err. case err of
                 Some e \<Rightarrow> ret (Inl e)
               | None \<Rightarrow> ret (Inr bestWorker)))))"
    unfolding keeps_def
  proof (intro allI impI)
    fix s :: server assume ok: "dok op s"
    let ?m = "workers (wl s)"
    let ?ws = "go_sort (w_Less ByUUID SortOrderAsc) (filter ?P (?all ?m))"
    obtain best u where best: "best_loop ?ws MaxInt32 '''' = (best, u)" by (cases "best_loop ?ws MaxInt32 ''''")
    have run: "wlp (setState u RUN) (\<lambda>_. dok op) s" if "best \<noteq> MaxInt32"
    proof (rule wlp_setState_dok [OF ok])
      from best_loop_spec [OF best] that obtain i where i: "i \<in> set ?ws" "u = WUUID i"
        by (auto split: if_splits)
      then have "i \<in> info ` ran ?m" "WState i = IDLE"
        by (cases "finite (dom ?m)"; force simp: ran_def)+
      then obtain v w where w: "?m v = Some w" "i = info w" by (auto simp: ran_def)
      with devices_okD(1) [OF ok [unfolded vw_def]] i(2) have "v = u" by auto
      with w \<open>WState i = IDLE\<close> show "\<exists>w. ?m u = Some w \<and> at_rest (WState (info w))" by (auto simp: at_rest_def)
    qed
    have "wlp (bnd (setState u RUN) (\<lambda>err. case err of Some e \<Rightarrow> ret (Inl e) | None \<Rightarrow> ret (Inr u))) (\<lambda>_. dok op) s"
      if "best \<noteq> MaxInt32"
      unfolding wlp_bnd by (rule wlp_mono [OF run [OF that]]) (auto simp: wlp_basic split: option.split)
    with best ok show "wlp (bnd (listWorkers (Some (Workers_Match (NewWorkers gs caps))) None '''' True) (\<lambda>r. case r of
       Inl err \<Rightarrow> panic ''listing workers failed''
     | Inr ms \<Rightarrow>
        (case best_loop ms MaxInt32 '''' of (bestScore, bestWorker) \<Rightarrow>
         if bestScore = MaxInt32 then ret (Inl ErrNoMatchingWorker)
         else bnd (setState bestWorker RUN) (\<lambda>err. case err of
                 Some e \<Rightarrow> ret (Inl e)
               | None \<Rightarrow> ret (Inr bestWorker))))) (\<lambda>_. dok op) s"
      by (simp add: listWorkers_def w_newSorter_def wlp_basic wlp_bnd [of "bnd get_workers h" for h]
          wlp_bnd [of get_workers] wlp_state Let_def)
  qed
qed

text \<open>A job holds the key its worker has at that moment.\<close>

lemma keeps_Create [keeps_intros]: "keeps (dok op) (Create i u)"
  unfolding keeps_def
proof (intro allI impI)
  fix s :: server assume ok: "dok op s"
  have "devices_ok op (workers (wl s), chans s, next_chan s, bgs s, (jobs s)(u \<mapsto> j))"
    if "workers (wl s) u = Some w" "wkey w = Some (Key (Access j))" for w j
    using ok that by (auto simp: devices_ok_def vw_def)
  with ok show "wlp (Create i u) (\<lambda>_. dok op) s"
    by (auto simp: Create_def GetWorkerSSHAddr_def GetWorkerKey_def Tunnel_Create_def wlp_simps vw_def split: option.split)
qed

lemma keeps_finish_job [keeps_intros]: "keeps (dok op) (finish_job u)"
  by (auto simp: keeps_def wlp_simps vw_def devices_ok_def split: option.split)

lemma keeps_Finish [keeps_intros]: "keeps (dok op) (Finish u p)"
  unfolding Finish_def by (intro keeps_intros)

lemma keeps_lookups [keeps_intros]:
  "keeps (dok op) (jobs_Get u)" "keeps (dok op) get_requests" "keeps (dok op) (upd_request i f)"
  "keeps (dok op) (removeRequest r)" "keeps (dok op) (times_insert k x)" "keeps (dok op) time_Now"
  "keeps (dok op) (pushRequest r)" "keeps (dok op) (setRequestPriority r p)" "keeps (dok op) (put_request i r)"
  unfolding jobs_Get_def
  by (intro keeps_critical keeps_bnd keeps_basic keeps_branches keeps_view preserves_intros)+

lemma keeps_requests [keeps_intros]:
  "keeps (dok op) (CloseRequest i)" "keeps (dok op) (Timeout i)" "keeps (dok op) (Close i)"
  "keeps (dok op) (ProlongAccess i)" "keeps (dok op) (set_timeout i)" "keeps (dok op) (AcquireWorker i)"
  "keeps (dok op) (GetRequestInfo i)"
  unfolding CloseRequest_def closeRequest_def Timeout_def Close_def ProlongAccess_def set_timeout_def AcquireWorker_def
    GetRequestInfo_def Get_def
  by (auto intro!: keeps_intros split: ReqState.split)

lemma keeps_changes [keeps_intros]:
  "keeps (dok op) (NewRequest caps p owner va dl)" "keeps (dok op) (UpdateRequest r)"
  unfolding NewRequest_def store_request_def deadline_in_past_def UpdateRequest_def updateRequest_def apply_update_def insert_if_def
  by (intro keeps_intros)+

lemma keeps_iteration [keeps_intros]:
  "keeps (dok op) InitIteration" "keeps (dok op) TerminateIteration" "keeps (dok op) Next"
  "keeps (dok op) (VerifyIfReady i now)" "keeps (dok op) (Get i)" "keeps (dok op) (Run i u)"
  unfolding InitIteration_def TerminateIteration_def end_iteration_def releaseIterator_def initIterator_def Next_def
    VerifyIfReady_def Get_def Run_def lock_def unlock_def on_queue_def
  by (intro keeps_intros; simp add: vw_def)+

lemma keeps_visit [keeps_intros]: "keeps (dok op) (visit RM WM JM now n)"
proof (induction n)
  case (Suc n)
  then show ?case
    unfolding visit.simps matchWorkers_def RM_methods
    unfolding WM_def JM_def WorkersManager.simps JobsManager.simps by (intro keeps_intros)
qed (simp add: keeps_intros)

lemma keeps_valid_notify [keeps_intros]: "keeps (dok op) (valid_notify RM WM JM time_Now n turns)"
proof (induction turns)
  case (Suc turns)
  then show ?case
    unfolding valid_notify.simps iterateRequests_def RM_methods by (intro keeps_intros)
qed (simp add: keeps_intros)

lemma keeps_fire [keeps_intros]: "keeps (dok op) (fire k t)"
proof -
  have "keeps (dok op) (Notify mk past)" for mk past
    unfolding Notify_def deadline_notify_def timeout_notify_def RM_methods
    by (cases mk) (auto intro!: keeps_intros)
  then show ?thesis
    unfolding fire_def process_def on_rt_def by (intro keeps_intros; simp add: vw_def)
qed

lemma keeps_event: "free_event e \<Longrightarrow> keeps (dok op) (run_event resolve e)"
  by (cases e) (simp_all add: ignore_def keeps_intros)

section \<open>The background goroutines\<close>

lemma keyed_less: "keyed op w b pc \<Longrightarrow> set b' \<subseteq> set b \<Longrightarrow> keyed op w b' pc"
  by (auto simp: keyed_def)

lemma keyed_loop: "\<not> at_rest (WState (info w)) \<Longrightarrow> keyed op w b (AtLoop p)"
  by (simp add: keyed_def)

lemma keyed_other: "\<not> at_rest (WState (info w)) \<Longrightarrow> (\<And>k. pc \<noteq> PkStore k) \<Longrightarrow> (\<And>st e. pc \<noteq> Settle st e) \<Longrightarrow> keyed op w b pc"
  by (simp add: keyed_def)

lemma keyed_error: "\<not> at_rest (WState (info w)) \<Longrightarrow> st \<in> {IDLE, MAINTENANCE} \<Longrightarrow> st = IDLE \<longrightarrow> e \<noteq> None \<Longrightarrow> keyed op w b (Settle st e)"
  by (auto simp: keyed_def)

lemma drain_rest:
  assumes "\<forall>st \<in> set b. at_rest st" and "op_got p \<longrightarrow> op_open p \<and> at_rest (op_state p)"
  shows "op_got (drain b False p) \<longrightarrow> op_open (drain b False p) \<and> at_rest (op_state (drain b False p))"
  using assms by (induction b False p rule: drain.induct) auto

lemma keyed_drained: "keyed op w b pc \<Longrightarrow> keyed op w [] (AtLoop (drain b False no_operation))"
  using drain_rest [of b no_operation] by (auto simp: keyed_def resting_def no_operation_def)

text \<open>A goroutine with its worker, and what \<open>goto\<close> makes of it.\<close>

definition live :: "server \<Rightarrow> nat \<Rightarrow> bg \<Rightarrow> mapWorker \<Rightarrow> bool" where
  "live s c g w \<longleftrightarrow> bgs s c = Some g \<and> workers (wl s) (bg_uuid g) = Some w \<and> backgroundOperation w = c
     \<and> \<not> closed (chans s c)"

lemma live_bg:
  assumes "dok op s" and "bgs s c = Some g"
  obtains w where "live s c g w" "keyed (op (bg_uuid g)) w (buf (chans s c)) (bg_pc g)"
proof -
  note ok = assms(1) [unfolded vw_def]
  obtain w where w: "workers (wl s) (bg_uuid g) = Some w" "backgroundOperation w = c"
    using devices_ok_bg [OF ok assms(2)] by blast
  with devices_okD(3) [OF ok w(1)] assms(2) that [of w] show thesis by (auto simp: live_def)
qed

lemma wlp_goto:
  assumes ok: "dok op s" and g: "live s c g w"
    and t: "vw t = (workers (wl s), (chans s)(c := ch), next_chan s, bgs s, jobs s)"
    and ch: "\<not> closed ch" and k: "keyed (op (bg_uuid g)) w (buf ch) pc"
  shows "wlp (goto c pc b) (\<lambda>_. dok op) t"
proof -
  let ?g = "g\<lparr>bg_pc := pc, must_check := b\<rparr>"
  have "devices_ok op ((workers (wl s))(bg_uuid g \<mapsto> w), (chans s)(c := ch), next_chan s, (bgs s)(c \<mapsto> ?g), jobs s)"
    by (rule devices_ok_upd [OF ok [unfolded vw_def]])
       (use g ch k devices_okD(1) [OF ok [unfolded vw_def]] in \<open>auto simp: live_def\<close>)
  then show ?thesis
    using g t by (auto simp: goto_def wlp_basic vw_def live_def fun_upd_idem)
qed

lemma wlp_goto_same:
  "dok op s \<Longrightarrow> live s c g w \<Longrightarrow> vw t = vw s \<Longrightarrow> keyed (op (bg_uuid g)) w (buf (chans s c)) pc \<Longrightarrow>
   wlp (goto c pc b) (\<lambda>_. dok op) t"
  by (rule wlp_goto [where ch = "chans s c"]) (auto simp: vw_def live_def)

lemma wlp_dispatch:
  assumes ok: "dok op s" "live s c g w" and t: "vw t = (workers (wl s), (chans s)(c := ch), next_chan s, bgs s, jobs s)"
    and ch: "\<not> closed ch" "set (buf ch) \<subseteq> set (buf (chans s c))" and k: "keyed (op (bg_uuid g)) w (buf (chans s c)) (AtLoop q)"
    and p: "at_rest (WState (info w)) \<Longrightarrow> op_open p \<and> at_rest (op_state p)"
  shows "wlp (dispatch c p) (\<lambda>_. dok op) t"
proof (cases "at_rest (WState (info w))")
  case True
  then have "keyed (op (bg_uuid g)) w (buf ch) (AtLoop no_operation)"
    using k ch(2) by (auto simp: keyed_def resting_def no_operation_def)
  with True p show ?thesis
    by (auto simp: dispatch_def at_rest_def intro!: wlp_goto [OF ok t ch(1)])
next
  case False
  then show ?thesis
    by (auto simp: dispatch_def intro!: wlp_goto [OF ok t ch(1)] keyed_loop keyed_other split: WorkerState.split)
qed

lemma wlp_loop_head:
  assumes ok: "dok op s" "live s c g w" and k: "keyed (op (bg_uuid g)) w (buf (chans s c)) (AtLoop p)"
  shows "wlp (loop_head c p) (\<lambda>_. dok op) s"
proof (cases "op_got p")
  case True
  then show ?thesis
    unfolding loop_head_def
    by (simp, intro wlp_dispatch [OF ok _ _ _ k, where ch = "chans s c"])
       (use k ok in \<open>auto simp: keyed_def resting_def live_def vw_def\<close>)
next
  case False
  have "wlp (dispatch c \<lparr>op_state = st, op_open = True, op_got = False\<rparr>) (\<lambda>_. dok op)
      (s\<lparr>chans := (chans s)(c := (chans s c)\<lparr>buf := sts\<rparr>)\<rparr>)" if "buf (chans s c) = st # sts" for st sts
    by (rule wlp_dispatch [OF ok _ _ _ k, where ch = "(chans s c)\<lparr>buf := sts\<rparr>"])
       (use k ok that in \<open>auto simp: keyed_def live_def vw_def\<close>)
  then show ?thesis
    using False ok(2) by (auto simp: loop_head_def receive_def wlp_simps live_def split: list.split)
qed

lemma wlp_check:
  assumes ok: "dok op s" "live s c g w" and k: "keyed (op (bg_uuid g)) w (buf (chans s c)) (bg_pc g)"
  shows "wlp (bnd (checkPendingOperation c) (\<lambda>p. if op_got p then goto c (AtLoop p) False else goto c (bg_pc g) False))
    (\<lambda>_. dok op) s"
proof -
  let ?s = "s\<lparr>chans := (chans s)(c := (chans s c)\<lparr>buf := []\<rparr>)\<rparr>"
  have go: "wlp (goto c pc False) (\<lambda>_. dok op) ?s" if "keyed (op (bg_uuid g)) w [] pc" for pc
    by (rule wlp_goto [OF ok, where ch = "(chans s c)\<lparr>buf := []\<rparr>"]) (use ok(2) that in \<open>auto simp: vw_def live_def\<close>)
  from go [OF keyed_drained [OF k]] go [OF keyed_less [OF k, of "[]"]] ok(2) show ?thesis
    by (auto simp: checkPendingOperation_def wlp_simps live_def)
qed

lemma wlp_after_call:
  assumes "dok op s" and "live s c g w" and "\<not> at_rest (WState (info w))" and "target \<in> {IDLE, MAINTENANCE}"
    and "err = None \<Longrightarrow> keyed (op (bg_uuid g)) w (buf (chans s c)) pc" and "vw t = vw s"
  shows "wlp (after_call c target err pc) (\<lambda>_. dok op) t"
  unfolding after_call_def
  by (cases err) (use assms in \<open>auto intro!: wlp_goto_same [OF assms(1,2,6)] keyed_error\<close>)

text \<open>The end of a preparation: the goroutine sets the state and waits again.\<close>

lemma wlp_settled:
  assumes ok: "dok op s" "live s c g w" and empty: "buf (chans s c) = []"
    and st: "at_rest st \<Longrightarrow> \<exists>k. wkey w = Some k \<and> op (bg_uuid g) k"
  shows "wlp (thn (setState (bg_uuid g) st) (goto c (AtLoop no_operation) False)) (\<lambda>_. dok op) s"
proof -
  let ?u = "bg_uuid g"
  let ?w = "w\<lparr>info := (info w)\<lparr>WState := st\<rparr>\<rparr>" and ?ch = "(chans s c)\<lparr>buf := [st]\<rparr>"
  let ?g = "g\<lparr>bg_pc := AtLoop no_operation, must_check := False\<rparr>"
  have w: "workers (wl s) ?u = Some w" "backgroundOperation w = c" "\<not> closed (chans s c)" "bgs s c = Some g"
    using ok(2) by (simp_all add: live_def)
  have k: "keyed (op ?u) ?w (buf ?ch) (bg_pc ?g)"
    using st by (auto simp: keyed_def resting_def no_operation_def)
  have "devices_ok op ((workers (wl s))(?u \<mapsto> ?w), (chans s)(c := ?ch), next_chan s, (bgs s)(c \<mapsto> ?g), js)"
    if "js \<in> {jobs s, (jobs s)(?u := None)}" for js
    by (rule devices_ok_upd [OF ok(1) [unfolded vw_def] w(1,2) _ _ _ _ w(4) _ k])
       (use w that devices_okD(1) [OF ok(1) [unfolded vw_def]] in \<open>auto split: if_splits\<close>)
  then show ?thesis
    unfolding wlp_thn
    by (intro wlp_mono [OF wlp_setState_vw [OF w(1,2)]])
       (use w empty in \<open>auto simp: goto_def wlp_basic vw_def\<close>)
qed

lemma vw_held [simp]: "vw (s\<lparr>held := H\<rparr>) = vw s"
  by (simp add: vw_def)

lemma live_held [simp]: "live (s\<lparr>held := H\<rparr>) c g w = live s c g w"
  by (simp add: live_def)

lemma wlp_critical_dok: "(\<And>H. wlp m (\<lambda>_. dok op) (s\<lparr>held := H\<rparr>)) \<Longrightarrow> wlp (critical l m) (\<lambda>_. dok op) s"
  by (simp add: wlp_critical wlp_def)

definition drained :: "server \<Rightarrow> nat \<Rightarrow> server" where
  "drained s c = s\<lparr>chans := (chans s)(c := (chans s c)\<lparr>buf := []\<rparr>)\<rparr>"

lemma drained_ok:
  assumes ok: "dok op s" "live s c g w" and k: "keyed (op (bg_uuid g)) w (buf (chans s c)) (bg_pc g)"
  shows "dok op (drained s c)" "live (drained s c) c g w" "buf (chans (drained s c) c) = []"
proof -
  have "devices_ok op ((workers (wl s))(bg_uuid g \<mapsto> w), (chans s)(c := (chans s c)\<lparr>buf := []\<rparr>), next_chan s,
      (bgs s)(c \<mapsto> g), jobs s)"
    by (rule devices_ok_upd [OF ok(1) [unfolded vw_def]])
       (use ok k devices_okD(1) [OF ok(1) [unfolded vw_def]] in \<open>auto simp: live_def keyed_less\<close>)
  then show "dok op (drained s c)" using ok(2) by (simp add: drained_def vw_def live_def fun_upd_idem)
qed (use ok(2) in \<open>simp_all add: drained_def live_def\<close>)

lemma wlp_settle:
  assumes ok: "dok op s" "live s c g w" and k: "keyed (op (bg_uuid g)) w (buf (chans s c)) (bg_pc g)"
    and pc: "bg_pc g = Settle st err"
  shows "wlp (settle c (bg_uuid g) st err) (\<lambda>_. dok op) s"
  unfolding settle_def
proof (rule wlp_critical_dok)
  fix H
  let ?s = "s\<lparr>held := H\<rparr>"
  have s: "dok op ?s" "live ?s c g w" "keyed (op (bg_uuid g)) w (buf (chans ?s c)) (bg_pc g)"
    using ok k by simp_all
  note d = drained_ok [OF s]
  have go: "wlp (goto c (AtLoop (drain (buf (chans s c)) False no_operation)) False) (\<lambda>_. dok op) (drained ?s c)"
    by (rule wlp_goto_same [OF d(1,2) refl]) (use d(3) keyed_drained [OF k] in simp)
  have "wlp (thn (setState (bg_uuid g) (if err \<noteq> None then FAIL else st)) (goto c (AtLoop no_operation) False))
      (\<lambda>_. dok op) (drained ?s c)"
    by (rule wlp_settled [OF d]) (use k pc in \<open>auto simp: keyed_def split: if_splits\<close>)
  then have set: "wlp (thn (if err \<noteq> None then setState (bg_uuid g) FAIL else setState (bg_uuid g) st)
      (goto c (AtLoop no_operation) False)) (\<lambda>_. dok op) (drained ?s c)"
    by (cases err) simp_all
  have "closed (chans s c) = False" using ok(2) by (simp add: live_def)
  with go set show "wlp (bnd (checkPendingOperation c) (\<lambda>p. if op_got p then goto c (AtLoop p) False
     else thn (if err \<noteq> None then setState (bg_uuid g) FAIL else setState (bg_uuid g) st)
              (goto c (AtLoop no_operation) False))) (\<lambda>_. dok op) ?s"
    by (simp add: checkPendingOperation_def wlp_bnd [of "bnd (gets f) h" for f h] wlp_bnd [of "gets f" for f]
        wlp_thn [of "modify f" for f] wlp_basic drained_def)
qed

lemma wlp_bg_call:
  assumes ok: "dok op s" "live s c g w" and k: "keyed (op (bg_uuid g)) w (buf (chans s c)) (bg_pc g)"
    and job: "jobs s (bg_uuid g) \<noteq> None \<Longrightarrow> WState (info w) = RUN"
    and installed: "\<And>k. bg_pc g = PkInstall k \<Longrightarrow> answer = None \<Longrightarrow> op (bg_uuid g) k"
  shows "wlp (bg_call c (bg_uuid g) answer key (bg_pc g)) (\<lambda>_. dok op) s"
proof (cases "\<exists>p. bg_pc g = AtLoop p")
  case True
  then show ?thesis using wlp_loop_head [OF ok] k by (auto simp: bg_call_def)
next
  case False
  then have work: "\<not> at_rest (WState (info w))"
    using k by (auto simp: keyed_def resting_def)
  then have none: "jobs s (bg_uuid g) = None"
    using job by (cases "jobs s (bg_uuid g)") (auto simp: at_rest_def)
  note after = wlp_after_call [OF ok work]
  have addr: "wlp (bnd (getWorkerAddr (bg_uuid g)) (\<lambda>r. case r of Inl e \<Rightarrow> after_call c target (Some e) pc
       | Inr a \<Rightarrow> after_call c target None (pc' a))) (\<lambda>_. dok op) s"
    if "target \<in> {IDLE, MAINTENANCE}" "\<And>a. keyed (op (bg_uuid g)) w (buf (chans s c)) (pc' a)" for target pc pc'
  proof -
    have "preserves vw (getWorkerAddr (bg_uuid g))"
      unfolding getWorkerAddr_def by (intro preserves_intros)
    then show ?thesis
      unfolding wlp_bnd by (rule wlp_preserves) (auto intro!: after that split: sum.split)
  qed
  show ?thesis
  proof (cases "bg_pc g")
    case (AtLoop p) with False show ?thesis by simp
  next
    case PkAddr then show ?thesis
      by (auto simp: bg_call_def work intro!: addr keyed_other)
  next
    case (PkDial a) then show ?thesis
      by (auto simp: bg_call_def work intro!: after keyed_other)
  next
    case PkGenerate then show ?thesis
      by (auto simp: bg_call_def work intro!: after keyed_other)
  next
    case (PkPublic p) then show ?thesis
      by (auto simp: bg_call_def work intro!: after keyed_other)
  next
    case (PkInstall p) then show ?thesis
      using installed work by (auto simp: bg_call_def keyed_def intro!: after)
  next
    case (PkStore p)
    note ws = ok(1) [unfolded vw_def]
    have u: "workers (wl s) (bg_uuid g) = Some w" "backgroundOperation w = c" "bgs s c = Some g" "\<not> closed (chans s c)"
      using ok(2) by (simp_all add: live_def)
    let ?g = "g\<lparr>bg_pc := Settle IDLE None, must_check := True\<rparr>"
    have "devices_ok op ((workers (wl s))(bg_uuid g \<mapsto> w\<lparr>wkey := Some p\<rparr>), (chans s)(c := chans s c), next_chan s,
        (bgs s)(c \<mapsto> ?g), jobs s)"
      by (rule devices_ok_upd [OF ws u(1,2) _ _ _ u(4,3)])
         (use u none work k PkStore devices_okD(1) [OF ws u(1)] in \<open>auto simp: keyed_def\<close>)
    with PkStore u show ?thesis
      by (auto simp: bg_call_def setWorkerKey_def wlp_simps upd_worker_def after_call_def goto_def vw_def)
  next
    case PmAddr then show ?thesis
      by (auto simp: bg_call_def work intro!: addr keyed_other)
  next
    case (PmDial a) then show ?thesis
      by (auto simp: bg_call_def work intro!: after keyed_other)
  next
    case PmOrder then show ?thesis
      by (auto simp: bg_call_def work intro!: after keyed_error)
  next
    case (Settle st err) then show ?thesis
      using wlp_settle [OF ok k] by (auto simp: bg_call_def)
  next
    case Ended with ok show ?thesis by (simp add: bg_call_def wlp_basic)
  qed
qed

lemma wlp_bg_step:
  assumes ok: "dok op s" "live s c g w" and k: "keyed (op (bg_uuid g)) w (buf (chans s c)) (bg_pc g)"
    and job: "jobs s (bg_uuid g) \<noteq> None \<Longrightarrow> WState (info w) = RUN"
    and installed: "\<And>k. bg_pc g = PkInstall k \<Longrightarrow> \<not> must_check g \<Longrightarrow> answer = None \<Longrightarrow> op (bg_uuid g) k"
  shows "wlp (bg_step answer key c) (\<lambda>_. dok op) s"
proof (cases "must_check g")
  case True
  with ok(2) wlp_check [OF ok k] show ?thesis by (simp add: bg_step_def wlp_bnd [of "gets f" for f] wlp_basic live_def)
next
  case False
  with ok(2) wlp_bg_call [OF ok k job installed] show ?thesis
    by (simp add: bg_step_def wlp_bnd [of "gets f" for f] wlp_basic live_def)
qed

end
