(* ===== verification/FleetGuarantees.thy ===== *)
theory FleetGuarantees
  imports Fleet
begin

text \<open>
  The invariant of Fleet holds in every reachable state of the server and its agents, so the
  key a user gets opens the device.  A run of both is computed at which this is applied.
\<close>

section \<open>The key a user gets\<close>

text \<open>What a call does to the agent: \<open>Prepare\<close> installs the key, and maintenance leaves files alone.\<close>

lemma PutInMaintenance_unix: "preserves (\<lambda>d. (unix d, username d)) (PutInMaintenance msg)"
  unfolding PutInMaintenance_def printMessage_def stm_def by (intro preserves_intros) simp_all

lemma blink_unix: "preserves (\<lambda>d. (unix d, username d)) (blink_step i)"
  unfolding blink_step_def setLED_def stm_def blink_goto_def
  by (intro preserves_bnd preserves_basic preserves_cases) (auto intro!: preserves_intros split: blink_pc.split)

lemma opens_cong: "(unix d', username d') = (unix d, username d) \<Longrightarrow> opens marshal pub d' k = opens marshal pub d k"
  by (simp add: opens_def)

lemma opens_prepared:
  assumes "Prepare cmds marshal (Some (pub k)) d = Returns (None, d')"
  shows "opens marshal pub d' k"
  using wp_resultD [OF wp_Prepare assms]
  by (auto simp: prepared_with_def has_key_file_def opens_def board_def maintenance_stopped_def split: option.splits)

lemma called_maintenance:
  assumes "\<exists>err. PutInMaintenance msg (ag u) = Returns (err, d)"
  shows "(\<lambda>v. opens marshal pub ((ag(u := d)) v)) = (\<lambda>v. opens marshal pub (ag v))"
  using assms PutInMaintenance_unix [of msg] by (auto simp: preserves_def fun_eq_iff intro!: opens_cong)

lemma devices_ok_agent:
  assumes ok: "dok op s" and g: "bgs s c = Some g" "calls_agent g"
    and same: "bg_pc g = PmOrder \<Longrightarrow> op' = op" "\<And>u. u \<noteq> bg_uuid g \<Longrightarrow> op' u = op u"
  shows "dok op' s"
proof (cases "bg_pc g = PmOrder")
  case True
  with ok same show ?thesis by simp
next
  case False
  then obtain k where pc: "bg_pc g = PkInstall k" using g(2) by (auto simp: calls_agent_def)
  note ok' = ok [unfolded vw_def]
  have "keyed (op' u) w (buf (chans s (backgroundOperation w))) (bg_pc h)"
    if "workers (wl s) u = Some w" "bgs s (backgroundOperation w) = Some h" "bg_uuid h = u"
      "keyed (op u) w (buf (chans s (backgroundOperation w))) (bg_pc h)" for u w h
  proof (cases "u = bg_uuid g")
    case True
    with devices_ok_bg [OF ok' g(1)] that have "h = g" using g(1) by auto
    with that(4) pc show ?thesis by (auto simp: keyed_def resting_def)
  next
    case False
    with that same(2) show ?thesis by simp
  qed
  with ok show ?thesis unfolding vw_def devices_ok_def prod.case by blast
qed

lemma fleet_ok:
  "fleet_reachable resolve cmds marshal pub f \<Longrightarrow> dok (\<lambda>u. opens marshal pub (agents f u)) (srv f)"
proof (induction rule: fleet_reachable.induct)
  case (init clk tz prt far ag)
  show ?case
    by (simp add: vw_def devices_ok_def start_server_def NewWorkerList_def SetChangeListener_def NewJobsManager_def)
next
  case (more f f')
  have reach: "reachable resolve (srv f)" by (rule fleet_server [OF more.hyps(1)])
  have step: "dok op t" if a: "dok op (srv f)" "bgs (srv f) c = Some g" "bg_step answer key c (srv f) = Returns ((), t)"
    "\<And>k. bg_pc g = PkInstall k \<Longrightarrow> \<not> must_check g \<Longrightarrow> answer = None \<Longrightarrow> op (bg_uuid g) k" for op c g answer key t
  proof -
    obtain w where w: "live (srv f) c g w" "keyed (op (bg_uuid g)) w (buf (chans (srv f) c)) (bg_pc g)"
      using live_bg [OF a(1,2)] by blast
    have "WState (info w) = RUN" if "jobs (srv f) (bg_uuid g) \<noteq> None"
      using reachable_parts(6) [OF reach] w(1) that by (force simp: run_ok_def live_def)
    from wlp_bg_step [OF a(1) w this a(4)] a(3) show ?thesis by (simp add: wlp_def)
  qed
  from more.hyps(2) show ?case
  proof (cases rule: fleet_step.cases)
    case (event e s t ag)
    have "dok (\<lambda>u. opens marshal pub (ag u)) s" using more.IH event(1) by simp
    with keeps_event [OF event(3)] event(5) show ?thesis
      unfolding event(2) by (simp add: keeps_def wlp_def)
  next
    case (background s c g answer key t ag)
    have "dok (\<lambda>u. opens marshal pub (ag u)) t"
    proof (rule step)
      show "dok (\<lambda>u. opens marshal pub (ag u)) (srv f)" using more.IH background(1) by simp
      show "bgs (srv f) c = Some g" "bg_step answer key c (srv f) = Returns ((), t)"
        using background(1,3,5) by simp_all
    qed (use background(4) in \<open>auto simp: calls_agent_def\<close>)
    then show ?thesis by (simp add: background(2))
  next
    case (answered s c g ag err d key t)
    let ?op = "\<lambda>u. opens marshal pub ((ag(bg_uuid g := d)) u)"
    have "dok ?op t"
    proof (rule step)
      show "dok ?op (srv f)"
      proof (rule devices_ok_agent)
        show "dok (\<lambda>u. opens marshal pub (ag u)) (srv f)" using more.IH answered(1) by simp
        show "?op = (\<lambda>u. opens marshal pub (ag u))" if "bg_pc g = PmOrder"
          using answered(5) that by (intro called_maintenance [of "''maintenance''"]) (simp add: agent_call_def agent_calls)
      qed (use answered(1,3,4) in auto)
      show "?op (bg_uuid g) k" if "bg_pc g = PkInstall k" "\<not> must_check g" "map_option OtherError err = None" for k
        using answered(5) that by (auto simp: agent_call_def agent_calls intro: opens_prepared)
    qed (use answered(1,3,6) in simp_all)
    then show ?thesis by (simp add: answered(2))
  next
    case (broken s c g d ag e key t)
    let ?op = "\<lambda>u. opens marshal pub ((ag(bg_uuid g := d)) u)"
    have "dok ?op t"
    proof (rule step)
      show "dok ?op (srv f)"
      proof (rule devices_ok_agent)
        show "dok (\<lambda>u. opens marshal pub (ag u)) (srv f)" using more.IH broken(1) by simp
        show "?op = (\<lambda>u. opens marshal pub (ag u))" if "bg_pc g = PmOrder"
        proof (cases "d = ag (bg_uuid g)")
          case False
          with broken(5) that show ?thesis
            by (intro called_maintenance [of "''maintenance''"]) (auto simp: agent_call_def agent_calls)
        qed simp
      qed (use broken(1,3,4) in auto)
    qed (use broken(1,3,6) in auto)
    then show ?thesis by (simp add: broken(2))
  next
    case (blink i ag u d s)
    then have "(\<lambda>v. opens marshal pub ((ag(u := d)) v)) = (\<lambda>v. opens marshal pub (ag v))"
      using blink_unix [of i] by (auto simp: preserves_def fun_eq_iff intro!: opens_cong)
    with blink more.IH show ?thesis by simp
  qed
qed

text \<open>
  C4. The key a user gets opens the device the request runs on: the agent on it has an
  account whose file of authorized keys holds just the public half of that key.  This is so
  in every run in which no worker is removed, however calls, timers, goroutines, agents and
  broken connections interleave.
\<close>

theorem acquired_key_opens_device:
  assumes "fleet_reachable resolve cmds marshal pub f" and "AcquireWorker i (srv f) = Returns (Inr access, t)"
  shows "\<exists>r ji acc g. requests (rc (srv f)) i = Some r \<and> RState r = INPROGRESS \<and> RJob r = Some ji
    \<and> accounts (unix (agents f (jWorkerUUID ji))) (username (agents f (jWorkerUUID ji))) = Some acc
    \<and> files (unix (agents f (jWorkerUUID ji))) (path_Join [path_Join [HomeDir acc, ''.ssh''], ''authorized_keys'']) = Some g
    \<and> content g = marshal (pub (Key access))"
proof -
  let ?s = "srv f"
  have dok: "dok (\<lambda>u. opens marshal pub (agents f u)) ?s" by (rule fleet_ok [OF assms(1)])
  have "wlp (AcquireWorker i) (\<lambda>a _. \<forall>access. a = Inr access \<longrightarrow> (\<exists>r ji j. requests (rc ?s) i = Some r
      \<and> RState r = INPROGRESS \<and> RJob r = Some ji \<and> jobs ?s (jWorkerUUID ji) = Some j \<and> access = Access j)) ?s"
    by (auto simp: AcquireWorker_def jobs_Get_def wlp_simps split: option.split)
  then obtain r ji j where r: "requests (rc ?s) i = Some r" "RState r = INPROGRESS" "RJob r = Some ji"
      and j: "jobs ?s (jWorkerUUID ji) = Some j" "access = Access j"
    using assms(2) by (auto simp: wlp_def)
  obtain w where w: "workers (wl ?s) (jWorkerUUID ji) = Some w" "wkey w = Some (Key access)"
    using devices_ok_job [OF dok [unfolded vw_def] j(1)] j(2) by auto
  have "WState (info w) = RUN"
    using reachable_parts(6) [OF fleet_server [OF assms(1)]] w(1) j(1) by (force simp: run_ok_def)
  then have "opens marshal pub (agents f (jWorkerUUID ji)) (Key access)"
    using devices_okD(3) [OF dok [unfolded vw_def] w(1)] w(2) by (auto simp: keyed_def)
  with r show ?thesis by (auto simp: opens_def keys_file_def ssh_dir_def)
qed

text \<open>The run of the server that serves a request, with the agent that is prepared on the way.\<close>

fun run_fleet :: "(string \<Rightarrow> string + TCPAddr) \<Rightarrow> event list \<Rightarrow> server \<Rightarrow> server option" where
  "run_fleet resolve [] s = Some s"
| "run_fleet resolve (e # es) s =
     (if enabled e s \<and> (free_event e \<or> (\<exists>a k c g. e = EBackground a k c \<and> bgs s c = Some g \<and> \<not> calls_agent g))
      then (case run_event resolve e s of Returns r \<Rightarrow> run_fleet resolve es (snd r) | _ \<Rightarrow> None) else None)"

lemma run_fleet_reachable:
  "fleet_reachable resolve cmds marshal pub \<lparr>srv = s, agents = ag\<rparr> \<Longrightarrow> run_fleet resolve es s = Some t \<Longrightarrow>
   fleet_reachable resolve cmds marshal pub \<lparr>srv = t, agents = ag\<rparr>"
proof (induction es arbitrary: s)
  case (Cons e es)
  then obtain u where u: "enabled e s" "run_event resolve e s = Returns ((), u)" "run_fleet resolve es u = Some t"
      "free_event e \<or> (\<exists>a k c g. e = EBackground a k c \<and> bgs s c = Some g \<and> \<not> calls_agent g)"
    by (auto split: if_splits outcome.splits)
  then have "fleet_step resolve cmds marshal pub \<lparr>srv = s, agents = ag\<rparr> \<lparr>srv = u, agents = ag\<rparr>"
    by (auto intro: fleet_step.event fleet_step.background)
  with Cons u(3) show ?case by (blast intro: fleet_reachable.more)
qed simp

definition installing :: "bg_pc \<Rightarrow> bool \<Rightarrow> server" where
  "installing pc check = started\<lparr>wl := \<lparr>workers = [''w'' \<mapsto> (demo_worker PREPARE)\<lparr>wkey := None\<rparr>], changeListener = True\<rparr>,
     next_chan := Suc 0, bgs := [0 \<mapsto> \<lparr>bg_uuid = ''w'', bg_pc = pc, must_check = check\<rparr>]\<rparr>"

lemma run_to_install:
  "run_fleet demo_resolve (ERegister demo_caps ''d'' ''s'' # ESetState ''w'' ''IDLE'' # replicate 10 (EBackground None 7 0)) started
   = Some (installing (PkInstall 7) False)"
  by (simp add: installing_def started_def demo_worker_def demo_caps_def demo_resolve_def calls_agent_def
      run_simps times_run_simps worker_run_simps fun_upd_idem)

lemma run_from_install:
  "run_fleet demo_resolve (replicate 4 (EBackground None 7 0)) (installing (PkStore 7) True) = Some prepared"
  by (simp add: installing_def started_def prepared_def demo_worker_def demo_caps_def calls_agent_def
      run_simps times_run_simps worker_run_simps)

lemma install_answered:
  "bg_step None key 0 (installing (PkInstall 7) False) = Returns ((), installing (PkStore 7) True)"
  by (simp add: installing_def run_simps bg_step_def bg_call_def after_call_def goto_def fun_upd_idem)

lemma run_fleet_events: "\<forall>e \<in> set es. free_event e \<Longrightarrow> run_fleet resolve es s = run_events resolve es s"
  by (induction es arbitrary: s) (auto split: outcome.splits)

lemma run_events_append:
  "run_events resolve (es @ es') s = (case run_events resolve es s of Some t \<Rightarrow> run_events resolve es' t | None \<Rightarrow> None)"
  by (induction es arbitrary: s) (auto split: outcome.splits)

lemma run_to_running:
  "run_fleet demo_resolve ([ENewRequest demo_caps 3 \<lparr>uGroups = []\<rparr> 101 5000] @ [EFire ValidAfterTimes 102]) prepared
   = Some running_server"
  by (subst run_fleet_events) (simp_all only: run_events_append run_waiting run_running option.case, simp)

lemma acquired_key_opens_device_witness:
  "\<exists>(f :: fleet) access t acc g. AcquireWorker 1 (srv f) = Returns (Inr access, t) \<and> Key access = 7
    \<and> accounts (unix (agents f ''w'')) (username (agents f ''w'')) = Some acc
    \<and> files (unix (agents f ''w'')) (path_Join [path_Join [HomeDir acc, ''.ssh''], ''authorized_keys'']) = Some g
    \<and> content g = FormatUint 7"
proof -
  let ?reach = "fleet_reachable demo_resolve demo_commands FormatUint (\<lambda>k. k)"
  obtain d where d: "Prepare demo_commands FormatUint (Some 7) used_agent = Returns (None, d)"
    using used_agent_prepared by (auto simp: wp_iff)
  have "?reach \<lparr>srv = started, agents = \<lambda>_. used_agent\<rparr>"
    unfolding started_def by (rule fleet_reachable.init)
  from run_fleet_reachable [OF this run_to_install]
  have "?reach \<lparr>srv = installing (PkInstall 7) False, agents = \<lambda>_. used_agent\<rparr>" .
  moreover have "fleet_step demo_resolve demo_commands FormatUint (\<lambda>k. k)
      \<lparr>srv = installing (PkInstall 7) False, agents = \<lambda>_. used_agent\<rparr>
      \<lparr>srv = installing (PkStore 7) True, agents = (\<lambda>_. used_agent)(''w'' := d)\<rparr>"
    using fleet_step.answered [of "installing (PkInstall 7) False" 0 "\<lparr>bg_uuid = ''w'', bg_pc = PkInstall 7, must_check = False\<rparr>"
        demo_commands FormatUint "\<lambda>k. k" "\<lambda>_. used_agent" None d] d install_answered
    by (simp add: installing_def calls_agent_def agent_call_def agent_calls)
  ultimately have "?reach \<lparr>srv = installing (PkStore 7) True, agents = (\<lambda>_. used_agent)(''w'' := d)\<rparr>"
    by (rule fleet_reachable.more)
  from run_fleet_reachable [OF run_fleet_reachable [OF this run_from_install] run_to_running]
  have reach: "?reach \<lparr>srv = running_server, agents = (\<lambda>_. used_agent)(''w'' := d)\<rparr>" .
  have acquired: "AcquireWorker 1 running_server = Returns (Inr (Access demo_job), running_server)"
    by (simp add: AcquireWorker_def jobs_Get_def run_simps demo_defs)
  have "requests (rc running_server) 1 = Some (demo_request INPROGRESS (Some \<lparr>jWorkerUUID = ''w'', Timeout_at = 103 + hour_ns, TimeoutZone = 0\<rparr>))"
    by (simp add: running_server_def)
  with acquired_key_opens_device [OF reach] acquired
  have "\<exists>acc g. accounts (unix d) (username d) = Some acc
      \<and> files (unix d) (path_Join [path_Join [HomeDir acc, ''.ssh''], ''authorized_keys'']) = Some g
      \<and> content g = FormatUint (Key (Access demo_job))"
    by (fastforce simp: demo_request_def)
  moreover have "Key (Access demo_job) = 7" by (simp add: demo_job_def)
  ultimately show ?thesis
    using acquired by (intro exI [of _ "\<lparr>srv = running_server, agents = (\<lambda>_. used_agent)(''w'' := d)\<rparr>"]) auto
qed

end
