(* ===== verification/DryadStages.thy ===== *)
theory DryadStages
  imports DryadGuarantees
begin

text \<open>
  How a preparation fails: the stages of \<open>Prepare\<close>, what makes each of them fail, what is then
  reported, and how the system is left.
\<close>

section \<open>The stages\<close>

text \<open>
  The calls of the system are numbered: the account is looked up before it is removed (0),
  before it is created (1) and afterwards (2); then the directory is made (3), the file opened
  (4), both are given to the account (5, 6), and the key is written (7).
\<close>

definition after_calls :: "rusalka \<Rightarrow> nat \<Rightarrow> unix \<Rightarrow> rusalka" where
  "after_calls d i u = d\<lparr>unix := u, failures := (\<lambda>j. failures d (i + j))\<rparr>"

definition call_ends :: "rusalka \<Rightarrow> nat \<Rightarrow> string option dop \<Rightarrow> unix \<Rightarrow> string option \<Rightarrow> unix \<Rightarrow> bool" where
  "call_ends d i m u err u' \<longleftrightarrow> (\<exists>d'. m (after_calls d i u) = Returns (err, d') \<and> unix d' = u')"

definition failure_text :: "(int \<rightharpoonup> string) \<Rightarrow> cmd_result \<Rightarrow> string" where
  "failure_text table r = ''command failed: '' @ (case r of
       CmdExit c text out \<Rightarrow> (case table c of Some m \<Rightarrow> m | None \<Rightarrow> text @ '', '' @ out)
     | CmdFailed text out \<Rightarrow> text @ '', '' @ out
     | CmdDone out \<Rightarrow> '''')"

definition is_done :: "cmd_result \<Rightarrow> bool" where
  "is_done r \<longleftrightarrow> (\<exists>out. r = CmdDone out)"

text \<open>The account is gone; it exists; it has been found; its file of keys is open and empty.\<close>

definition removed :: "commands \<Rightarrow> rusalka \<Rightarrow> unix \<Rightarrow> bool" where
  "removed cmds d u \<longleftrightarrow> failures d 0 = None \<and> account_removed cmds (username d) (unix d) u"

definition still_there :: "rusalka \<Rightarrow> unix \<Rightarrow> bool" where
  "still_there d u \<longleftrightarrow> failures d 1 = None \<and> accounts u (username d) \<noteq> None"

definition created :: "commands \<Rightarrow> rusalka \<Rightarrow> unix \<Rightarrow> bool" where
  "created cmds d v \<longleftrightarrow> (\<exists>u. removed cmds d u \<and> (if still_there d u then v = u
     else \<exists>r. cmds (prepareUserAddCmd (username d) (groups d)) u = (r, v) \<and> is_done r))"

definition found :: "commands \<Rightarrow> rusalka \<Rightarrow> unix \<Rightarrow> account \<Rightarrow> bool" where
  "found cmds d v acc \<longleftrightarrow> created cmds d v \<and> failures d 2 = None \<and> accounts v (username d) = Some acc"

definition key_file_open :: "commands \<Rightarrow> rusalka \<Rightarrow> account \<Rightarrow> unix \<Rightarrow> bool" where
  "key_file_open cmds d acc x \<longleftrightarrow> (\<exists>v w. found cmds d v acc
     \<and> call_ends d 3 (os_MkdirAll (ssh_dir acc) 493) v None w \<and> call_ends d 4 (os_OpenFile (keys_file acc) 384) w None x)"

inductive stage_error :: "commands \<Rightarrow> (PublicKey \<Rightarrow> string) \<Rightarrow> PublicKey option \<Rightarrow> rusalka \<Rightarrow> string \<Rightarrow> unix \<Rightarrow> bool"
  for cmds marshal key d where
  no_lookup: "failures d 0 = Some e \<Longrightarrow> stage_error cmds marshal key d (''user removal failed: '' @ e) (unix d)"
| removal: "failures d 0 = None \<Longrightarrow> accounts (unix d) (username d) \<noteq> None \<Longrightarrow>
     cmds (prepareUserDelCmd (username d)) (unix d) = (r, u) \<Longrightarrow> \<not> is_done r \<Longrightarrow>
     stage_error cmds marshal key d (''user removal failed: '' @ failure_text userDelExit r) u"
| creation: "removed cmds d u \<Longrightarrow> \<not> still_there d u \<Longrightarrow>
     cmds (prepareUserAddCmd (username d) (groups d)) u = (r, v) \<Longrightarrow> \<not> is_done r \<Longrightarrow>
     stage_error cmds marshal key d (''user creation failed: '' @ failure_text userAddExit r) v"
| no_update: "created cmds d v \<Longrightarrow> failures d 2 = Some e \<Longrightarrow>
     stage_error cmds marshal key d (''user information update failed: '' @ e) v"
| unknown: "created cmds d v \<Longrightarrow> failures d 2 = None \<Longrightarrow> accounts v (username d) = None \<Longrightarrow>
     stage_error cmds marshal key d (''user information update failed: user: unknown user '' @ username d) v"
| no_key: "found cmds d v acc \<Longrightarrow> key = None \<Longrightarrow> stage_error cmds marshal key d ''empty public key'' v"
| directory: "found cmds d v acc \<Longrightarrow> key = Some k \<Longrightarrow>
     call_ends d 3 (os_MkdirAll (ssh_dir acc) 493) v (Some e) w \<Longrightarrow> stage_error cmds marshal key d e w"
| key_file: "found cmds d v acc \<Longrightarrow> key = Some k \<Longrightarrow> call_ends d 3 (os_MkdirAll (ssh_dir acc) 493) v None w \<Longrightarrow>
     call_ends d 4 (os_OpenFile (keys_file acc) 384) w (Some e) x \<Longrightarrow> stage_error cmds marshal key d e x"
| uid: "key_file_open cmds d acc x \<Longrightarrow> key = Some k \<Longrightarrow> Atoi (Uid acc) = Inl e \<Longrightarrow> stage_error cmds marshal key d e x"
| gid: "key_file_open cmds d acc x \<Longrightarrow> key = Some k \<Longrightarrow> Atoi (Uid acc) = Inr uid \<Longrightarrow> Atoi (Gid acc) = Inl e \<Longrightarrow>
     stage_error cmds marshal key d e x"
| directory_owner: "key_file_open cmds d acc x \<Longrightarrow> key = Some k \<Longrightarrow> Atoi (Uid acc) = Inr uid \<Longrightarrow> Atoi (Gid acc) = Inr gid \<Longrightarrow>
     call_ends d 5 (os_Chown (ssh_dir acc) uid gid) x (Some e) y \<Longrightarrow> stage_error cmds marshal key d e y"
| file_owner: "key_file_open cmds d acc x \<Longrightarrow> key = Some k \<Longrightarrow> Atoi (Uid acc) = Inr uid \<Longrightarrow> Atoi (Gid acc) = Inr gid \<Longrightarrow>
     call_ends d 5 (os_Chown (ssh_dir acc) uid gid) x None y \<Longrightarrow>
     call_ends d 6 (file_Chown (keys_file acc) uid gid) y (Some e) z \<Longrightarrow> stage_error cmds marshal key d e z"
| not_written: "key_file_open cmds d acc x \<Longrightarrow> key = Some k \<Longrightarrow> Atoi (Uid acc) = Inr uid \<Longrightarrow> Atoi (Gid acc) = Inr gid \<Longrightarrow>
     call_ends d 5 (os_Chown (ssh_dir acc) uid gid) x None y \<Longrightarrow>
     call_ends d 6 (file_Chown (keys_file acc) uid gid) y None z \<Longrightarrow>
     call_ends d 7 (file_Write (keys_file acc) (marshal k)) z (Some e) z' \<Longrightarrow> stage_error cmds marshal key d e z'"

section \<open>What is reported\<close>

text \<open>What a call of the system ends with.\<close>

lemma call_ends_syscall:
  "call_ends d i (syscall f) u err u' \<longleftrightarrow> (case failures d i of Some e \<Rightarrow> err = Some e \<and> u' = u
     | None \<Rightarrow> (case f u of Inl e \<Rightarrow> err = Some e \<and> u' = u | Inr v \<Rightarrow> err = None \<and> u' = v))"
proof -
  have "call_ends d i (syscall f) u err u' \<longleftrightarrow> wp (syscall f) (\<lambda>err' d'. err' = err \<and> unix d' = u') (after_calls d i u)"
    by (auto simp: call_ends_def wp_iff)
  also have "\<dots> \<longleftrightarrow> (case failures d i of Some e \<Rightarrow> err = Some e \<and> u' = u
     | None \<Rightarrow> (case f u of Inl e \<Rightarrow> err = Some e \<and> u' = u | Inr v \<Rightarrow> err = None \<and> u' = v))"
    by (auto simp: wp_syscall after_calls_def split: option.split sum.split)
  finally show ?thesis .
qed

lemmas call_ends_simps = os_MkdirAll_def os_OpenFile_def os_Chown_def file_Chown_def file_Write_def call_ends_syscall

text \<open>The state in which each stage begins: only the account looked up and the board differ.\<close>

definition at_stage :: "rusalka \<Rightarrow> nat \<Rightarrow> unix \<Rightarrow> rusalka \<Rightarrow> bool" where
  "at_stage d i u e \<longleftrightarrow> unix e = u \<and> failures e = (\<lambda>j. failures d (i + j)) \<and> username e = username d \<and> groups e = groups d"

lemma handleUserCmdError_text: "handleUserCmdError table r = (if is_done r then None else Some (failure_text table r))"
  by (cases r) (simp_all add: handleUserCmdError_def failure_text_def is_done_def split: option.split)

lemma removal_stage:
  assumes "at_stage d 0 (unix d) e"
  shows "wp (bu_delete cmds) (\<lambda>err e'. (case err of
       None \<Rightarrow> \<exists>u. removed cmds d u \<and> at_stage d 1 u e'
     | Some m \<Rightarrow> stage_error cmds marshal key d (''user removal failed: '' @ m) (unix e'))) e"
  using assms no_lookup [of d _ cmds marshal key] removal [of d cmds _ _ marshal key]
  by (auto simp: bu_delete_def wp_simps ticked_def at_stage_def removed_def account_removed_def handleUserCmdError_text
      prod_eq_iff split: option.split dest: is_done_def [THEN iffD1])

lemma created_kept: "removed cmds d u \<Longrightarrow> still_there d u \<Longrightarrow> created cmds d u"
  by (auto simp: created_def)

lemma created_anew:
  "removed cmds d u \<Longrightarrow> \<not> still_there d u \<Longrightarrow> is_done (fst (cmds (prepareUserAddCmd (username d) (groups d)) u)) \<Longrightarrow>
   created cmds d (snd (cmds (prepareUserAddCmd (username d) (groups d)) u))"
  by (auto simp: created_def prod_eq_iff intro!: exI [of _ u])

lemma creation_stage:
  assumes "at_stage d 1 u e" and "removed cmds d u"
  shows "wp (bu_add cmds) (\<lambda>err e'. (case err of
       None \<Rightarrow> \<exists>v. created cmds d v \<and> at_stage d 2 v e'
     | Some m \<Rightarrow> stage_error cmds marshal key d (''user creation failed: '' @ m) (unix e'))) e"
  using assms creation [OF assms(2), of _ _ marshal key] created_kept [OF assms(2)] created_anew [OF assms(2)]
  by (auto simp: bu_add_def wp_simps ticked_def at_stage_def still_there_def handleUserCmdError_text
      numeral_2_eq_2 split: option.split)

lemma update_stage:
  assumes "at_stage d 2 v e" and "created cmds d v"
  shows "wp bu_update (\<lambda>err e'. (case err of
       None \<Rightarrow> \<exists>acc. found cmds d v acc \<and> user e' = Some acc \<and> at_stage d 3 v e'
     | Some m \<Rightarrow> stage_error cmds marshal key d (''user information update failed: '' @ user_error_text m) (unix e'))) e"
  using assms no_update [OF assms(2)] unknown [OF assms(2)]
  by (auto simp: wp_bu_update ticked_def at_stage_def found_def numeral_2_eq_2 numeral_3_eq_3 split: option.split)

lemma call_at_stage:
  assumes "at_stage d i u e"
    and "\<And>x u' e'. call_ends d i (syscall f) u x u' \<Longrightarrow> at_stage d (Suc i) u' e' \<Longrightarrow> Q x e'"
  shows "wp (syscall f) Q e"
proof -
  have "at_stage d (Suc i) u (ticked e)" "at_stage d (Suc i) u' (ticked e\<lparr>unix := u'\<rparr>)" for u'
    using assms(1) by (simp_all add: at_stage_def ticked_def)
  with assms show ?thesis
    by (auto simp: wp_syscall call_ends_syscall at_stage_def split: option.split sum.split)
qed

lemma calls_at_stage:
  assumes "at_stage d i u e"
  shows "(\<And>x u' e'. call_ends d i (os_MkdirAll p m) u x u' \<Longrightarrow> at_stage d (Suc i) u' e' \<Longrightarrow> Q x e') \<Longrightarrow> wp (os_MkdirAll p m) Q e"
    and "(\<And>x u' e'. call_ends d i (os_OpenFile p m) u x u' \<Longrightarrow> at_stage d (Suc i) u' e' \<Longrightarrow> Q x e') \<Longrightarrow> wp (os_OpenFile p m) Q e"
    and "(\<And>x u' e'. call_ends d i (os_Chown p a b) u x u' \<Longrightarrow> at_stage d (Suc i) u' e' \<Longrightarrow> Q x e') \<Longrightarrow> wp (os_Chown p a b) Q e"
    and "(\<And>x u' e'. call_ends d i (file_Chown p a b) u x u' \<Longrightarrow> at_stage d (Suc i) u' e' \<Longrightarrow> Q x e') \<Longrightarrow> wp (file_Chown p a b) Q e"
    and "(\<And>x u' e'. call_ends d i (file_Write p t) u x u' \<Longrightarrow> at_stage d (Suc i) u' e' \<Longrightarrow> Q x e') \<Longrightarrow> wp (file_Write p t) Q e"
  unfolding os_MkdirAll_def os_OpenFile_def os_Chown_def file_Chown_def file_Write_def
  by (rule call_at_stage [OF assms]; blast)+

abbreviation owning :: "account \<Rightarrow> string \<Rightarrow> string option dop" where
  "owning acc text \<equiv> and_then (updateOwnership (keys_file acc) (ssh_dir acc) (Uid acc) (Gid acc)) (file_Write (keys_file acc) text)"

lemma wp_installKey_steps:
  "user e = Some acc \<Longrightarrow> wp (installKey marshal (Some k)) Q e
   = wp (and_then (os_MkdirAll (ssh_dir acc) 493) (and_then (os_OpenFile (keys_file acc) 384) (owning acc (marshal k)))) Q e"
  by (simp add: installKey_def installPublicKey_def wp_bnd wp_gets Let_def ssh_dir_def keys_file_def)

lemmas wp_installKey_calls = wp_installKey_steps
  [unfolded wp_and_then [of _ "os_MkdirAll p m" for p m] wp_and_then [of _ "os_OpenFile p m" for p m]]

lemma install_stage:
  assumes e: "at_stage d 3 v e" "user e = Some acc" and acc: "found cmds d v acc"
  shows "wp (installKey marshal key) (\<lambda>err e'. \<forall>m. err = Some m \<longrightarrow> stage_error cmds marshal key d m (unix e')) e"
proof (cases key)
  case None
  with e acc show ?thesis
    by (auto simp: installKey_def installPublicKey_def wp_simps at_stage_def intro: no_key)
next
  case (Some k)
  let ?Q = "\<lambda>err e'. \<forall>m. err = Some m \<longrightarrow> stage_error cmds marshal key d m (unix e')"
  have at: "unix f = u" if "at_stage d i u f" for i f u using that by (simp add: at_stage_def)
  have owned: "wp (and_then (and_then (os_Chown (ssh_dir acc) uid gid) (file_Chown (keys_file acc) uid gid))
      (file_Write (keys_file acc) (marshal k))) ?Q f"
    if f: "at_stage d 5 x f" and x: "key_file_open cmds d acc x" "Atoi (Uid acc) = Inr uid" "Atoi (Gid acc) = Inr gid" for f x uid gid
    unfolding wp_and_then
  proof (rule calls_at_stage [OF f], goal_cases)
    case (1 r y g)
    show ?case
    proof (cases r)
      case None
      have "wp (file_Chown (keys_file acc) uid gid) (\<lambda>err. if err \<noteq> None then ?Q err else wp (file_Write (keys_file acc) (marshal k)) ?Q) g"
      proof (rule calls_at_stage [OF 1(2)], goal_cases)
        case (1 r' z h)
        note own = \<open>call_ends d 5 _ x r y\<close> [unfolded None] 1(1)
        show ?case
        proof (cases r')
          case None
          have "wp (file_Write (keys_file acc) (marshal k)) ?Q h"
            by (rule calls_at_stage [OF 1(2)])
               (use not_written [OF x(1) Some x(2,3) own(1)] own(2) None at in auto)
          with None show ?thesis by simp
        qed (use file_owner [OF x(1) Some x(2,3) own(1)] own(2) at [OF 1(2)] in auto)
      qed
      with None show ?thesis by simp
    qed (use directory_owner [OF x(1) Some x(2,3)] 1 at in auto)
  qed
  have opened: "wp (owning acc (marshal k)) ?Q f"
    if f: "at_stage d 5 x f" and x: "key_file_open cmds d acc x" for f x
    using uid [OF x Some] gid [OF x Some] owned [OF f x] at [OF f]
    by (auto simp: wp_and_then wp_updateOwnership split: sum.split)
  have made: "wp (os_OpenFile (keys_file acc) 384) (\<lambda>err. if err \<noteq> None then ?Q err else
      wp (owning acc (marshal k)) ?Q) f"
    if f: "at_stage d 4 w f" and w: "call_ends d 3 (os_MkdirAll (ssh_dir acc) 493) v None w" for f w
  proof (rule calls_at_stage [OF f], goal_cases)
    case (1 r x g)
    show ?case
    proof (cases r)
      case None
      with 1 w acc have "key_file_open cmds d acc x" by (auto simp: key_file_open_def)
      from opened [OF _ this, of g] 1(2) None show ?thesis by simp
    qed (use key_file [OF acc Some w] 1 at in auto)
  qed
  have "wp (and_then (os_MkdirAll (ssh_dir acc) 493) (and_then (os_OpenFile (keys_file acc) 384)
      (owning acc (marshal k)))) ?Q e"
    unfolding wp_and_then [of _ "os_MkdirAll p m" for p m] wp_and_then [of _ "os_OpenFile p m" for p m]
  proof (rule calls_at_stage [OF e(1)], goal_cases)
    case (1 r w g)
    show ?case
    proof (cases r)
      case None
      with made [of w g] 1 show ?thesis by simp
    qed (use directory [OF acc Some] 1 at in auto)
  qed
  then show ?thesis unfolding Some wp_installKey_steps [OF e(2)] .
qed

lemma maintenance_stopped_stage: "at_stage d 0 (unix d) (maintenance_stopped d)"
  by (simp add: at_stage_def maintenance_stopped_def split: option.split)

lemma Prepare_stages:
  "wp (Prepare cmds marshal key) (\<lambda>err d'. \<forall>m. err = Some m \<longrightarrow> stage_error cmds marshal key d m (unix d')) d"
proof -
  let ?Q = "\<lambda>err d'. \<forall>m. err = Some m \<longrightarrow> stage_error cmds marshal key d m (unix d')"
  let ?update = "prefixed ''user information update failed: '' (bnd bu_update (\<lambda>e. ret (map_option user_error_text e)))"
  have last: "wp (and_then ?update (installKey marshal key)) ?Q f" if "at_stage d 2 v f" "created cmds d v" for v f
    unfolding wp_and_then wp_prefixed wp_bnd wp_ret
    by (rule wp_mono [OF update_stage [OF that]]) (auto split: option.splits intro: wp_mono [OF install_stage])
  have middle: "wp (and_then (prefixed ''user creation failed: '' (bu_add cmds)) (and_then ?update (installKey marshal key))) ?Q f"
    if "at_stage d 1 u f" "removed cmds d u" for u f
    unfolding wp_and_then [of _ "prefixed ''user creation failed: '' (bu_add cmds)"] wp_prefixed
    by (rule wp_mono [OF creation_stage [OF that, where marshal = marshal and key = key]]) (use last in \<open>auto split: option.splits\<close>)
  have "wp (and_then (prefixed ''user removal failed: '' (bu_delete cmds))
      (and_then (prefixed ''user creation failed: '' (bu_add cmds)) (and_then ?update (installKey marshal key)))) ?Q
      (maintenance_stopped d)"
    unfolding wp_and_then [of _ "prefixed ''user removal failed: '' (bu_delete cmds)"] wp_prefixed
    by (rule wp_mono [OF removal_stage [OF maintenance_stopped_stage, where cmds = cmds and marshal = marshal and key = key]])
       (use middle in \<open>auto split: option.splits\<close>)
  then show ?thesis
    unfolding Prepare_def cancel_def wp_thn wp_bnd wp_gets wp_case_option wp_modify wp_ret
    by (simp add: maintenance_stopped_def split: option.splits)
qed

text \<open>The other way: when the stages before have succeeded, \<open>Prepare\<close> gets to the next one.\<close>

abbreviation creating :: "commands \<Rightarrow> (PublicKey \<Rightarrow> string) \<Rightarrow> PublicKey option \<Rightarrow> string option dop" where
  "creating cmds marshal key \<equiv> and_then (prefixed ''user creation failed: '' (bu_add cmds))
     (and_then (prefixed ''user information update failed: '' (bnd bu_update (\<lambda>e. ret (map_option user_error_text e))))
        (installKey marshal key))"

abbreviation updating :: "(PublicKey \<Rightarrow> string) \<Rightarrow> PublicKey option \<Rightarrow> string option dop" where
  "updating marshal key \<equiv> and_then
     (prefixed ''user information update failed: '' (bnd bu_update (\<lambda>e. ret (map_option user_error_text e)))) (installKey marshal key)"

lemma wp_Prepare_from:
  "wp (Prepare cmds marshal key) Q d
   = wp (and_then (prefixed ''user removal failed: '' (bu_delete cmds)) (creating cmds marshal key)) Q (maintenance_stopped d)"
  unfolding Prepare_def cancel_def wp_thn wp_bnd wp_gets wp_case_option wp_modify wp_ret
  by (simp add: maintenance_stopped_def split: option.split)

lemma from_removed:
  assumes "removed cmds d u" and "\<And>f. at_stage d 1 u f \<Longrightarrow> wp (creating cmds marshal key) Q f"
  shows "wp (Prepare cmds marshal key) Q d"
proof -
  have "wp (bu_delete cmds) (\<lambda>err f. err = None \<and> at_stage d 1 u f) (maintenance_stopped d)"
    using assms(1) maintenance_stopped_stage [of d]
    by (auto simp: bu_delete_def wp_simps ticked_def at_stage_def removed_def account_removed_def handleUserCmdError_text
        is_done_def split: option.split)
  then show ?thesis
    unfolding wp_Prepare_from wp_and_then [of _ "prefixed ''user removal failed: '' (bu_delete cmds)"] wp_prefixed
    by (rule wp_mono) (use assms(2) in auto)
qed

lemma from_created:
  assumes "created cmds d v" and "\<And>f. at_stage d 2 v f \<Longrightarrow> wp (updating marshal key) Q f"
  shows "wp (Prepare cmds marshal key) Q d"
proof -
  obtain u where u: "removed cmds d u" and v: "if still_there d u then v = u
     else \<exists>r. cmds (prepareUserAddCmd (username d) (groups d)) u = (r, v) \<and> is_done r"
    using assms(1) by (auto simp: created_def)
  show ?thesis
  proof (rule from_removed [OF u])
    fix f assume f: "at_stage d 1 u f"
    have "wp (bu_add cmds) (\<lambda>err g. err = None \<and> at_stage d 2 v g) f"
      using f v by (auto simp: bu_add_def wp_simps ticked_def at_stage_def still_there_def handleUserCmdError_text
          numeral_2_eq_2 split: option.splits if_splits)
    then show "wp (creating cmds marshal key) Q f"
      unfolding wp_and_then [of _ "prefixed ''user creation failed: '' (bu_add cmds)"] wp_prefixed
      by (rule wp_mono) (use assms(2) in auto)
  qed
qed

lemma from_found:
  assumes "found cmds d v acc" and "\<And>f. at_stage d 3 v f \<Longrightarrow> user f = Some acc \<Longrightarrow> wp (installKey marshal key) Q f"
  shows "wp (Prepare cmds marshal key) Q d"
proof (rule from_created)
  show "created cmds d v" using assms(1) by (simp add: found_def)
  fix f assume f: "at_stage d 2 v f"
  have "wp bu_update (\<lambda>err g. err = None \<and> at_stage d 3 v g \<and> user g = Some acc) f"
    using f assms(1) by (auto simp: wp_bu_update found_def ticked_def at_stage_def numeral_2_eq_2 numeral_3_eq_3)
  then show "wp (updating marshal key) Q f"
    unfolding wp_and_then wp_prefixed wp_bnd wp_ret by (rule wp_mono) (use assms(2) in auto)
qed

text \<open>A call whose end is given.\<close>

lemma call_known:
  assumes "at_stage d i u e" and "call_ends d i (syscall f) u x u'" and "\<And>e'. at_stage d (Suc i) u' e' \<Longrightarrow> Q x e'"
  shows "wp (syscall f) Q e"
  by (rule call_at_stage [OF assms(1)])
     (use assms(2,3) in \<open>auto simp: call_ends_syscall split: option.splits sum.splits\<close>)

lemma calls_known:
  assumes "at_stage d i u e" and "\<And>e'. at_stage d (Suc i) u' e' \<Longrightarrow> Q x e'"
  shows "call_ends d i (os_MkdirAll p m) u x u' \<Longrightarrow> wp (os_MkdirAll p m) Q e"
    and "call_ends d i (os_OpenFile p m) u x u' \<Longrightarrow> wp (os_OpenFile p m) Q e"
    and "call_ends d i (os_Chown p a b) u x u' \<Longrightarrow> wp (os_Chown p a b) Q e"
    and "call_ends d i (file_Chown p a b) u x u' \<Longrightarrow> wp (file_Chown p a b) Q e"
    and "call_ends d i (file_Write p t) u x u' \<Longrightarrow> wp (file_Write p t) Q e"
  unfolding os_MkdirAll_def os_OpenFile_def os_Chown_def file_Chown_def file_Write_def
  using call_known [OF assms(1)] assms(2) by blast+

lemma from_open:
  assumes "key_file_open cmds d acc x" and "\<And>f. at_stage d 5 x f \<Longrightarrow> wp (owning acc (marshal k)) Q f"
  shows "wp (Prepare cmds marshal (Some k)) Q d"
proof -
  obtain v w where v: "found cmds d v acc" "call_ends d 3 (os_MkdirAll (ssh_dir acc) 493) v None w"
      "call_ends d 4 (os_OpenFile (keys_file acc) 384) w None x"
    using assms(1) by (auto simp: key_file_open_def)
  show ?thesis
    by (rule from_found [OF v(1)],
        unfold wp_installKey_calls)
       (rule calls_known(1) [OF _ _ v(2)], assumption, simp, rule calls_known(2) [OF _ _ v(3)], simp, simp add: assms(2))
qed

lemma from_owned:
  assumes "key_file_open cmds d acc x" "Atoi (Uid acc) = Inr uid" "Atoi (Gid acc) = Inr gid"
    and "\<And>f. at_stage d 5 x f \<Longrightarrow> wp (and_then (and_then (os_Chown (ssh_dir acc) uid gid) (file_Chown (keys_file acc) uid gid))
        (file_Write (keys_file acc) (marshal k))) Q f"
  shows "wp (Prepare cmds marshal (Some k)) Q d"
  by (rule from_open [OF assms(1)]) (use assms(2-4) in \<open>simp add: wp_and_then wp_updateOwnership\<close>)

lemma stage_error_reported:
  assumes "stage_error cmds marshal key d e u"
  shows "wp (Prepare cmds marshal key) (\<lambda>err d'. err = Some e \<and> unix d' = u) d"
  using assms
proof cases
  case (no_lookup m)
  then show ?thesis
    using maintenance_stopped_stage [of d]
    by (auto simp: wp_Prepare_from wp_simps bu_delete_def ticked_def at_stage_def)
next
  case (removal r)
  then show ?thesis
    using maintenance_stopped_stage [of d]
    by (auto simp: wp_Prepare_from wp_simps bu_delete_def ticked_def at_stage_def handleUserCmdError_text)
next
  case (creation u' r)
  show ?thesis
    by (rule from_removed [OF creation(2)])
       (use creation in \<open>auto simp: wp_simps bu_add_def ticked_def at_stage_def still_there_def handleUserCmdError_text split: option.splits\<close>)
next
  case (no_update m)
  show ?thesis
    by (rule from_created [OF no_update(2)]) (use no_update in \<open>auto simp: wp_simps ticked_def at_stage_def numeral_2_eq_2\<close>)
next
  case unknown
  show ?thesis
    by (rule from_created [OF unknown(2)]) (use unknown in \<open>auto simp: wp_simps ticked_def at_stage_def numeral_2_eq_2\<close>)
next
  case (no_key acc)
  show ?thesis
    by (rule from_found [OF no_key(2)])
       (use no_key in \<open>auto simp: installKey_def installPublicKey_def wp_simps at_stage_def\<close>)
next
  case (directory v acc k)
  show ?thesis
    unfolding directory(2)
    by (rule from_found [OF directory(1)], unfold wp_installKey_calls)
       (rule calls_known(1) [OF _ _ directory(3)], assumption, simp add: at_stage_def)
next
  case (key_file v acc k w)
  show ?thesis
    unfolding key_file(2)
    by (rule from_found [OF key_file(1)],
        unfold wp_installKey_calls)
       (rule calls_known(1) [OF _ _ key_file(3)], assumption, simp, rule calls_known(2) [OF _ _ key_file(4)], simp, simp add: at_stage_def)
next
  case (uid acc k)
  show ?thesis
    unfolding uid(2) by (rule from_open [OF uid(1)]) (use uid in \<open>simp add: wp_and_then wp_updateOwnership at_stage_def\<close>)
next
  case (gid acc k n)
  show ?thesis
    unfolding gid(2) by (rule from_open [OF gid(1)]) (use gid in \<open>simp add: wp_and_then wp_updateOwnership at_stage_def\<close>)
next
  case (directory_owner acc x k uid gid)
  show ?thesis
    unfolding directory_owner(2)
    by (rule from_owned [OF directory_owner(1,3,4)], unfold wp_and_then)
       (rule calls_known(3) [OF _ _ directory_owner(5)], assumption, simp add: at_stage_def)
next
  case (file_owner acc x k uid gid y)
  show ?thesis
    unfolding file_owner(2)
    by (rule from_owned [OF file_owner(1,3,4)], unfold wp_and_then)
       (rule calls_known(3) [OF _ _ file_owner(5)], assumption, simp, rule calls_known(4) [OF _ _ file_owner(6)], simp, simp add: at_stage_def)
next
  case (not_written acc x k uid gid y z)
  show ?thesis
    unfolding not_written(2)
    by (rule from_owned [OF not_written(1,3,4)], unfold wp_and_then)
       (rule calls_known(3) [OF _ _ not_written(5)], assumption, simp, rule calls_known(4) [OF _ _ not_written(6)], simp, simp,
        rule calls_known(5) [OF _ _ not_written(7)], simp, simp add: at_stage_def)
qed

text \<open>
  C35. What fails is reported with its stage.  \<open>Prepare\<close> ends with an error and leaves the
  system in a state if and only if one of its stages fails so: the account cannot be looked
  up; the command that removes it or the one that creates it fails, with the meaning of the
  exit status; the account is not there afterwards; there is no key; or a step of installing
  it fails, each after the stages before have succeeded, and with the system as the failing
  step left it.
\<close>

theorem prepare_reports_stage:
  "(\<exists>d'. Prepare cmds marshal key d = Returns (Some e, d') \<and> unix d' = u) \<longleftrightarrow> stage_error cmds marshal key d e u"
proof
  assume "\<exists>d'. Prepare cmds marshal key d = Returns (Some e, d') \<and> unix d' = u"
  then show "stage_error cmds marshal key d e u"
    using wp_resultD [OF Prepare_stages [of cmds marshal key d]] by blast
next
  assume "stage_error cmds marshal key d e u"
  from stage_error_reported [OF this] show "\<exists>d'. Prepare cmds marshal key d = Returns (Some e, d') \<and> unix d' = u"
    by (auto simp: wp_iff)
qed

lemma prepare_reports_stage_witness:
  "\<exists>d'. Prepare (\<lambda>_ u. (CmdExit 8 ''exit status 8'' '''', u)) FormatUint (Some 7) used_agent
     = Returns (Some ''user removal failed: command failed: user currently logged in'', d')"
proof -
  let ?cmds = "\<lambda>_ u. (CmdExit 8 ''exit status 8'' '''', u)"
  have "stage_error ?cmds FormatUint (Some 7) used_agent
      (''user removal failed: '' @ failure_text userDelExit (CmdExit 8 ''exit status 8'' '''')) (unix used_agent)"
    by (rule removal) (simp_all add: used_agent_def NewRusalka_def is_done_def)
  with prepare_reports_stage [of ?cmds FormatUint "Some 7" used_agent] show ?thesis
    by (fastforce simp: failure_text_def userDelExit_def)
qed

end
