(* ===== verification/WellFormed.thy ===== *)
theory WellFormed
  imports Guarantees Liberal
begin

text \<open>
  The shape of the stored data and the bounds of what the server holds, in every reachable
  state: what a registration has checked stays true of a worker, and no channel, queue or
  set of tunnels grows beyond what the workers and requests account for.
\<close>

section \<open>Workers as registered\<close>

text \<open>
  Registration checks that a worker names its UUID among its capabilities and that its
  addresses are complete; groups are kept sorted.  A channel never holds more than its
  buffer has room for.
\<close>

definition complete :: "TCPAddr \<Rightarrow> bool" where
  "complete a \<longleftrightarrow> IP a \<noteq> None \<and> Port a \<noteq> 0"

definition registered :: "WorkerUUID \<Rightarrow> mapWorker \<Rightarrow> bool" where
  "registered u w \<longleftrightarrow> WCaps (info w) ''UUID'' = Some u \<and> sorted (WGroups (info w)) \<and> complete (dryad w) \<and> complete (sshd w)"

definition store :: "server \<Rightarrow> (WorkerUUID \<rightharpoonup> mapWorker) \<times> (nat \<Rightarrow> chan)" where
  "store s = (workers (wl s), chans s)"

definition wf :: "server \<Rightarrow> bool" where
  "wf s \<longleftrightarrow> (\<forall>u w. workers (wl s) u = Some w \<longrightarrow> registered u w)
     \<and> (\<forall>c. length (buf (chans s c)) \<le> backgroundOperationsBufferSize)"

lemma keeps_store: "preserves store m \<Longrightarrow> keeps wf m"
  by (auto simp: keeps_def wlp_def preserves_def store_def wf_def)

section \<open>The operations keep it\<close>

lemma store_untouched [preserves_intros]:
  "preserves store (OnWorkerIdle u)" "preserves store (OnWorkerFail u)" "preserves store (pushRequest r)"
  "preserves store (removeRequest r)" "preserves store (setRequestPriority r p)" "preserves store (times_insert k x)"
  "preserves store time_Now" "preserves store (upd_request i f)" "preserves store (put_request i r)"
  "preserves store get_requests" "preserves store get_workers" "preserves store (lock l)" "preserves store (unlock l)"
  "preserves store (finish_job u)" "preserves store (jobs_Get u)"
  unfolding OnWorkerIdle_def OnWorkerFail_def pushRequest_def removeRequest_def setRequestPriority_def times_insert_def
    put_request_def jobs_Get_def finish_job_def op_defs
  by (intro preserves_intros; simp add: store_def)+

lemma keeps_critical_wf [keeps_intros]: "keeps wf m \<Longrightarrow> keeps wf (critical l m)"
  unfolding critical_def
  by (intro keeps_thn keeps_bnd keeps_basic keeps_store [OF store_untouched(12)] keeps_store [OF store_untouched(13)])

lemma keeps_upd_worker_wf [keeps_intros]:
  "(\<And>w. registered u w \<Longrightarrow> registered u (f w)) \<Longrightarrow> keeps wf (upd_worker u f)"
  by (auto simp: keeps_def wf_def upd_worker_def wlp_simps)

lemma keeps_channels [keeps_intros]:
  "keeps wf (chan_send c st)" "keeps wf (chan_close c)" "keeps wf (checkPendingOperation c)" "keeps wf (receive c)"
  by (auto simp: keeps_def wf_def chan_send_def chan_close_def checkPendingOperation_def receive_def wlp_simps
      split: list.split) (metis Suc_leD length_Cons)

lemmas keeps_untouched [keeps_intros] = store_untouched [THEN keeps_store]

lemma keeps_setState_wf [keeps_intros]: "keeps wf (setState u st)"
  unfolding setState_def by (intro keeps_intros) (simp add: registered_def)

lemma check_addr_complete: "check_addr resolve what text = Inr a \<Longrightarrow> complete a"
  by (auto simp: check_addr_def complete_def split: sum.splits if_splits)

lemma keeps_Register_wf [keeps_intros]: "keeps wf (Register resolve caps dt st)"
proof -
  have "keeps wf (critical WorkersMutex (bnd get_workers (\<lambda>m. case m uuid of
      Some worker \<Rightarrow>
        let newState = re_registered_state worker caps d sa in
        thn (upd_worker uuid (\<lambda>w. w\<lparr>info := (info w)\<lparr>WCaps := caps\<rparr>, dryad := d, sshd := sa\<rparr>))
       (thn (if newState \<noteq> WState (info worker) then thn (setState uuid newState) (ret ()) else ret ())
            (ret (None :: error option)))
    | None \<Rightarrow> bnd (gets next_chan) (\<lambda>c.
        thn (modify (\<lambda>s. s\<lparr>
             chans := (chans s)(c := \<lparr>buf = [], closed = False\<rparr>),
             next_chan := Suc c,
             wl := (wl s)\<lparr>workers := (workers (wl s))(uuid \<mapsto> new_worker uuid caps d sa c)\<rparr>,
             bgs := (bgs s)(c \<mapsto> new_bg uuid)\<rparr>))
            (ret None)))))" if "caps ''UUID'' = Some uuid" "complete d" "complete sa" for uuid d sa
    using that by (intro keeps_intros) (auto simp: registered_def wf_def new_worker_def)
  then show ?thesis
    unfolding Register_def
    by (auto intro!: keeps_basic dest: check_addr_complete split: option.split sum.split)
qed

lemma keeps_workers_wf [keeps_intros]:
  "keeps wf (SetFail u reason)" "keeps wf (SetState u name)" "keeps wf (SetGroups u gs)" "keeps wf (Deregister u)"
  "keeps wf (GetWorkerInfo u)" "keeps wf (getWorkerAddr u)" "keeps wf (GetWorkerSSHAddr u)" "keeps wf (GetWorkerKey u)"
  "keeps wf (setWorkerKey u k)" "keeps wf (PrepareWorker u b)" "keeps wf (listWorkers f si pid idle)"
  unfolding SetFail_def SetState_def SetGroups_def Deregister_def GetWorkerInfo_def getWorkerAddr_def GetWorkerSSHAddr_def
    GetWorkerKey_def setWorkerKey_def PrepareWorker_def listWorkers_def
  by (intro keeps_intros; simp add: registered_def wf_def)+

lemma keeps_jobs_wf [keeps_intros]:
  "keeps wf (TakeBestMatchingWorker gs caps)" "keeps wf (Create i u)" "keeps wf (Finish u b)"
  unfolding TakeBestMatchingWorker_def Create_def Finish_def Tunnel_Create_def
  by (intro keeps_intros; simp add: wf_def)+

lemma keeps_requests_wf [keeps_intros]:
  "keeps wf (CloseRequest i)" "keeps wf (Timeout i)" "keeps wf (Close i)"
  "keeps wf (ProlongAccess i)" "keeps wf (set_timeout i)" "keeps wf (AcquireWorker i)" "keeps wf (GetRequestInfo i)"
  "keeps wf (NewRequest caps p owner va dl)" "keeps wf (UpdateRequest r)"
  unfolding CloseRequest_def closeRequest_def Timeout_def Close_def ProlongAccess_def set_timeout_def AcquireWorker_def
    GetRequestInfo_def Get_def NewRequest_def store_request_def deadline_in_past_def UpdateRequest_def updateRequest_def
    apply_update_def insert_if_def
  by (auto intro!: keeps_intros split: ReqState.split)

lemma keeps_iteration_wf [keeps_intros]:
  "keeps wf InitIteration" "keeps wf TerminateIteration" "keeps wf Next"
  "keeps wf (VerifyIfReady i now)" "keeps wf (Get i)" "keeps wf (Run i u)"
  unfolding InitIteration_def TerminateIteration_def end_iteration_def releaseIterator_def initIterator_def Next_def
    VerifyIfReady_def Get_def Run_def on_queue_def
  by (intro keeps_intros; simp add: wf_def)+

lemma keeps_visit_wf [keeps_intros]: "keeps wf (visit RM WM JM now n)"
proof (induction n)
  case (Suc n)
  then show ?case
    unfolding visit.simps matchWorkers_def RM_methods
    unfolding WM_def JM_def WorkersManager.simps JobsManager.simps by (intro keeps_intros)
qed (simp add: keeps_intros)

lemma keeps_valid_notify_wf [keeps_intros]: "keeps wf (valid_notify RM WM JM time_Now n turns)"
proof (induction turns)
  case (Suc turns)
  then show ?case
    unfolding valid_notify.simps iterateRequests_def RM_methods by (intro keeps_intros)
qed (simp add: keeps_intros)

lemma keeps_fire_wf [keeps_intros]: "keeps wf (fire k t)"
proof -
  have "keeps wf (Notify mk past)" for mk past
    unfolding Notify_def deadline_notify_def timeout_notify_def RM_methods
    by (cases mk) (auto intro!: keeps_intros)
  then show ?thesis
    unfolding fire_def process_def on_rt_def by (intro keeps_intros; simp add: wf_def)
qed

lemma keeps_goto_wf [keeps_intros]: "keeps wf (goto c pc check)"
  unfolding goto_def by (intro keeps_intros) (simp add: wf_def)

lemma keeps_bg_step_wf [keeps_intros]: "keeps wf (bg_step answer key c)"
proof -
  have "keeps wf (bg_call c u answer key pc)" for u pc
    unfolding bg_call_def loop_head_def dispatch_def after_call_def settle_def
    by (cases pc) (auto intro!: keeps_intros split: WorkerState.split)
  then show ?thesis unfolding bg_step_def by (intro keeps_intros)
qed

lemma keeps_event_wf: "keeps wf (run_event resolve e)"
  by (cases e) (simp_all add: ignore_def keeps_intros)

lemma reachable_wf: "reachable resolve s \<Longrightarrow> wf s"
proof (induction rule: reachable.induct)
  case (init clk tz prt far)
  show ?case by (simp add: wf_def start_server_def NewWorkerList_def SetChangeListener_def)
next
  case (more s t)
  then show ?case using wlp_keeps [OF keeps_event_wf] by (auto simp: wlp_def)
qed

section \<open>Properties\<close>

text \<open>
  C20. Stored data is well formed in every reachable state.  A request is stored under its
  number, and a running one has a job.  A worker is stored under its UUID, which its
  capabilities name as well; its groups are sorted, both its addresses have an IP and a
  port, and it has a key when it is idle or running.
\<close>

theorem stored_data_well_formed:
  assumes "reachable resolve s"
  shows "(\<forall>i r. requests (rc s) i = Some r \<longrightarrow> ID r = i \<and> (RState r = INPROGRESS \<longrightarrow> RJob r \<noteq> None))
    \<and> (\<forall>u w. workers (wl s) u = Some w \<longrightarrow> WUUID (info w) = u \<and> WCaps (info w) ''UUID'' = Some u
        \<and> sorted (WGroups (info w)) \<and> complete (dryad w) \<and> complete (sshd w)
        \<and> (WState (info w) \<in> {IDLE, RUN} \<longrightarrow> wkey w \<noteq> None))"
proof (intro conjI allI impI)
  fix i r assume "requests (rc s) i = Some r"
  from data_okD [OF reachable_parts(1) [OF assms] this]
  show "ID r = i" and "RState r = INPROGRESS \<Longrightarrow> RJob r \<noteq> None" by simp_all
next
  fix u w assume w: "workers (wl s) u = Some w"
  from wk_okD(1,2) [OF reachable_parts(7) [OF assms] w]
  show "WUUID (info w) = u" and "WState (info w) \<in> {IDLE, RUN} \<Longrightarrow> wkey w \<noteq> None" by (simp_all add: has_key_def)
  from reachable_wf [OF assms] w have "registered u w" by (simp add: wf_def)
  then show "WCaps (info w) ''UUID'' = Some u" "sorted (WGroups (info w))" "complete (dryad w)" "complete (sshd w)"
    by (simp_all add: registered_def)
qed

lemma stored_data_well_formed_witness:
  "complete (sshd (demo_worker RUN)) \<and> ID (demo_request INPROGRESS (Some \<lparr>jWorkerUUID = ''w'', Timeout_at = 103 + hour_ns, TimeoutZone = 0\<rparr>)) = 1"
  using stored_data_well_formed [OF running_reachable] by (auto simp: running_server_def)

text \<open>
  C21. What the server holds is bounded.  Requests are numbered from 1 without gaps and have
  priorities from 1 to 16; the queue is not longer than there are requests; there are at
  most as many open tunnels as workers; and no channel holds more than the 32 states its
  buffer has room for.
\<close>

theorem server_holds_bounded:
  assumes "reachable resolve s"
  shows "(\<exists>n. dom (requests (rc s)) = {1..n})
    \<and> (\<forall>i r. requests (rc s) i = Some r \<longrightarrow> 1 \<le> unat (Prio r) \<and> unat (Prio r) \<le> 16)
    \<and> qlength (rqueue (rc s)) \<le> card (dom (requests (rc s)))
    \<and> finite (open_tunnels s) \<and> card (open_tunnels s) \<le> card (dom (workers (wl s)))
    \<and> (\<forall>c. length (buf (chans s c)) \<le> 32)"
proof -
  note parts = reachable_parts [OF assms]
  obtain n where n: "dom (requests (rc s)) = {1..n}" using parts(1) by (auto simp: data_ok_def)
  have fin: "finite (dom (workers (wl s)))" using parts(7) by (simp add: wk_ok_def)
  let ?tun = "\<lambda>u. tun_id (jTunnel (the (jobs s u)))"
  have "open_tunnels s \<subseteq> ?tun ` dom (jobs s)"
    using parts(5) unfolding job_ok_def by force
  moreover have jobs: "dom (jobs s) \<subseteq> dom (workers (wl s))"
    using parts(6) by (force simp: run_ok_def)
  ultimately have tun: "open_tunnels s \<subseteq> ?tun ` dom (workers (wl s))" by blast
  have "card (open_tunnels s) \<le> card (dom (workers (wl s)))"
    using card_mono [OF finite_imageI [OF fin] tun] card_image_le [OF fin, of ?tun] by simp
  moreover have "finite (open_tunnels s)" by (rule finite_subset [OF tun finite_imageI [OF fin]])
  moreover have "{i. \<exists>r. requests (rc s) i = Some r \<and> RState r = WAIT} \<subseteq> dom (requests (rc s))" by auto
  then have "qlength (rqueue (rc s)) \<le> card (dom (requests (rc s)))"
    using reachable_queue(3) [OF assms] n card_mono [of "dom (requests (rc s))"] by simp
  moreover have "1 \<le> unat (Prio r) \<and> unat (Prio r) \<le> 16" if "requests (rc s) i = Some r" for i r
    using data_okD [OF parts(1) that] by (simp add: prio_ok_unat)
  moreover have "length (buf (chans s c)) \<le> 32" for c
    using reachable_wf [OF assms] by (simp add: wf_def backgroundOperationsBufferSize_def)
  ultimately show ?thesis using n by blast
qed

lemma server_holds_bounded_witness:
  "card (open_tunnels running_server) \<le> card (dom (workers (wl running_server))) \<and> finite (open_tunnels running_server)"
  using server_holds_bounded [OF running_reachable] by blast

end
