(* ===== verification/Stuck.thy ===== *)
theory Stuck
  imports Guarantees
begin

text \<open>
  What the matcher of valid requests does when the tunnel for a request cannot be created.
  It runs while its timer's collection is locked; it gives the worker back, the worker
  becomes idle, and the listener of idle workers inserts into that same collection.  So the
  call never returns, and it holds the mutexes of the requests and of the queue.
\<close>

section \<open>One attempt\<close>

text \<open>The requests, the workers and the ports stay what they are until a tunnel is asked for.\<close>

definition frozen :: "(ReqID \<rightharpoonup> ReqInfo) \<Rightarrow> WorkerList \<Rightarrow> (nat \<Rightarrow> int option) \<Rightarrow> server \<Rightarrow> bool" where
  "frozen m w p s \<longleftrightarrow> requests (rc s) = m \<and> wl s = w \<and> ports s = p \<and> p 0 = None"

abbreviation frame :: "server \<Rightarrow> (ReqID \<rightharpoonup> ReqInfo) \<times> WorkerList \<times> (nat \<Rightarrow> int option)" where
  "frame s \<equiv> (requests (rc s), wl s, ports s)"

lemma frame_frozen: "frame t = frame s \<Longrightarrow> frozen m w p s \<Longrightarrow> frozen m w p t"
  by (simp add: frozen_def)

text \<open>Giving a worker back while the collection of valid requests is locked does not return.\<close>

lemma PrepareWorker_stuck:
  assumes "workers (wl s) u = Some w" and "WState (info w) = RUN" and "changeListener (wl s)"
    and "\<not> closed (chans s (backgroundOperation w))" and "TimesMutex ValidAfterTimes \<in> held s"
  shows "safe (PrepareWorker u False) Q s"
  using assms by (simp add: PrepareWorker_def setState_def OnWorkerIdle_def times_insert_def wp_simps)

lemma matchWorkers_stuck:
  assumes it: "srv_iter True E L xs s" and frozen: "frozen m w p s" and L: "TimesMutex ValidAfterTimes \<in> L"
    and r: "requests (rc s) x = Some r" "RState r = WAIT"
  shows "safe (matchWorkers RM WM JM r) (\<lambda>again t. \<not> again \<and> t = s \<and> \<not> has_worker s r) s"
proof -
  note iter = srv_iterD [OF it] and parts = invD [OF srv_iterD(1) [OF it]]
  have free: "WorkersMutex \<notin> held s" "JobsMutex \<notin> held s"
    using iter(2,7) by (auto simp: lock_free_def)
  show ?thesis
    unfolding matchWorkers_def wp_bnd
  proof (simp only: WM_def WorkersManager.simps, rule wp_TakeBestMatchingWorker [OF parts(7,8) free(1)], goal_cases)
    case 1
    then show ?case by (auto simp: wp_ret has_worker_def)
  next
    case (2 u v)
    then show ?case by simp
  next
    case (3 u v)
    let ?s = "sent u v RUN s"
    have idle: "WState (info v) = IDLE" using 3 by (simp add: eligible_def)
    then have nojob: "jobs s u = None" using inv_run [OF iter(1), of u] 3(1) by auto
    obtain k where k: "wkey v = Some k"
      using wk_okD(2) [OF parts(7) 3(1)] idle by (auto simp: has_key_def)
    show ?case
      unfolding sum.case wp_bnd JM_def JobsManager.simps
    proof (rule wp_Create [where w = "v\<lparr>info := (info v)\<lparr>WState := RUN\<rparr>\<rparr>" and k = k], goal_cases)
      case 6
      show ?case
        unfolding option.case wp_thn
        by (rule PrepareWorker_stuck [where w = "v\<lparr>info := (info v)\<lparr>WState := RUN\<rparr>\<rparr>"])
           (use parts(8) wk_okD(5) [OF parts(7) 3(1)] iter(2) L in \<open>simp_all add: sent_def\<close>)
    next
      case (7 p')
      with frozen show ?case by (simp add: sent_def frozen_def)
    qed (use free k nojob in \<open>simp_all add: sent_def\<close>)
  qed
qed

section \<open>The whole call\<close>

lemma frame_kept:
  "preserves frame InitIteration" "preserves frame TerminateIteration" "preserves frame Next" "preserves frame time_Now"
  unfolding InitIteration_def TerminateIteration_def end_iteration_def releaseIterator_def initIterator_def Next_def op_defs
  by (intro preserves_intros; simp)+

lemma safe_frozen:
  assumes "preserves frame m" and "safe m Q s" and "frozen a w p s"
  shows "safe m (\<lambda>x t. Q x t \<and> frozen a w p t) s"
  by (rule wp_mono [OF preserves_wp [OF assms(1,2)]]) (use assms(3) in \<open>auto intro: frame_frozen\<close>)

interpretation stuck: matching RM WM JM time_Now True
    "\<lambda>s. srv_idle True E L s \<and> frozen m w p s \<and> TimesMutex ValidAfterTimes \<in> L"
    "\<lambda>xs s. srv_iter True E L xs s \<and> frozen m w p s \<and> TimesMutex ValidAfterTimes \<in> L"
    "\<lambda>s. srv_ended True E L s \<and> frozen m w p s \<and> TimesMutex ValidAfterTimes \<in> L"
    "\<lambda>_. False" srv_queued pending_at "reading E"
  for E L m w p
proof
  fix s
  assume s: "srv_idle True E L s \<and> frozen m w p s \<and> TimesMutex ValidAfterTimes \<in> L"
  show "safe (rmInitIteration RM) (\<lambda>e t. e = None \<and> (srv_iter True E L (srv_queued s) t \<and> frozen m w p t
      \<and> TimesMutex ValidAfterTimes \<in> L) \<and> srv_queued t = srv_queued s) s"
    unfolding RM_methods
    by (rule wp_mono [OF safe_frozen [OF frame_kept(1) InitIteration_law]]) (use s in auto)
next
  fix s xs
  assume s: "srv_iter True E L xs s \<and> frozen m w p s \<and> TimesMutex ValidAfterTimes \<in> L"
  have "safe time_Now (\<lambda>now t. srv_iter True E L xs t \<and> srv_queued t = srv_queued s \<and> reading E now) s"
    by (rule srv.now_law) (use s in auto)
  then show "safe time_Now (\<lambda>now t. (srv_iter True E L xs t \<and> frozen m w p t \<and> TimesMutex ValidAfterTimes \<in> L)
      \<and> srv_queued t = srv_queued s \<and> reading E now) s"
    using s by (auto intro: wp_mono [OF safe_frozen [OF frame_kept(4)]])
next
  fix s x xs
  assume s: "srv_iter True E L (x # xs) s \<and> frozen m w p s \<and> TimesMutex ValidAfterTimes \<in> L"
  show "safe (rmNext RM) (\<lambda>r t. r = (x, True) \<and> (srv_iter True E L xs t \<and> frozen m w p t \<and> TimesMutex ValidAfterTimes \<in> L)
      \<and> srv_queued t = srv_queued s \<and> (\<forall>now y. pending_at t now y \<longrightarrow> pending_at s now y)) s"
    unfolding RM_methods by (rule wp_mono [OF safe_frozen [OF frame_kept(3) Next_law]]) (use s in auto)
next
  fix s
  assume s: "srv_iter True E L [] s \<and> frozen m w p s \<and> TimesMutex ValidAfterTimes \<in> L"
  show "safe (rmNext RM) (\<lambda>r t. r = (0, False) \<and> (srv_ended True E L t \<and> frozen m w p t \<and> TimesMutex ValidAfterTimes \<in> L)
      \<and> srv_queued t = srv_queued s \<and> (\<forall>now y. pending_at t now y \<longrightarrow> pending_at s now y)) s"
    unfolding RM_methods by (rule wp_mono [OF safe_frozen [OF frame_kept(3) Next_end_law]]) (use s in auto)
next
  fix s
  assume s: "(srv_ended True E L s \<and> frozen m w p s \<and> TimesMutex ValidAfterTimes \<in> L) \<or> False"
  show "safe (rmTerminateIteration RM) (\<lambda>_ t. (srv_idle True E L t \<and> frozen m w p t \<and> TimesMutex ValidAfterTimes \<in> L)
      \<and> srv_queued t = srv_queued s \<and> (\<forall>now y. pending_at t now y \<longrightarrow> pending_at s now y)) s"
    unfolding RM_methods by (rule wp_mono [OF safe_frozen [OF frame_kept(2) TerminateIteration_law]]) (use s in auto)
next
  fix s now x
  assume "srv_idle True E L s \<and> frozen m w p s \<and> TimesMutex ValidAfterTimes \<in> L" and "pending_at s now x"
  then show "x \<in> set (srv_queued s)" by (blast intro: pending_in_queue)
next
  fix xs s x now
  assume s: "srv_iter True E L xs s \<and> frozen m w p s \<and> TimesMutex ValidAfterTimes \<in> L"
  show "safe (rmVerifyIfReady RM x now) (\<lambda>r t. t = s \<and>
      (r \<longrightarrow> safe (rmGet RM x) (\<lambda>q t. t = s \<and> (\<exists>req. q = Inr req \<and>
         safe (matchWorkers RM WM JM req) (\<lambda>again t.
           if again then False \<and> length (srv_queued t) < length (srv_queued s)
           else (srv_iter True E L xs t \<and> frozen m w p t \<and> TimesMutex ValidAfterTimes \<in> L) \<and> srv_queued t = srv_queued s
             \<and> \<not> pending_at t now x \<and> (\<forall>y. pending_at t now y \<longrightarrow> pending_at s now y)) s)) s)
      \<and> (\<not> r \<longrightarrow> \<not> pending_at s now x)) s"
  proof (cases "requests (rc s) x")
    case None
    then show ?thesis by (simp add: RM_methods VerifyIfReady_def wp_simps pending_at_def)
  next
    case (Some r)
    have "safe (matchWorkers RM WM JM r) (\<lambda>again t. if again then False \<and> length (srv_queued t) < length (srv_queued s)
           else (srv_iter True E L xs t \<and> frozen m w p t \<and> TimesMutex ValidAfterTimes \<in> L) \<and> srv_queued t = srv_queued s
             \<and> \<not> pending_at t now x \<and> (\<forall>y. pending_at t now y \<longrightarrow> pending_at s now y)) s" if "RState r = WAIT"
      by (rule wp_mono [OF matchWorkers_stuck [where m = m and w = w and p = p]]) (use s Some that in \<open>auto simp: pending_at_def\<close>)
    with Some show ?thesis
      by (auto simp: RM_methods VerifyIfReady_def Get_def wp_simps pending_at_def is_ready_def)
  qed
qed

lemma clock_kept: "preserves clock InitIteration"
  unfolding InitIteration_def initIterator_def op_defs by (intro preserves_intros; simp)+

lemma Notify_stuck:
  assumes ok: "okg E {TimesMutex ValidAfterTimes} s" and free: "lock_free E {TimesMutex ValidAfterTimes}"
    and port: "ports s 0 = None" and pending: "pending_at s (clock s 0) i"
  shows "safe (Notify ValidMatcher past) (\<lambda>_ _. False) s"
proof -
  let ?n = "Suc (qlength (rqueue (rc s)))" and ?L = "{TimesMutex ValidAfterTimes}" and ?now = "clock s 0"
  let ?frozen = "frozen (requests (rc s)) (wl s) (ports s)"
  have frozen: "?frozen s" using port by (simp add: frozen_def)
  have len: "length (srv_queued s) < ?n"
    using okg_waiting(1) [OF ok] by (simp add: srv_queued_def qlength_contents)
  have idle: "srv_idle True E ?L s" using ok free by (simp add: srv_idle_def env_ok_def)
  have i: "i \<in> set (srv_queued s)" by (rule pending_in_queue [OF idle pending])
  have visit: "safe (visit RM WM JM ?now ?n) (\<lambda>_ _. False) t" if t: "srv_iter True E ?L (srv_queued s) t" "?frozen t" for t
  proof -
    have "safe (visit RM WM JM ?now ?n) (\<lambda>again u.
        if again then False \<and> length (srv_queued u) < length (srv_queued t)
        else (srv_ended True E ?L u \<and> ?frozen u \<and> TimesMutex ValidAfterTimes \<in> ?L) \<and> srv_queued u = srv_queued t
          \<and> (\<forall>y \<in> set (srv_queued s). \<not> pending_at u ?now y) \<and> (\<forall>y. pending_at u ?now y \<longrightarrow> pending_at t ?now y)) t"
      by (rule stuck.visit_spec) (use t len in simp_all)
    then show ?thesis
    proof (rule wp_mono, goal_cases)
      case (1 again u)
      then have "?frozen u" "\<not> pending_at u ?now i" using i by (auto split: if_splits)
      with pending pending_cong [of u s ?now i] show ?case by (simp add: frozen_def)
    qed
  qed
  have "safe InitIteration (\<lambda>e t. (e = None \<and> srv_iter True E ?L (srv_queued s) t \<and> srv_queued t = srv_queued s) \<and> clock t = clock s) s"
    by (rule preserves_wp [OF clock_kept InitIteration_law [OF idle]])
  from safe_frozen [OF frame_kept(1) this frozen]
  have "safe InitIteration (\<lambda>e t. safe (if e \<noteq> None
        then panic ''Critical logic error. No iterations over requests collection should be running.''
        else bnd time_Now (\<lambda>now. bnd (visit RM WM JM now ?n) (\<lambda>again. thn TerminateIteration (ret again)))) (\<lambda>_ _. False) t) s"
  proof (rule wp_mono, goal_cases)
    case (1 e t)
    let ?t = "t\<lparr>clock := (\<lambda>n. clock t (Suc n))\<rparr>"
    have "srv_iter True E ?L (srv_queued s) ?t" "?frozen ?t"
      using 1 by (auto simp: srv_iter_def env_ok_def frozen_def)
    from visit [OF this] have "safe (visit RM WM JM ?now ?n) (\<lambda>again. safe (thn TerminateIteration (ret again)) (\<lambda>_ _. False)) ?t"
      by (rule wp_mono) simp
    with 1 show ?case by (simp add: wp_bnd wp_time_Now del: visit.simps)
  qed
  then have "safe (iterateRequests RM WM JM time_Now ?n) (\<lambda>_ _. False) s"
    unfolding iterateRequests_def RM_methods wp_bnd [of _ InitIteration] .
  then have "safe (valid_notify RM WM JM time_Now ?n ?n) (\<lambda>_ _. False) s"
    unfolding valid_notify.simps wp_bnd by (rule wp_mono) simp
  then show ?thesis by (simp add: Notify_def wp_simps)
qed

lemma process_stuck:
  assumes ok: "okg (taken ValidAfterTimes t []) {} s" and port: "ports s 0 = None" and pending: "pending_at s (clock s 0) i"
  shows "safe (process ValidAfterTimes t) (\<lambda>_ _. False) s"
proof -
  let ?L = "{TimesMutex ValidAfterTimes}" and ?s = "s\<lparr>held := {TimesMutex ValidAfterTimes}\<rparr>" and ?E = "taken ValidAfterTimes t []"
  have "okg ?E ?L ?s" using ok by (simp add: okg_def)
  then have "safe (on_rt ValidAfterTimes (rt_take_past t)) (\<lambda>past. okg (taken ValidAfterTimes t past) ?L) ?s"
    by (rule take_past_okg)
  then have "safe (on_rt ValidAfterTimes (rt_take_past t)) (\<lambda>past u. okg (taken ValidAfterTimes t past) ?L u
      \<and> (clock u, requests (rc u), wl u, ports u) = (clock ?s, requests (rc ?s), wl ?s, ports ?s)) ?s"
    by (rule preserves_wp [rotated]) (simp add: on_rt_def preserves_zoom)
  then have "safe (on_rt ValidAfterTimes (rt_take_past t)) (\<lambda>past. safe (bnd (gets (\<lambda>s. rt_matcher (times_of ValidAfterTimes (rc s)))) (\<lambda>m.
     thn (case m of None \<Rightarrow> ret () | Some mk \<Rightarrow> Notify mk past) (on_rt ValidAfterTimes rt_rearm))) (\<lambda>_ _. False)) ?s"
  proof (rule wp_mono)
    fix past v
    assume v: "okg (taken ValidAfterTimes t past) ?L v
      \<and> (clock v, requests (rc v), wl v, ports v) = (clock ?s, requests (rc ?s), wl ?s, ports ?s)"
    have "safe (Notify ValidMatcher past) (\<lambda>_ _. False) v"
    proof (rule Notify_stuck)
      show "okg ?E ?L v" using v by (auto simp: okg_def taken_def)
      show "lock_free ?E ?L" by (simp add: lock_free_def taken_def)
      show "pending_at v (clock v 0) i"
        using pending v pending_cong [of v s "clock s 0" i] by simp
    qed (use v port in simp)
    moreover have "rt_matcher (times_of ValidAfterTimes (rc v)) = Some ValidMatcher"
      using v okg_matcher [of _ _ v ValidAfterTimes] by auto
    ultimately show "safe (bnd (gets (\<lambda>s. rt_matcher (times_of ValidAfterTimes (rc s)))) (\<lambda>m.
     thn (case m of None \<Rightarrow> ret () | Some mk \<Rightarrow> Notify mk past) (on_rt ValidAfterTimes rt_rearm))) (\<lambda>_ _. False) v"
      by (auto simp: wp_simps elim: wp_mono)
  qed
  then show ?thesis by (auto simp: process_def wp_critical okg_held [OF ok] wp_bnd elim: wp_mono)
qed

section \<open>The property\<close>

text \<open>
  C18. One tunnel that cannot be created stops the matcher for good.  When the timer of the
  valid requests fires while a waiting request is valid and an idle worker satisfies it,
  and the system refuses the tunnel, the call does not return: it waits for the mutex of
  its own collection.
\<close>

theorem refused_tunnel_stops_matcher:
  assumes "reachable resolve s" and "enabled (EFire ValidAfterTimes t) s" and "ports s 0 = None"
    and "requests (rc s) i = Some r" and "is_ready r (clock s 0)"
    and "workers (wl s) u = Some w" and "eligible (uGroups (Owner r)) (RCaps r) w"
  shows "run_event resolve (EFire ValidAfterTimes t) s = Blocks"
proof -
  have "ok s" by (rule reachable_ok [OF assms(1)])
  let ?s = "s\<lparr>rc := set_times ValidAfterTimes ((times_of ValidAfterTimes (rc s))\<lparr>timer := None\<rparr>) (rc s)\<rparr>"
  have "safe (on_rt ValidAfterTimes rt_stop) (\<lambda>_. okg (taken ValidAfterTimes t []) {}) s"
    by (rule stop_okg) (use \<open>ok s\<close> assms(2) in \<open>simp_all add: ok_okg\<close>)
  then have "okg (taken ValidAfterTimes t []) {} ?s" by (simp add: wp_simps rt_stop_def)
  then have "safe (process ValidAfterTimes t) (\<lambda>_ _. False) ?s"
  proof (rule process_stuck)
    show "pending_at ?s (clock ?s 0) i"
      using assms(4-7) by (auto simp: pending_at_def has_worker_def)
  qed (use assms(3) in simp)
  then have "safe (fire ValidAfterTimes t) (\<lambda>_ _. False) s" by (simp add: fire_def wp_simps rt_stop_def)
  then show ?thesis by (simp add: safe_iff)
qed

text \<open>The run of the example, with a system that has no port left.\<close>

definition portless :: server where
  "portless = start_server (\<lambda>n. 100 + int n) 0 (\<lambda>_. None) 1000000"

lemma refused_tunnel_stops_matcher_witness:
  "run_event demo_resolve (EFire ValidAfterTimes 102) (waiting_server\<lparr>ports := (\<lambda>_. None)\<rparr>) = Blocks"
proof -
  have "run_events demo_resolve (ERegister demo_caps ''d'' ''s'' # ESetState ''w'' ''IDLE'' # replicate 15 (EBackground None 7 0)) portless
      = Some (prepared\<lparr>ports := (\<lambda>_. None)\<rparr>)"
    by (simp add: portless_def prepared_def demo_worker_def demo_caps_def demo_resolve_def
        run_simps times_run_simps worker_run_simps)
  moreover have "reachable demo_resolve portless" unfolding portless_def by (rule reachable.init)
  ultimately have "reachable demo_resolve (prepared\<lparr>ports := (\<lambda>_. None)\<rparr>)" by (blast intro: run_events_reachable)
  moreover have "run_events demo_resolve [ENewRequest demo_caps 3 \<lparr>uGroups = []\<rparr> 101 5000] (prepared\<lparr>ports := (\<lambda>_. None)\<rparr>)
      = Some (waiting_server\<lparr>ports := (\<lambda>_. None)\<rparr>)"
    by (simp add: demo_defs run_simps times_run_simps request_run_simps)
  ultimately have reach: "reachable demo_resolve (waiting_server\<lparr>ports := (\<lambda>_. None)\<rparr>)" by (blast intro: run_events_reachable)
  show ?thesis
    by (rule refused_tunnel_stops_matcher [OF reach, of _ 1 "demo_request WAIT None" "''w''" "demo_worker IDLE"])
       (use demo_worker_matches [of IDLE] in \<open>auto simp: demo_defs timer_due_def is_ready_def eligible_def MaxInt32_def demo_caps_def wscore_def\<close>)
qed

end
