(* ===== verification/Forwarding.thy ===== *)
theory Forwarding
  imports Prelude "HOL-Library.Sublist"
begin

text \<open>
  What a tunnel does between its creation and its end (\<open>tunnels/tunnels.go\<close>): the goroutine
  \<open>listenAndForward\<close> accepts connections, dials one to the device for each, and starts two
  goroutines that copy what arrives on either end to the other.  Connections fail, data
  arrives and \<open>Close\<close> is called at any moment.
\<close>

section \<open>Connections\<close>

text \<open>
  A TCP connection: what has arrived and not been read, what has been read and what has been
  written so far; \<open>up\<close> until the tunnel closes it.
\<close>

record conn =
  pending :: string
  was_read :: string
  written :: string
  up :: bool

definition new_conn :: conn where
  "new_conn = \<lparr>pending = '''', was_read = '''', written = '''', up = True\<rparr>"

text \<open>A goroutine \<open>forward(src, dest)\<close> in \<open>io.Copy\<close>: before a read, before the write of what was read, or over.\<close>

datatype copy_pc = Reading | Writing string | CopyEnded

record copier =
  src :: nat
  dst :: nat
  copy_pc :: copy_pc

definition forward :: "nat \<Rightarrow> nat \<Rightarrow> copier" where
  "forward s d = \<lparr>src = s, dst = d, copy_pc = Reading\<rparr>"

section \<open>The tunnel\<close>

datatype laf_pc = LSelect | LAccept | LDial nat | LReturned

text \<open>
  \<open>finished\<close>: the channel \<open>done\<close> is closed; \<open>listening\<close>: the listener is open; \<open>deferred\<close>:
  the connections whose \<open>Close\<close> is deferred by the loop.
\<close>

record forwarding =
  finished :: bool
  listening :: bool
  laf_pc :: laf_pc
  conns :: "nat \<Rightarrow> conn"
  next_conn :: nat
  deferred :: "nat list"
  copiers :: "copier list"

definition created :: forwarding where
  "created = \<lparr>finished = False, listening = True, laf_pc = LSelect, conns = (\<lambda>_. new_conn), next_conn = 0,
     deferred = [], copiers = []\<rparr>"

definition upd_conn :: "nat \<Rightarrow> (conn \<Rightarrow> conn) \<Rightarrow> forwarding \<Rightarrow> forwarding" where
  "upd_conn c f t = t\<lparr>conns := (conns t)(c := f (conns t c))\<rparr>"

definition close_conn :: "nat \<Rightarrow> forwarding \<Rightarrow> forwarding" where
  "close_conn c = upd_conn c (\<lambda>k. k\<lparr>up := False\<rparr>)"

definition open_conn :: "forwarding \<Rightarrow> forwarding" where
  "open_conn t = t\<lparr>conns := (conns t)(next_conn t := new_conn), next_conn := Suc (next_conn t)\<rparr>"

text \<open>\<open>Close\<close>: first the channel, then the listener.  Closing a closed channel panics.\<close>

definition close_done :: "(forwarding, unit) prog" where
  "close_done = bnd (gets finished) (\<lambda>closed.
     if closed then panic ''close of closed channel'' else modify (\<lambda>t. t\<lparr>finished := True\<rparr>))"

definition close_listener :: "(forwarding, unit) prog" where
  "close_listener = modify (\<lambda>t. t\<lparr>listening := False\<rparr>)"

definition t_Close :: "(forwarding, unit) prog" where
  "t_Close = thn close_done close_listener"

text \<open>
  One step of \<open>listenAndForward\<close>.  \<open>ok\<close> says whether \<open>Accept\<close> or \<open>Dial\<close> succeeds; \<open>Accept\<close>
  waits while the listener is open and reports an error when it is closed.  Returning runs
  the deferred calls, the last first.
\<close>

definition listenAndForward :: "bool \<Rightarrow> forwarding \<Rightarrow> forwarding" where
  "listenAndForward ok t = (case laf_pc t of
       LSelect \<Rightarrow> if finished t then fold close_conn (deferred t) t\<lparr>laf_pc := LReturned\<rparr> else t\<lparr>laf_pc := LAccept\<rparr>
     | LAccept \<Rightarrow> if listening t \<and> ok then (open_conn t)\<lparr>laf_pc := LDial (next_conn t)\<rparr> else t\<lparr>laf_pc := LSelect\<rparr>
     | LDial srcConn \<Rightarrow> if \<not> ok then (close_conn srcConn t)\<lparr>laf_pc := LSelect\<rparr>
         else let destConn = next_conn t in (open_conn t)\<lparr>
           deferred := destConn # srcConn # deferred t,
           copiers := copiers t @ [forward srcConn destConn, forward destConn srcConn], laf_pc := LSelect\<rparr>
     | LReturned \<Rightarrow> t)"

text \<open>
  One step of a copying goroutine.  A read takes the first \<open>n\<close> bytes that have arrived; no
  bytes mean the end of the data or an error, and both end the copy.  A write that does not
  take all bytes ends it as well.
\<close>

definition set_pc :: "nat \<Rightarrow> copy_pc \<Rightarrow> forwarding \<Rightarrow> forwarding" where
  "set_pc i pc t = t\<lparr>copiers := (copiers t)[i := (copiers t ! i)\<lparr>copy_pc := pc\<rparr>]\<rparr>"

definition copy_step :: "nat \<Rightarrow> nat \<Rightarrow> forwarding \<Rightarrow> forwarding" where
  "copy_step i n t = (let k = copiers t ! i; s = conns t (src k); d = conns t (dst k) in
     case copy_pc k of
       Reading \<Rightarrow>
         if \<not> up s \<or> take n (pending s) = '''' then set_pc i CopyEnded t
         else set_pc i (Writing (take n (pending s))) (upd_conn (src k)
           (\<lambda>s. s\<lparr>pending := drop n (pending s), was_read := was_read s @ take n (pending s)\<rparr>) t)
     | Writing chunk \<Rightarrow>
         if \<not> up d then set_pc i CopyEnded t
         else set_pc i (if n < length chunk then CopyEnded else Reading)
           (upd_conn (dst k) (\<lambda>d. d\<lparr>written := written d @ take n chunk\<rparr>) t)
     | CopyEnded \<Rightarrow> t)"

section \<open>Runs\<close>

datatype tunnel_event =
    CloseDone
  | CloseListener
  | Loop bool
  | Copy nat nat
  | Arrive nat string

text \<open>What can happen next, and what it does.\<close>

fun tunnel_does :: "tunnel_event \<Rightarrow> forwarding \<Rightarrow> forwarding option" where
  "tunnel_does CloseDone t = (if finished t then None else Some (t\<lparr>finished := True\<rparr>))"
| "tunnel_does CloseListener t = (if finished t \<and> listening t then Some (t\<lparr>listening := False\<rparr>) else None)"
| "tunnel_does (Loop ok) t = (if laf_pc t = LReturned then None else Some (listenAndForward ok t))"
| "tunnel_does (Copy i n) t = (if i < length (copiers t) \<and> copy_pc (copiers t ! i) \<noteq> CopyEnded
     then Some (copy_step i n t) else None)"
| "tunnel_does (Arrive c bytes) t = (if c < next_conn t
     then Some (upd_conn c (\<lambda>k. k\<lparr>pending := pending k @ bytes\<rparr>) t) else None)"

fun tunnel_run :: "tunnel_event list \<Rightarrow> forwarding \<Rightarrow> forwarding option" where
  "tunnel_run [] t = Some t"
| "tunnel_run (e # es) t = Option.bind (tunnel_does e t) (tunnel_run es)"

text \<open>The events of \<open>Close\<close> are the two parts of the method.\<close>

lemma close_events:
  "tunnel_does CloseDone t = Some u \<longleftrightarrow> close_done t = Returns ((), u)"
  "tunnel_does CloseListener t = Some u \<Longrightarrow> close_listener t = Returns ((), u)"
  "tunnel_run [CloseDone, CloseListener] created = Some u \<Longrightarrow> t_Close created = Returns ((), u)"
  by (auto simp: t_Close_def close_done_def close_listener_def created_def thn_def bnd_def gets_def modify_def
      panic_def split: if_splits)

section \<open>What arrives is what was sent\<close>

text \<open>What the other side of a connection has sent in the course of a run.\<close>

fun sent :: "tunnel_event list \<Rightarrow> nat \<Rightarrow> string" where
  "sent [] c = ''''"
| "sent (Arrive c' bytes # es) c = (if c' = c then bytes else '''') @ sent es c"
| "sent (_ # es) c = sent es c"

definition received :: "forwarding \<Rightarrow> nat \<Rightarrow> string" where
  "received t c = (if c < next_conn t then was_read (conns t c) @ pending (conns t c) else '''')"

lemma fold_close:
  "fold close_conn cs t = t\<lparr>conns := (\<lambda>c. if c \<in> set cs then (conns t c)\<lparr>up := False\<rparr> else conns t c)\<rparr>"
  by (induction cs arbitrary: t) (auto simp: close_conn_def upd_conn_def fun_eq_iff)

lemmas tunnel_defs = listenAndForward_def copy_step_def set_pc_def upd_conn_def close_conn_def open_conn_def
  fold_close Let_def

lemma received_step: "tunnel_does e t = Some t' \<Longrightarrow> received t' c = received t c @ sent [e] c"
proof (cases e)
  case (Loop ok)
  moreover assume "tunnel_does e t = Some t'"
  ultimately show ?thesis
    by (cases "laf_pc t") (auto simp: tunnel_defs received_def new_conn_def split: if_splits)
next
  case (Copy i n)
  moreover assume "tunnel_does e t = Some t'"
  ultimately show ?thesis
    by (cases "copy_pc (copiers t ! i)") (auto simp: tunnel_defs received_def split: if_splits)
qed (auto simp: upd_conn_def received_def split: if_splits)

lemma sent_Cons: "sent (e # es) c = sent [e] c @ sent es c"
  by (cases e) simp_all

lemma received_run: "tunnel_run es t = Some t' \<Longrightarrow> received t' c = received t c @ sent es c"
proof (induction es arbitrary: t)
  case (Cons e es)
  then obtain u where "tunnel_does e t = Some u" "tunnel_run es u = Some t'"
    by (auto simp: bind_eq_Some_conv)
  with Cons.IH [of u] received_step [of e t u c] show ?case by (subst sent_Cons) simp
qed simp

text \<open>
  The copiers come in pairs of opposite directions, no connection is read or written by two
  of them, and what is written is what was read but for the piece that is on the way.
\<close>

definition links :: "forwarding \<Rightarrow> (nat \<times> nat) list" where
  "links t = map (\<lambda>k. (src k, dst k)) (copiers t)"

definition copied :: "conn \<Rightarrow> conn \<Rightarrow> copy_pc \<Rightarrow> bool" where
  "copied s d pc = (case pc of Reading \<Rightarrow> written d = was_read s
     | Writing chunk \<Rightarrow> written d @ chunk = was_read s | CopyEnded \<Rightarrow> prefix (written d) (was_read s))"

lemma copied_cong: "was_read s = was_read s' \<Longrightarrow> written d = written d' \<Longrightarrow> copied s d pc = copied s' d' pc"
  by (cases pc) (simp_all add: copied_def)

definition links_ok :: "forwarding \<Rightarrow> bool" where
  "links_ok t \<longleftrightarrow> distinct (map fst (links t)) \<and> distinct (map snd (links t))
     \<and> (\<forall>(a, b) \<in> set (links t). (b, a) \<in> set (links t) \<and> a < next_conn t)
     \<and> (\<forall>c. laf_pc t = LDial c \<longrightarrow> c < next_conn t \<and> c \<notin> fst ` set (links t) \<and> was_read (conns t c) = '''' \<and> written (conns t c) = '''')
     \<and> (\<forall>k \<in> set (copiers t). copied (conns t (src k)) (conns t (dst k)) (copy_pc k))"

lemma links_set_pc [simp]: "links (set_pc i pc t) = links t"
proof (cases "i < length (copiers t)")
  case True
  then show ?thesis
    by (simp add: links_def set_pc_def map_update) (metis list_update_id nth_map)
qed (simp add: links_def set_pc_def list_update_beyond)

lemma links_upd_conn [simp]: "links (upd_conn c f t) = links t"
  by (simp add: links_def upd_conn_def)

lemma links_distinct:
  assumes "links_ok t" and "i < length (copiers t)" and "j < length (copiers t)" and "i \<noteq> j"
  shows "src (copiers t ! i) \<noteq> src (copiers t ! j)" and "dst (copiers t ! i) \<noteq> dst (copiers t ! j)"
  using assms by (auto simp: links_ok_def links_def distinct_conv_nth)

lemma copied_at: "links_ok t \<Longrightarrow> i < length (copiers t) \<Longrightarrow>
  copied (conns t (src (copiers t ! i))) (conns t (dst (copiers t ! i))) (copy_pc (copiers t ! i))"
  by (auto simp: links_ok_def)

text \<open>A step of a copier: its own connections change as its state does, and no others matter.\<close>

lemma copier_moves:
  assumes ok: "links_ok t" and i: "i < length (copiers t)"
    and same: "\<And>c. c \<noteq> src (copiers t ! i) \<Longrightarrow> was_read (f c) = was_read (conns t c)"
      "\<And>c. c \<noteq> dst (copiers t ! i) \<Longrightarrow> written (f c) = written (conns t c)"
    and own: "copied (f (src (copiers t ! i))) (f (dst (copiers t ! i))) pc"
  shows "links_ok (set_pc i pc (t\<lparr>conns := f\<rparr>))"
proof -
  let ?t = "set_pc i pc (t\<lparr>conns := f\<rparr>)"
  have "copied (f (src (copiers ?t ! j))) (f (dst (copiers ?t ! j))) (copy_pc (copiers ?t ! j))"
    if j: "j < length (copiers t)" for j
  proof (cases "j = i")
    case True
    with own j show ?thesis by (simp add: set_pc_def)
  next
    case False
    with links_distinct [OF ok i j] copied_at [OF ok j] same(1) [of "src (copiers t ! j)"] same(2) [of "dst (copiers t ! j)"]
    have "copied (f (src (copiers t ! j))) (f (dst (copiers t ! j))) (copy_pc (copiers t ! j))"
      by (subst copied_cong) auto
    with False show ?thesis by (simp add: set_pc_def)
  qed
  then have "\<forall>k \<in> set (copiers ?t). copied (f (src k)) (f (dst k)) (copy_pc k)"
    by (simp add: all_set_conv_all_nth set_pc_def)
  moreover have "was_read (f c) = '''' \<and> written (f c) = ''''" if "laf_pc t = LDial c" for c
  proof -
    have ends: "(src (copiers t ! i), dst (copiers t ! i)) \<in> set (links t)"
      using i by (force simp: links_def)
    then have "c \<noteq> src (copiers t ! i)" "c \<noteq> dst (copiers t ! i)"
      using ok that by (force simp: links_ok_def)+
    with ok that same show ?thesis by (simp add: links_ok_def)
  qed
  moreover have "links (t\<lparr>conns := f\<rparr>) = links t" by (simp add: links_def)
  ultimately show ?thesis using ok by (simp add: links_ok_def) (simp add: set_pc_def)
qed

lemma links_ok_copy: "links_ok t \<Longrightarrow> i < length (copiers t) \<Longrightarrow> links_ok (copy_step i n t)"
proof -
  assume ok: "links_ok t" and i: "i < length (copiers t)"
  note own = copied_at [OF ok i]
  have "copied (conns t (src (copiers t ! i))) (conns t (dst (copiers t ! i))) CopyEnded"
    using own by (cases "copy_pc (copiers t ! i)") (simp_all add: copied_def, metis prefixI)
  then have stays: "links_ok (set_pc i CopyEnded t)"
    using copier_moves [OF ok i, of "conns t" CopyEnded] by simp
  show "links_ok (copy_step i n t)"
  proof (cases "copy_pc (copiers t ! i)")
    case Reading
    with own stays show ?thesis
      by (auto simp: copy_step_def Let_def upd_conn_def copied_def intro!: copier_moves [OF ok i])
  next
    case (Writing chunk)
    with own stays show ?thesis
      by (auto simp: copy_step_def Let_def upd_conn_def copied_def prefix_def
          intro!: copier_moves [OF ok i]) (metis append_take_drop_id append.assoc)+
  next
    case CopyEnded
    with ok show ?thesis by (simp add: copy_step_def)
  qed
qed

text \<open>Whether a connection is up does not matter here.\<close>

lemma links_ok_same:
  assumes "links_ok t" and "copiers t' = copiers t" and "next_conn t' = next_conn t"
    and "\<And>c. laf_pc t' = LDial c \<Longrightarrow> laf_pc t = LDial c"
    and same: "\<And>c. was_read (conns t' c) = was_read (conns t c) \<and> written (conns t' c) = written (conns t c)"
  shows "links_ok t'"
proof -
  have "copied (conns t' a) (conns t' b) pc = copied (conns t a) (conns t b) pc" for a b pc
    using same by (intro copied_cong) simp_all
  moreover have "links t' = links t" using assms(2) by (simp add: links_def)
  ultimately show ?thesis
    using assms by (simp add: links_ok_def)
qed

lemma links_partner: "links_ok t \<Longrightarrow> (a, b) \<in> set (links t) \<Longrightarrow> (b, a) \<in> set (links t) \<and> a < next_conn t"
  by (auto simp: links_ok_def)

lemma link_of: "k \<in> set (copiers t) \<Longrightarrow> (src k, dst k) \<in> set (links t)"
  by (auto simp: links_def)

lemma links_ok_loop: "links_ok t \<Longrightarrow> links_ok (listenAndForward ok t)"
proof -
  assume ok: "links_ok t"
  have fresh: "k < next_conn t" if "k \<in> fst ` set (links t) \<union> snd ` set (links t)" for k
    using that links_partner [OF ok] by (auto; blast)
  have old: "src k < next_conn t" "dst k < next_conn t" if "k \<in> set (copiers t)" for k
    using links_partner [OF ok link_of [OF that]] links_partner [OF ok] by blast+
  show "links_ok (listenAndForward ok t)"
  proof (cases "laf_pc t")
    case LSelect
    with ok show ?thesis
      by (auto simp: listenAndForward_def fold_close intro: links_ok_same)
  next
    case LAccept
    have "links_ok ((open_conn t)\<lparr>laf_pc := LDial (next_conn t)\<rparr>)" (is "links_ok ?t")
    proof -
      have "links ?t = links t" by (simp add: links_def open_conn_def)
      moreover have "copied (conns ?t (src k)) (conns ?t (dst k)) (copy_pc k)" if "k \<in> set (copiers t)" for k
        using ok old [OF that] that by (simp add: links_ok_def open_conn_def)
      ultimately show ?thesis
        using ok fresh [of "next_conn t"] by (auto simp: links_ok_def open_conn_def new_conn_def)
    qed
    with LAccept ok show ?thesis by (auto simp: listenAndForward_def intro: links_ok_same)
  next
    case (LDial c)
    then have c: "c < next_conn t" "c \<notin> fst ` set (links t)" "c \<notin> snd ` set (links t)" "was_read (conns t c) = ''''"
        "written (conns t c) = ''''"
      using ok by (force simp: links_ok_def)+
    let ?d = "next_conn t"
    have "links_ok ((open_conn t)\<lparr>deferred := ?d # c # deferred t,
        copiers := copiers t @ [forward c ?d, forward ?d c], laf_pc := LSelect\<rparr>)" (is "links_ok ?t")
    proof -
      have links: "links ?t = links t @ [(c, ?d), (?d, c)]" by (simp add: links_def open_conn_def forward_def)
      have "copied (conns ?t (src k)) (conns ?t (dst k)) (copy_pc k)" if "k \<in> set (copiers t)" for k
        using ok old [OF that] that by (simp add: links_ok_def open_conn_def)
      then have "\<forall>k \<in> set (copiers ?t). copied (conns ?t (src k)) (conns ?t (dst k)) (copy_pc k)"
        using c by (auto simp: open_conn_def forward_def copied_def new_conn_def)
      moreover have "?d \<notin> fst ` set (links t)" "?d \<notin> snd ` set (links t)" using fresh by blast+
      ultimately show ?thesis
        unfolding links_ok_def links using ok c by (auto simp: links_ok_def open_conn_def)
    qed
    with LDial ok show ?thesis
      by (auto simp: listenAndForward_def Let_def close_conn_def upd_conn_def intro: links_ok_same)
  next
    case LReturned
    with ok show ?thesis by (simp add: listenAndForward_def)
  qed
qed

lemma links_ok_step: "links_ok t \<Longrightarrow> tunnel_does e t = Some t' \<Longrightarrow> links_ok t'"
  by (cases e) (auto simp: links_ok_copy links_ok_loop upd_conn_def split: if_splits intro: links_ok_same)

lemma links_ok_run: "links_ok t \<Longrightarrow> tunnel_run es t = Some t' \<Longrightarrow> links_ok t'"
  by (induction es arbitrary: t) (auto simp: bind_eq_Some_conv intro: links_ok_step)

lemma links_ok_created: "links_ok created"
  by (simp add: links_ok_def links_def created_def)

section \<open>The end of a tunnel\<close>

text \<open>
  While the loop runs, the connections that are up are those it will close: the deferred
  ones and the one it is dialling for.
\<close>

definition ends_ok :: "forwarding \<Rightarrow> bool" where
  "ends_ok t \<longleftrightarrow> (listening t \<or> finished t)
     \<and> (\<forall>c < next_conn t. up (conns t c) \<longrightarrow> laf_pc t \<noteq> LReturned \<and> (c \<in> set (deferred t) \<or> laf_pc t = LDial c))
     \<and> (laf_pc t = LReturned \<longrightarrow> finished t)"

lemma ends_ok_step: "ends_ok t \<Longrightarrow> tunnel_does e t = Some t' \<Longrightarrow> ends_ok t'"
proof (cases e)
  case (Loop ok)
  assume "ends_ok t" "tunnel_does e t = Some t'"
  with Loop show ?thesis
    by (cases "laf_pc t") (auto simp: ends_ok_def tunnel_defs less_Suc_eq split: if_splits)
next
  case (Copy i n)
  assume "ends_ok t" "tunnel_does e t = Some t'"
  with Copy show ?thesis
    by (cases "copy_pc (copiers t ! i)") (auto simp: ends_ok_def tunnel_defs split: if_splits)
qed (auto simp: ends_ok_def upd_conn_def split: if_splits)

lemma ends_ok_run: "ends_ok t \<Longrightarrow> tunnel_run es t = Some t' \<Longrightarrow> ends_ok t'"
  by (induction es arbitrary: t) (auto simp: bind_eq_Some_conv intro: ends_ok_step)

lemma ends_ok_created: "ends_ok created"
  by (simp add: ends_ok_def created_def)

text \<open>Once the tunnel is closed each step of the loop brings it closer to its end.\<close>

fun is_Loop :: "tunnel_event \<Rightarrow> bool" where
  "is_Loop (Loop ok) = True"
| "is_Loop _ = False"

fun is_Copy :: "nat \<Rightarrow> tunnel_event \<Rightarrow> bool" where
  "is_Copy i (Copy j n) = (i = j)"
| "is_Copy i _ = False"

definition loop_left :: "forwarding \<Rightarrow> nat" where
  "loop_left t = (case laf_pc t of LSelect \<Rightarrow> 1 | LAccept \<Rightarrow> 2 | LDial c \<Rightarrow> 2 | LReturned \<Rightarrow> 0)"

lemma loop_left_step:
  assumes "tunnel_does e t = Some t'" and "finished t" and "\<not> listening t"
  shows "finished t' \<and> \<not> listening t' \<and> (if is_Loop e then 1 else 0) + loop_left t' = loop_left t"
proof (cases e)
  case (Loop ok)
  with assms show ?thesis
    by (cases "laf_pc t") (auto simp: loop_left_def tunnel_defs split: if_splits)
next
  case (Copy i n)
  with assms show ?thesis
    by (cases "copy_pc (copiers t ! i)") (auto simp: loop_left_def tunnel_defs split: if_splits)
qed (use assms in \<open>auto simp: loop_left_def upd_conn_def split: if_splits\<close>)

lemma loop_left_run:
  "tunnel_run es t = Some t' \<Longrightarrow> finished t \<Longrightarrow> \<not> listening t \<Longrightarrow> length (filter is_Loop es) + loop_left t' = loop_left t"
proof (induction es arbitrary: t)
  case (Cons e es)
  then obtain u where "tunnel_does e t = Some u" "tunnel_run es u = Some t'"
    by (auto simp: bind_eq_Some_conv)
  with Cons.IH [of u] loop_left_step [of e t u] Cons.prems show ?case by (auto split: if_splits)
qed simp

text \<open>After that every goroutine that copies ends with its next step.\<close>

definition copy_left :: "nat \<Rightarrow> forwarding \<Rightarrow> nat" where
  "copy_left i t = (if i < length (copiers t) \<and> copy_pc (copiers t ! i) \<noteq> CopyEnded then 1 else 0)"

definition at_end :: "forwarding \<Rightarrow> bool" where
  "at_end t \<longleftrightarrow> laf_pc t = LReturned \<and> (\<forall>c < next_conn t. \<not> up (conns t c)) \<and> (\<forall>k \<in> set (copiers t). src k < next_conn t \<and> dst k < next_conn t)"

lemma copy_left_step:
  assumes "tunnel_does e t = Some t'" and "at_end t"
  shows "at_end t' \<and> (if is_Copy i e then 1 else 0) + copy_left i t' = copy_left i t"
proof (cases e)
  case (Copy j n)
  then have j: "j < length (copiers t)" "copy_pc (copiers t ! j) \<noteq> CopyEnded" "t' = copy_step j n t"
    using assms(1) by (auto split: if_splits)
  moreover have "\<not> up (conns t (src (copiers t ! j)))" "\<not> up (conns t (dst (copiers t ! j)))"
    using assms(2) j(1) by (auto simp: at_end_def)
  ultimately have "t' = set_pc j CopyEnded t"
    by (cases "copy_pc (copiers t ! j)") (simp_all add: copy_step_def Let_def)
  with Copy j(1,2) assms(2) show ?thesis
    by (auto simp: set_pc_def copy_left_def at_end_def nth_list_update all_set_conv_all_nth)
qed (use assms in \<open>auto simp: at_end_def copy_left_def upd_conn_def split: if_splits\<close>)

lemma copy_left_run:
  "tunnel_run es t = Some t' \<Longrightarrow> at_end t \<Longrightarrow> length (filter (is_Copy i) es) + copy_left i t' = copy_left i t"
proof (induction es arbitrary: t)
  case (Cons e es)
  then obtain u where "tunnel_does e t = Some u" "tunnel_run es u = Some t'"
    by (auto simp: bind_eq_Some_conv)
  with Cons.IH [of u] copy_left_step [of e t u i] Cons.prems show ?case by (auto split: if_splits)
qed simp

section \<open>Properties\<close>

text \<open>
  C38. A tunnel mixes up nothing: in every run each connection is copied to the one it was
  opened with and back, by one goroutine each, and what is written to a connection is a
  prefix of what the other side of its partner has sent; all of it, when its goroutine
  waits for data and none is pending.
\<close>

theorem tunnel_forwards_what_is_sent:
  assumes "tunnel_run es created = Some t" and "k \<in> set (copiers t)"
  shows "prefix (written (conns t (dst k))) (sent es (src k))
    \<and> (copy_pc k = Reading \<and> pending (conns t (src k)) = '''' \<longrightarrow> written (conns t (dst k)) = sent es (src k))
    \<and> (\<exists>k' \<in> set (copiers t). src k' = dst k \<and> dst k' = src k)
    \<and> (\<forall>k' \<in> set (copiers t). src k' = src k \<or> dst k' = dst k \<longrightarrow> k' = k)"
proof -
  have ok: "links_ok t" by (rule links_ok_run [OF links_ok_created assms(1)])
  note link = links_partner [OF ok link_of [OF assms(2)]]
  have "was_read (conns t (src k)) @ pending (conns t (src k)) = sent es (src k)"
    using received_run [OF assms(1), of "src k"] link by (simp add: received_def created_def)
  moreover have "copied (conns t (src k)) (conns t (dst k)) (copy_pc k)"
    using ok assms(2) by (simp add: links_ok_def)
  ultimately have "prefix (written (conns t (dst k))) (sent es (src k))"
      "copy_pc k = Reading \<and> pending (conns t (src k)) = '''' \<longrightarrow> written (conns t (dst k)) = sent es (src k)"
    by (auto simp: copied_def prefix_def split: copy_pc.splits) (metis append.assoc)+
  moreover have "\<exists>k' \<in> set (copiers t). src k' = dst k \<and> dst k' = src k"
    using link by (auto simp: links_def)
  moreover have "k' = k" if "k' \<in> set (copiers t)" "src k' = src k \<or> dst k' = dst k" for k'
    using links_distinct [OF ok] assms(2) that by (metis in_set_conv_nth)
  ultimately show ?thesis by blast
qed

text \<open>
  C39. A tunnel ends.  After \<open>Close\<close> its loop returns within two steps whatever connections
  do, with every connection it has opened closed; and from then on each goroutine that
  copies makes at most one more step.
\<close>

theorem closed_tunnel_ends:
  assumes "tunnel_run es created = Some t" and "\<not> listening t" and "tunnel_run es' t = Some t'"
  shows "length (filter is_Loop es') \<le> 2
    \<and> (length (filter is_Loop es') = 2 \<longrightarrow> laf_pc t' = LReturned)
    \<and> (laf_pc t' = LReturned \<longrightarrow> (\<forall>c < next_conn t'. \<not> up (conns t' c)))
    \<and> (laf_pc t = LReturned \<longrightarrow> (\<forall>i. length (filter (is_Copy i) es') \<le> 1))"
proof -
  have ends: "ends_ok t" by (rule ends_ok_run [OF ends_ok_created assms(1)])
  have ends': "ends_ok t'" by (rule ends_ok_run [OF ends assms(3)])
  have links: "links_ok t" by (rule links_ok_run [OF links_ok_created assms(1)])
  have left: "length (filter is_Loop es') + loop_left t' = loop_left t"
    by (rule loop_left_run [OF assms(3)]) (use ends assms(2) in \<open>auto simp: ends_ok_def\<close>)
  moreover have "loop_left t \<le> 2" by (simp add: loop_left_def split: laf_pc.split)
  moreover have "laf_pc t' = LReturned" if "loop_left t' = 0"
    using that by (simp add: loop_left_def split: laf_pc.splits)
  moreover have "length (filter (is_Copy i) es') \<le> 1" if "laf_pc t = LReturned" for i
  proof -
    have "at_end t"
      using ends that links_partner [OF links] link_of [of _ t] by (auto simp: at_end_def ends_ok_def) blast+
    from copy_left_run [OF assms(3) this, of i] show ?thesis by (simp add: copy_left_def split: if_splits)
  qed
  ultimately show ?thesis using ends' by (auto simp: ends_ok_def)
qed

section \<open>A connection through a tunnel\<close>

definition demo_connection :: "tunnel_event list" where
  "demo_connection = [Loop True, Loop True, Loop True, Arrive 0 ''hello'', Copy 0 3, Copy 0 3, Copy 0 2, Copy 0 2,
     Arrive 1 ''world'', Copy 1 5]"

definition demo_closing :: "tunnel_event list" where
  "demo_closing = [Loop True, CloseDone, Arrive 0 ''!'', CloseListener]"

lemmas tunnel_run_simps = created_def open_conn_def upd_conn_def set_pc_def forward_def new_conn_def
  listenAndForward_def copy_step_def close_conn_def Let_def demo_connection_def demo_closing_def

lemma tunnel_forwards_what_is_sent_witness:
  "\<exists>t k. tunnel_run demo_connection created = Some t \<and> k \<in> set (copiers t) \<and> src k = 0
    \<and> written (conns t (dst k)) = ''hello'' \<and> sent demo_connection 0 = ''hello''"
proof -
  have "\<exists>t. tunnel_run demo_connection created = Some t \<and> copiers t ! 0 = forward 0 1 \<and> 0 < length (copiers t)
      \<and> pending (conns t 0) = ''''"
    by (simp add: tunnel_run_simps)
  then obtain t where t: "tunnel_run demo_connection created = Some t"
    "copiers t ! 0 = forward 0 1" "0 < length (copiers t)" "pending (conns t 0) = ''''"
    by blast
  then have k: "forward 0 1 \<in> set (copiers t)" by (metis nth_mem)
  from tunnel_forwards_what_is_sent [OF t(1) k] t(4)
  have "written (conns t 1) = sent demo_connection 0" by (simp add: forward_def)
  with t(1) k show ?thesis
    by (intro exI [of _ t] exI [of _ "forward 0 1"]) (simp add: forward_def demo_connection_def)
qed

lemma closed_tunnel_ends_witness:
  "\<exists>t t'. tunnel_run (demo_connection @ demo_closing) created = Some t \<and> tunnel_run [Loop True, Loop True] t = Some t'
    \<and> laf_pc t' = LReturned \<and> next_conn t' = 2 \<and> \<not> up (conns t' 0) \<and> \<not> up (conns t' 1)"
proof -
  have "\<exists>t t'. tunnel_run (demo_connection @ demo_closing) created = Some t \<and> \<not> listening t
      \<and> tunnel_run [Loop True, Loop True] t = Some t' \<and> next_conn t' = 2"
    by (simp add: tunnel_run_simps)
  then obtain t t' where t: "tunnel_run (demo_connection @ demo_closing) created = Some t" "\<not> listening t"
    "tunnel_run [Loop True, Loop True] t = Some t'" "next_conn t' = 2"
    by blast
  from closed_tunnel_ends [OF t(1,2,3)] t show ?thesis by auto
qed

end
