(* ===== verification/Startup.thy ===== *)
theory Startup
  imports Registration ApiServer Guarantees
begin

text \<open>
  How the processes start: the configuration of a Dryad (\<open>dryad/conf/conf.go\<close>), the program
  that runs one (\<open>cmd/dryad/dryad.go\<close>), and the server's program (\<open>cmd/boruta/boruta.go\<close>).
  The TOML library, the generator of UUIDs and what the system answers are parameters.
\<close>

section \<open>Configuration\<close>

definition DefaultRPCPort :: nat where
  "DefaultRPCPort = 7175"

definition DefaultSSHPort :: nat where
  "DefaultSSHPort = 22"

record User =
  uName :: string
  uUnixGroups :: "string list"

record General =
  Address :: string
  BorutaAddress :: string
  SSHAdress :: string
  gCaps :: Capabilities
  gUser :: "User option"
  SDcard :: string
  STMsocket :: string

definition NewConf :: General where
  "NewConf = \<lparr>Address = '':'' @ FormatUint DefaultRPCPort, BorutaAddress = '''',
     SSHAdress = '':'' @ FormatUint DefaultSSHPort, gCaps = (\<lambda>_. None),
     gUser = Some \<lparr>uName = ''boruta-user'', uUnixGroups = []\<rparr>, SDcard = ''/dev/sdX'', STMsocket = ''/run/stm.socket''\<rparr>"

text \<open>
  What the TOML library does: the text it writes for a configuration with an error, if any,
  and the configuration it makes of a text and of the values that are there before.
\<close>

record toml =
  encode :: "General \<Rightarrow> string \<times> string option"
  decode :: "string \<Rightarrow> General \<Rightarrow> string + General"

definition General_Marshal :: "toml \<Rightarrow> General \<Rightarrow> string \<times> string option" where
  "General_Marshal lib g = encode lib g"

definition General_Unmarshal :: "toml \<Rightarrow> string + string \<Rightarrow> General \<Rightarrow> string + General" where
  "General_Unmarshal lib read g = (case read of Inl err \<Rightarrow> Inl err | Inr b \<Rightarrow> decode lib b g)"

section \<open>The agent's process\<close>

text \<open>How a process ends: by itself, by \<open>log.Fatal\<close> with a message, or not before it is interrupted.\<close>

datatype ending = Exit string | Fatal string | Interrupted

record dryad_flags =
  confPath :: string
  version :: bool

definition default_flags :: dryad_flags where
  "default_flags = \<lparr>confPath = ''/etc/boruta/dryad.conf'', version = False\<rparr>"

text \<open>What the system answers to the calls of the process.\<close>

record answers =
  stat_error :: "string option"
  create_error :: "string option"
  open_error :: "string option"
  read_error :: "string option"
  new_uuid :: "string + string"
  stm_dial_error :: "string \<Rightarrow> string option"
  stm_default_error :: "string option"
  listen_error :: "string \<Rightarrow> string option"
  service_error :: "string option"
  boruta_dial_error :: "string \<Rightarrow> string option"
  registration :: delivery
  system :: unix
  system_failures :: "nat \<Rightarrow> string option"
  board_answers :: "nat \<Rightarrow> string option"

text \<open>The process with the files it sees, and the server it talks to.\<close>

record process =
  disk :: "string \<rightharpoonup> string"
  configuration :: General
  served :: "(string \<times> rusalka) option"
  boruta :: server

type_synonym proc = "(process, ending option) prog"

text \<open>\<open>exitOnErr\<close> ends the process when there is an error; otherwise the rest runs.\<close>

definition exitOnErr :: "string \<Rightarrow> string option \<Rightarrow> proc \<Rightarrow> proc" where
  "exitOnErr ctx err rest = (case err of Some e \<Rightarrow> ret (Some (Fatal (ctx @ e))) | None \<Rightarrow> rest)"

definition write_file :: "string \<Rightarrow> string \<Rightarrow> (process, unit) prog" where
  "write_file path text = modify (\<lambda>p. p\<lparr>disk := (disk p)(path \<mapsto> text)\<rparr>)"

definition generateConfFile :: "toml \<Rightarrow> answers \<Rightarrow> dryad_flags \<Rightarrow> proc" where
  "generateConfFile lib sys flags =
     exitOnErr ''can't create configuration file:'' (create_error sys)
      (thn (write_file (confPath flags) '''')
      (thn (case new_uuid sys of
              Inl err \<Rightarrow> ret ()
            | Inr u \<Rightarrow> modify (\<lambda>p. p\<lparr>configuration := (configuration p)\<lparr>gCaps := (gCaps (configuration p))(''UUID'' \<mapsto> u)\<rparr>\<rparr>))
      (bnd (gets (\<lambda>p. General_Marshal lib (configuration p))) (\<lambda>(text, err).
       thn (write_file (confPath flags) text)
           (exitOnErr ''can't generate new configuration:'' err (ret None))))))"

definition readConfFile :: "toml \<Rightarrow> answers \<Rightarrow> dryad_flags \<Rightarrow> proc" where
  "readConfFile lib sys flags =
     exitOnErr ''can't open configuration file:'' (open_error sys)
      (bnd (gets (\<lambda>p. (disk p (confPath flags), configuration p))) (\<lambda>(file, conf).
       let read = (case (read_error sys, file) of (None, Some text) \<Rightarrow> Inr text | (Some e, _) \<Rightarrow> Inl e
                   | (None, None) \<Rightarrow> Inl ''file does not exist'')
       in case General_Unmarshal lib read conf of
            Inl err \<Rightarrow> exitOnErr ''can't parse configuration:'' (Some err) (ret None)
          | Inr g \<Rightarrow> thn (modify (\<lambda>p. p\<lparr>configuration := g\<rparr>)) (ret None)))"

text \<open>
  The agent is offered at its address before it registers.  \<open>ip\<close> is the address it calls
  the server from.
\<close>

definition serve_agent :: "answers \<Rightarrow> (string \<Rightarrow> string + TCPAddr) \<Rightarrow> string \<Rightarrow> General \<Rightarrow> proc" where
  "serve_agent sys resolve ip g = (case gUser g of
       None \<Rightarrow> panic ''nil pointer dereference''
     | Some usr \<Rightarrow>
         let rusalka = NewRusalka (system sys) (system_failures sys) (board_answers sys) (uName usr) (uUnixGroups usr) in
         exitOnErr ''can't listen on port:'' (listen_error sys (Address g))
        (exitOnErr ''can't start RPC service:'' (service_error sys)
        (thn (modify (\<lambda>p. p\<lparr>served := Some (Address g, rusalka)\<rparr>))
        (exitOnErr ''failed to initialize connection to boruta:'' (boruta_dial_error sys (BorutaAddress g))
        (bnd (zoom boruta (\<lambda>s p. p\<lparr>boruta := s\<rparr>)
               (SuperviserClient_Register (over_wire (registration sys) (reception resolve ip)) (gCaps g) (Address g) (SSHAdress g))) (\<lambda>err.
         exitOnErr ''failed to register to boruta:'' err (ret (Some Interrupted))))))))"

definition dryad_main :: "toml \<Rightarrow> answers \<Rightarrow> (string \<Rightarrow> string + TCPAddr) \<Rightarrow> string \<Rightarrow> dryad_flags \<Rightarrow> proc" where
  "dryad_main lib sys resolve ip flags =
     (if version flags then ret (Some (Exit (''dryad version '' @ boruta_Version)))
      else bnd (gets (\<lambda>p. disk p (confPath flags))) (\<lambda>file. case stat_error sys of
        Some err \<Rightarrow> ret (Some (Fatal (''can't access file:'' @ err)))
      | None \<Rightarrow>
        if file = None
        then bnd (generateConfFile lib sys flags) (\<lambda>over. case over of
               Some e \<Rightarrow> ret (Some e)
             | None \<Rightarrow> ret (Some (Fatal ''configuration file generated. Please edit it first'')))
        else bnd (readConfFile lib sys flags) (\<lambda>over. case over of
               Some e \<Rightarrow> ret (Some e)
             | None \<Rightarrow> bnd (gets configuration) (\<lambda>g.
                 if STMsocket g \<noteq> ''''
                 then exitOnErr ''failed to connect to RPC service:'' (stm_dial_error sys (STMsocket g))
                        (serve_agent sys resolve ip g)
                 else exitOnErr ''failed to connect to STM:'' (stm_default_error sys)
                        (serve_agent sys resolve ip g)))))"

definition new_process :: "(string \<rightharpoonup> string) \<Rightarrow> server \<Rightarrow> process" where
  "new_process fs s = \<lparr>disk = fs, configuration = NewConf, served = None, boruta = s\<rparr>"

section \<open>The server's process\<close>

record boruta_flags =
  api_addr :: string
  rpc_addr :: string
  show_version :: bool

definition default_boruta_flags :: boruta_flags where
  "default_boruta_flags = \<lparr>api_addr = '':8487'', rpc_addr = '':7175'', show_version = False\<rparr>"

definition day :: int where
  "day = 86400"

definition cors_origins :: "string list" where
  "cors_origins = [''*'']"

text \<open>
  What runs while the process does: the state of the server, the service Dryads register
  with, by the address they call from, and the REST API.
\<close>

record running =
  run_state :: server
  run_reception :: "string \<Rightarrow> (server, superviser_request) connection"
  run_api :: http_handler

definition StartSuperviserReception :: "(string \<Rightarrow> string option) \<Rightarrow> string \<Rightarrow> (string \<Rightarrow> string + TCPAddr) \<Rightarrow> server Superviser
    \<Rightarrow> string + (string \<Rightarrow> (server, superviser_request) connection)" where
  "StartSuperviserReception listen addr resolve sv = (case listen addr of Some err \<Rightarrow> Inl err | None \<Rightarrow> Inr (sr_serve resolve sv))"

text \<open>\<open>http.ListenAndServe\<close> returns only with an error, which ends the process; until then the server runs.\<close>

definition boruta_main :: "tree \<Rightarrow> cors \<Rightarrow> (string \<Rightarrow> string option) \<Rightarrow> (string \<Rightarrow> string + TCPAddr)
    \<Rightarrow> server \<Rightarrow> boruta_flags \<Rightarrow> ending + running" where
  "boruta_main tree cors listen resolve s flags =
     (if show_version flags then Inl (Exit (''boruta version '' @ boruta_Version))
      else let api = NewAPI tree cors cors_origins day in
        case StartSuperviserReception listen (rpc_addr flags) resolve (worker_list_iface resolve) of
          Inl err \<Rightarrow> Inl (Fatal (''RPC register failed:'' @ err))
        | Inr rpc \<Rightarrow> (case listen (api_addr flags) of
            Some err \<Rightarrow> Inl (Fatal err)
          | None \<Rightarrow> Inr \<lparr>run_state = s, run_reception = rpc, run_api = api\<rparr>))"

section \<open>What a start achieves\<close>

text \<open>A registration that is accepted had all it needs.\<close>

lemma reception_accepts:
  assumes "SuperviserClient_Register (reception resolve ip) caps dt st s = Returns (None, t)"
  shows "\<exists>u d sa. caps ''UUID'' = Some u \<and> dt \<noteq> '''' \<and> st \<noteq> '''' \<and> resolve dt = Inr d \<and> resolve st = Inr sa"
proof -
  have "caps ''UUID'' = None \<Longrightarrow> Register resolve caps x y = ret (Some ErrMissingUUID)" for x y
    by (simp add: Register_def)
  then show ?thesis
    using assms by (cases "caps ''UUID''")
      (auto simp: reception_calls ab_Register_def getTCPAddr_def wire_error_def worker_list_iface_def Let_def bnd_Returns ret_def
        split: if_splits sum.splits)
qed

text \<open>What is true of the process when the server knows its agent.\<close>

definition in_service :: "(string \<Rightarrow> string + TCPAddr) \<Rightarrow> string \<Rightarrow> General \<Rightarrow> process \<Rightarrow> bool" where
  "in_service resolve ip g p \<longleftrightarrow> (\<exists>usr agent u w d sa. gUser g = Some usr \<and> served p = Some (Address g, agent)
     \<and> username agent = uName usr \<and> groups agent = uUnixGroups usr
     \<and> gCaps g ''UUID'' = Some u \<and> workers (wl (boruta p)) u = Some w \<and> WCaps (info w) = gCaps g
     \<and> resolve (Address g) = Inr d \<and> dryad w = fill_ip ip d
     \<and> resolve (SSHAdress g) = Inr sa \<and> sshd w = fill_ip ip sa)"

lemma wlp_zoom_boruta:
  "wlp (zoom boruta (\<lambda>s p. p\<lparr>boruta := s\<rparr>) m) Q p = (\<forall>a t. m (boruta p) = Returns (a, t) \<longrightarrow> Q a (p\<lparr>boruta := t\<rparr>))"
  by (auto simp: wlp_def zoom_def split: outcome.splits)

lemma wlp_exitOnErr [wlp_simps]:
  "wlp (exitOnErr ctx err m) Q = (\<lambda>p. case err of Some e \<Rightarrow> Q (Some (Fatal (ctx @ e))) p | None \<Rightarrow> wlp m Q p)"
  by (simp add: fun_eq_iff exitOnErr_def wlp_simps split: option.split)

text \<open>The server has heard the registration, but the agent has not heard its answer.\<close>

definition answer_lost :: "answers \<Rightarrow> (string \<Rightarrow> string + TCPAddr) \<Rightarrow> string \<Rightarrow> General \<Rightarrow> string \<Rightarrow> server \<Rightarrow> server \<Rightarrow> bool" where
  "answer_lost sys resolve ip g e s t \<longleftrightarrow> registration sys = ReplyLost e
     \<and> (\<exists>err. SuperviserClient_Register (reception resolve ip) (gCaps g) (Address g) (SSHAdress g) s = Returns (err, t))"

definition ended :: "answers \<Rightarrow> (string \<Rightarrow> string + TCPAddr) \<Rightarrow> string \<Rightarrow> General \<Rightarrow> ending option \<Rightarrow> server \<Rightarrow> server \<Rightarrow> bool" where
  "ended sys resolve ip g over s t \<longleftrightarrow> over \<noteq> None \<and> (t = s
     \<or> (\<exists>e. over = Some (Fatal (''failed to register to boruta:'' @ e)) \<and> answer_lost sys resolve ip g e s t))"

lemma over_wire_Register:
  "SuperviserClient_Register (over_wire d client) caps dt st = (case d of
       Delivered \<Rightarrow> SuperviserClient_Register client caps dt st
     | RequestLost e \<Rightarrow> ret (Some e)
     | ReplyLost e \<Rightarrow> thn (SuperviserClient_Register client caps dt st) (ret (Some e)))"
  by (simp add: SuperviserClient_Register_def over_wire_def split: delivery.split)

lemma thn_Returns: "thn m n s = Returns (b, u) \<longleftrightarrow> (\<exists>a t. m s = Returns (a, t) \<and> n t = Returns (b, u))"
  by (simp add: thn_def bnd_Returns)

lemma wlp_serve_agent:
  assumes "resolves_literals ips resolve" and "ip \<in> ips"
  shows "wlp (serve_agent sys resolve ip g) (\<lambda>over q. disk q = disk p \<and> (if over = Some Interrupted then in_service resolve ip g q
     else ended sys resolve ip g over (boruta p) (boruta q))) p"
proof (cases "gUser g")
  case None
  then show ?thesis by (simp add: serve_agent_def wlp_basic)
next
  case (Some usr)
  have reg: "if err = None then \<exists>u w d sa. gCaps g ''UUID'' = Some u \<and> workers (wl t) u = Some w \<and> WCaps (info w) = gCaps g
     \<and> resolve (Address g) = Inr d \<and> dryad w = fill_ip ip d \<and> resolve (SSHAdress g) = Inr sa \<and> sshd w = fill_ip ip sa
     else t = s"
    if run: "SuperviserClient_Register (reception resolve ip) (gCaps g) (Address g) (SSHAdress g) s = Returns (err, t)" for err s t
  proof (cases err)
    case None
    with reception_accepts run obtain u d sa where a: "gCaps g ''UUID'' = Some u" "Address g \<noteq> ''''" "SSHAdress g \<noteq> ''''"
        "resolve (Address g) = Inr d" "resolve (SSHAdress g) = Inr sa" by blast
    from reception_registers [OF assms a run] None a show ?thesis
      by (auto simp: known_as_def split: if_splits)
  next
    case (Some e)
    with reception_refuses run show ?thesis by simp
  qed
  have wire: "case err of None \<Rightarrow> \<exists>u w d sa. gCaps g ''UUID'' = Some u \<and> workers (wl t) u = Some w \<and> WCaps (info w) = gCaps g
       \<and> resolve (Address g) = Inr d \<and> dryad w = fill_ip ip d \<and> resolve (SSHAdress g) = Inr sa \<and> sshd w = fill_ip ip sa
     | Some e \<Rightarrow> ended sys resolve ip g (Some (Fatal (''failed to register to boruta:'' @ e))) s t"
    if run: "SuperviserClient_Register (over_wire (registration sys) (reception resolve ip)) (gCaps g) (Address g) (SSHAdress g) s
       = Returns (err, t)" for err s t
  proof (cases "registration sys")
    case Delivered
    with run have "SuperviserClient_Register (reception resolve ip) (gCaps g) (Address g) (SSHAdress g) s = Returns (err, t)"
      by (simp add: over_wire_Register)
    from reg [OF this] show ?thesis by (cases err) (simp_all add: ended_def)
  next
    case (RequestLost e)
    with run show ?thesis by (auto simp: over_wire_Register ret_def ended_def)
  next
    case (ReplyLost e)
    with run obtain x where "SuperviserClient_Register (reception resolve ip) (gCaps g) (Address g) (SSHAdress g) s = Returns (x, t)"
        "err = Some e"
      by (auto simp: over_wire_Register thn_Returns ret_def)
    with ReplyLost show ?thesis by (auto simp: ended_def answer_lost_def)
  qed
  have early: "ended sys resolve ip g (Some e) s s" for e s by (simp add: ended_def)
  show ?thesis
    unfolding serve_agent_def Some option.case Let_def
    by (auto simp: wlp_simps wlp_zoom_boruta in_service_def Some NewRusalka_def early split: option.split dest!: wire)
qed

lemma wlp_generateConfFile:
  "wlp (generateConfFile lib sys flags) (\<lambda>over q. boruta q = boruta p \<and> over \<noteq> Some Interrupted) p"
  unfolding generateConfFile_def write_file_def
  by (auto simp: wlp_simps split: option.split sum.split prod.split)

lemma wlp_readConfFile:
  "wlp (readConfFile lib sys flags) (\<lambda>over q. disk q = disk p \<and> boruta q = boruta p \<and> over \<noteq> Some Interrupted
     \<and> (over = None \<longrightarrow> (\<exists>text. disk p (confPath flags) = Some text \<and> decode lib text (configuration p) = Inr (configuration q)))) p"
  unfolding readConfFile_def General_Unmarshal_def
  by (auto simp: wlp_simps Let_def split: option.splits sum.splits)

text \<open>
  C40. A Dryad that keeps running is in service: its configuration was read from its file,
  its agent is offered at the configured address for the configured account, and the server
  has the worker with the capabilities and the addresses the agent can be reached at.  A
  Dryad that ends leaves nothing behind at the server, with one exception: when the
  connection breaks after the server has heard the registration, the Dryad ends with the
  error of the connection, and the server is left as the registration has left it.
\<close>

theorem dryad_in_service_or_gone:
  assumes "resolves_literals ips resolve" and "ip \<in> ips"
    and "dryad_main lib sys resolve ip flags (new_process fs s) = Returns (over, p)"
  shows "over = Some Interrupted \<and> (\<exists>text g. fs (confPath flags) = Some text \<and> decode lib text NewConf = Inr g
        \<and> disk p = fs \<and> in_service resolve ip g p)
    \<or> over \<noteq> Some Interrupted \<and> over \<noteq> None \<and> boruta p = s
    \<or> (\<exists>text g e. fs (confPath flags) = Some text \<and> decode lib text NewConf = Inr g
        \<and> over = Some (Fatal (''failed to register to boruta:'' @ e)) \<and> answer_lost sys resolve ip g e s (boruta p))"
proof -
  let ?p = "new_process fs s"
  define Q where "Q over q \<longleftrightarrow> (if over = Some Interrupted
     then \<exists>text g. fs (confPath flags) = Some text \<and> decode lib text NewConf = Inr g \<and> disk q = fs \<and> in_service resolve ip g q
     else over \<noteq> None \<and> (boruta q = s \<or> (\<exists>text g e. fs (confPath flags) = Some text \<and> decode lib text NewConf = Inr g
        \<and> over = Some (Fatal (''failed to register to boruta:'' @ e)) \<and> answer_lost sys resolve ip g e s (boruta q))))" for over q
  have over: "Q (Some e) q" if "boruta q = s" "e \<noteq> Interrupted" for e q
    using that by (simp add: Q_def)
  have serve: "wlp (serve_agent sys resolve ip g) Q q"
    if "fs (confPath flags) = Some cfg" "decode lib cfg NewConf = Inr g" "disk q = fs" "boruta q = s" for cfg g q
    by (rule wlp_mono [OF wlp_serve_agent [OF assms(1,2)]]) (use that in \<open>auto simp: Q_def ended_def split: if_splits\<close>)
  have generate: "wlp (generateConfFile lib sys flags) (\<lambda>over. wlp (case over of Some e \<Rightarrow> ret (Some e)
      | None \<Rightarrow> ret (Some (Fatal ''configuration file generated. Please edit it first''))) Q) ?p"
    by (rule wlp_mono [OF wlp_generateConfFile]) (auto simp: wlp_basic new_process_def intro!: over split: option.split)
  have read: "wlp (readConfFile lib sys flags) (\<lambda>over. wlp (case over of Some e \<Rightarrow> ret (Some e)
      | None \<Rightarrow> bnd (gets configuration) (\<lambda>g.
          if STMsocket g \<noteq> ''''
          then exitOnErr ''failed to connect to RPC service:'' (stm_dial_error sys (STMsocket g)) (serve_agent sys resolve ip g)
          else exitOnErr ''failed to connect to STM:'' (stm_default_error sys) (serve_agent sys resolve ip g))) Q) ?p"
  proof (rule wlp_mono [OF wlp_readConfFile], goal_cases)
    case (1 over q)
    show ?case
    proof (cases over)
      case None
      with 1 obtain cfg where q: "fs (confPath flags) = Some cfg" "decode lib cfg NewConf = Inr (configuration q)"
          "disk q = fs" "boruta q = s"
        by (auto simp: new_process_def)
      from serve [OF q] show ?thesis
        unfolding None option.case wlp_bnd wlp_basic(2) wlp_branches(1) wlp_exitOnErr
        by (simp add: q over split: option.split)
    next
      case (Some e)
      with 1 show ?thesis by (auto simp: wlp_basic new_process_def intro!: over)
    qed
  qed
  have "wlp (dryad_main lib sys resolve ip flags) Q ?p"
    unfolding dryad_main_def using generate read
    by (simp add: wlp_bnd [of "gets f" for f] wlp_bnd [of "generateConfFile l a f" for l a f]
        wlp_bnd [of "readConfFile l a f" for l a f] wlp_basic new_process_def over split: option.split)
  with assms(3) show ?thesis by (auto simp: wlp_def Q_def split: if_splits)
qed

text \<open>An agent on the address in the example, with a library that writes only the UUID.\<close>

definition demo_toml :: toml where
  "demo_toml = \<lparr>encode = (\<lambda>g. (case gCaps g ''UUID'' of None \<Rightarrow> '''' | Some u \<Rightarrow> u, None)),
     decode = (\<lambda>text g. Inr (g\<lparr>gCaps := [''UUID'' \<mapsto> text]\<rparr>))\<rparr>"

definition demo_answers :: answers where
  "demo_answers = \<lparr>stat_error = None, create_error = None, open_error = None, read_error = None, new_uuid = Inr ''w'',
     stm_dial_error = (\<lambda>_. None), stm_default_error = None, listen_error = (\<lambda>_. None), service_error = None,
     boruta_dial_error = (\<lambda>_. None), registration = Delivered, system = \<lparr>accounts = (\<lambda>_. None), dirs = (\<lambda>_. None), files = (\<lambda>_. None)\<rparr>,
     system_failures = (\<lambda>_. None), board_answers = (\<lambda>_. None)\<rparr>"

lemma demo_texts: "FormatUint 7175 = ''7175''" "FormatUint 22 = ''22''"
  by (simp_all add: FormatUint.simps digit_char_def char_of_def bit_0)

lemma demo_addresses:
  "literal_resolver '':7175'' = Inr \<lparr>IP = None, Port = 7175\<rparr>" "literal_resolver '':22'' = Inr \<lparr>IP = None, Port = 22\<rparr>"
  by (simp_all add: literal_resolver_def ParseUint_def is_digit_def)

lemma demo_registers:
  "\<exists>t. SuperviserClient_Register (reception literal_resolver ''10.0.0.7'') demo_caps '':7175'' '':22'' started = Returns (None, t)
     \<and> workers (wl t) ''w'' \<noteq> None"
  using literal_resolver_String [of "''10.0.0.7''" 7175] literal_resolver_String [of "''10.0.0.7''" 22]
  by (simp add: reception_calls ab_Register_def getTCPAddr_def demo_addresses fill_ip_def worker_list_iface_def wire_error_def
      Register_def check_addr_def demo_caps_def started_def run_simps)

lemmas startup_simps = dryad_main_def readConfFile_def General_Unmarshal_def serve_agent_def exitOnErr_def Let_def
  default_flags_def over_wire_Register demo_toml_def demo_answers_def new_process_def NewConf_def DefaultRPCPort_def
  DefaultSSHPort_def demo_texts demo_caps_def bnd_def thn_def ret_def gets_def modify_def zoom_def

text \<open>The exception: the connection breaks, the Dryad ends, and the worker stays.\<close>

lemma lost_answer_leaves_worker:
  "\<exists>p. dryad_main demo_toml (demo_answers\<lparr>registration := ReplyLost ''unexpected EOF''\<rparr>) literal_resolver ''10.0.0.7'' default_flags
        (new_process [''/etc/boruta/dryad.conf'' \<mapsto> ''w''] started)
      = Returns (Some (Fatal ''failed to register to boruta:unexpected EOF''), p) \<and> workers (wl (boruta p)) ''w'' \<noteq> None"
  using demo_registers by (auto simp: startup_simps)

lemma dryad_in_service_or_gone_witness:
  "\<exists>p w. dryad_main demo_toml demo_answers literal_resolver ''10.0.0.7'' default_flags
        (new_process [''/etc/boruta/dryad.conf'' \<mapsto> ''w''] started) = Returns (Some Interrupted, p)
      \<and> workers (wl (boruta p)) ''w'' = Some w \<and> dryad w = \<lparr>IP = Some ''10.0.0.7'', Port = 7175\<rparr>"
proof -
  let ?fs = "[''/etc/boruta/dryad.conf'' \<mapsto> ''w'']"
  have "\<exists>p. dryad_main demo_toml demo_answers literal_resolver ''10.0.0.7'' default_flags (new_process ?fs started)
      = Returns (Some Interrupted, p)"
    using demo_registers by (auto simp: startup_simps)
  then obtain p where p: "dryad_main demo_toml demo_answers literal_resolver ''10.0.0.7'' default_flags (new_process ?fs started)
      = Returns (Some Interrupted, p)" by blast
  have "registration demo_answers = Delivered" "boruta (new_process ?fs started) = started"
    by (simp_all add: demo_answers_def new_process_def)
  then obtain g where g: "decode demo_toml ''w'' NewConf = Inr g" "in_service literal_resolver ''10.0.0.7'' g p"
    using dryad_in_service_or_gone [OF literal_resolver_ok _ p] by (auto simp: default_flags_def)
  then have "Address g = '':7175''" "gCaps g ''UUID'' = Some ''w''"
    by (auto simp: demo_toml_def NewConf_def DefaultRPCPort_def demo_texts)
  with g(2) p show ?thesis by (auto simp: in_service_def demo_addresses fill_ip_def)
qed

end
