(* ===== verification/Twins.thy ===== *)
theory Twins
  imports Guarantees Liberal
begin

text \<open>
  No operation of the server looks at what a timer is set for: run from two states that
  differ only there, it ends in the same way, and the states still differ only there.  So
  the timers can be refined without looking into the operations again.
\<close>

section \<open>Programs that respect a relation\<close>

text \<open>From states related by \<open>R\<close> a program ends alike, in states related by \<open>Q\<close>.\<close>

definition alike :: "('s \<Rightarrow> 's \<Rightarrow> bool) \<Rightarrow> ('s, 'a) prog \<Rightarrow> ('s \<Rightarrow> 's \<Rightarrow> bool) \<Rightarrow> bool" where
  "alike R m Q \<longleftrightarrow> (\<forall>s t. R s t \<longrightarrow> rel_outcome (rel_prod (=) Q) (m s) (m t))"

abbreviation blind :: "('s \<Rightarrow> 's \<Rightarrow> bool) \<Rightarrow> ('s, 'a) prog \<Rightarrow> bool" where
  "blind R m \<equiv> alike R m R"

named_theorems blind_intros \<open>rules for relations a program respects\<close>

lemma alikeD:
  "alike R m Q \<Longrightarrow> R s t \<Longrightarrow> m s = Returns (a, u) \<Longrightarrow> \<exists>v. m t = Returns (a, v) \<and> Q u v"
  by (cases "m t") (force simp: alike_def)+

lemma alike_mono: "alike R m Q \<Longrightarrow> (\<And>s t. S s t \<Longrightarrow> R s t) \<Longrightarrow> (\<And>s t. Q s t \<Longrightarrow> P s t) \<Longrightarrow> alike S m P"
  unfolding alike_def by (blast intro: outcome.rel_mono_strong prod.rel_mono_strong)

lemma blind_basic [blind_intros]:
  "blind R (ret a)" "blind R (panic e)" "blind R block" "blind R out_of_fuel"
  by (simp_all add: alike_def ret_def panic_def block_def out_of_fuel_def)

lemma blind_gets [blind_intros]: "(\<And>s t. R s t \<Longrightarrow> f s = f t) \<Longrightarrow> blind R (gets f)"
  by (simp add: alike_def gets_def)

lemma blind_modify [blind_intros]: "(\<And>s t. R s t \<Longrightarrow> R (h s) (h t)) \<Longrightarrow> blind R (modify h)"
  by (simp add: alike_def modify_def)

lemma alike_bnd:
  assumes "alike R m Q" and "\<And>a. alike Q (f a) P"
  shows "alike R (bnd m f) P"
  unfolding alike_def
proof (intro allI impI)
  fix s t assume "R s t"
  with assms(1) have "rel_outcome (rel_prod (=) Q) (m s) (m t)" by (simp add: alike_def)
  then show "rel_outcome (rel_prod (=) P) (bnd m f s) (bnd m f t)"
    by (cases rule: outcome.rel_cases) (use assms(2) in \<open>auto simp: bnd_def alike_def\<close>)
qed

lemma alike_thn: "alike R m Q \<Longrightarrow> alike Q n P \<Longrightarrow> alike R (thn m n) P"
  unfolding thn_def by (rule alike_bnd)

lemma blind_seq [blind_intros]:
  "blind R m \<Longrightarrow> (\<And>a. blind R (f a)) \<Longrightarrow> blind R (bnd m f)"
  "blind R m \<Longrightarrow> blind R n \<Longrightarrow> blind R (thn m n)"
  by (rule alike_bnd alike_thn; assumption)+

lemma blind_branches [blind_intros]:
  "alike R m Q \<Longrightarrow> alike R n Q \<Longrightarrow> alike R (if c then m else n) Q"
  "alike R m Q \<Longrightarrow> (\<And>a. alike R (g a) Q) \<Longrightarrow> alike R (case x of None \<Rightarrow> m | Some a \<Rightarrow> g a) Q"
  "(\<And>e. alike R (h e) Q) \<Longrightarrow> (\<And>c. alike R (k c) Q) \<Longrightarrow> alike R (case y of Inl e \<Rightarrow> h e | Inr c \<Rightarrow> k c) Q"
  "(\<And>d e. alike R (l d e) Q) \<Longrightarrow> alike R (case p of (d, e) \<Rightarrow> l d e) Q"
  "(\<And>a. alike R (q a) Q) \<Longrightarrow> alike R (let a = v in q a) Q"
  by (auto split: option.splits sum.splits prod.splits)

lemma blind_for_each [blind_intros]: "(\<And>x. blind R (g x)) \<Longrightarrow> blind R (for_each g xs)"
  by (induction xs) (auto intro: blind_intros)

lemma alike_zoom:
  assumes m: "alike P m Q" and "\<And>s t. R s t \<Longrightarrow> P (get s) (get t)"
    and "\<And>s t p q. R s t \<Longrightarrow> Q p q \<Longrightarrow> S (put p s) (put q t)"
  shows "alike R (zoom get put m) S"
  unfolding alike_def
proof (intro allI impI)
  fix s t assume st: "R s t"
  with m assms(2) have "rel_outcome (rel_prod (=) Q) (m (get s)) (m (get t))" by (simp add: alike_def)
  then show "rel_outcome (rel_prod (=) S) (zoom get put m s) (zoom get put m t)"
    by (cases rule: outcome.rel_cases) (use assms(3) [OF st] in \<open>auto simp: zoom_def\<close>)
qed

lemma blind_eq [blind_intros]: "blind (=) m"
  by (simp add: alike_def outcome.rel_refl prod.rel_refl)

section \<open>States that differ in their timers\<close>

text \<open>
  Two collections of times with the same entries.  The timers may differ when \<open>free\<close>
  holds, and when there is no entry.
\<close>

definition twin_rt :: "bool \<Rightarrow> requestTimes \<Rightarrow> requestTimes \<Rightarrow> bool" where
  "twin_rt free x y \<longleftrightarrow> times x = times y \<and> rt_matcher x = rt_matcher y \<and> (free \<or> times x = [] \<or> timer x = timer y)"

text \<open>Two states that differ at most in the timers; those outside \<open>A\<close> differ only without entries.\<close>

definition twin :: "times_kind set \<Rightarrow> time set \<Rightarrow> server \<Rightarrow> server \<Rightarrow> bool" where
  "twin A C s t \<longleftrightarrow> held s = held t \<and> clock s = clock t \<and> range (clock t) \<subseteq> C \<and> tz_offset s = tz_offset t
     \<and> ports s = ports t \<and> open_tunnels s = open_tunnels t \<and> next_tunnel s = next_tunnel t
     \<and> requests (rc s) = requests (rc t) \<and> rqueue (rc s) = rqueue (rc t) \<and> iterating (rc s) = iterating (rc t)
     \<and> (\<forall>k. twin_rt (k \<in> A) (times_of k (rc s)) (times_of k (rc t)))
     \<and> jobs s = jobs t \<and> wl s = wl t \<and> chans s = chans t \<and> next_chan s = next_chan t \<and> bgs s = bgs t"

lemma h_Push_Nil: "h_Push e [] = Returns ((), [e])"
  by (simp add: h_Push_def modify_def heap_up.simps)

lemma blind_rt_insert: "blind (twin_rt free) (rt_insert e)"
  unfolding alike_def
proof (intro allI impI)
  fix x y assume xy: "twin_rt free x y"
  show "rel_outcome (rel_prod (=) (twin_rt free)) (rt_insert e x) (rt_insert e y)"
  proof (cases "times x = []")
    case True
    with xy show ?thesis
      by (simp add: rt_insert_def on_times_def zoom_def thn_def bnd_def twin_rt_def h_Push_Nil rt_minTime_def h_Min_def
          gets_def ret_def rt_stop_def rt_reset_def modify_def)
  next
    case False
    with xy show ?thesis
      by (auto simp: rt_insert_def on_times_def zoom_def thn_def bnd_def twin_rt_def rt_minTime_def h_Min_def h_Push_def
          gets_def ret_def panic_def rt_stop_def rt_reset_def modify_def)
  qed
qed

lemma alike_on_rt:
  assumes "alike (twin_rt (k \<in> A)) m (twin_rt (k \<in> B))" and "A - {k} = B - {k}"
  shows "alike (twin A C) (on_rt k m) (twin B C)"
  unfolding on_rt_def
proof (rule alike_zoom [OF assms(1)])
  fix s t x y assume st: "twin A C s t" and xy: "twin_rt (k \<in> B) x y"
  have "twin_rt (j \<in> B) (times_of j (rc s)) (times_of j (rc t))" if "j \<noteq> k" for j
  proof -
    have "j \<in> A \<longleftrightarrow> j \<in> B" using assms(2) that by blast
    moreover have "twin_rt (j \<in> A) (times_of j (rc s)) (times_of j (rc t))" using st unfolding twin_def by blast
    ultimately show ?thesis by simp
  qed
  with st xy show "twin B C (s\<lparr>rc := set_times k x (rc s)\<rparr>) (t\<lparr>rc := set_times k y (rc t)\<rparr>)"
    by (simp add: twin_def)
qed (simp add: twin_def)

section \<open>The operations\<close>

lemma twin_clock: "twin A C s t \<Longrightarrow> twin A C (s\<lparr>clock := \<lambda>i. clock s (Suc i)\<rparr>) (t\<lparr>clock := \<lambda>i. clock t (Suc i)\<rparr>)"
  by (auto simp: twin_def)

lemma blind_primitive [blind_intros]:
  "blind (twin A C) (lock l)" "blind (twin A C) (unlock l)" "blind (twin A C) get_requests" "blind (twin A C) get_workers"
  "blind (twin A C) (put_request i r)" "blind (twin A C) (upd_request i f)" "blind (twin A C) (upd_worker u g)"
  "blind (twin A C) (Tunnel_Create a)" "blind (twin A C) (Tunnel_Close tun)" "blind (twin A C) (chan_send c st)"
  "blind (twin A C) (chan_close c)" "blind (twin A C) (checkPendingOperation c)" "blind (twin A C) (goto c pc b)"
  unfolding put_request_def Tunnel_Create_def chan_close_def checkPendingOperation_def goto_def op_defs
  by (intro blind_intros; simp add: twin_def)+

lemma blind_time_Now [blind_intros]: "blind (twin A C) time_Now"
  unfolding time_Now_def by (intro blind_intros) (simp add: twin_def, erule twin_clock)

lemma blind_critical [blind_intros]: "blind (twin A C) m \<Longrightarrow> blind (twin A C) (critical l m)"
  unfolding critical_def by (intro blind_intros)

lemma blind_on_queue [blind_intros]: "blind (twin A C) (on_queue m)"
  unfolding on_queue_def by (rule alike_zoom [OF blind_eq]) (simp_all add: twin_def)

lemma blind_times_insert [blind_intros]: "blind (twin A C) (times_insert k x)"
  unfolding times_insert_def by (intro blind_intros alike_on_rt blind_rt_insert) simp_all

lemma blind_listener [blind_intros]:
  "blind (twin A C) (pushRequest r)" "blind (twin A C) (removeRequest r)" "blind (twin A C) (setRequestPriority r p)"
  "blind (twin A C) (jobs_Get u)" "blind (twin A C) (finish_job u)" "blind (twin A C) (OnWorkerIdle u)"
  "blind (twin A C) (OnWorkerFail u)" "blind (twin A C) (setState u st)"
proof -
  show events: "blind (twin A C) (pushRequest r)" "blind (twin A C) (removeRequest r)" "blind (twin A C) (setRequestPriority r p)"
    and jobs: "blind (twin A C) (jobs_Get u)" "blind (twin A C) (finish_job u)" "blind (twin A C) (OnWorkerIdle u)" for u
    unfolding pushRequest_def removeRequest_def setRequestPriority_def jobs_Get_def finish_job_def OnWorkerIdle_def
    by (intro blind_intros; simp add: twin_def)+
  show fail: "blind (twin A C) (OnWorkerFail u)" for u
    unfolding OnWorkerFail_def by (intro blind_intros jobs)
  show "blind (twin A C) (setState u st)"
    unfolding setState_def by (intro blind_intros jobs fail) (simp add: twin_def)
qed

lemma blind_workers [blind_intros]:
  "blind (twin A C) (Register resolve caps dt sa)" "blind (twin A C) (SetFail u reason)" "blind (twin A C) (SetState u name)"
  "blind (twin A C) (SetGroups u gs)" "blind (twin A C) (Deregister u)" "blind (twin A C) (GetWorkerInfo u)"
  "blind (twin A C) (getWorkerAddr u)" "blind (twin A C) (GetWorkerSSHAddr u)" "blind (twin A C) (GetWorkerKey u)"
  "blind (twin A C) (setWorkerKey u k)" "blind (twin A C) (PrepareWorker u b)" "blind (twin A C) (listWorkers f si pid idle)"
  unfolding Register_def SetFail_def SetState_def SetGroups_def Deregister_def GetWorkerInfo_def getWorkerAddr_def
    GetWorkerSSHAddr_def GetWorkerKey_def setWorkerKey_def PrepareWorker_def listWorkers_def
  by (intro blind_intros; simp add: twin_def)+

lemma blind_jobs [blind_intros]:
  "blind (twin A C) (TakeBestMatchingWorker gs caps)" "blind (twin A C) (Create i u)" "blind (twin A C) (Finish u b)"
  unfolding TakeBestMatchingWorker_def Create_def Finish_def
  by (intro blind_intros; simp add: twin_def)+

lemma blind_requests [blind_intros]:
  "blind (twin A C) (CloseRequest i)" "blind (twin A C) (Timeout i)" "blind (twin A C) (Close i)"
  "blind (twin A C) (ProlongAccess i)" "blind (twin A C) (set_timeout i)" "blind (twin A C) (AcquireWorker i)"
  "blind (twin A C) (GetRequestInfo i)" "blind (twin A C) (NewRequest caps p owner va dl)" "blind (twin A C) (UpdateRequest r)"
  unfolding CloseRequest_def closeRequest_def Timeout_def Close_def ProlongAccess_def set_timeout_def AcquireWorker_def
    GetRequestInfo_def Get_def NewRequest_def store_request_def deadline_in_past_def UpdateRequest_def updateRequest_def
    apply_update_def insert_if_def
  by (auto intro!: blind_intros simp: twin_def split: ReqState.split)

lemma blind_iteration [blind_intros]:
  "blind (twin A C) InitIteration" "blind (twin A C) TerminateIteration" "blind (twin A C) Next"
  "blind (twin A C) (VerifyIfReady i now)" "blind (twin A C) (Get i)" "blind (twin A C) (Run i u)"
  unfolding InitIteration_def TerminateIteration_def end_iteration_def releaseIterator_def initIterator_def Next_def
    VerifyIfReady_def Get_def Run_def
  by (intro blind_intros; simp add: twin_def)+

lemma blind_visit [blind_intros]: "blind (twin A C) (visit RM WM JM now n)"
proof (induction n)
  case (Suc n)
  then show ?case
    unfolding visit.simps matchWorkers_def RM_methods
    unfolding WM_def JM_def WorkersManager.simps JobsManager.simps by (intro blind_intros)
qed (simp add: blind_intros)

lemma blind_valid_notify [blind_intros]: "blind (twin A C) (valid_notify RM WM JM time_Now n turns)"
proof (induction turns)
  case (Suc turns)
  then show ?case
    unfolding valid_notify.simps iterateRequests_def RM_methods by (intro blind_intros)
qed (simp add: blind_intros)

lemma blind_Notify: "blind (twin A C) (Notify mk past)"
  unfolding Notify_def deadline_notify_def timeout_notify_def RM_methods
  by (cases mk) (auto intro!: blind_intros simp: twin_def)

lemma blind_bg_step [blind_intros]: "blind (twin A C) (bg_step answer key c)"
proof -
  have "blind (twin A C) (bg_call c u answer key pc)" for u pc
    unfolding bg_call_def loop_head_def dispatch_def after_call_def settle_def receive_def
    by (cases pc) (auto intro!: blind_intros simp: twin_def split: WorkerState.split list.split)
  then show ?thesis unfolding bg_step_def by (intro blind_intros) (simp_all add: twin_def)
qed

lemma blind_event: "\<not> (\<exists>k t. e = EFire k t) \<Longrightarrow> blind (twin A C) (run_event resolve e)"
  by (cases e) (simp_all add: ignore_def blind_intros)

text \<open>
  Processing a collection makes the timers agree again, since it ends by setting the timer
  for the earliest entry.
\<close>

lemma blind_take_past: "blind (twin_rt True) (rt_take_past t)"
  unfolding rt_take_past_def on_times_def
  by (intro blind_intros alike_zoom [OF blind_eq]) (simp_all add: twin_rt_def)

lemma rearm_agrees: "alike (twin_rt True) rt_rearm (twin_rt False)"
  by (auto simp: alike_def twin_rt_def rt_rearm_def rt_reset_def rt_minTime_def on_times_def zoom_def bnd_def gets_def
      ret_def modify_def h_Min_def)

lemma process_agrees:
  assumes "k \<in> A"
  shows "alike (twin A C) (process k t) (twin (A - {k}) C)"
proof -
  have rearm: "alike (twin A C) (on_rt k rt_rearm) (twin (A - {k}) C)"
    by (rule alike_on_rt) (use assms rearm_agrees in simp_all)
  have tail: "alike (twin A C) (thn (case m of None \<Rightarrow> ret () | Some mk \<Rightarrow> Notify mk past) (on_rt k rt_rearm)) (twin (A - {k}) C)"
    for m past
    by (rule alike_thn [OF _ rearm]) (intro blind_intros blind_Notify)
  have "blind (twin A C) (on_rt k (rt_take_past t))"
    by (rule alike_on_rt) (use assms blind_take_past in simp_all)
  then have "alike (twin A C) (bnd (on_rt k (rt_take_past t)) (\<lambda>past.
     bnd (gets (\<lambda>s. rt_matcher (times_of k (rc s)))) (\<lambda>m.
     thn (case m of None \<Rightarrow> ret () | Some mk \<Rightarrow> Notify mk past) (on_rt k rt_rearm)))) (twin (A - {k}) C)"
    by (rule alike_bnd) (rule alike_bnd [OF blind_gets tail], simp add: twin_def twin_rt_def)
  then have body: "alike (twin A C) (bnd (bnd (on_rt k (rt_take_past t)) (\<lambda>past.
     bnd (gets (\<lambda>s. rt_matcher (times_of k (rc s)))) (\<lambda>m.
     thn (case m of None \<Rightarrow> ret () | Some mk \<Rightarrow> Notify mk past) (on_rt k rt_rearm))))
       (\<lambda>r. thn (unlock (TimesMutex k)) (ret r))) (twin (A - {k}) C)"
    by (rule alike_bnd) (intro blind_intros)
  show ?thesis
    unfolding process_def critical_def by (rule alike_thn [OF blind_primitive(1) body])
qed

lemma process_fires:
  assumes st: "twin A C s t" and k: "k \<in> A" and run: "process k \<tau> s = Returns ((), u)"
  shows "\<exists>v. fire k \<tau> t = Returns ((), v) \<and> twin (A - {k}) C u v"
proof -
  let ?t = "t\<lparr>rc := set_times k ((times_of k (rc t))\<lparr>timer := None\<rparr>) (rc t)\<rparr>"
  have "twin A C s ?t"
    using st k by (auto simp: twin_def twin_rt_def)
  from alikeD [OF process_agrees [OF k] this run] show ?thesis
    by (simp add: fire_def thn_def bnd_def on_rt_def zoom_def rt_stop_def modify_def)
qed

end
