(* ===== verification/Goroutines.thy ===== *)
theory Goroutines
  imports Twins
begin

text \<open>
  The goroutines of the three collections of times in detail (\<open>loop\<close> and \<open>finish\<close> of
  \<open>requests/times.go\<close>), and the end of the collection of requests (\<open>Finish\<close> of
  \<open>requests/requests.go\<close>).  The event that a timer fires is taken apart: the runtime puts
  the moment into the timer's channel, the goroutine receives it, and then it processes the
  collection, while other goroutines insert points in time and set the timer again.
  \<open>Finish\<close> stops timers, closes channels and waits for the goroutines, step by step.
\<close>

section \<open>State\<close>

text \<open>
  \<open>tick\<close> is the channel of the timer, which has room for one moment; \<open>stop_closed\<close> tells
  whether the channel \<open>stop\<close> is closed.  The goroutine is at its \<open>select\<close>, has received a
  moment, or has returned (then \<open>done\<close> is zero).
\<close>

datatype loop_pc = Selecting | Received time | Returned

record timer_loop =
  tick :: "time option"
  stop_closed :: bool
  loop_at :: loop_pc

text \<open>\<open>finish\<close> as the calls it makes, one after the other.\<close>

datatype finish_call = StopTimer times_kind | CloseStop times_kind | WaitDone times_kind

definition rt_finish :: "times_kind \<Rightarrow> finish_call list" where
  "rt_finish k = [StopTimer k, CloseStop k, WaitDone k]"

definition reqs_Finish :: "finish_call list" where
  "reqs_Finish = rt_finish ValidAfterTimes @ rt_finish DeadlineTimes @ rt_finish TimeoutTimes"

text \<open>The calls of \<open>Finish\<close> that are under way, each with what it has still to do.\<close>

record server_process =
  srv :: server
  loops :: "times_kind \<Rightarrow> timer_loop"
  finishing :: "finish_call list list"

definition upd_loop :: "times_kind \<Rightarrow> (timer_loop \<Rightarrow> timer_loop) \<Rightarrow> (server_process, unit) prog" where
  "upd_loop k f = modify (\<lambda>p. p\<lparr>loops := (loops p)(k := f (loops p k))\<rparr>)"

definition on_srv :: "'a op \<Rightarrow> (server_process, 'a) prog" where
  "on_srv = zoom srv (\<lambda>s p. p\<lparr>srv := s\<rparr>)"

section \<open>Steps\<close>

text \<open>
  The runtime fires a timer: it does not fire again until it is set, and the moment is
  dropped when the channel holds one already.
\<close>

definition timer_fires :: "times_kind \<Rightarrow> time \<Rightarrow> (server_process, unit) prog" where
  "timer_fires k t = thn (on_srv (on_rt k rt_stop))
     (upd_loop k (\<lambda>l. l\<lparr>tick := (case tick l of None \<Rightarrow> Some t | Some u \<Rightarrow> Some u)\<rparr>))"

text \<open>
  One step of \<open>loop\<close>.  When both cases of the \<open>select\<close> are ready either may be taken;
  \<open>take_tick\<close> is the choice.
\<close>

definition loop_step :: "times_kind \<Rightarrow> bool \<Rightarrow> (server_process, unit) prog" where
  "loop_step k take_tick = bnd (gets (\<lambda>p. loops p k)) (\<lambda>l. case loop_at l of
       Selecting \<Rightarrow>
         if take_tick
         then (case tick l of None \<Rightarrow> block
               | Some t \<Rightarrow> upd_loop k (\<lambda>l. l\<lparr>tick := None, loop_at := Received t\<rparr>))
         else if stop_closed l then upd_loop k (\<lambda>l. l\<lparr>loop_at := Returned\<rparr>)
         else block
     | Received t \<Rightarrow> thn (on_srv (process k t)) (upd_loop k (\<lambda>l. l\<lparr>loop_at := Selecting\<rparr>))
     | Returned \<Rightarrow> block)"

fun finish_step :: "finish_call \<Rightarrow> (server_process, unit) prog" where
  "finish_step (StopTimer k) = on_srv (on_rt k rt_stop)"
| "finish_step (CloseStop k) = bnd (gets (\<lambda>p. stop_closed (loops p k))) (\<lambda>c.
     if c then panic ''close of closed channel'' else upd_loop k (\<lambda>l. l\<lparr>stop_closed := True\<rparr>))"
| "finish_step (WaitDone k) = bnd (gets (\<lambda>p. loop_at (loops p k))) (\<lambda>at_pc.
     if at_pc = Returned then ret () else block)"

definition is_fire :: "event \<Rightarrow> bool" where
  "is_fire e = (case e of EFire k t \<Rightarrow> True | _ \<Rightarrow> False)"

inductive process_step :: "(string \<Rightarrow> string + TCPAddr) \<Rightarrow> server_process \<Rightarrow> server_process \<Rightarrow> bool" for resolve where
  event: "\<not> is_fire e \<Longrightarrow> on_srv (run_event resolve e) p = Returns ((), q) \<Longrightarrow> process_step resolve p q"
| timer: "timer_due k t (srv p) \<Longrightarrow> (\<And>n. t \<le> clock (srv p) n) \<Longrightarrow> timer_fires k t p = Returns ((), q) \<Longrightarrow>
    process_step resolve p q"
| loop: "loop_step k take_tick p = Returns ((), q) \<Longrightarrow> process_step resolve p q"
| call: "process_step resolve p (p\<lparr>finishing := finishing p @ [reqs_Finish]\<rparr>)"
| finish: "i < length (finishing p) \<Longrightarrow> finishing p ! i = c # cs \<Longrightarrow> finish_step c p = Returns ((), q) \<Longrightarrow>
    process_step resolve p (q\<lparr>finishing := (finishing q)[i := cs]\<rparr>)"

definition start_process :: "(nat \<Rightarrow> time) \<Rightarrow> int \<Rightarrow> (nat \<Rightarrow> int option) \<Rightarrow> time \<Rightarrow> server_process" where
  "start_process clk tz prt far = \<lparr>srv = start_server clk tz prt far,
     loops = (\<lambda>_. \<lparr>tick = None, stop_closed = False, loop_at = Selecting\<rparr>), finishing = []\<rparr>"

inductive process_reachable :: "(string \<Rightarrow> string + TCPAddr) \<Rightarrow> server_process \<Rightarrow> bool" for resolve where
  init: "process_reachable resolve (start_process clk tz prt far)"
| more: "process_reachable resolve p \<Longrightarrow> process_step resolve p q \<Longrightarrow> process_reachable resolve q"

lemma process_step_cases:
  assumes "process_step resolve p q"
  obtains
    (event) e where "\<not> is_fire e" "on_srv (run_event resolve e) p = Returns ((), q)"
  | (timer) k t where "timer_due k t (srv p)" "\<And>n. t \<le> clock (srv p) n" "timer_fires k t p = Returns ((), q)"
  | (loop) k take_tick where "loop_step k take_tick p = Returns ((), q)"
  | (call) "q = p\<lparr>finishing := finishing p @ [reqs_Finish]\<rparr>"
  | (finish) i c cs r where "i < length (finishing p)" "finishing p ! i = c # cs" "finish_step c p = Returns ((), r)"
      "q = r\<lparr>finishing := (finishing r)[i := cs]\<rparr>"
  using assms by (cases rule: process_step.cases) blast+

section \<open>What a step does\<close>

lemma on_srv_Returns: "on_srv m p = Returns (a, q) \<longleftrightarrow> (\<exists>s. m (srv p) = Returns (a, s) \<and> q = p\<lparr>srv := s\<rparr>)"
  by (auto simp: on_srv_def zoom_def split: outcome.splits)

lemma upd_loop_Returns: "upd_loop k f p = Returns (a, q) \<longleftrightarrow> q = p\<lparr>loops := (loops p)(k := f (loops p k))\<rparr>"
  by (auto simp: upd_loop_def modify_def)

lemma timer_fires_Returns:
  "timer_fires k t p = Returns ((), q) \<longleftrightarrow> q = p\<lparr>
     srv := (srv p)\<lparr>rc := set_times k ((times_of k (rc (srv p)))\<lparr>timer := None\<rparr>) (rc (srv p))\<rparr>,
     loops := (loops p)(k := (loops p k)\<lparr>tick := (case tick (loops p k) of None \<Rightarrow> Some t | Some u \<Rightarrow> Some u)\<rparr>)\<rparr>"
  by (auto simp: timer_fires_def thn_def bnd_Returns on_srv_Returns upd_loop_Returns on_rt_Returns rt_stop_def modify_def)

lemma loop_step_cases:
  assumes "loop_step k b p = Returns ((), q)"
  obtains
    (receive) t where "loop_at (loops p k) = Selecting" "tick (loops p k) = Some t"
      "q = p\<lparr>loops := (loops p)(k := (loops p k)\<lparr>tick := None, loop_at := Received t\<rparr>)\<rparr>"
  | (stop) "loop_at (loops p k) = Selecting" "stop_closed (loops p k)"
      "q = p\<lparr>loops := (loops p)(k := (loops p k)\<lparr>loop_at := Returned\<rparr>)\<rparr>"
  | (process) t s where "loop_at (loops p k) = Received t" "process k t (srv p) = Returns ((), s)"
      "q = p\<lparr>srv := s, loops := (loops p)(k := (loops p k)\<lparr>loop_at := Selecting\<rparr>)\<rparr>"
  using assms
  by (auto simp: loop_step_def bnd_Returns thn_def gets_def upd_loop_Returns on_srv_Returns block_def
      split: loop_pc.splits if_splits option.splits)

lemma finish_step_cases:
  assumes "finish_step c p = Returns ((), q)"
  obtains
    (timer) k where "c = StopTimer k"
      "q = p\<lparr>srv := (srv p)\<lparr>rc := set_times k ((times_of k (rc (srv p)))\<lparr>timer := None\<rparr>) (rc (srv p))\<rparr>\<rparr>"
  | (stop) k where "c = CloseStop k" "\<not> stop_closed (loops p k)"
      "q = p\<lparr>loops := (loops p)(k := (loops p k)\<lparr>stop_closed := True\<rparr>)\<rparr>"
  | (wait) k where "c = WaitDone k" "loop_at (loops p k) = Returned" "q = p"
  using assms
  by (cases c)
     (auto simp: bnd_Returns gets_def upd_loop_Returns on_srv_Returns on_rt_Returns rt_stop_def modify_def panic_def
       block_def ret_def split: if_splits)

section \<open>Moments received are past\<close>

text \<open>The clock is at or behind every moment in a channel or with a goroutine.\<close>

definition moments :: "server_process \<Rightarrow> time set" where
  "moments p = {t. \<exists>k. tick (loops p k) = Some t \<or> loop_at (loops p k) = Received t}"

definition moments_past :: "server_process \<Rightarrow> bool" where
  "moments_past p \<longleftrightarrow> (\<forall>t \<in> moments p. \<forall>n. t \<le> clock (srv p) n)"

lemma twin_refl: "range (clock s) \<subseteq> C \<Longrightarrow> twin A C s s"
  by (simp add: twin_def twin_rt_def)

lemma alike_clock:
  assumes m: "alike (twin A {\<tau>..}) m (twin B {\<tau>..})" and run: "m s = Returns (a, u)" and \<tau>: "\<And>n. \<tau> \<le> clock s n"
  shows "\<tau> \<le> clock u n"
proof -
  have "twin A {\<tau>..} s s" by (rule twin_refl) (use \<tau> in auto)
  from alikeD [OF m this run] obtain v where "twin B {\<tau>..} u v" by blast
  then have "clock u n \<in> {\<tau>..}" by (auto simp: twin_def)
  then show ?thesis by simp
qed

lemma blind_run: "\<not> is_fire e \<Longrightarrow> blind (twin A C) (run_event resolve e)"
  by (rule blind_event) (auto simp: is_fire_def)

lemma moments_past_step:
  assumes past: "moments_past p" and step: "process_step resolve p q"
  shows "moments_past q"
  using step
proof (cases rule: process_step_cases)
  case (event e)
  then obtain s where s: "run_event resolve e (srv p) = Returns ((), s)" "q = p\<lparr>srv := s\<rparr>"
    by (auto simp: on_srv_Returns)
  have "t \<le> clock s n" if "t \<in> moments p" for t n
    by (rule alike_clock [OF blind_run [OF event(1)] s(1)]) (use past that in \<open>auto simp: moments_past_def\<close>)
  then show ?thesis by (simp add: moments_past_def moments_def s(2))
next
  case (timer k t)
  then have "moments q \<subseteq> insert t (moments p)" "clock (srv q) = clock (srv p)"
    by (auto simp: timer_fires_Returns moments_def split: if_splits option.splits)
  with past timer(2) show ?thesis by (auto simp: moments_past_def)
next
  case (loop k b)
  then show ?thesis
  proof (cases rule: loop_step_cases)
    case (process t s)
    have "\<tau> \<le> clock s n" if "\<tau> \<in> moments p" for \<tau> n
      by (rule alike_clock [OF process_agrees [of k UNIV] process(2)]) (use past that in \<open>auto simp: moments_past_def\<close>)
    moreover have "moments q \<subseteq> moments p" by (auto simp: moments_def process(3) split: if_splits)
    ultimately show ?thesis by (auto simp: moments_past_def process(3))
  qed (use past in \<open>auto simp: moments_past_def moments_def split: if_splits\<close>)
next
  case call
  with past show ?thesis by (simp add: moments_past_def moments_def)
next
  case (finish i c cs r)
  from finish(3) show ?thesis
    by (cases rule: finish_step_cases) (use past finish in \<open>auto simp: moments_past_def moments_def split: if_splits\<close>)
qed

lemma process_reachable_past: "process_reachable resolve p \<Longrightarrow> moments_past p"
proof (induction rule: process_reachable.induct)
  case (init clk tz prt far)
  show ?case by (simp add: moments_past_def moments_def start_process_def)
qed (rule moments_past_step)

section \<open>The events are refined\<close>

text \<open>The collections whose timer the goroutine, or a call of \<open>Finish\<close>, has yet to set right.\<close>

definition unsettled :: "server_process \<Rightarrow> times_kind set" where
  "unsettled p = {k. tick (loops p k) \<noteq> None \<or> (\<exists>t. loop_at (loops p k) = Received t) \<or> finishing p \<noteq> []}"

lemma twin_mono: "twin A C s t \<Longrightarrow> A \<subseteq> B \<Longrightarrow> twin B C s t"
  by (auto simp: twin_def twin_rt_def)

lemma twin_stopped:
  "twin A C s t \<Longrightarrow> twin (insert k A) C (s\<lparr>rc := set_times k ((times_of k (rc s))\<lparr>timer := None\<rparr>) (rc s)\<rparr>) t"
  by (auto simp: twin_def twin_rt_def)

lemma step_refines:
  assumes past: "moments_past p" and sim: "twin (unsettled p) UNIV (srv p) s" and step: "process_step resolve p q"
  shows "\<exists>t. (t = s \<or> step resolve s t) \<and> twin (unsettled q) UNIV (srv q) t"
  using step
proof (cases rule: process_step_cases)
  case (event e)
  then obtain u where u: "run_event resolve e (srv p) = Returns ((), u)" "q = p\<lparr>srv := u\<rparr>"
    by (auto simp: on_srv_Returns)
  from alikeD [OF blind_run [OF event(1)] sim u(1)]
  obtain v where "run_event resolve e s = Returns ((), v)" "twin (unsettled p) UNIV u v" by blast
  moreover have "enabled e s" using event(1) by (cases e) (simp_all add: is_fire_def)
  ultimately show ?thesis by (auto simp: u(2) unsettled_def intro: step.event)
next
  case (timer k t)
  then have "unsettled q = insert k (unsettled p)"
    by (auto simp: timer_fires_Returns unsettled_def split: option.splits)
  with twin_stopped [OF sim, of k] timer(3) show ?thesis by (auto simp: timer_fires_Returns)
next
  case (loop k b)
  then show ?thesis
  proof (cases rule: loop_step_cases)
    case (process t u)
    then have k: "k \<in> unsettled p" and t: "\<And>n. t \<le> clock s n"
      using past sim by (auto simp: unsettled_def moments_past_def moments_def twin_def)
    from process_fires [OF sim k process(2)]
    obtain v where v: "fire k t s = Returns ((), v)" "twin (unsettled p - {k}) UNIV u v" by blast
    then have "step resolve s v" using step.event [of "EFire k t" s resolve v] t by simp
    moreover have "unsettled p - {k} \<subseteq> unsettled q" by (auto simp: unsettled_def process(3))
    ultimately show ?thesis using twin_mono [OF v(2)] by (auto simp: process(3))
  next
    case (receive t)
    then have "unsettled p \<subseteq> unsettled q" by (auto simp: unsettled_def)
    with twin_mono [OF sim] receive(3) show ?thesis by auto
  next
    case stop
    then have "unsettled p \<subseteq> unsettled q" by (auto simp: unsettled_def)
    with twin_mono [OF sim] stop(3) show ?thesis by auto
  qed
next
  case call
  then have "unsettled p \<subseteq> unsettled q" by (auto simp: unsettled_def)
  with twin_mono [OF sim] call show ?thesis by auto
next
  case (finish i c cs r)
  then have all: "unsettled q = UNIV" "unsettled p = UNIV"
    by (auto simp: unsettled_def elim: finish_step_cases)
  from finish(3) show ?thesis
    by (cases rule: finish_step_cases) (use sim twin_stopped [OF sim] all finish(1,4) in auto)
qed

lemma process_simulated:
  "process_reachable resolve p \<Longrightarrow> \<exists>s. reachable resolve s \<and> twin (unsettled p) UNIV (srv p) s"
proof (induction rule: process_reachable.induct)
  case (init clk tz prt far)
  have "twin A UNIV (start_server clk tz prt far) (start_server clk tz prt far)" for A by (rule twin_refl) simp
  then show ?case by (auto simp: start_process_def intro: reachable.init)
next
  case (more p q)
  then obtain s where "reachable resolve s" "twin (unsettled p) UNIV (srv p) s" by blast
  with step_refines [OF process_reachable_past [OF more.hyps(1)] _ more.hyps(2)] show ?case
    by (blast intro: reachable.more)
qed

section \<open>Processing neither panics nor exhausts its bounds\<close>

lemma process_safe:
  assumes s: "reachable resolve s" and sim: "twin A UNIV (srv p) s" and k: "k \<in> A" and t: "\<And>n. t \<le> clock (srv p) n"
  shows "process k t (srv p) = Blocks \<or> (\<exists>u. process k t (srv p) = Returns ((), u))"
proof -
  let ?s = "s\<lparr>rc := set_times k ((times_of k (rc s))\<lparr>timer := None\<rparr>) (rc s)\<rparr>"
  have "safe (fire k t) (\<lambda>_. ok) s"
    by (rule fire_ok [OF reachable_ok [OF s]]) (use sim t in \<open>simp add: twin_def\<close>)
  then have "process k t ?s = Blocks \<or> (\<exists>u. process k t ?s = Returns ((), u))"
    by (auto simp: safe_iff fire_def thn_def bnd_def on_rt_def zoom_def rt_stop_def modify_def)
  moreover have "twin A UNIV (srv p) ?s"
    using sim k by (auto simp: twin_def twin_rt_def)
  then have "rel_outcome (rel_prod (=) (twin (A - {k}) UNIV)) (process k t (srv p)) (process k t ?s)"
    using process_agrees [OF k, of UNIV t] by (simp add: alike_def)
  ultimately show ?thesis
    by (cases "process k t (srv p)") auto
qed

lemma loop_step_safe:
  assumes "process_reachable resolve p"
  shows "loop_step k b p = Blocks \<or> (\<exists>q. loop_step k b p = Returns ((), q))"
proof (cases "loop_at (loops p k)")
  case (Received t)
  obtain s where s: "reachable resolve s" "twin (unsettled p) UNIV (srv p) s"
    using process_simulated [OF assms] by blast
  have "process k t (srv p) = Blocks \<or> (\<exists>u. process k t (srv p) = Returns ((), u))"
    by (rule process_safe [OF s]) (use Received process_reachable_past [OF assms] in
      \<open>auto simp: unsettled_def moments_past_def moments_def\<close>)
  with Received show ?thesis
    by (auto simp: loop_step_def bnd_def gets_def thn_def on_srv_def zoom_def upd_loop_def modify_def)
qed (auto simp: loop_step_def bnd_def gets_def block_def upd_loop_def modify_def split: option.split)

section \<open>How far a call of Finish is\<close>

text \<open>What a call has behind it: the channels it closed and the goroutines it waited for.\<close>

definition call_ok :: "(times_kind \<Rightarrow> timer_loop) \<Rightarrow> finish_call list \<Rightarrow> bool" where
  "call_ok ls f \<longleftrightarrow> (\<exists>n. f = drop n reqs_Finish)
     \<and> (\<forall>k. (CloseStop k \<notin> set f \<longrightarrow> stop_closed (ls k)) \<and> (WaitDone k \<notin> set f \<longrightarrow> loop_at (ls k) = Returned))"

definition calls_ok :: "server_process \<Rightarrow> bool" where
  "calls_ok p \<longleftrightarrow> (\<forall>f \<in> set (finishing p). call_ok (loops p) f)
     \<and> (\<forall>k. (loop_at (loops p k) = Returned \<longrightarrow> stop_closed (loops p k))
          \<and> (stop_closed (loops p k) \<longrightarrow> (\<exists>f \<in> set (finishing p). CloseStop k \<notin> set f)))"

lemma update_Ball: "\<forall>x \<in> set xs. P x \<Longrightarrow> P y \<Longrightarrow> \<forall>x \<in> set (xs[i := y]). P x"
  using set_update_subset_insert [of xs i y] by blast

lemma update_Bex: "\<exists>x \<in> set xs. P x \<Longrightarrow> i < length xs \<Longrightarrow> (P (xs ! i) \<Longrightarrow> P y) \<Longrightarrow> \<exists>x \<in> set (xs[i := y]). P x"
  by (metis in_set_conv_nth length_list_update nth_list_update_eq nth_list_update_neq)

lemma drop_tail: "c # cs = drop n xs \<Longrightarrow> cs = drop (Suc n) xs"
  by (metis drop_Suc list.sel(3) tl_drop)

lemma rest_of_Finish:
  assumes "c # cs = drop n reqs_Finish"
  shows "c \<notin> set cs" and "c = WaitDone k \<Longrightarrow> CloseStop k \<notin> set cs"
proof -
  have "drop n reqs_Finish \<noteq> []" using assms by (metis list.distinct(1))
  then have "n < 9" by (simp add: reqs_Finish_def rt_finish_def)
  then consider "n = 0" | "n = 1" | "n = 2" | "n = 3" | "n = 4" | "n = 5" | "n = 6" | "n = 7" | "n = 8" by linarith
  then have "c \<notin> set cs \<and> (c = WaitDone k \<longrightarrow> CloseStop k \<notin> set cs)"
    by cases (use assms in \<open>simp_all add: reqs_Finish_def rt_finish_def\<close>)
  then show "c \<notin> set cs" and "c = WaitDone k \<Longrightarrow> CloseStop k \<notin> set cs" by simp_all
qed

lemma call_ok_mono:
  assumes "call_ok ls f" and "\<And>k. stop_closed (ls k) \<Longrightarrow> stop_closed (ls' k)"
    and "\<And>k. loop_at (ls k) = Returned \<Longrightarrow> loop_at (ls' k) = Returned"
  shows "call_ok ls' f"
  using assms by (auto simp: call_ok_def)

lemma calls_ok_loops:
  assumes ok: "calls_ok p" and same: "\<And>j. stop_closed (ls j) = stop_closed (loops p j)"
    and gone: "\<And>j. loop_at (loops p j) = Returned \<Longrightarrow> loop_at (ls j) = Returned"
    and stopped: "\<And>j. loop_at (ls j) = Returned \<Longrightarrow> stop_closed (ls j)"
  shows "calls_ok (p\<lparr>srv := s, loops := ls\<rparr>)"
  using ok call_ok_mono [of "loops p" _ ls] same gone stopped by (auto simp: calls_ok_def)

lemma calls_ok_finish:
  assumes ok: "calls_ok p" and i: "i < length (finishing p)" "finishing p ! i = c # cs" and step: "finish_step c p = Returns ((), r)"
  shows "calls_ok (r\<lparr>finishing := (finishing r)[i := cs]\<rparr>)"
proof -
  have "call_ok (loops p) (c # cs)" using ok i nth_mem [OF i(1)] by (simp add: calls_ok_def)
  then obtain n where n: "c # cs = drop n reqs_Finish"
    and f: "\<And>k. CloseStop k \<notin> set (c # cs) \<Longrightarrow> stop_closed (loops p k)"
      "\<And>k. WaitDone k \<notin> set (c # cs) \<Longrightarrow> loop_at (loops p k) = Returned"
    unfolding call_ok_def by blast
  have loops: "stop_closed (loops r k) \<longleftrightarrow> stop_closed (loops p k) \<or> c = CloseStop k"
      "loop_at (loops r k) = loop_at (loops p k)" "finishing r = finishing p" for k
    using step by (auto elim!: finish_step_cases split: if_splits)
  have wait: "loop_at (loops p k) = Returned" if "c = WaitDone k" for k
    using finish_step_cases [OF step] that by blast
  have "stop_closed (loops r k)" if "CloseStop k \<notin> set cs" for k
    using that f(1) [of k] loops(1) [of k] by auto
  moreover have "loop_at (loops r k) = Returned" if "WaitDone k \<notin> set cs" for k
    using that f(2) [of k] wait [of k] loops(2) [of k] by auto
  ultimately have "call_ok (loops r) cs"
    using drop_tail [OF n] unfolding call_ok_def by blast
  moreover have "\<forall>f \<in> set (finishing p). call_ok (loops r) f"
    using ok call_ok_mono [of "loops p" _ "loops r"] loops by (auto simp: calls_ok_def)
  ultimately have calls: "\<forall>f \<in> set ((finishing p)[i := cs]). call_ok (loops r) f" by (intro update_Ball)
  have "\<exists>f \<in> set ((finishing p)[i := cs]). CloseStop k \<notin> set f" if "stop_closed (loops r k)" for k
  proof (cases "c = CloseStop k")
    case True
    with rest_of_Finish(1) [OF n] set_update_memI [OF i(1)] show ?thesis by blast
  next
    case False
    with that loops ok have "\<exists>f \<in> set (finishing p). CloseStop k \<notin> set f" by (auto simp: calls_ok_def)
    then show ?thesis by (rule update_Bex [OF _ i(1)]) (use i(2) in simp)
  qed
  with calls ok loops show ?thesis by (auto simp: calls_ok_def)
qed

lemma calls_ok_step:
  assumes ok: "calls_ok p" and step: "process_step resolve p q"
  shows "calls_ok q"
  using step
proof (cases rule: process_step_cases)
  case (event e)
  then obtain s where "q = p\<lparr>srv := s\<rparr>" by (auto simp: on_srv_Returns)
  with ok show ?thesis by (simp add: calls_ok_def)
next
  case (timer k t)
  then show ?thesis
    by (auto simp: timer_fires_Returns intro!: calls_ok_loops [OF ok]) (use ok in \<open>auto simp: calls_ok_def split: if_splits\<close>)
next
  case (loop k b)
  then show ?thesis
  proof (cases rule: loop_step_cases)
    case (receive t)
    have "calls_ok (p\<lparr>srv := srv p, loops := (loops p)(k := (loops p k)\<lparr>tick := None, loop_at := Received t\<rparr>)\<rparr>)"
      by (rule calls_ok_loops [OF ok]) (use ok receive in \<open>auto simp: calls_ok_def split: if_splits\<close>)
    with receive(3) show ?thesis by simp
  next
    case stop
    have "calls_ok (p\<lparr>srv := srv p, loops := (loops p)(k := (loops p k)\<lparr>loop_at := Returned\<rparr>)\<rparr>)"
      by (rule calls_ok_loops [OF ok]) (use ok stop in \<open>auto simp: calls_ok_def split: if_splits\<close>)
    with stop(3) show ?thesis by simp
  next
    case (process t s)
    show ?thesis unfolding process(3)
      by (rule calls_ok_loops [OF ok]) (use ok process in \<open>auto simp: calls_ok_def split: if_splits\<close>)
  qed
next
  case call
  have "CloseStop k \<in> set reqs_Finish \<and> WaitDone k \<in> set reqs_Finish" for k
    by (cases k) (simp_all add: reqs_Finish_def rt_finish_def)
  then have "call_ok ls reqs_Finish" for ls
    by (auto simp: call_ok_def intro: exI [of _ 0])
  with call ok show ?thesis by (auto simp: calls_ok_def)
next
  case (finish i c cs r)
  from calls_ok_finish [OF ok finish(1,2,3)] finish(4) show ?thesis by simp
qed

lemma process_reachable_calls: "process_reachable resolve p \<Longrightarrow> calls_ok p"
proof (induction rule: process_reachable.induct)
  case (init clk tz prt far)
  show ?case by (simp add: calls_ok_def start_process_def)
qed (rule calls_ok_step)

section \<open>Examples\<close>

lemma run_events_process:
  assumes "process_reachable resolve p" and "\<forall>e \<in> set es. \<not> is_fire e" and "run_events resolve es (srv p) = Some s"
  shows "process_reachable resolve (p\<lparr>srv := s\<rparr>)"
  using assms
proof (induction es arbitrary: p)
  case Nil
  then have "p\<lparr>srv := s\<rparr> = p" by (cases p) simp
  with Nil(1) show ?case by (simp only:)
next
  case (Cons e es)
  then obtain u where "run_event resolve e (srv p) = Returns ((), u)" "run_events resolve es u = Some s"
    by (auto split: if_splits outcome.splits)
  then have "process_step resolve p (p\<lparr>srv := u\<rparr>)" and u: "run_events resolve es (srv (p\<lparr>srv := u\<rparr>)) = Some s"
    using Cons.prems(2) by (auto intro: process_step.event simp: on_srv_Returns)
  then have "process_reachable resolve (p\<lparr>srv := u\<rparr>)" by (blast intro: process_reachable.more Cons.prems(1))
  from Cons.IH [OF this _ u] Cons.prems(2) show ?case by simp
qed

text \<open>A request waits, and the timers of two collections are set.\<close>

definition waiting_process :: server_process where
  "waiting_process = \<lparr>srv = waiting_server, loops = (\<lambda>_. \<lparr>tick = None, stop_closed = False, loop_at = Selecting\<rparr>), finishing = []\<rparr>"

lemma waiting_process_reachable: "process_reachable demo_resolve waiting_process"
proof -
  let ?p = "start_process (\<lambda>n. 100 + int n) 0 (\<lambda>n. Some (int n)) 1000000"
  have "process_reachable demo_resolve (?p\<lparr>srv := prepared\<rparr>)"
    by (rule run_events_process [OF process_reachable.init, where es = "ERegister demo_caps ''d'' ''s'' # ESetState ''w'' ''IDLE''
        # replicate 15 (EBackground None 7 0)"])
       (use run_prepared in \<open>simp_all add: is_fire_def start_process_def started_def del: run_events.simps run_event.simps\<close>)
  then have "process_reachable demo_resolve (?p\<lparr>srv := prepared, srv := waiting_server\<rparr>)"
    by (rule run_events_process [where es = "[ENewRequest demo_caps 3 \<lparr>uGroups = []\<rparr> 101 5000]"])
       (simp_all add: is_fire_def run_waiting [simplified])
  then show ?thesis by (simp add: start_process_def waiting_process_def)
qed

text \<open>A goroutine at its \<open>select\<close> is stopped in four steps.\<close>

lemma finish_alone:
  assumes "process_reachable resolve p" and "finishing p = [c # cs]" and "finish_step c p = Returns ((), q)"
  shows "process_reachable resolve (q\<lparr>finishing := [cs]\<rparr>)"
proof -
  have "finishing q = finishing p" using assms(3) by (auto elim: finish_step_cases)
  then have "process_step resolve p (q\<lparr>finishing := [cs]\<rparr>)"
    using process_step.finish [of 0 p c cs q resolve] assms(2,3) by simp
  with assms(1) show ?thesis by (rule process_reachable.more)
qed

lemma finish_one:
  assumes p: "process_reachable resolve p" and f: "finishing p = [rt_finish k @ cs]"
    and k: "loop_at (loops p k) = Selecting" "\<not> stop_closed (loops p k)"
  shows "\<exists>q. process_reachable resolve q \<and> finishing q = [cs] \<and> (\<forall>j. j \<noteq> k \<longrightarrow> loops q j = loops p j)"
proof -
  obtain q where q: "process_reachable resolve q" "finishing q = [CloseStop k # WaitDone k # cs]" "loops q = loops p"
    using finish_alone [OF p, of "StopTimer k" "CloseStop k # WaitDone k # cs"] f
    by (auto simp: rt_finish_def on_srv_Returns on_rt_Returns rt_stop_def modify_def)
  define ls where "ls = (loops q)(k := (loops q k)\<lparr>stop_closed := True\<rparr>)"
  have closed: "process_reachable resolve (q\<lparr>loops := ls, finishing := [WaitDone k # cs]\<rparr>)"
    using finish_alone [OF q(1,2), of "q\<lparr>loops := ls\<rparr>"] k q(3)
    by (simp add: ls_def bnd_def gets_def upd_loop_def modify_def)
  define gone where "gone = ls(k := (ls k)\<lparr>loop_at := Returned\<rparr>)"
  have "loop_step k False (q\<lparr>loops := ls, finishing := [WaitDone k # cs]\<rparr>)
      = Returns ((), q\<lparr>loops := gone, finishing := [WaitDone k # cs]\<rparr>)"
    using k q(3) by (simp add: ls_def gone_def loop_step_def bnd_def gets_def upd_loop_def modify_def)
  then have r: "process_reachable resolve (q\<lparr>loops := gone, finishing := [WaitDone k # cs]\<rparr>)"
    by (rule process_reachable.more [OF closed process_step.loop])
  have "process_reachable resolve (q\<lparr>loops := gone, finishing := [cs]\<rparr>)"
    using finish_alone [OF r, of "WaitDone k" cs] by (simp add: gone_def bnd_Returns gets_def ret_def)
  moreover have "loops (q\<lparr>loops := gone, finishing := [cs]\<rparr>) j = loops p j" if "j \<noteq> k" for j
    using that q(3) by (simp add: gone_def ls_def)
  ultimately show ?thesis by (intro exI [of _ "q\<lparr>loops := gone, finishing := [cs]\<rparr>"]) simp
qed

lemma finished_process:
  assumes p: "process_reachable resolve p" "finishing p = []"
    and k: "\<And>k. loop_at (loops p k) = Selecting" "\<And>k. \<not> stop_closed (loops p k)"
  shows "\<exists>q. process_reachable resolve q \<and> finishing q = [[]]"
proof -
  let ?p = "p\<lparr>finishing := [reqs_Finish]\<rparr>"
  have "process_step resolve p ?p" using process_step.call [of resolve p] p(2) by simp
  with p(1) have "process_reachable resolve ?p" by (rule process_reachable.more)
  from finish_one [OF this, of ValidAfterTimes] k obtain q where
    q: "process_reachable resolve q" "finishing q = [rt_finish DeadlineTimes @ rt_finish TimeoutTimes]"
      "\<And>j. j \<noteq> ValidAfterTimes \<Longrightarrow> loops q j = loops p j"
    by (auto simp: reqs_Finish_def)
  from finish_one [OF q(1,2)] k q(3) obtain r where
    r: "process_reachable resolve r" "finishing r = [rt_finish TimeoutTimes]"
      "\<And>j. j \<noteq> DeadlineTimes \<Longrightarrow> loops r j = loops q j"
    by auto
  from finish_one [OF r(1), of TimeoutTimes "[]"] r(2,3) q(3) k show ?thesis by auto
qed

section \<open>Properties\<close>

text \<open>
  C10. The goroutines of the collections do nothing the events do not.  However the timers,
  the three goroutines, the operations of the server and calls of \<open>Finish\<close> interleave, the
  data of the server is, apart from what the timers are set for, that of a state the events
  alone can reach; so what holds of the data in every reachable state holds in the process.
  A step of a goroutine never panics.
\<close>

theorem goroutines_refine_events:
  assumes "process_reachable resolve p"
  shows "(\<exists>s. reachable resolve s \<and> twin UNIV UNIV (srv p) s)
    \<and> (loop_step k take_tick p = Blocks \<or> (\<exists>q. loop_step k take_tick p = Returns ((), q)))"
proof -
  obtain s where "reachable resolve s" "twin (unsettled p) UNIV (srv p) s"
    using process_simulated [OF assms] by blast
  then show ?thesis
    using twin_mono [of "unsettled p" UNIV "srv p" s UNIV] loop_step_safe [OF assms] by blast
qed

lemma goroutines_refine_events_witness:
  "\<exists>s. reachable demo_resolve s \<and> twin UNIV UNIV waiting_server s"
  using goroutines_refine_events [OF waiting_process_reachable] by (simp add: waiting_process_def)

text \<open>
  C11. No wake-up is lost.  As long as \<open>Finish\<close> has not been called, the goroutine of each
  collection runs, and each of its points in time is going to be looked at: a moment is in
  the timer's channel or has just been received, or the timer is set for no later.
\<close>

theorem no_wakeup_lost:
  assumes "process_reachable resolve p" and "finishing p = []"
  shows "loop_at (loops p k) \<noteq> Returned
    \<and> (\<forall>x \<in> set (times (times_of k (rc (srv p)))). tick (loops p k) \<noteq> None \<or> (\<exists>t. loop_at (loops p k) = Received t)
         \<or> (\<exists>f. timer (times_of k (rc (srv p))) = Some f \<and> f \<le> rt_time x))"
proof (intro conjI ballI)
  show "loop_at (loops p k) \<noteq> Returned"
    using process_reachable_calls [OF assms(1)] assms(2) by (auto simp: calls_ok_def)
next
  fix x assume x: "x \<in> set (times (times_of k (rc (srv p))))"
  obtain s where s: "reachable resolve s" "twin (unsettled p) UNIV (srv p) s"
    using process_simulated [OF assms(1)] by blast
  have "twin_rt (k \<in> unsettled p) (times_of k (rc (srv p))) (times_of k (rc s))"
    using s(2) unfolding twin_def by blast
  moreover have "rt_armed (times_of k (rc s))"
    using reachable_parts(3) [OF s(1)] by (simp add: times_ok_def)
  ultimately have "k \<in> unsettled p \<or> (\<exists>f. timer (times_of k (rc (srv p))) = Some f \<and> f \<le> rt_time x)"
    using x by (auto simp: twin_rt_def rt_armed_def)
  with assms(2) show "tick (loops p k) \<noteq> None \<or> (\<exists>t. loop_at (loops p k) = Received t)
      \<or> (\<exists>f. timer (times_of k (rc (srv p))) = Some f \<and> f \<le> rt_time x)"
    by (auto simp: unsettled_def)
qed

lemma no_wakeup_lost_witness: "\<exists>f. timer (deadlineTimes (rc waiting_server)) = Some f \<and> f \<le> 5000"
  using no_wakeup_lost [OF waiting_process_reachable, of DeadlineTimes] by (simp add: waiting_process_def waiting_server_def)

text \<open>
  C12. \<open>Finish\<close> ends the goroutines.  While one call is under way it goes on, or waits for a
  goroutine whose channel \<open>stop\<close> is closed: at its \<open>select\<close> this goroutine can return, and
  then the call goes on; otherwise it is processing, which blocks or brings it back to the
  \<open>select\<close>.  When a call has returned, all three goroutines have, no collection is processed
  any more, and another call panics.
\<close>

theorem Finish_ends_goroutines:
  assumes "process_reachable resolve p"
  shows "(finishing p = [c # cs] \<longrightarrow> (\<exists>q. finish_step c p = Returns ((), q))
       \<or> (\<exists>k. c = WaitDone k \<and> stop_closed (loops p k)
            \<and> (loop_at (loops p k) = Selecting
                 \<and> (\<exists>q. loop_step k False p = Returns ((), q) \<and> finish_step c q = Returns ((), q))
               \<or> (\<exists>t. loop_at (loops p k) = Received t
                 \<and> (process k t (srv p) = Blocks
                    \<or> (\<exists>q. loop_step k take_tick p = Returns ((), q) \<and> loop_at (loops q k) = Selecting))))))
    \<and> ([] \<in> set (finishing p) \<longrightarrow> loop_at (loops p k) = Returned \<and> loop_step k take_tick p = Blocks
       \<and> finish_step (CloseStop k) p = Panics ''close of closed channel'')"
proof (intro conjI impI)
  note ok = process_reachable_calls [OF assms]
  assume f: "finishing p = [c # cs]"
  with ok have call: "call_ok (loops p) (c # cs)" and only: "\<And>k. stop_closed (loops p k) \<Longrightarrow> CloseStop k \<notin> set (c # cs)"
    by (auto simp: calls_ok_def)
  then obtain n where n: "c # cs = drop n reqs_Finish" unfolding call_ok_def by blast
  show "(\<exists>q. finish_step c p = Returns ((), q))
       \<or> (\<exists>k. c = WaitDone k \<and> stop_closed (loops p k)
            \<and> (loop_at (loops p k) = Selecting
                 \<and> (\<exists>q. loop_step k False p = Returns ((), q) \<and> finish_step c q = Returns ((), q))
               \<or> (\<exists>t. loop_at (loops p k) = Received t
                 \<and> (process k t (srv p) = Blocks
                    \<or> (\<exists>q. loop_step k take_tick p = Returns ((), q) \<and> loop_at (loops q k) = Selecting)))))"
  proof (cases c)
    case (WaitDone k)
    then have stop: "stop_closed (loops p k)"
      using call rest_of_Finish(2) [OF n, of k] unfolding call_ok_def by simp
    show ?thesis
    proof (cases "loop_at (loops p k)")
      case Selecting
      with stop WaitDone show ?thesis
        by (auto simp: loop_step_def bnd_def gets_def upd_loop_def modify_def ret_def)
    next
      case (Received t)
      with loop_step_safe [OF assms, of k take_tick] stop WaitDone show ?thesis
        by (auto simp: loop_step_def bnd_def gets_def thn_def on_srv_def zoom_def upd_loop_def modify_def split: outcome.splits)
    next
      case Returned
      with WaitDone show ?thesis by (simp add: bnd_def gets_def ret_def)
    qed
  qed (use only in \<open>auto simp: bnd_def gets_def upd_loop_def modify_def on_srv_def on_rt_def zoom_def rt_stop_def\<close>)
next
  assume "[] \<in> set (finishing p)"
  then have "call_ok (loops p) []" using process_reachable_calls [OF assms] by (simp add: calls_ok_def)
  then have "loop_at (loops p k) = Returned" "stop_closed (loops p k)" by (simp_all add: call_ok_def)
  then show "loop_at (loops p k) = Returned" "loop_step k take_tick p = Blocks"
      "finish_step (CloseStop k) p = Panics ''close of closed channel''"
    by (simp_all add: loop_step_def bnd_def gets_def block_def panic_def)
qed

lemma Finish_ends_goroutines_witness:
  "\<exists>p. process_reachable demo_resolve p \<and> finishing p = [[]] \<and> (\<forall>k. loop_at (loops p k) = Returned)"
proof -
  obtain p where "process_reachable demo_resolve p" "finishing p = [[]]"
    using finished_process [OF waiting_process_reachable] by (auto simp: waiting_process_def)
  with Finish_ends_goroutines [OF this(1)] show ?thesis by auto
qed

end
