(* ===== verification/Connections.thy ===== *)
theory Connections
  imports Startup
begin

text \<open>
  How the connections between the server and the devices come and go: dialling and closing
  of the clients (\<open>rpc/dryad/tcpdial.go\<close>, \<open>rpc/dryad/dryad.go\<close>, \<open>rpc/superviser/superviser.go\<close>),
  and the loop of the reception that accepts connections (\<open>rpc/superviser/reception.go\<close>).
  What the network answers to a dial, a close or an accept is a parameter.
\<close>

section \<open>Clients\<close>

text \<open>
  Both clients hold a pointer to the client of \<open>net/rpc\<close>, which is nil in a new one and
  after a dial that failed; using it then is a dereference of nil.
\<close>

record 'c rpc_client =
  pointer :: "'c option"

definition newDryadClient :: "'c rpc_client" where
  "newDryadClient = \<lparr>pointer = None\<rparr>"

definition NewDryadClient :: "'c \<Rightarrow> 'c rpc_client" where
  "NewDryadClient c = \<lparr>pointer = Some c\<rparr>"

definition NewSuperviserClient :: "'c \<Rightarrow> 'c rpc_client" where
  "NewSuperviserClient c = \<lparr>pointer = Some c\<rparr>"

definition dialled :: "string + 'c \<Rightarrow> 'c rpc_client \<times> string option" where
  "dialled r = (case r of Inl err \<Rightarrow> (\<lparr>pointer = None\<rparr>, Some err) | Inr c \<Rightarrow> (\<lparr>pointer = Some c\<rparr>, None))"

definition DialDryadClient :: "(string \<Rightarrow> string + 'c) \<Rightarrow> string \<Rightarrow> 'c rpc_client \<times> string option" where
  "DialDryadClient dial addr = dialled (dial addr)"

definition DialSuperviserClient :: "(string \<Rightarrow> string + 'c) \<Rightarrow> string \<Rightarrow> 'c rpc_client \<times> string option" where
  "DialSuperviserClient dial addr = dialled (dial addr)"

definition DryadClient_Create :: "(TCPAddr \<Rightarrow> string + 'c) \<Rightarrow> TCPAddr \<Rightarrow> ('c rpc_client, string option) prog" where
  "DryadClient_Create dial addr = (case dial addr of
       Inl err \<Rightarrow> ret (Some err)
     | Inr c \<Rightarrow> thn (modify (\<lambda>cl. cl\<lparr>pointer := Some c\<rparr>)) (ret None))"

definition rpc_deref :: "('c \<Rightarrow> ('c rpc_client, 'a) prog) \<Rightarrow> ('c rpc_client, 'a) prog" where
  "rpc_deref f = bnd (gets pointer) (\<lambda>p. case p of None \<Rightarrow> panic ''nil pointer dereference'' | Some c \<Rightarrow> f c)"

definition DryadClient_Close :: "('c \<Rightarrow> string option) \<Rightarrow> ('c rpc_client, string option) prog" where
  "DryadClient_Close close = rpc_deref (\<lambda>c. ret (close c))"

definition SuperviserClient_Close :: "('c \<Rightarrow> string option) \<Rightarrow> ('c rpc_client, string option) prog" where
  "SuperviserClient_Close close = rpc_deref (\<lambda>c. ret (close c))"

text \<open>
  A client closes without a panic exactly when it has been created; this is why the list of
  workers defers \<open>Close\<close> only after it has looked at the error of \<open>Create\<close>.
\<close>

lemma close_after_create:
  "wp (DryadClient_Create dial addr) (\<lambda>err cl. err = None \<longleftrightarrow> wp (DryadClient_Close close) (\<lambda>_ _. True) cl) newDryadClient"
  by (auto simp: DryadClient_Create_def DryadClient_Close_def rpc_deref_def newDryadClient_def wp_simps split: sum.split)

section \<open>The reception\<close>

text \<open>
  A connection the listener hands out carries the IP of the caller.  \<open>served\<close> are the
  connections a goroutine serves, in the order they were accepted.
\<close>

datatype accepted = AcceptError | Accepted string

record 's superviserReception =
  sr_sv :: "'s Superviser"
  served :: "string list"

definition startSuperviserReception :: "(string \<Rightarrow> string option) \<Rightarrow> string \<Rightarrow> 's Superviser \<Rightarrow> string + 's superviserReception" where
  "startSuperviserReception listen addr sv = (case listen addr of
       Some err \<Rightarrow> Inl err
     | None \<Rightarrow> Inr \<lparr>sr_sv = sv, served = []\<rparr>)"

text \<open>One turn of the loop, which never ends: an error is skipped, a connection gets a goroutine.\<close>

definition accept_turn :: "accepted \<Rightarrow> 's superviserReception \<Rightarrow> 's superviserReception" where
  "accept_turn a sr = (case a of AcceptError \<Rightarrow> sr | Accepted ip \<Rightarrow> sr\<lparr>served := served sr @ [ip]\<rparr>)"

fun listenAndServe :: "accepted list \<Rightarrow> 's superviserReception \<Rightarrow> 's superviserReception" where
  "listenAndServe [] sr = sr"
| "listenAndServe (a # as) sr = listenAndServe as (accept_turn a sr)"

text \<open>What connection \<open>i\<close> is answered with.\<close>

definition answers_on :: "(string \<Rightarrow> string + TCPAddr) \<Rightarrow> 's superviserReception \<Rightarrow> nat \<Rightarrow> ('s, superviser_request) connection option" where
  "answers_on resolve sr i = (if i < length (served sr) then Some (sr_serve resolve (sr_sv sr) (served sr ! i)) else None)"

text \<open>
  Errors of \<open>Accept\<close> and other connections change nothing of what a connection is answered
  with: it is the service with the IP of its own caller, the one \<open>StartSuperviserReception\<close>
  gives for that IP.
\<close>

lemma served_listenAndServe:
  "served (listenAndServe as sr) = served sr @ concat (map (\<lambda>a. case a of AcceptError \<Rightarrow> [] | Accepted ip \<Rightarrow> [ip]) as)
   \<and> sr_sv (listenAndServe as sr) = sr_sv sr"
  by (induction as arbitrary: sr) (auto simp: accept_turn_def split: accepted.split)

lemma each_connection_its_service:
  assumes start: "startSuperviserReception listen addr sv = Inr sr"
    and i: "concat (map (\<lambda>a. case a of AcceptError \<Rightarrow> [] | Accepted ip \<Rightarrow> [ip]) as) = before @ ip # after"
  shows "\<exists>rpc. StartSuperviserReception listen addr resolve sv = Inr rpc
    \<and> answers_on resolve (listenAndServe as sr) (length before) = Some (rpc ip)"
  using start i served_listenAndServe [of as sr]
  by (auto simp: startSuperviserReception_def StartSuperviserReception_def answers_on_def split: option.splits)

end
