(* ===== verification/Discipline.thy ===== *)
theory Discipline
  imports Twins RequestList WorkerPages
begin

text \<open>
  The discipline of the mutexes: no call gets at the data a mutex guards before it has taken
  the mutex.  While some goroutine holds a mutex, every event either blocks or ends in the
  same way whatever the guarded data is, and leaves it alone.  This is what makes it
  faithful to take a critical section for one step.  It says nothing of what a call does
  after it has given the mutex back: \<open>NewRequest\<close> reads the times of the request it has just
  stored, and the listings match the element of the paginator, once more then, which an
  event that is one step does not tell apart.
\<close>

section \<open>What a mutex guards\<close>

definition same_data :: "lock_id \<Rightarrow> server \<Rightarrow> server \<Rightarrow> bool" where
  "same_data l s t \<longleftrightarrow>
     (l = ReqsMutex \<longrightarrow> requests (rc s) = requests (rc t) \<and> iterating (rc s) = iterating (rc t))
     \<and> (l = QueueMutex \<longrightarrow> rqueue (rc s) = rqueue (rc t))
     \<and> (\<forall>k. l = TimesMutex k \<longrightarrow> times_of k (rc s) = times_of k (rc t))
     \<and> (l = JobsMutex \<longrightarrow> jobs s = jobs t)
     \<and> (l = WorkersMutex \<longrightarrow> wl s = wl t)"

text \<open>Two states that agree in all that \<open>l\<close> does not guard.\<close>

definition same_rest :: "lock_id \<Rightarrow> server \<Rightarrow> server \<Rightarrow> bool" where
  "same_rest l s t \<longleftrightarrow> held s = held t \<and> clock s = clock t \<and> tz_offset s = tz_offset t
     \<and> ports s = ports t \<and> open_tunnels s = open_tunnels t \<and> next_tunnel s = next_tunnel t
     \<and> chans s = chans t \<and> next_chan s = next_chan t \<and> bgs s = bgs t
     \<and> (l \<noteq> ReqsMutex \<longrightarrow> requests (rc s) = requests (rc t) \<and> iterating (rc s) = iterating (rc t))
     \<and> (l \<noteq> QueueMutex \<longrightarrow> rqueue (rc s) = rqueue (rc t))
     \<and> (\<forall>k. l \<noteq> TimesMutex k \<longrightarrow> times_of k (rc s) = times_of k (rc t))
     \<and> (l \<noteq> JobsMutex \<longrightarrow> jobs s = jobs t)
     \<and> (l \<noteq> WorkersMutex \<longrightarrow> wl s = wl t)"

text \<open>
  Runs from \<open>s0\<close> and \<open>t0\<close>, side by side, while \<open>l\<close> is held elsewhere: both keep what \<open>l\<close>
  guards, and agree in the rest.
\<close>

definition beside :: "lock_id \<Rightarrow> server \<Rightarrow> server \<Rightarrow> server \<Rightarrow> server \<Rightarrow> bool" where
  "beside l s0 t0 s t \<longleftrightarrow> l \<in> held t \<and> same_rest l s t \<and> same_data l s0 s \<and> same_data l t0 t"

lemmas beside_simps = beside_def same_rest_def same_data_def

named_theorems beside_intros \<open>rules for programs that respect the mutexes\<close>

section \<open>Mutexes\<close>

text \<open>Taking the mutex that is held elsewhere never ends, so what comes after does not matter.\<close>

lemma lock_never: "alike (beside l s0 t0) (lock l) (\<lambda>_ _. False)"
  by (auto simp: alike_def beside_simps lock_def bnd_def gets_def block_def)

lemma never_alike: "alike (\<lambda>_ _. False) m Q"
  by (simp add: alike_def)

lemma beside_lock [beside_intros]: "blind (beside l s0 t0) (lock l')"
  unfolding lock_def by (intro blind_intros; simp add: beside_simps)

lemma beside_unlock [beside_intros]: "l \<noteq> l' \<Longrightarrow> blind (beside l s0 t0) (unlock l')"
  unfolding unlock_def by (intro blind_intros; simp add: beside_simps)

lemma beside_critical [beside_intros]:
  assumes "l \<noteq> l' \<Longrightarrow> blind (beside l s0 t0) m"
  shows "blind (beside l s0 t0) (critical l' m)"
proof (cases "l = l'")
  case True
  then show ?thesis unfolding critical_def by (intro alike_thn [OF lock_never never_alike] | simp)+
next
  case False
  with assms show ?thesis unfolding critical_def by (intro blind_intros beside_lock beside_unlock) simp_all
qed

lemma beside_primitive [beside_intros]:
  "l \<noteq> ReqsMutex \<Longrightarrow> blind (beside l s0 t0) get_requests"
  "l \<noteq> WorkersMutex \<Longrightarrow> blind (beside l s0 t0) get_workers"
  "l \<noteq> ReqsMutex \<Longrightarrow> blind (beside l s0 t0) (put_request i r)"
  "l \<noteq> ReqsMutex \<Longrightarrow> blind (beside l s0 t0) (upd_request i f)"
  "l \<noteq> WorkersMutex \<Longrightarrow> blind (beside l s0 t0) (upd_worker u g)"
  "blind (beside l s0 t0) (Tunnel_Create a)" "blind (beside l s0 t0) (Tunnel_Close tun)"
  "blind (beside l s0 t0) (chan_send c st)" "blind (beside l s0 t0) (chan_close c)"
  "blind (beside l s0 t0) (checkPendingOperation c)" "blind (beside l s0 t0) (goto c pc b)"
  "blind (beside l s0 t0) time_Now"
  unfolding put_request_def Tunnel_Create_def chan_close_def checkPendingOperation_def goto_def
    get_requests_def get_workers_def upd_request_def upd_worker_def Tunnel_Close_def chan_send_def time_Now_def
  by (intro blind_intros; simp add: beside_simps)+

lemma beside_on_queue [beside_intros]: "l \<noteq> QueueMutex \<Longrightarrow> blind (beside l s0 t0) (on_queue m)"
  unfolding on_queue_def by (rule alike_zoom [OF blind_eq]) (simp_all add: beside_simps)

lemma beside_on_rt [beside_intros]: "l \<noteq> TimesMutex k \<Longrightarrow> blind (beside l s0 t0) (on_rt k m)"
  unfolding on_rt_def by (rule alike_zoom [OF blind_eq]) (simp_all add: beside_simps)

lemma beside_reads [beside_intros]:
  "l \<noteq> JobsMutex \<Longrightarrow> blind (beside l s0 t0) (gets jobs)"
  "l \<noteq> JobsMutex \<Longrightarrow> blind (beside l s0 t0) (modify (\<lambda>s. s\<lparr>jobs := h (jobs s)\<rparr>))"
  "l \<noteq> WorkersMutex \<Longrightarrow> blind (beside l s0 t0) (gets (\<lambda>s. changeListener (wl s)))"
  "l \<noteq> ReqsMutex \<Longrightarrow> blind (beside l s0 t0) (gets (\<lambda>s. iterating (rc s)))"
  by (intro blind_intros; simp add: beside_simps)+

section \<open>The operations\<close>

lemma beside_events [beside_intros]:
  "blind (beside l s0 t0) (pushRequest r)" "blind (beside l s0 t0) (removeRequest r)"
  "blind (beside l s0 t0) (setRequestPriority r p)" "blind (beside l s0 t0) (times_insert k x)"
  "blind (beside l s0 t0) (jobs_Get u)" "blind (beside l s0 t0) (finish_job u)"
  unfolding pushRequest_def removeRequest_def setRequestPriority_def times_insert_def jobs_Get_def finish_job_def
  by (intro blind_intros beside_intros; simp add: beside_simps)+

lemma beside_listener [beside_intros]:
  "blind (beside l s0 t0) (OnWorkerIdle u)" "blind (beside l s0 t0) (OnWorkerFail u)"
  unfolding OnWorkerIdle_def OnWorkerFail_def by (intro blind_intros beside_intros; simp add: beside_simps)+

lemma beside_setState [beside_intros]: "l \<noteq> WorkersMutex \<Longrightarrow> blind (beside l s0 t0) (setState u st)"
  unfolding setState_def by (intro blind_intros beside_intros; simp add: beside_simps)

lemma beside_workers [beside_intros]:
  "blind (beside l s0 t0) (Register resolve caps dt sa)" "blind (beside l s0 t0) (SetFail u reason)"
  "blind (beside l s0 t0) (SetState u name)" "blind (beside l s0 t0) (SetGroups u gs)"
  "blind (beside l s0 t0) (Deregister u)" "blind (beside l s0 t0) (GetWorkerInfo u)"
  "blind (beside l s0 t0) (getWorkerAddr u)" "blind (beside l s0 t0) (GetWorkerSSHAddr u)"
  "blind (beside l s0 t0) (GetWorkerKey u)" "blind (beside l s0 t0) (setWorkerKey u k)"
  "blind (beside l s0 t0) (PrepareWorker u b)"
  unfolding Register_def SetFail_def SetState_def SetGroups_def Deregister_def GetWorkerInfo_def getWorkerAddr_def
    GetWorkerSSHAddr_def GetWorkerKey_def setWorkerKey_def PrepareWorker_def
  by (intro blind_intros beside_intros; simp add: beside_simps)+

lemma beside_jobs [beside_intros]:
  "blind (beside l s0 t0) (TakeBestMatchingWorker gs caps)" "blind (beside l s0 t0) (Create i u)"
  "blind (beside l s0 t0) (Finish u b)"
  unfolding TakeBestMatchingWorker_def Create_def Finish_def listWorkers_def
  by (intro blind_intros beside_intros; simp add: beside_simps)+

lemma beside_requests [beside_intros]:
  "blind (beside l s0 t0) (CloseRequest i)" "blind (beside l s0 t0) (Timeout i)" "blind (beside l s0 t0) (Close i)"
  "blind (beside l s0 t0) (ProlongAccess i)" "l \<noteq> ReqsMutex \<Longrightarrow> blind (beside l s0 t0) (set_timeout i)"
  "blind (beside l s0 t0) (AcquireWorker i)" "blind (beside l s0 t0) (GetRequestInfo i)"
  "blind (beside l s0 t0) (NewRequest caps p owner va dl)" "blind (beside l s0 t0) (UpdateRequest r)"
  unfolding CloseRequest_def closeRequest_def Timeout_def Close_def ProlongAccess_def set_timeout_def AcquireWorker_def
    GetRequestInfo_def Get_def NewRequest_def store_request_def deadline_in_past_def UpdateRequest_def updateRequest_def
    apply_update_def insert_if_def
  by (auto intro!: blind_intros beside_intros simp: beside_simps split: ReqState.split)

section \<open>The matchers\<close>

text \<open>
  The iteration over the queue holds the mutexes of the requests and of the queue from
  \<open>InitIteration\<close> to \<open>TerminateIteration\<close> or \<open>Run\<close>; when one of them is held elsewhere it does
  not begin.
\<close>

lemma InitIteration_elsewhere:
  assumes "l = ReqsMutex \<or> l = QueueMutex" and "l \<in> held s"
  shows "InitIteration s = Blocks \<or> (\<exists>t. InitIteration s = Returns (Some ErrInternalLogicError, t))"
  using assms
  by (auto simp: InitIteration_def initIterator_def lock_def unlock_def thn_def bnd_def gets_def modify_def block_def
      panic_def ret_def)

lemma beside_InitIteration [beside_intros]: "blind (beside l s0 t0) InitIteration"
proof -
  have "blind (beside l s0 t0) initIterator"
  proof (cases "l = QueueMutex")
    case True
    then show ?thesis unfolding initIterator_def by (intro alike_thn [OF lock_never never_alike] | simp)+
  qed (unfold initIterator_def, intro blind_intros beside_intros)
  then have "blind (beside l s0 t0) InitIteration" if "l \<noteq> ReqsMutex"
    unfolding InitIteration_def using that by (intro blind_intros beside_intros; simp add: beside_simps)
  moreover have "blind (beside ReqsMutex s0 t0) InitIteration"
    unfolding InitIteration_def by (rule alike_thn [OF lock_never never_alike])
  ultimately show ?thesis by blast
qed

lemma beside_iteration [beside_intros]:
  assumes "l \<noteq> ReqsMutex" and "l \<noteq> QueueMutex"
  shows "blind (beside l s0 t0) TerminateIteration" "blind (beside l s0 t0) Next"
    "blind (beside l s0 t0) (VerifyIfReady i now)" "blind (beside l s0 t0) (Get i)" "blind (beside l s0 t0) (Run i u)"
  using assms
  unfolding TerminateIteration_def end_iteration_def releaseIterator_def Next_def VerifyIfReady_def Get_def Run_def
  by (intro blind_intros beside_intros; simp add: beside_simps)+

lemma beside_visit:
  assumes "l \<noteq> ReqsMutex" and "l \<noteq> QueueMutex"
  shows "blind (beside l s0 t0) (visit RM WM JM now n)"
proof (induction n)
  case (Suc n)
  then show ?case
    unfolding visit.simps matchWorkers_def RM_methods
    unfolding WM_def JM_def WorkersManager.simps JobsManager.simps by (intro blind_intros beside_intros assms)
qed (simp add: blind_intros)

lemma beside_valid_notify:
  assumes "l \<noteq> ReqsMutex" and "l \<noteq> QueueMutex"
  shows "blind (beside l s0 t0) (valid_notify RM WM JM time_Now n turns)"
proof (induction turns)
  case (Suc turns)
  then show ?case
    unfolding valid_notify.simps iterateRequests_def RM_methods by (intro blind_intros beside_intros beside_visit assms)
qed (simp add: blind_intros)

text \<open>With one of its mutexes held elsewhere the matcher does not get to use its bounds.\<close>

lemma valid_notify_elsewhere:
  assumes "l = ReqsMutex \<or> l = QueueMutex" and "l \<in> held s"
  shows "valid_notify RM WM JM time_Now n (Suc turns) s
    = bnd InitIteration (\<lambda>_. panic ''Critical logic error. No iterations over requests collection should be running.'') s"
  using InitIteration_elsewhere [OF assms]
  by (auto simp: iterateRequests_def RM_methods bnd_def panic_def)

lemma beside_Notify: "blind (beside l s0 t0) (Notify mk past)"
proof (cases mk)
  case ValidMatcher
  show ?thesis
  proof (cases "l = ReqsMutex \<or> l = QueueMutex")
    case True
    have "Notify mk past s = bnd InitIteration (\<lambda>_. panic ''Critical logic error. No iterations over requests collection should be running.'') s"
      if "l \<in> held s" for s
      using valid_notify_elsewhere [OF True that] by (simp add: Notify_def ValidMatcher bnd_def gets_def)
    moreover have "blind (beside l s0 t0) (bnd InitIteration (\<lambda>_. panic ''Critical logic error. No iterations over requests collection should be running.'') :: unit op)"
      by (intro blind_intros beside_intros)
    moreover have "l \<in> held s \<and> l \<in> held t" if "beside l s0 t0 s t" for s t using that by (simp add: beside_simps)
    ultimately show ?thesis by (simp add: alike_def)
  next
    case False
    then show ?thesis
      unfolding ValidMatcher Notify_def matcher_kind.case
      by (intro blind_intros beside_valid_notify; simp add: beside_simps)
  qed
next
  case DeadlineMatcher
  then show ?thesis
    unfolding Notify_def deadline_notify_def RM_methods by (auto intro!: blind_intros beside_intros)
next
  case TimeoutMatcher
  then show ?thesis
    unfolding Notify_def timeout_notify_def RM_methods by (auto intro!: blind_intros beside_intros)
qed

lemma beside_process [beside_intros]: "blind (beside l s0 t0) (process k t)"
  unfolding process_def
  by (intro blind_intros beside_intros beside_Notify; simp add: beside_simps)

section \<open>The events\<close>

lemma beside_bg_step: "blind (beside l s0 t0) (bg_step answer key c)"
proof -
  have settle: "blind (beside l s0 t0) (settle c u target err)" for u target err
    unfolding settle_def by (intro blind_intros beside_intros)
  have "blind (beside l s0 t0) (bg_call c u answer key pc)" for u pc
    unfolding bg_call_def loop_head_def dispatch_def after_call_def receive_def
    by (cases pc) (auto intro!: blind_intros beside_intros settle simp: beside_simps split: WorkerState.split list.split)
  then show ?thesis
    unfolding bg_step_def by (intro blind_intros beside_intros; simp add: beside_simps)
qed

text \<open>Stopping a fired timer is the runtime's; what follows needs the mutex of the collection.\<close>

lemma fire_elsewhere: "TimesMutex k \<in> held s \<Longrightarrow> fire k t s = Blocks"
  by (simp add: fire_def process_def critical_def lock_def on_rt_def zoom_def rt_stop_def thn_def bnd_def gets_def
      modify_def block_def)

lemma beside_fire: "blind (beside l s0 t0) (fire k t)"
proof (cases "l = TimesMutex k")
  case True
  then show ?thesis by (auto simp: alike_def beside_simps fire_elsewhere)
next
  case False
  then show ?thesis unfolding fire_def by (intro blind_intros beside_intros)
qed

lemma beside_event: "blind (beside l s0 t0) (run_event resolve e)"
  by (cases e) (simp_all add: ignore_def blind_intros beside_intros beside_bg_step beside_fire)

lemma beside_lists:
  "blind (beside l s0 t0) (ListRequests f si rp)" "blind (beside l s0 t0) (ListWorkers f si page)"
  unfolding ListRequests_def ListWorkers_def matching_requests_def listWorkers_def
  by (intro blind_intros beside_intros; simp add: beside_simps)+

text \<open>
  C13. Guarded data is out of reach without its mutex.  While a mutex is held elsewhere,
  every event leaves the data it guards as it is, and does not look at it: from two states
  that differ only in this data the event returns in both, blocks in both, or panics in
  both, and the states it leaves differ only there.
\<close>

theorem guarded_data_needs_its_mutex:
  assumes "l \<in> held s" and "same_rest l s t"
  shows "rel_outcome (\<lambda>(_, u) (_, v). same_rest l u v \<and> same_data l u s \<and> same_data l v t)
    (run_event resolve e s) (run_event resolve e t)"
proof -
  have "beside l s t s t" using assms by (simp add: beside_simps)
  then have "rel_outcome (rel_prod (=) (beside l s t)) (run_event resolve e s) (run_event resolve e t)"
    using beside_event [of l s t resolve e] by (simp add: alike_def)
  then show ?thesis
    by (rule outcome.rel_mono_strong) (auto simp: beside_def same_data_def)
qed

lemma guarded_data_needs_its_mutex_witness:
  "rel_outcome (\<lambda>(_, u) (_, v). same_rest WorkersMutex u v \<and> workers (wl u) ''w'' = Some (demo_worker RUN) \<and> workers (wl v) ''w'' = None)
     (run_event demo_resolve (EUpdateRequest None) (running_server\<lparr>held := {WorkersMutex}\<rparr>))
     (run_event demo_resolve (EUpdateRequest None) (running_server\<lparr>held := {WorkersMutex}, wl := wl started\<rparr>))"
  by (rule outcome.rel_mono_strong, rule guarded_data_needs_its_mutex [of WorkersMutex])
     (auto simp: same_rest_def same_data_def running_server_def started_def start_server_def NewWorkerList_def SetChangeListener_def)

end
