(* ===== verification/Crossing.thy ===== *)
theory Crossing
  imports Guarantees RequestList WorkerPages
begin

text \<open>
  Two calls that take the mutexes of the requests and of the list of workers in different
  orders.  \<open>SetFail\<close> (\<open>workers/workers.go\<close>) tells the collection of requests of a broken job
  with the mutex of the list held; \<open>CloseRequest\<close> (\<open>requests/requests.go\<close>) returns the worker
  of a running request with the mutex of the requests held.  Both calls are cut where they
  go for the second mutex.
\<close>

section \<open>The calls in two parts\<close>

text \<open>
  What \<open>SetFail\<close> does up to the call of \<open>OnWorkerFail\<close>: its result, when it does not get that
  far, or the worker.
\<close>

definition SetFail_begin :: "WorkerUUID \<Rightarrow> (error option + mapWorker) op" where
  "SetFail_begin uuid = thn (lock WorkersMutex) (bnd get_workers (\<lambda>m. case m uuid of
       None \<Rightarrow> ret (Inl (Some ErrWorkerNotFound))
     | Some worker \<Rightarrow>
         if WState (info worker) = MAINTENANCE \<or> WState (info worker) = BUSY
         then ret (Inl (Some ErrInMaintenance))
         else thn (chan_send (backgroundOperation worker) FAIL) (ret (Inr worker))))"

definition SetFail_end :: "WorkerUUID \<Rightarrow> error option + mapWorker \<Rightarrow> error option op" where
  "SetFail_end uuid r = bnd (case r of
       Inl result \<Rightarrow> ret result
     | Inr worker \<Rightarrow>
         thn (bnd (gets (\<lambda>s. changeListener (wl s))) (\<lambda>listening.
                if listening \<and> WState (info worker) = RUN then OnWorkerFail uuid else ret ()))
        (thn (upd_worker uuid (\<lambda>w. w\<lparr>info := (info w)\<lparr>WState := FAIL\<rparr>\<rparr>)) (ret None)))
     (\<lambda>result. thn (unlock WorkersMutex) (ret result))"

text \<open>
  What \<open>CloseRequest\<close> does up to the call of \<open>PrepareWorker\<close>: its result, when it does not get
  that far, or the worker whose job is over.
\<close>

definition CloseRequest_begin :: "ReqID \<Rightarrow> (error option + WorkerUUID) op" where
  "CloseRequest_begin reqID = thn (lock ReqsMutex) (bnd get_requests (\<lambda>m. case m reqID of
       None \<Rightarrow> ret (Inl (Some (NotFoundError ''Request'')))
     | Some req \<Rightarrow>
        (case RState req of
           WAIT \<Rightarrow> thn (upd_request reqID (\<lambda>r. r\<lparr>RState := CANCEL\<rparr>)) (thn (removeRequest req) (ret (Inl None)))
         | INPROGRESS \<Rightarrow>
             thn (upd_request reqID (\<lambda>r. r\<lparr>RState := DONE\<rparr>))
            (bnd get_requests (\<lambda>m. case m reqID of
                None \<Rightarrow> ret (Inl None)
              | Some req \<Rightarrow> (case RJob req of
                    None \<Rightarrow> ret (Inl None)
                  | Some job \<Rightarrow> thn (finish_job (jWorkerUUID job)) (ret (Inr (jWorkerUUID job))))))
         | _ \<Rightarrow> ret (Inl (Some ErrModificationForbidden)))))"

definition CloseRequest_end :: "error option + WorkerUUID \<Rightarrow> error option op" where
  "CloseRequest_end r = bnd (case r of
       Inl result \<Rightarrow> ret result
     | Inr worker \<Rightarrow> thn (PrepareWorker worker True) (ret None))
     (\<lambda>result. thn (unlock ReqsMutex) (ret result))"

lemma bnd_branches:
  "bnd (if c then m else n) g = (if c then bnd m g else bnd n g)"
  "bnd (case x of None \<Rightarrow> m | Some a \<Rightarrow> f a) g = (case x of None \<Rightarrow> bnd m g | Some a \<Rightarrow> bnd (f a) g)"
  "bnd (case st of WAIT \<Rightarrow> m1 | INPROGRESS \<Rightarrow> m2 | CANCEL \<Rightarrow> m3 | TIMEOUT \<Rightarrow> m4 | INVALID \<Rightarrow> m5 | DONE \<Rightarrow> m6 | FAILED \<Rightarrow> m7) g
   = (case st of WAIT \<Rightarrow> bnd m1 g | INPROGRESS \<Rightarrow> bnd m2 g | CANCEL \<Rightarrow> bnd m3 g | TIMEOUT \<Rightarrow> bnd m4 g
        | INVALID \<Rightarrow> bnd m5 g | DONE \<Rightarrow> bnd m6 g | FAILED \<Rightarrow> bnd m7 g)"
  by (simp_all split: option.split ReqState.split)

lemma SetFail_parts: "SetFail uuid reason = bnd (SetFail_begin uuid) (SetFail_end uuid)"
proof -
  have "setState uuid FAIL s = (case workers (wl s) uuid of None \<Rightarrow> Returns (Some ErrWorkerNotFound, s)
      | Some worker \<Rightarrow> bnd (chan_send (backgroundOperation worker) FAIL) (\<lambda>_.
         thn (bnd (gets (\<lambda>s. changeListener (wl s))) (\<lambda>listening.
                if listening \<and> WState (info worker) = RUN then OnWorkerFail uuid else ret ()))
        (thn (upd_worker uuid (\<lambda>w. w\<lparr>info := (info w)\<lparr>WState := FAIL\<rparr>\<rparr>)) (ret None))) s)" for s
    by (auto simp: setState_def thn_def bnd_def ret_def get_workers_def gets_def split: option.split outcome.split)
  then show ?thesis
    by (auto simp: SetFail_def SetFail_begin_def SetFail_end_def critical_def thn_def bnd_def ret_def get_workers_def gets_def
        fun_eq_iff split: option.split outcome.split)
qed

lemma CloseRequest_parts: "CloseRequest i = bnd (CloseRequest_begin i) CloseRequest_end"
  unfolding CloseRequest_def CloseRequest_begin_def CloseRequest_end_def closeRequest_def Finish_def critical_def thn_def
    bnd_branches bnd_bnd bnd_ret sum.case if_True ..

section \<open>Calls that look at requests or workers\<close>

text \<open>
  Not every call does: some are refused for what they ask before the first mutex is taken, and
  an update that changes nothing returns at once.
\<close>

definition address_ok :: "(string \<Rightarrow> string + TCPAddr) \<Rightarrow> string \<Rightarrow> bool" where
  "address_ok resolve address \<longleftrightarrow> (case resolve address of Inl _ \<Rightarrow> False | Inr a \<Rightarrow> IP a \<noteq> None \<and> Port a \<noteq> 0)"

fun looks_at_data :: "(string \<Rightarrow> string + TCPAddr) \<Rightarrow> server \<Rightarrow> event \<Rightarrow> bool" where
  "looks_at_data resolve s (ENewRequest caps p owner va dl) \<longleftrightarrow>
     HiPrio \<le> p \<and> p \<le> LoPrio \<and> (IsZero dl \<or> clock s 0 \<le> dl \<and> va \<le> dl)"
| "looks_at_data resolve s (EUpdateRequest None) \<longleftrightarrow> False"
| "looks_at_data resolve s (EUpdateRequest (Some r)) \<longleftrightarrow> Prio r \<noteq> 0 \<or> \<not> IsZero (ValidAfter r) \<or> \<not> IsZero (Deadline r)"
| "looks_at_data resolve s (ERegister caps d sa) \<longleftrightarrow> caps ''UUID'' \<noteq> None \<and> address_ok resolve d \<and> address_ok resolve sa"
| "looks_at_data resolve s (ESetState u st) \<longleftrightarrow> st = WorkerState_text MAINTENANCE \<or> st = WorkerState_text IDLE"
| "looks_at_data resolve s e \<longleftrightarrow> True"

lemma critical_blocks: "l \<in> held s \<Longrightarrow> critical l m s = Blocks"
  by (simp add: critical_def lock_def bnd_def thn_def gets_def block_def)

lemma bnd_Blocks: "bnd m f s = Blocks \<longleftrightarrow> m s = Blocks \<or> (\<exists>a t. m s = Returns (a, t) \<and> f a t = Blocks)"
  by (auto simp: bnd_def split: outcome.split)

lemma address_ok_check: "address_ok resolve a \<longleftrightarrow> (\<exists>d. check_addr resolve what a = Inr d)"
  by (auto simp: address_ok_def check_addr_def split: sum.split)

text \<open>With both mutexes held, these calls block, and the others return.\<close>

lemma calls_with_mutexes_held:
  assumes both: "ReqsMutex \<in> held s" "WorkersMutex \<in> held s" and e: "api_call e"
  shows "if looks_at_data resolve s e then run_event resolve e s = Blocks
    else \<exists>t. run_event resolve e s = Returns ((), t) \<and> rc t = rc s \<and> wl t = wl s"
proof -
  note op_simps = ignore_def thn_def bnd_def ret_def gets_def modify_def critical_blocks [OF both(1)] critical_blocks [OF both(2)]
  show ?thesis
  proof (cases "(resolve, s, e)" rule: looks_at_data.cases)
    case (1 resolve s caps p owner va dl)
    then show ?thesis
      using both
      by (auto simp: NewRequest_def deadline_in_past_def time_Now_def store_request_def op_simps critical_blocks)
  next
    case (3 resolve s r)
    then show ?thesis using both by (auto simp: UpdateRequest_def updateRequest_def op_simps critical_blocks)
  next
    case (4 resolve s caps d sa)
    then show ?thesis
      using both address_ok_check [of resolve d "''invalid dryad address: ''"] address_ok_check [of resolve sa "''invalid sshd address: ''"]
      by (auto simp: Register_def op_simps critical_blocks split: option.split sum.split)
  next
    case (5 resolve s u st)
    then show ?thesis using both by (auto simp: SetState_def op_simps critical_blocks)
  qed (use both e in \<open>auto simp: CloseRequest_def UpdateRequest_def GetRequestInfo_def AcquireWorker_def ProlongAccess_def SetFail_def
      SetGroups_def Deregister_def GetWorkerInfo_def op_simps critical_blocks\<close>)
qed

lemma listings_with_mutexes_held:
  assumes both: "ReqsMutex \<in> held s" "WorkersMutex \<in> held s"
  shows "r_newSorter si = Inr order \<Longrightarrow> ListRequests filt si p s = Blocks" and "ListWorkers filt si' p' s = Blocks"
  using both
  by (simp_all add: ListRequests_def matching_requests_def ListWorkers_def bnd_def critical_blocks Let_def split: prod.split)

section \<open>The deadlock\<close>

text \<open>
  C19. A failing worker and a user who closes the request stop the server.  When a Dryad
  reports the failure of a worker that runs a request, and the request is closed before this
  call has told the requests of it, then each of the two calls holds the mutex the other one
  waits for.  Neither ever returns.  From then on no call of the API returns that has to look
  at a request or at a worker, the listings among them: each blocks, and those that return
  are refused or do nothing before they look.
\<close>

theorem crossing_calls_deadlock:
  assumes s: "reachable resolve s" and r: "requests (rc s) i = Some r" "runs_on r u" and w: "workers (wl s) u = Some w"
    and room: "length (buf (chans s (backgroundOperation w))) < backgroundOperationsBufferSize"
  shows "SetFail u reason = bnd (SetFail_begin u) (SetFail_end u) \<and> CloseRequest i = bnd (CloseRequest_begin i) CloseRequest_end
    \<and> (\<exists>s1 s2. SetFail_begin u s = Returns (Inr w, s1) \<and> CloseRequest_begin i s1 = Returns (Inr u, s2)
         \<and> SetFail_end u (Inr w) s2 = Blocks \<and> CloseRequest_end (Inr u) s2 = Blocks
         \<and> (\<forall>e. api_call e \<longrightarrow> (if looks_at_data resolve s2 e then run_event resolve e s2 = Blocks
               else \<exists>t. run_event resolve e s2 = Returns ((), t) \<and> rc t = rc s2 \<and> wl t = wl s2))
         \<and> (\<forall>filt si p order. r_newSorter si = Inr order \<longrightarrow> ListRequests filt si p s2 = Blocks)
         \<and> (\<forall>filt si p. ListWorkers filt si p s2 = Blocks))"
proof -
  note parts = reachable_parts [OF s]
  obtain jb where jb: "jobs s u = Some jb" "tun_id (jTunnel jb) \<in> open_tunnels s"
    using parts(5) r unfolding job_ok_def by metis
  moreover have "jobs s u \<noteq> None \<longleftrightarrow> (\<exists>w. workers (wl s) u = Some w \<and> WState (info w) = RUN)"
    using parts(6) unfolding run_ok_def by blast
  ultimately have run: "WState (info w) = RUN" using w by simp
  note chan = wk_okD(5) [OF parts(7) w]
  have listening: "changeListener (wl s)" using reachable_ok [OF s] by (simp add: ok_def inv_def)
  obtain ji where ji: "RState r = INPROGRESS" "RJob r = Some ji" "jWorkerUUID ji = u" using r(2) by (auto simp: runs_on_def)
  let ?c = "backgroundOperation w"
  define s1 where "s1 = s\<lparr>held := {WorkersMutex}, chans := (chans s)(?c := (chans s ?c)\<lparr>buf := buf (chans s ?c) @ [FAIL]\<rparr>)\<rparr>"
  define s2 where "s2 = s1\<lparr>held := {ReqsMutex, WorkersMutex}, open_tunnels := open_tunnels s - {tun_id (jTunnel jb)},
     jobs := (jobs s)(u := None), rc := (rc s)\<lparr>requests := (requests (rc s))(i \<mapsto> r\<lparr>RState := DONE\<rparr>)\<rparr>\<rparr>"
  have "wp (SetFail_begin u) (\<lambda>x t. x = Inr w \<and> t = s1) s"
    using parts(8) w run chan room by (simp add: SetFail_begin_def wp_simps s1_def)
  then have first: "SetFail_begin u s = Returns (Inr w, s1)" by (auto simp: wp_iff)
  have "wp (CloseRequest_begin i) (\<lambda>x t. x = Inr u \<and> t = s2) s1"
    using r(1) ji jb by (simp add: CloseRequest_begin_def finish_job_def wp_simps s1_def s2_def)
  then have second: "CloseRequest_begin i s1 = Returns (Inr u, s2)" by (auto simp: wp_iff)
  have "SetFail_end u (Inr w) s2 = Blocks"
    using listening run
    by (simp add: SetFail_end_def OnWorkerFail_def critical_def lock_def bnd_def thn_def gets_def block_def s1_def s2_def)
  moreover have both: "ReqsMutex \<in> held s2" "WorkersMutex \<in> held s2" by (simp_all add: s2_def)
  then have "CloseRequest_end (Inr u) s2 = Blocks"
    by (simp add: CloseRequest_end_def PrepareWorker_def critical_blocks bnd_def thn_def)
  ultimately show ?thesis
    using SetFail_parts CloseRequest_parts first second calls_with_mutexes_held [OF both] listings_with_mutexes_held [OF both]
    by (intro conjI exI [of _ s1] exI [of _ s2] allI impI) simp_all
qed

lemma crossing_calls_deadlock_witness:
  "\<exists>s1 s2. SetFail_begin ''w'' running_server = Returns (Inr (demo_worker RUN), s1)
     \<and> CloseRequest_begin 1 s1 = Returns (Inr ''w'', s2)
     \<and> run_event demo_resolve (ESetGroups ''w'' []) s2 = Blocks"
proof -
  have "length (buf (chans running_server (backgroundOperation (demo_worker RUN)))) < backgroundOperationsBufferSize"
    by (simp add: demo_defs backgroundOperationsBufferSize_def)
  moreover have "requests (rc running_server) 1 = Some (demo_request INPROGRESS (Some \<lparr>jWorkerUUID = ''w'', Timeout_at = 103 + hour_ns, TimeoutZone = 0\<rparr>))"
    "runs_on (demo_request INPROGRESS (Some \<lparr>jWorkerUUID = ''w'', Timeout_at = 103 + hour_ns, TimeoutZone = 0\<rparr>)) ''w''"
    "workers (wl running_server) ''w'' = Some (demo_worker RUN)"
    by (simp_all add: running_server_def demo_request_def runs_on_def)
  ultimately have "\<exists>s1 s2. SetFail_begin ''w'' running_server = Returns (Inr (demo_worker RUN), s1)
     \<and> CloseRequest_begin 1 s1 = Returns (Inr ''w'', s2)
     \<and> (\<forall>e. api_call e \<longrightarrow> (if looks_at_data demo_resolve s2 e then run_event demo_resolve e s2 = Blocks
           else \<exists>t. run_event demo_resolve e s2 = Returns ((), t) \<and> rc t = rc s2 \<and> wl t = wl s2))"
    using crossing_calls_deadlock [OF running_reachable] by blast
  then obtain s1 s2 where "SetFail_begin ''w'' running_server = Returns (Inr (demo_worker RUN), s1)"
    and "CloseRequest_begin 1 s1 = Returns (Inr ''w'', s2)"
    and "api_call (ESetGroups ''w'' []) \<longrightarrow> (if looks_at_data demo_resolve s2 (ESetGroups ''w'' [])
          then run_event demo_resolve (ESetGroups ''w'' []) s2 = Blocks
          else \<exists>t. run_event demo_resolve (ESetGroups ''w'' []) s2 = Returns ((), t) \<and> rc t = rc s2 \<and> wl t = wl s2)"
    by blast
  then show ?thesis by auto
qed

end
