(* ===== verification/LateKey.thy ===== *)
theory LateKey
  imports FleetGuarantees
begin

text \<open>
  Why the removal of workers is left out of \<open>Fleet\<close>: a goroutine of a worker that is removed
  while it waits for its device is not stopped.  Here is the run in which the device has been
  registered and prepared anew when the old call is answered.
\<close>

section \<open>Runs in which workers are removed\<close>

inductive removal_step :: "(string \<Rightarrow> string + TCPAddr) \<Rightarrow> commands \<Rightarrow> (PublicKey \<Rightarrow> string)
    \<Rightarrow> (PrivateKey \<Rightarrow> PublicKey) \<Rightarrow> fleet \<Rightarrow> fleet \<Rightarrow> bool" for resolve cmds marshal pub where
  fleet: "fleet_step resolve cmds marshal pub f f' \<Longrightarrow> removal_step resolve cmds marshal pub f f'"
| removed: "run_event resolve (EDeregister u) s = Returns ((), t) \<Longrightarrow>
     removal_step resolve cmds marshal pub \<lparr>srv = s, agents = ag\<rparr> \<lparr>srv = t, agents = ag\<rparr>"

inductive removal_reachable :: "(string \<Rightarrow> string + TCPAddr) \<Rightarrow> commands \<Rightarrow> (PublicKey \<Rightarrow> string)
    \<Rightarrow> (PrivateKey \<Rightarrow> PublicKey) \<Rightarrow> fleet \<Rightarrow> bool" for resolve cmds marshal pub where
  init: "removal_reachable resolve cmds marshal pub \<lparr>srv = start_server clk tz prt far, agents = ag\<rparr>"
| more: "removal_reachable resolve cmds marshal pub f \<Longrightarrow> removal_step resolve cmds marshal pub f f' \<Longrightarrow>
     removal_reachable resolve cmds marshal pub f'"

fun run_removal :: "(string \<Rightarrow> string + TCPAddr) \<Rightarrow> event list \<Rightarrow> server \<Rightarrow> server option" where
  "run_removal resolve [] s = Some s"
| "run_removal resolve (e # es) s =
     (if enabled e s \<and> (free_event e \<or> (\<exists>u. e = EDeregister u)
           \<or> (\<exists>a k c g. e = EBackground a k c \<and> bgs s c = Some g \<and> \<not> calls_agent g))
      then (case run_event resolve e s of Returns r \<Rightarrow> run_removal resolve es (snd r) | _ \<Rightarrow> None) else None)"

lemma run_removal_reachable:
  "removal_reachable resolve cmds marshal pub \<lparr>srv = s, agents = ag\<rparr> \<Longrightarrow> run_removal resolve es s = Some t \<Longrightarrow>
   removal_reachable resolve cmds marshal pub \<lparr>srv = t, agents = ag\<rparr>"
proof (induction es arbitrary: s)
  case (Cons e es)
  then obtain u where u: "enabled e s" "run_event resolve e s = Returns ((), u)" "run_removal resolve es u = Some t"
      "free_event e \<or> (\<exists>u. e = EDeregister u) \<or> (\<exists>a k c g. e = EBackground a k c \<and> bgs s c = Some g \<and> \<not> calls_agent g)"
    by (auto split: if_splits outcome.splits)
  have "removal_step resolve cmds marshal pub \<lparr>srv = s, agents = ag\<rparr> \<lparr>srv = u, agents = ag\<rparr>"
  proof (cases "\<exists>v. e = EDeregister v")
    case True
    with u(2) show ?thesis by (blast intro: removal_step.removed)
  next
    case False
    with u show ?thesis by (auto intro!: removal_step.fleet intro: fleet_step.event fleet_step.background)
  qed
  with Cons u(3) show ?case by (blast intro: removal_reachable.more)
qed simp

lemma fleet_removal: "fleet_reachable resolve cmds marshal pub f \<Longrightarrow> removal_reachable resolve cmds marshal pub f"
  by (induction rule: fleet_reachable.induct) (auto intro: removal_reachable.intros removal_step.fleet)

section \<open>The run\<close>

text \<open>
  The worker fails while its goroutine waits for the agent, is removed, and registers again;
  its second goroutine, on channel 1, gets to its call of the agent.
\<close>

definition again :: "WorkerState \<Rightarrow> PrivateKey option \<Rightarrow> mapWorker" where
  "again st k = (demo_worker st)\<lparr>wkey := k, backgroundOperation := 1\<rparr>"

definition second_bg :: "bg_pc \<Rightarrow> bool \<Rightarrow> server \<Rightarrow> server" where
  "second_bg pc check s = s\<lparr>bgs := [0 \<mapsto> \<lparr>bg_uuid = ''w'', bg_pc = PkInstall 7, must_check = False\<rparr>,
     1 \<mapsto> \<lparr>bg_uuid = ''w'', bg_pc = pc, must_check = check\<rparr>]\<rparr>"

definition second_buf :: "WorkerState list \<Rightarrow> server \<Rightarrow> server" where
  "second_buf sts s = s\<lparr>chans := (\<lambda>_. \<lparr>buf = [], closed = False\<rparr>)(0 := \<lparr>buf = [FAIL], closed = True\<rparr>, 1 := \<lparr>buf = sts, closed = False\<rparr>),
     next_chan := 2\<rparr>"

definition reinstalling :: "bg_pc \<Rightarrow> bool \<Rightarrow> server" where
  "reinstalling pc check = second_bg pc check (second_buf []
     (started\<lparr>wl := \<lparr>workers = [''w'' \<mapsto> again PREPARE None], changeListener = True\<rparr>\<rparr>))"

definition reprepared :: server where
  "reprepared = second_bg (AtLoop no_operation) False (second_buf [IDLE]
     (prepared\<lparr>wl := \<lparr>workers = [''w'' \<mapsto> again IDLE (Some 8)], changeListener = True\<rparr>\<rparr>))"

definition rewaiting :: server where
  "rewaiting = second_bg (AtLoop no_operation) False (second_buf [IDLE]
     (waiting_server\<lparr>wl := \<lparr>workers = [''w'' \<mapsto> again IDLE (Some 8)], changeListener = True\<rparr>\<rparr>))"

definition rerunning :: server where
  "rerunning = second_bg (AtLoop no_operation) False (second_buf [IDLE, RUN]
     (running_server\<lparr>wl := \<lparr>workers = [''w'' \<mapsto> again RUN (Some 8)], changeListener = True\<rparr>,
        jobs := [''w'' \<mapsto> demo_job\<lparr>Access := (Access demo_job)\<lparr>Key := 8\<rparr>\<rparr>]\<rparr>))"

lemmas again_defs = again_def second_bg_def second_buf_def reinstalling_def reprepared_def rewaiting_def rerunning_def

lemma run_to_reinstall:
  "run_removal demo_resolve (ESetFail ''w'' ''lost'' # EDeregister ''w'' # ERegister demo_caps ''d'' ''s'' # ESetState ''w'' ''IDLE''
     # replicate 10 (EBackground None 8 1)) (installing (PkInstall 7) False) = Some (reinstalling (PkInstall 8) False)"
  by (simp add: installing_def again_defs started_def demo_worker_def demo_caps_def demo_resolve_def calls_agent_def SetFail_def fun_eq_iff
      run_simps times_run_simps worker_run_simps fun_upd_idem Deregister_def chan_close_def)

lemma run_from_reinstall:
  "run_removal demo_resolve (replicate 4 (EBackground None 8 1)) (reinstalling (PkStore 8) True) = Some reprepared"
  by (simp add: again_defs started_def prepared_def demo_worker_def demo_caps_def calls_agent_def
      run_simps times_run_simps worker_run_simps)

lemma run_to_rewaiting:
  "run_removal demo_resolve [ENewRequest demo_caps 3 \<lparr>uGroups = []\<rparr> 101 5000] reprepared = Some rewaiting"
  by (simp add: again_defs demo_defs run_simps times_run_simps request_run_simps)

lemma run_to_rerunning: "run_removal demo_resolve [EFire ValidAfterTimes 102] rewaiting = Some rerunning"
  using demo_worker_matches [of IDLE]
  by (simp add: again_defs demo_defs demo_caps_def run_simps times_run_simps request_run_simps worker_run_simps
      match_run_simps)

lemma prepared_twice:
  "wp (Prepare demo_commands FormatUint (Some k)) (\<lambda>err d. err = None \<and>
     wp (Prepare demo_commands FormatUint (Some k')) (\<lambda>err' d'. err' = None \<and> username d' = ''u'' \<and> accounts (unix d') ''u'' = Some demo_account
        \<and> map_option content (files (unix d') ''/home/u/.ssh/authorized_keys'') = Some (FormatUint k')) d) used_agent"
  by (simp add: used_agent_def NewRusalka_def Prepare_def wp_simps bu_delete_def bu_add_def ticked_def demo_commands_def
      prepareUserDelCmd_def prepareUserAddCmd_def handleUserCmdError_def installKey_def installPublicKey_def demo_account_def
      demo_paths os_MkdirAll_def os_OpenFile_def os_Chown_def file_Chown_def file_Write_def make_dirs_def truncated_def)

definition late :: server where
  "late = rerunning\<lparr>bgs := (bgs rerunning)(0 \<mapsto> \<lparr>bg_uuid = ''w'', bg_pc = PkStore 7, must_check = True\<rparr>)\<rparr>"

lemma second_answered:
  "bg_step None key 1 (reinstalling (PkInstall 8) False) = Returns ((), reinstalling (PkStore 8) True)"
  by (simp add: again_defs started_def run_simps bg_step_def bg_call_def after_call_def goto_def fun_eq_iff)

lemma late_answered: "bg_step None key 0 rerunning = Returns ((), late)"
  by (simp add: late_def again_defs running_server_def run_simps bg_step_def bg_call_def after_call_def goto_def)

lemma answered_step:
  assumes "bgs s c = Some \<lparr>bg_uuid = u, bg_pc = PkInstall k, must_check = False\<rparr>"
    and "Prepare cmds marshal (Some (pub k)) (ag u) = Returns (None, d)" and "bg_step None key c s = Returns ((), t)"
  shows "removal_step resolve cmds marshal pub \<lparr>srv = s, agents = ag\<rparr> \<lparr>srv = t, agents = ag(u := d)\<rparr>"
  using fleet_step.answered [OF assms(1), of cmds marshal pub ag None d key t resolve] assms(2,3)
  by (auto intro!: removal_step.fleet simp: calls_agent_def agent_call_def agent_calls)

text \<open>
  In the end the request runs and its user is given the key 8, but the device lets in only
  who has the key 7.
\<close>

theorem late_key_locks_user_out:
  "\<exists>f access t acc g. removal_reachable demo_resolve demo_commands FormatUint (\<lambda>k. k) f
    \<and> AcquireWorker 1 (srv f) = Returns (Inr access, t) \<and> Key access = 8
    \<and> accounts (unix (agents f ''w'')) (username (agents f ''w'')) = Some acc
    \<and> files (unix (agents f ''w'')) (path_Join [path_Join [HomeDir acc, ''.ssh''], ''authorized_keys'']) = Some g
    \<and> content g = FormatUint 7"
proof -
  let ?reach = "removal_reachable demo_resolve demo_commands FormatUint (\<lambda>k. k)"
  obtain d8 d7 g where d: "Prepare demo_commands FormatUint (Some 8) used_agent = Returns (None, d8)"
      "Prepare demo_commands FormatUint (Some 7) d8 = Returns (None, d7)"
    and d7: "username d7 = ''u''" "accounts (unix d7) ''u'' = Some demo_account"
      "files (unix d7) ''/home/u/.ssh/authorized_keys'' = Some g" "content g = FormatUint 7"
    using prepared_twice [of 8 7] by (auto simp: wp_iff)
  have "fleet_reachable demo_resolve demo_commands FormatUint (\<lambda>k. k) \<lparr>srv = started, agents = \<lambda>_. used_agent\<rparr>"
    unfolding started_def by (rule fleet_reachable.init)
  from run_removal_reachable [OF fleet_removal [OF run_fleet_reachable [OF this run_to_install]] run_to_reinstall]
  have "?reach \<lparr>srv = reinstalling (PkInstall 8) False, agents = \<lambda>_. used_agent\<rparr>" .
  moreover have "removal_step demo_resolve demo_commands FormatUint (\<lambda>k. k)
      \<lparr>srv = reinstalling (PkInstall 8) False, agents = \<lambda>_. used_agent\<rparr>
      \<lparr>srv = reinstalling (PkStore 8) True, agents = (\<lambda>_. used_agent)(''w'' := d8)\<rparr>"
    by (rule answered_step [where k = 8, OF _ _ second_answered]) (simp_all add: again_defs d)
  ultimately have "?reach \<lparr>srv = reinstalling (PkStore 8) True, agents = (\<lambda>_. used_agent)(''w'' := d8)\<rparr>"
    by (rule removal_reachable.more)
  from run_removal_reachable [OF run_removal_reachable [OF run_removal_reachable [OF this run_from_reinstall]
      run_to_rewaiting] run_to_rerunning]
  have "?reach \<lparr>srv = rerunning, agents = (\<lambda>_. used_agent)(''w'' := d8)\<rparr>" .
  moreover have "removal_step demo_resolve demo_commands FormatUint (\<lambda>k. k)
      \<lparr>srv = rerunning, agents = (\<lambda>_. used_agent)(''w'' := d8)\<rparr>
      \<lparr>srv = late, agents = (\<lambda>_. used_agent)(''w'' := d8, ''w'' := d7)\<rparr>"
    by (rule answered_step [where k = 7, OF _ _ late_answered]) (simp_all add: again_defs d)
  ultimately have reach: "?reach \<lparr>srv = late, agents = (\<lambda>_. used_agent)(''w'' := d8, ''w'' := d7)\<rparr>"
    by (rule removal_reachable.more)
  have "AcquireWorker 1 late = Returns (Inr ((Access demo_job)\<lparr>Key := 8\<rparr>), late)"
    by (simp add: AcquireWorker_def jobs_Get_def run_simps demo_defs late_def again_defs)
  with reach d7 show ?thesis
    by (intro exI [of _ "\<lparr>srv = late, agents = (\<lambda>_. used_agent)(''w'' := d8, ''w'' := d7)\<rparr>"])
       (simp add: demo_account_def demo_paths)
qed

end
