(* ===== verification/Spec2Isabelle.thy ===== *)
theory Spec2Isabelle
  imports CallsReturn QueueOrder RemoteGuarantees LifeCycle FleetGuarantees DryadStages WellFormed Stuck Forwarding Startup Goroutines
    Connections Discipline Crossing LateKey
begin

text \<open>
  Boruta, the server of a farm of devices.  Users file requests for a device with certain
  capabilities; workers, which are boards run by a Dryad, register with the server; the
  server assigns an idle worker to every request that is ready, opens a tunnel to it, and
  takes it back when the request is closed or its time is over.

  \<^bold>\<open>Parts of the program and their theories\<close>

  \<^item> \<^verbatim>\<open>boruta.go\<close>, the error values: \<open>Types\<close>, \<open>HttpErrors\<close>.  States are datatypes with their
    texts, structures are records.  A point in time is a number of nanoseconds; where the code
    stores or sends one, its location stands beside it as an offset from UTC in minutes.
  \<^item> \<^verbatim>\<open>requests/queue.go\<close>: \<open>Queue\<close>.  Sixteen lists by priority, the iterator as state; \<open>QueueOrder\<close>
    follows a history of pushes, removals and changes of priority.
  \<^item> \<^verbatim>\<open>requests/timesheap*.go\<close>, \<^verbatim>\<open>requests/times.go\<close>: \<open>TimesHeap\<close>, \<open>Times\<close>.  A heap of points in
    time with a timer for the earliest.  \<open>Goroutines\<close> has the goroutine of each collection step
    by step, with the timer's channel, \<open>finish\<close>, and \<open>Finish\<close> of \<^verbatim>\<open>requests/requests.go\<close>.
  \<^item> \<^verbatim>\<open>requests/requests.go\<close>, \<^verbatim>\<open>requests/sorter.go\<close>: \<open>Requests\<close>, \<open>RequestList\<close>, with \<open>Calendar\<close>
    for the default deadline.
  \<^item> \<^verbatim>\<open>workers/workers.go\<close>, \<^verbatim>\<open>workers/sorter.go\<close>, \<^verbatim>\<open>workers/job.go\<close>: \<open>Workers\<close>, \<open>WorkerPages\<close>,
    and the background goroutine of each worker in \<open>Background\<close>.
  \<^item> \<^verbatim>\<open>matcher/\<close>: \<open>Jobs\<close> and \<open>Matchers\<close>, the latter over records of methods that stand for the
    Go interfaces.
  \<^item> \<^verbatim>\<open>filter/filter.go\<close>, \<^verbatim>\<open>lists.go\<close>: \<open>ListFilter\<close>, \<open>Lists\<close>, \<open>Paging\<close>.
  \<^item> \<^verbatim>\<open>tunnels/tunnels.go\<close>, mutexes, channels, clock: \<open>State\<close>, which holds the record \<open>server\<close> of
    the whole state.  \<open>Events\<close> holds the operations several components call.
  \<^item> The server's events, its initial state and the reachable states: \<open>System\<close>.
  \<^item> \<^verbatim>\<open>http/http.go\<close>, \<^verbatim>\<open>http/error.go\<close>: \<open>Strconv\<close>, \<open>Json\<close>, \<open>Wire\<close>, \<open>Http\<close>;
    \<^verbatim>\<open>http/server/api/v1\<close>: \<open>Handlers\<close>; \<^verbatim>\<open>http/server/api\<close>: \<open>ApiServer\<close>, \<open>Routing\<close>;
    \<^verbatim>\<open>http/client/client.go\<close>: \<open>Client\<close>; client and server together: \<open>Remote\<close>, \<open>RemoteLists\<close>.
  \<^item> \<^verbatim>\<open>dryad/\<close>, the agent on a device: \<open>Posix\<close> has the accounts, directories and files of the
    system it runs on, \<open>Dryad\<close> the agent with its account, key and lights, whose blinking
    goroutines are machines as well.
  \<^item> \<^verbatim>\<open>rpc/\<close>: \<open>Rpc\<close>, the services and clients between server and agents, and the reception.
    A connection may break before or after the other side has heard the call (\<open>over_wire\<close>).
    \<open>Connections\<close> has dialling and closing, and the loop that accepts connections.
    \<open>Fleet\<close> runs the server and the agents of all devices together.
  \<^item> \<^verbatim>\<open>tunnels/tunnels.go\<close>, one tunnel in detail: \<open>Forwarding\<close>.
  \<^item> \<^verbatim>\<open>cmd/dryad\<close>, \<^verbatim>\<open>cmd/boruta\<close>, \<^verbatim>\<open>dryad/conf\<close>: \<open>Startup\<close>, what the two programs do until they wait.

  A Go function is a program on an explicit state (\<open>prog\<close> of \<open>Prelude\<close>) that returns,
  panics, blocks or exhausts the bound of a loop; definitions carry the names of the
  functions they model.  A mutex is a member of \<open>held\<close>, and taking one that is held blocks.
  Errors are values of \<open>error\<close>.

  \<^bold>\<open>How the proofs are built\<close>

  \<^item> \<open>wpg\<close> is the weakest precondition of a program, in two readings: \<open>wp\<close> (it returns) and
    \<open>safe\<close> (it returns or blocks, but does not panic).  \<open>Rules\<close> and \<open>Frames\<close> give the rules for
    the primitive operations, \<open>Preserves\<close> and \<open>Effects\<close> what operations leave alone.  \<open>Liberal\<close>
    has the weakest liberal precondition \<open>wlp\<close> and the invariants a program \<open>keeps\<close>, for what is
    followed through all operations without caring whether they return.
  \<^item> \<open>Invariant\<close> states what is true between two events; \<open>WorkerOps\<close>, \<open>RequestOps\<close>, \<open>Timers\<close>,
    \<open>Assignment\<close>, \<open>Dispatch\<close> and \<open>BackgroundOps\<close> show that every operation keeps it, and
    \<open>System\<close> that it holds in every reachable state.
  \<^item> The locales: the queue and the heap state the contract of their operations, \<open>sorter\<close> and
    \<open>keyed_sorter\<close> what a \<open>Less\<close> must be for a sorted list and its pages to be determined,
    \<open>matching\<close> (\<open>MatchContract\<close>) what the matcher needs of the managers, and \<open>deployment\<close> what
    is expected of the router and the CORS filter.  Each is interpreted on the model of the
    code, the last on a router that takes the best pattern; \<open>matching\<close> a second time in \<open>Stuck\<close>,
    on a server whose tunnels are refused.
  \<^item> The properties that span components: \<open>Guarantees\<close> (the invariant read off, completeness of
    the matcher), \<open>LifeCycle\<close> (what becomes of one request along a run), \<open>WellFormed\<close> (the shape
    and the bounds of what is stored), \<open>Stuck\<close> (a matcher that waits for itself), \<open>Listing\<close>,
    \<open>CallsReturn\<close> (a call that runs alone returns), \<open>RemoteGuarantees\<close> (client and server),
    \<open>Registration\<close> (device and server), \<open>DryadGuarantees\<close> and \<open>DryadStages\<close> over the
    preconditions of \<open>DryadOps\<close> (the agent, and how a preparation fails), \<open>FleetGuarantees\<close>
    (the key a user gets opens the device).  Those of one component stand in its theory.
    \<open>Scenario\<close> runs the server on concrete events, for the examples.
  \<^item> \<open>Twins\<close> shows that no operation looks at what a timer is set for: it runs alike from two
    states that differ only there.  With it \<open>Goroutines\<close> refines the event that a timer fires
    into the steps of the runtime and of the goroutine; what is proved of all reachable states
    holds of the process with its goroutines, also while it is being shut down.
  \<^item> \<open>Discipline\<close>, by the same rules: while a mutex is held elsewhere no event gets at the data
    it guards.  \<open>Crossing\<close> cuts two calls where they go for a second mutex and shows that they
    can wait for each other, and that every call that looks at the data then waits with them.

  \<^bold>\<open>Bounds and interleaving\<close>

  \<^item> Events are atomic: one call of the API or of a Dryad, the processing of one collection of
    times, one step of a background goroutine.  This is what the mutexes of the program enforce
    for the data they protect (\<open>Discipline\<close>).  So what is said of an event is said of a call no
    other cuts (\<open>CallsReturn\<close>); in the program calls that take two mutexes in different orders
    can wait for each other (\<open>Crossing\<close>), and a few calls read stored data once more after they
    have given the mutex back.
  \<^item> The matcher's loop over the queue runs with a bound on its iterations; \<open>events_never_panic\<close>
    shows that the bound is never reached.  Priorities have 8 bits, limits of pages 16, counts
    and positions 64.
  \<^item> The clock, the ports and the answers of a Dryad are arbitrary; in \<open>Fleet\<close> the answers are
    those of the agents, or of a connection that breaks, and workers are not deregistered.
    A registration may be heard though its answer is lost (\<open>Startup\<close>); the other theorems on
    RPC are about calls that are delivered.
    With deregistration \<open>LateKey\<close> has a run in which a late answer locks the user out.
  \<^item> In \<open>Forwarding\<close> the accept loop, the copying goroutines, \<open>Close\<close> and the network interleave
    step by step; in \<open>Dryad\<close> the blinking goroutines do.

  \<^bold>\<open>Not modelled\<close>

  \<^item> The text of JSON documents: a body is a tree, and its decoding follows \<^verbatim>\<open>encoding/json\<close> from
    there.  The wording of that library's errors is shortened.
  \<^item> Locations with a changing offset: the server's is one offset from UTC.  Strings that are
    not valid UTF-8, which \<^verbatim>\<open>encoding/json\<close> changes on their way.
  \<^item> The registration of key types for \<^verbatim>\<open>encoding/gob\<close> (\<^verbatim>\<open>rpc/types/init.go\<close>), logging, and the
    generated mocks.
  \<^item> Libraries are parameters: the router and the CORS filter (without the headers it adds), the resolver of addresses, TOML,
    the commands \<^verbatim>\<open>useradd\<close> and \<^verbatim>\<open>userdel\<close>, the board of the device, the text of a public key.
\<close>

end
